(* ===== verification/RL_Prelude.thy ===== *)
theory RL_Prelude
  imports Complex_Main "HOL-Library.List_Lexorder" "HOL-Library.Char_ord" "HOL-Library.Product_Lexorder"
    "HOL-Library.Log_Nat" "HOL-Library.AList" "HOL-Library.Multiset" "HOL-Library.Sublist"
begin

text \<open>
  Shared vocabulary of the development: Python strings, dicts and results, and the facts about
  lists that several components use.

  A Python \<^verbatim>\<open>str\<close> that the program only builds, compares or uses as a key is a \<open>string\<close>; request
  values, which may hold any character, are lists of code points (\<open>ustring\<close>).  A \<^verbatim>\<open>dict\<close> is an
  association list in insertion order with \<open>map_of\<close> as its lookup and \<open>AList.update\<close> as its
  assignment (an existing key keeps its place, as in Python).  A call that can raise returns a sum,
  \<open>Inl\<close> the exception.
\<close>

named_theorems py_simps \<open>unfolding of the Python operations\<close>

type_synonym ustring = "int list"
type_synonym 'v dict = "(string \<times> 'v) list"

definition codes :: "string \<Rightarrow> ustring" where
  "codes s = map of_char s"

subsection \<open>Splitting and joining\<close>

fun split_on :: "'a \<Rightarrow> 'a list \<Rightarrow> 'a list list" where
  "split_on c [] = [[]]"
| "split_on c (x # xs) = (if x = c then [] # split_on c xs
     else (case split_on c xs of [] \<Rightarrow> [[x]] | y # ys \<Rightarrow> (x # y) # ys))"

fun join :: "'a list \<Rightarrow> 'a list list \<Rightarrow> 'a list" where
  "join sep [] = []"
| "join sep [x] = x"
| "join sep (x # y # ys) = x @ sep @ join sep (y # ys)"

lemma split_on_nonempty [simp]: "split_on c xs \<noteq> []"
  by (induction xs) (auto split: list.splits)

lemma split_on_append:
  "c \<notin> set x \<Longrightarrow> split_on c (x @ c # ys) = x # split_on c ys"
  by (induction x) auto

lemma split_on_single: "c \<notin> set x \<Longrightarrow> split_on c x = [x]"
  by (induction x) auto

lemma split_on_join: "xs \<noteq> [] \<Longrightarrow> \<forall>x \<in> set xs. c \<notin> set x \<Longrightarrow> split_on c (join [c] xs) = xs"
  by (induction "[c]" xs rule: join.induct) (auto simp: split_on_append split_on_single)

lemma join_inject:
  assumes "xs \<noteq> []" "ys \<noteq> []" "\<forall>x \<in> set xs. c \<notin> set x" "\<forall>y \<in> set ys. c \<notin> set y" "join [c] xs = join [c] ys"
  shows "xs = ys"
  using assms split_on_join by metis

lemma append_sep_inject:
  assumes "c \<notin> set a" "c \<notin> set b"
  shows "xs @ c # a = ys @ c # b \<longleftrightarrow> xs = ys \<and> a = b"
proof
  assume eq: "xs @ c # a = ys @ c # b"
  then have "rev a @ c # rev xs = rev b @ c # rev ys" by (metis append.assoc append_Cons append_Nil rev.simps(2) rev_append)
  then have "split_on c (rev a @ c # rev xs) = split_on c (rev b @ c # rev ys)" by simp
  then have "a = b" using assms by (simp add: split_on_append)
  with eq show "xs = ys \<and> a = b" by simp
qed simp

subsection \<open>Sorting\<close>

text \<open>Sorting by a key that tells the elements apart does not depend on their order.\<close>

lemma sort_key_permute:
  fixes xs ys :: "'a list" and f :: "'a \<Rightarrow> 'b::linorder"
  assumes "mset xs = mset ys" "inj_on f (set xs)"
  shows "sort_key f xs = sort_key f ys"
proof -
  have s: "map f (sort_key f zs) = sort (map f zs)" for zs :: "'a list"
    by (rule properties_for_sort[symmetric]) simp_all
  have "mset (map f xs) = mset (map f ys)" using assms(1) by simp
  then have "sort (map f xs) = sort (map f ys)" by (metis properties_for_sort sorted_sort mset_sort)
  then have "map f (sort_key f xs) = map f (sort_key f ys)" by (simp add: s)
  moreover have "inj_on f (set (sort_key f xs) \<union> set (sort_key f ys))"
    using assms mset_eq_setD[OF assms(1)] by simp
  ultimately show ?thesis by (rule map_inj_on)
qed

end
