(* ===== verification/Lua_Numbers.thy ===== *)
theory Lua_Numbers
  imports RL_Prelude
begin

text \<open>
  Numbers as the Lua scripts of \<^verbatim>\<open>services/rate_limiter/scripts\<close> and the Python code compute
  them.  Every Lua number is an IEEE 754 binary64 value: the result of an arithmetic operation is
  the exact rational result rounded to a 53-bit significand, ties to even.  \<open>dbl\<close> is that
  rounding on rationals.  The exponent is left unbounded: the scripts compute with millisecond
  timestamps, counts and rates, which stay far from the subnormal and overflow ranges (the one
  place where the Python code can overflow a double is modelled separately, in
  \<^verbatim>\<open>Algorithm_Config\<close>).

  The theory proves the facts the scripts rely on: rounding is monotone, exact on integers up to
  \<open>2 ^ 53\<close>, and off by at most one part in \<open>2 ^ 53\<close>.  They are collected in the locale
  \<open>rounding\<close>, the interface the algorithm theories use.
\<close>

subsection \<open>Rounding to the nearest double\<close>

definition ilog2 :: "rat \<Rightarrow> int" where
  "ilog2 x = (if 1 \<le> x then bitlen \<lfloor>x\<rfloor> - 1 else - bitlen (\<lceil>1 / x\<rceil> - 1))"

definition rne :: "rat \<Rightarrow> int" where
  "rne q = (let f = \<lfloor>q\<rfloor>; r = q - of_int f in
     if r < 1 / 2 then f else if 1 / 2 < r then f + 1 else if even f then f else f + 1)"

definition dbl :: "rat \<Rightarrow> rat" where
  "dbl x = (if x = 0 then 0
     else let e = ilog2 \<bar>x\<bar> - 52 in of_int (rne (x / 2 powi e)) * 2 powi e)"

text \<open>The Lua operators on numbers that the scripts use.\<close>

definition ladd :: "rat \<Rightarrow> rat \<Rightarrow> rat" where "ladd a b = dbl (a + b)"
definition lsub :: "rat \<Rightarrow> rat \<Rightarrow> rat" where "lsub a b = dbl (a - b)"
definition lmul :: "rat \<Rightarrow> rat \<Rightarrow> rat" where "lmul a b = dbl (a * b)"
definition ldiv :: "rat \<Rightarrow> rat \<Rightarrow> rat" where "ldiv a b = dbl (a / b)"

lemma rne_le: "q \<le> of_int n \<Longrightarrow> rne q \<le> n"
proof -
  assume a: "q \<le> of_int n"
  then have "\<lfloor>q\<rfloor> \<le> n" by linarith
  show ?thesis
  proof (cases "\<lfloor>q\<rfloor> = n")
    case True
    with a have "q = of_int n" by linarith
    then show ?thesis by (simp add: rne_def)
  next
    case False
    with \<open>\<lfloor>q\<rfloor> \<le> n\<close> show ?thesis by (simp add: rne_def Let_def)
  qed
qed

lemma rne_ge: "of_int n \<le> q \<Longrightarrow> n \<le> rne q"
proof -
  assume "of_int n \<le> q"
  then have "n \<le> \<lfloor>q\<rfloor>" by (simp add: le_floor_iff)
  then show ?thesis by (simp add: rne_def Let_def)
qed

lemma rne_mono: "p \<le> q \<Longrightarrow> rne p \<le> rne q"
proof -
  assume pq: "p \<le> q"
  then have "\<lfloor>p\<rfloor> \<le> \<lfloor>q\<rfloor>" by (rule floor_mono)
  then consider "\<lfloor>p\<rfloor> = \<lfloor>q\<rfloor>" | "\<lfloor>p\<rfloor> + 1 \<le> \<lfloor>q\<rfloor>" by linarith
  then show ?thesis
  proof cases
    case 1
    with pq show ?thesis by (simp add: rne_def Let_def)
  next
    case 2
    have "rne p \<le> \<lfloor>p\<rfloor> + 1" by (simp add: rne_def Let_def)
    also have "\<dots> \<le> \<lfloor>q\<rfloor>" by (rule 2)
    also have "\<dots> \<le> rne q" by (simp add: rne_def Let_def)
    finally show ?thesis .
  qed
qed

lemma rne_of_int [simp]: "rne (of_int n) = n"
  by (simp add: rne_def)

lemma rne_err: "\<bar>of_int (rne q) - q\<bar> \<le> 1 / 2"
proof -
  have "of_int \<lfloor>q\<rfloor> \<le> q" "q < of_int \<lfloor>q\<rfloor> + 1" by linarith+
  then show ?thesis by (auto simp: rne_def Let_def abs_le_iff)
qed

lemma rne_uminus: "rne (- q) = - rne q"
proof (cases "q = of_int \<lfloor>q\<rfloor>")
  case True
  then show ?thesis by (metis of_int_minus rne_of_int)
next
  case False
  have "of_int \<lfloor>q\<rfloor> \<le> q" "q < of_int \<lfloor>q\<rfloor> + 1" by linarith+
  with False have "\<lfloor>- q\<rfloor> = - \<lfloor>q\<rfloor> - 1" by linarith
  then show ?thesis by (auto simp: rne_def Let_def)
qed

lemma ilog2_bounds:
  assumes "0 < x"
  shows "2 powi ilog2 x \<le> x" and "x < 2 powi (ilog2 x + 1)"
proof -
  have "2 powi ilog2 x \<le> x \<and> x < 2 powi (ilog2 x + 1)"
  proof (cases "1 \<le> x")
    case True
    define b where "b = bitlen \<lfloor>x\<rfloor>"
    have n: "0 < \<lfloor>x\<rfloor>" using True by linarith
    then have b: "1 \<le> b" using bitlen_eq_zero_iff[of "\<lfloor>x\<rfloor>"] bitlen_nonneg[of "\<lfloor>x\<rfloor>"] by (simp add: b_def)
    have lo: "2 ^ nat (b - 1) \<le> \<lfloor>x\<rfloor>" and hi: "\<lfloor>x\<rfloor> < 2 ^ nat b"
      using bitlen_bounds[OF n] by (auto simp: b_def)
    have "(2::rat) ^ nat (b - 1) \<le> of_int \<lfloor>x\<rfloor>" using lo by (metis of_int_le_iff of_int_numeral of_int_power)
    moreover have "of_int \<lfloor>x\<rfloor> + 1 \<le> (2::rat) ^ nat b"
    proof -
      have "of_int (\<lfloor>x\<rfloor> + 1) \<le> (of_int (2 ^ nat b) :: rat)" using hi by (simp only: of_int_le_iff)
      then show ?thesis by simp
    qed
    moreover have "of_int \<lfloor>x\<rfloor> \<le> x" "x < of_int \<lfloor>x\<rfloor> + 1" by linarith+
    ultimately have "2 ^ nat (b - 1) \<le> x" "x < 2 ^ nat b" by linarith+
    then show ?thesis using True b by (simp add: ilog2_def power_int_def flip: b_def)
  next
    case False
    define m where "m = \<lceil>1 / x\<rceil> - 1"
    define j where "j = bitlen m"
    have "1 < 1 / x" using False assms by simp
    then have m: "0 < m" unfolding m_def by linarith
    then have j: "1 \<le> j" using bitlen_eq_zero_iff[of m] bitlen_nonneg[of m] by (simp add: j_def)
    have lo: "2 ^ nat (j - 1) \<le> m" and hi: "m < 2 ^ nat j"
      using bitlen_bounds[OF m] by (auto simp: j_def)
    have "\<lceil>1 / x\<rceil> \<le> 2 ^ nat j" using hi by (simp add: m_def)
    then have "1 / x \<le> 2 ^ nat j" by (metis ceiling_le_iff of_int_numeral of_int_power)
    then have 1: "inverse 2 ^ nat j \<le> x" using assms by (simp add: field_simps)
    have "(2::rat) ^ nat (j - 1) \<le> of_int m" using lo by (metis of_int_le_iff of_int_numeral of_int_power)
    also have "of_int m < 1 / x" unfolding m_def by linarith
    finally have 2: "x < inverse 2 ^ nat (j - 1)" using assms by (simp add: field_simps)
    show ?thesis using 1 2 j False by (simp add: ilog2_def power_int_def flip: m_def j_def)
  qed
  then show "2 powi ilog2 x \<le> x" and "x < 2 powi (ilog2 x + 1)" by auto
qed

lemma powi_le_iff [simp]: "(2::rat) powi a \<le> 2 powi b \<longleftrightarrow> a \<le> b"
  using power_int_increasing[of a b "2::rat"] power_int_strict_increasing[of b a "2::rat"]
  by (auto simp: not_le[symmetric])

lemma powi_less_iff [simp]: "(2::rat) powi a < 2 powi b \<longleftrightarrow> a < b"
  using powi_le_iff[of b a] by (simp only: not_le[symmetric])

lemma powi_diff: "(2::rat) powi (a - b) * 2 powi b = 2 powi a"
  by (simp flip: power_int_add)

lemma powi_shift: "e \<le> k \<Longrightarrow> of_int (m * 2 ^ nat (k - e)) * 2 powi e = of_int m * (2::rat) powi k"
proof -
  assume "e \<le> k"
  then have "(2::rat) ^ nat (k - e) = 2 powi (k - e)" by (simp add: power_int_def)
  then show ?thesis using powi_diff[of k e] by (simp add: mult.assoc)
qed

lemma ilog2_less: "0 < x \<Longrightarrow> x < 2 powi k \<Longrightarrow> ilog2 x < k"
proof -
  assume "0 < x" "x < 2 powi k"
  then have "(2::rat) powi ilog2 x < 2 powi k" using ilog2_bounds(1)[of x] by linarith
  then show ?thesis by simp
qed

lemma ilog2_ge: "0 < x \<Longrightarrow> 2 powi k \<le> x \<Longrightarrow> k \<le> ilog2 x"
proof -
  assume "0 < x" "2 powi k \<le> x"
  then have "(2::rat) powi k < 2 powi (ilog2 x + 1)" using ilog2_bounds(2)[of x] by linarith
  then show ?thesis by simp
qed

lemma dbl_pos: "0 < x \<Longrightarrow> dbl x = of_int (rne (x / 2 powi (ilog2 x - 52))) * 2 powi (ilog2 x - 52)"
  by (simp add: dbl_def Let_def)

lemma dbl_0 [simp]: "dbl 0 = 0"
  by (simp add: dbl_def)

lemma dbl_uminus: "dbl (- x) = - dbl x"
  by (simp add: dbl_def Let_def rne_uminus)

lemma dbl_le_int_pow:
  assumes "0 < x" "x \<le> of_int m * 2 powi k" "ilog2 x - 52 \<le> k"
  shows "dbl x \<le> of_int m * 2 powi k"
proof -
  define e where "e = ilog2 x - 52"
  have eq: "of_int (m * 2 ^ nat (k - e)) * 2 powi e = of_int m * (2::rat) powi k"
    using assms(3) unfolding e_def by (rule powi_shift)
  have "x / 2 powi e \<le> of_int (m * 2 ^ nat (k - e))"
    using assms(2) unfolding eq[symmetric] by (simp add: divide_le_eq le_divide_eq)
  then have "rne (x / 2 powi e) \<le> m * 2 ^ nat (k - e)" by (rule rne_le)
  then have "of_int (rne (x / 2 powi e)) \<le> (of_int (m * 2 ^ nat (k - e)) :: rat)"
    by (simp only: of_int_le_iff)
  then have "of_int (rne (x / 2 powi e)) * 2 powi e \<le> of_int (m * 2 ^ nat (k - e)) * (2 powi e :: rat)"
    by (rule mult_right_mono) simp
  then show ?thesis unfolding eq dbl_pos[OF assms(1)] e_def[symmetric] .
qed

lemma dbl_ge_int_pow:
  assumes "0 < x" "of_int m * 2 powi k \<le> x" "ilog2 x - 52 \<le> k"
  shows "of_int m * 2 powi k \<le> dbl x"
proof -
  define e where "e = ilog2 x - 52"
  have eq: "of_int (m * 2 ^ nat (k - e)) * 2 powi e = of_int m * (2::rat) powi k"
    using assms(3) unfolding e_def by (rule powi_shift)
  have "of_int (m * 2 ^ nat (k - e)) \<le> x / 2 powi e"
    using assms(2) unfolding eq[symmetric] by (simp add: divide_le_eq le_divide_eq)
  then have "m * 2 ^ nat (k - e) \<le> rne (x / 2 powi e)" by (rule rne_ge)
  then have "(of_int (m * 2 ^ nat (k - e)) :: rat) \<le> of_int (rne (x / 2 powi e))"
    by (simp only: of_int_le_iff)
  then have "of_int (m * 2 ^ nat (k - e)) * (2 powi e :: rat) \<le> of_int (rne (x / 2 powi e)) * 2 powi e"
    by (rule mult_right_mono) simp
  then show ?thesis unfolding eq dbl_pos[OF assms(1)] e_def[symmetric] .
qed

lemma dbl_pos_mono:
  assumes "0 < x" "x \<le> y"
  shows "dbl x \<le> dbl y"
proof -
  have "2 powi ilog2 x \<le> y" using assms ilog2_bounds(1)[of x] by linarith
  then have "ilog2 x \<le> ilog2 y" using assms by (intro ilog2_ge) auto
  then consider "ilog2 x = ilog2 y" | "ilog2 x + 1 \<le> ilog2 y" by linarith
  then show ?thesis
  proof cases
    case 1
    have "rne (x / 2 powi (ilog2 y - 52)) \<le> rne (y / 2 powi (ilog2 y - 52))"
      using assms by (intro rne_mono divide_right_mono) auto
    then show ?thesis using assms 1 by (simp add: dbl_pos mult_right_mono)
  next
    case 2
    have "dbl x \<le> of_int 1 * 2 powi (ilog2 x + 1)"
      using assms ilog2_bounds(2)[of x] by (intro dbl_le_int_pow) auto
    also have "\<dots> \<le> of_int 1 * 2 powi (ilog2 y)" using 2 by simp
    also have "\<dots> \<le> dbl y"
      using assms ilog2_bounds(1)[of y] by (intro dbl_ge_int_pow) auto
    finally show ?thesis .
  qed
qed

lemma dbl_nonneg: "0 \<le> x \<Longrightarrow> 0 \<le> dbl x"
proof (cases "x = 0")
  case False
  assume "0 \<le> x"
  with False show ?thesis
    using dbl_ge_int_pow[of x 0 "ilog2 x - 52"] by simp
qed simp

lemma dbl_mono: "x \<le> y \<Longrightarrow> dbl x \<le> dbl y"
proof -
  assume xy: "x \<le> y"
  consider "0 < x" | "x \<le> 0" "0 \<le> y" | "y < 0" by linarith
  then show ?thesis
  proof cases
    case 1
    then show ?thesis using xy by (rule dbl_pos_mono)
  next
    case 2
    have "0 \<le> dbl (- x)" "0 \<le> dbl y" using 2 by (auto intro: dbl_nonneg)
    then show ?thesis by (simp add: dbl_uminus)
  next
    case 3
    have "dbl (- y) \<le> dbl (- x)" using 3 xy by (intro dbl_pos_mono) auto
    then show ?thesis by (simp add: dbl_uminus)
  qed
qed

lemma dbl_exact_pos:
  assumes "0 < m" "m < 2 ^ 53"
  shows "dbl (of_int m * 2 powi k) = of_int m * 2 powi k"
proof -
  let ?x = "of_int m * (2::rat) powi k"
  have x: "0 < ?x" using assms by simp
  have "(of_int m :: rat) < of_int (2 ^ 53)" using assms(2) by (simp only: of_int_less_iff)
  then have "?x < 2 powi 53 * 2 powi k" by (simp add: mult_strict_right_mono)
  then have "ilog2 ?x < 53 + k" using x by (intro ilog2_less) (auto simp: power_int_add)
  then show ?thesis
    using x dbl_le_int_pow[of ?x m k] dbl_ge_int_pow[of ?x m k] by (simp add: antisym)
qed

lemma dbl_exact:
  assumes "\<bar>m\<bar> \<le> 2 ^ 53"
  shows "dbl (of_int m * 2 powi k) = of_int m * 2 powi k"
proof -
  have pos: "dbl (of_int n * 2 powi k) = of_int n * 2 powi k" if "0 < n" "n \<le> 2 ^ 53" for n
  proof (cases "n = 2 ^ 53")
    case True
    have "(of_int n :: rat) * 2 powi k = of_int 1 * 2 powi (53 + k)"
      using True by (simp add: power_int_add)
    then show ?thesis using dbl_exact_pos[of 1 "53 + k"] by simp
  next
    case False
    with that show ?thesis by (intro dbl_exact_pos) auto
  qed
  consider "m = 0" | "0 < m" | "0 < - m" by linarith
  then show ?thesis
  proof cases
    case 3
    with pos[of "- m"] assms show ?thesis by (simp add: dbl_uminus)
  qed (use pos assms in auto)
qed

lemma dbl_of_int: "\<bar>m\<bar> \<le> 2 ^ 53 \<Longrightarrow> dbl (of_int m) = of_int m"
  using dbl_exact[of m 0] by simp

lemma dbl_err: "\<bar>dbl x - x\<bar> \<le> \<bar>x\<bar> / 2 ^ 53"
proof -
  have pos: "\<bar>dbl y - y\<bar> \<le> y / 2 ^ 53" if "0 < y" for y
  proof -
    define e where "e = ilog2 y - 52"
    have "\<bar>of_int (rne (y / 2 powi e)) - y / 2 powi e\<bar> * 2 powi e \<le> 1 / 2 * (2::rat) powi e"
      by (intro mult_right_mono rne_err) auto
    then have "\<bar>(of_int (rne (y / 2 powi e)) - y / 2 powi e) * 2 powi e\<bar> \<le> 1 / 2 * (2::rat) powi e"
      by (simp add: abs_mult)
    then have "\<bar>dbl y - y\<bar> \<le> 1 / 2 * 2 powi e"
      using that by (simp add: dbl_pos e_def left_diff_distrib)
    also have "\<dots> = 2 powi ilog2 y / 2 ^ 53"
      by (simp add: e_def power_int_diff)
    also have "\<dots> \<le> y / 2 ^ 53" using that ilog2_bounds(1)[of y] by (intro divide_right_mono) auto
    finally show ?thesis .
  qed
  consider "x = 0" | "0 < x" | "0 < - x" by linarith
  then show ?thesis
  proof cases
    case 3
    with pos[of "- x"] show ?thesis by (simp add: dbl_uminus)
  qed (use pos[of x] in auto)
qed

subsection \<open>The interface: what the scripts rely on\<close>

locale rounding =
  fixes fl :: "rat \<Rightarrow> rat" and u :: rat
  assumes fl_mono: "x \<le> y \<Longrightarrow> fl x \<le> fl y"
    and fl_int: "\<bar>m\<bar> \<le> 2 ^ 53 \<Longrightarrow> fl (of_int m) = of_int m"
    and fl_err: "\<bar>fl x - x\<bar> \<le> u * \<bar>x\<bar>"
    and u_nonneg: "0 \<le> u"
begin

lemma fl_0: "fl 0 = 0"
  using fl_int[of 0] by simp

lemma fl_nonneg: "0 \<le> x \<Longrightarrow> 0 \<le> fl x"
  using fl_mono[of 0 x] by (simp add: fl_0)

lemma fl_le_int: "x \<le> of_int m \<Longrightarrow> \<bar>m\<bar> \<le> 2 ^ 53 \<Longrightarrow> fl x \<le> of_int m"
  using fl_mono[of x "of_int m"] by (simp add: fl_int)

lemma fl_ge_int: "of_int m \<le> x \<Longrightarrow> \<bar>m\<bar> \<le> 2 ^ 53 \<Longrightarrow> of_int m \<le> fl x"
  using fl_mono[of "of_int m" x] by (simp add: fl_int)

lemma fl_upper: "0 \<le> x \<Longrightarrow> fl x \<le> x * (1 + u)"
  using fl_err[of x] by (simp add: abs_le_iff algebra_simps)

lemma fl_lower: "0 \<le> x \<Longrightarrow> x * (1 - u) \<le> fl x"
  using fl_err[of x] by (simp add: abs_le_iff algebra_simps)

text \<open>The two-step computations of the bucket scripts: divide, then multiply.\<close>

lemma fl_div_mul_upper:
  assumes "0 \<le> x" "0 < d" "0 \<le> r"
  shows "fl (fl (x / d) * r) \<le> x / d * r * (1 + u) ^ 2"
proof -
  have "fl (fl (x / d) * r) \<le> fl (x / d) * r * (1 + u)"
    using assms by (intro fl_upper mult_nonneg_nonneg fl_nonneg) auto
  also have "\<dots> \<le> x / d * (1 + u) * r * (1 + u)"
    using assms u_nonneg by (intro mult_right_mono fl_upper) auto
  finally show ?thesis by (simp add: power2_eq_square mult.assoc mult.left_commute)
qed

lemma fl_div_mul_lower:
  assumes "0 \<le> x" "0 < d" "0 \<le> r" "u \<le> 1"
  shows "x / d * r * (1 - u) ^ 2 \<le> fl (fl (x / d) * r)"
proof -
  have "x / d * (1 - u) * r * (1 - u) \<le> fl (x / d) * r * (1 - u)"
    using assms by (intro mult_right_mono fl_lower) auto
  also have "\<dots> \<le> fl (fl (x / d) * r)"
    using assms by (intro fl_lower mult_nonneg_nonneg fl_nonneg) auto
  finally show ?thesis by (simp add: power2_eq_square mult.assoc mult.left_commute)
qed

lemma fl_sub_div_mul_lower:
  assumes "y \<le> x" "0 < d" "0 \<le> r" "u \<le> 1"
  shows "(x - y) / d * r * (1 - 3 * u) \<le> fl (fl (fl (x - y) / d) * r)"
proof -
  have "(1 - u) * (1 - u) ^ 2 - (1 - 3 * u) = u * u * (3 - u)"
    by (simp add: power2_eq_square algebra_simps)
  moreover have "0 \<le> u * u * (3 - u)" using assms(4) u_nonneg by simp
  ultimately have "1 - 3 * u \<le> (1 - u) * (1 - u) ^ 2" by linarith
  then have "(x - y) / d * r * (1 - 3 * u) \<le> (x - y) / d * r * ((1 - u) * (1 - u) ^ 2)"
    using assms by (intro mult_left_mono) auto
  also have "\<dots> = (x - y) * (1 - u) / d * r * (1 - u) ^ 2" by simp
  also have "\<dots> \<le> fl (x - y) / d * r * (1 - u) ^ 2"
    using assms by (intro mult_right_mono divide_right_mono fl_lower) auto
  also have "\<dots> \<le> fl (fl (fl (x - y) / d) * r)"
    using assms by (intro fl_div_mul_lower fl_nonneg) auto
  finally show ?thesis .
qed

end

interpretation dbl: rounding dbl "1 / 2 ^ 53"
proof unfold_locales
  fix x show "\<bar>dbl x - x\<bar> \<le> 1 / 2 ^ 53 * \<bar>x\<bar>" using dbl_err[of x] by simp
qed (auto intro: dbl_mono dbl_of_int)

lemma dbl_numeral [simp]: "numeral n \<le> (2::int) ^ 53 \<Longrightarrow> dbl (numeral n) = numeral n"
  using dbl_of_int[of "numeral n"] by simp

lemma dbl_1 [simp]: "dbl 1 = 1"
  using dbl_of_int[of 1] by simp

lemma ladd_int: "\<bar>a + b\<bar> \<le> 2 ^ 53 \<Longrightarrow> ladd (of_int a) (of_int b) = of_int (a + b)"
  unfolding ladd_def of_int_add[symmetric] by (rule dbl_of_int)

lemma lsub_int: "\<bar>a - b\<bar> \<le> 2 ^ 53 \<Longrightarrow> lsub (of_int a) (of_int b) = of_int (a - b)"
  unfolding lsub_def of_int_diff[symmetric] by (rule dbl_of_int)

lemma lmul_int: "\<bar>a * b\<bar> \<le> 2 ^ 53 \<Longrightarrow> lmul (of_int a) (of_int b) = of_int (a * b)"
  unfolding lmul_def of_int_mult[symmetric] by (rule dbl_of_int)

text \<open>Evaluation: the rounding of a concrete number, from its significand.\<close>

lemma rne_eqI: "\<bar>q - of_int m\<bar> < 1 / 2 \<or> \<bar>q - of_int m\<bar> = 1 / 2 \<and> even m \<Longrightarrow> rne q = m"
proof -
  assume a: "\<bar>q - of_int m\<bar> < 1 / 2 \<or> \<bar>q - of_int m\<bar> = 1 / 2 \<and> even m"
  show "rne q = m"
  proof (cases "of_int m \<le> q")
    case True
    with a have "\<lfloor>q\<rfloor> = m" by linarith
    with a True show ?thesis by (auto simp: rne_def Let_def)
  next
    case False
    with a have f: "\<lfloor>q\<rfloor> = m - 1" by linarith
    with a False show ?thesis by (auto simp: rne_def Let_def)
  qed
qed

lemma dbl_eqI:
  assumes "2 ^ 52 < m" "m < 2 ^ 53"
    "\<bar>x * 2 ^ n - of_int m\<bar> < 1 / 2 \<or> \<bar>x * 2 ^ n - of_int m\<bar> = 1 / 2 \<and> even m"
  shows "dbl x = of_int m / 2 ^ n"
proof -
  have "of_int (2 ^ 52 + 1) \<le> (of_int m :: rat)" "of_int (m + 1) \<le> (of_int (2 ^ 53) :: rat)"
    using assms(1,2) by (simp_all only: of_int_le_iff)
  then have m: "(2::rat) ^ 52 + 1 \<le> of_int m" "of_int m + 1 \<le> (2::rat) ^ 53" by simp_all
  have y: "2 ^ 52 \<le> x * 2 ^ n" "x * 2 ^ n < 2 ^ 53" using assms(3) m by (auto simp: abs_if split: if_splits)
  have "0 < x * 2 ^ n" using y(1) by (rule less_le_trans[rotated]) simp
  then have x: "0 < x" by (simp add: zero_less_mult_iff)
  have pw: "2 powi (52 - int n) = (2::rat) ^ 52 / 2 ^ n" "2 powi (53 - int n) = (2::rat) ^ 53 / 2 ^ n"
    by (simp_all add: power_int_diff)
  have b: "2 powi (52 - int n) \<le> x" "x < 2 powi (53 - int n)"
    unfolding pw using y by (simp_all add: divide_le_eq less_divide_eq)
  have e: "ilog2 x - 52 = - int n" using ilog2_ge[OF x b(1)] ilog2_less[OF x b(2)] by linarith
  have "x / 2 powi (- int n) = x * 2 ^ n" by (simp add: power_int_minus field_simps)
  then show ?thesis unfolding dbl_pos[OF x] e using rne_eqI[OF assms(3)] by (simp add: power_int_minus field_simps)
qed

subsection \<open>The clock the scripts read\<close>

text \<open>
  \<^verbatim>\<open>local now_ms = math.floor(tonumber(time[1]) * 1000 + tonumber(time[2]) / 1000)\<close>, the third
  statement of all five scripts.  Redis' \<^verbatim>\<open>TIME\<close> answers whole seconds and the microseconds of
  the current second.
\<close>

definition lua_now_ms :: "int \<times> int \<Rightarrow> rat" where
  "lua_now_ms t =
     of_int \<lfloor>ladd (lmul (dbl (of_int (fst t))) 1000) (ldiv (dbl (of_int (snd t))) 1000)\<rfloor>"

definition mstime :: "int \<times> int \<Rightarrow> int" where
  "mstime t = fst t * 1000 + snd t div 1000"

definition sane_time :: "int \<times> int \<Rightarrow> bool" where
  "sane_time t \<longleftrightarrow> 0 \<le> fst t \<and> fst t < 2 ^ 32 \<and> 0 \<le> snd t \<and> snd t < 1000000"

lemma dbl_div1000_bounds:
  assumes "0 \<le> us" "us < (1000000::int)"
  shows "of_int (us div 1000) \<le> ldiv (of_int us) 1000"
    and "ldiv (of_int us) 1000 \<le> of_int (us div 1000) + 1023 / 1024"
proof -
  let ?q = "us div 1000"
  have q: "0 \<le> ?q" "?q < 1000" using assms by auto
  have "us = 1000 * ?q + us mod 1000" "us mod 1000 \<le> 999" "0 \<le> us mod 1000" by auto
  then have b: "(of_int ?q :: rat) \<le> of_int us / 1000" "of_int us / 1000 \<le> (of_int ?q :: rat) + 999 / 1000"
    by linarith+
  show "of_int ?q \<le> ldiv (of_int us) 1000"
    unfolding ldiv_def using b(1) q by (intro dbl.fl_ge_int) auto
  have r: "of_int (?q * 1024 + 1023) * 2 powi (-10) = (of_int ?q :: rat) + 1023 / 1024"
    by (simp add: power_int_def field_simps)
  have "dbl (of_int us / 1000) \<le> dbl (of_int ?q + 1023 / 1024)"
    using b(2) by (intro dbl_mono) auto
  also have "\<dots> = of_int ?q + 1023 / 1024"
    using dbl_exact[of "?q * 1024 + 1023" "-10"] q unfolding r by auto
  finally show "ldiv (of_int us) 1000 \<le> of_int ?q + 1023 / 1024" by (simp add: ldiv_def)
qed

lemma lua_now_ms_exact: "sane_time t \<Longrightarrow> lua_now_ms t = of_int (mstime t)"
proof -
  assume "sane_time t"
  then obtain s us where t: "t = (s, us)" "0 \<le> s" "s < 2 ^ 32" "0 \<le> us" "us < 1000000"
    by (cases t) (auto simp: sane_time_def)
  let ?n = "s * 1000 + us div 1000"
  have n: "0 \<le> ?n" "?n < 2 ^ 42" using t by auto
  have e: "dbl (of_int s) = of_int s" "dbl (of_int us) = of_int us"
    using t by (auto intro!: dbl_of_int)
  have m: "lmul (of_int s) 1000 = of_int (s * 1000)"
    using lmul_int[of s 1000] t by simp
  have lo: "of_int ?n \<le> of_int (s * 1000) + ldiv (of_int us) 1000"
    using dbl_div1000_bounds(1)[OF t(4,5)] by simp
  have hi: "of_int (s * 1000) + ldiv (of_int us) 1000 \<le> of_int ?n + 1023 / 1024"
    using dbl_div1000_bounds(2)[OF t(4,5)] by simp
  have "of_int ?n \<le> dbl (of_int (s * 1000) + ldiv (of_int us) 1000)"
    using lo n by (intro dbl.fl_ge_int) auto
  moreover have r: "of_int (?n * 1024 + 1023) * 2 powi (-10) = (of_int ?n :: rat) + 1023 / 1024"
    by (simp add: power_int_def field_simps)
  have "dbl (of_int (s * 1000) + ldiv (of_int us) 1000) \<le> dbl (of_int ?n + 1023 / 1024)"
    using hi by (rule dbl_mono)
  moreover have "dbl (of_int ?n + 1023 / 1024) = of_int ?n + 1023 / 1024"
    using dbl_exact[of "?n * 1024 + 1023" "-10"] n unfolding r by auto
  ultimately have "\<lfloor>dbl (of_int (s * 1000) + ldiv (of_int us) 1000)\<rfloor> = ?n"
    by linarith
  then show ?thesis by (simp add: lua_now_ms_def mstime_def t(1) e m ladd_def)
qed

end
