(* ===== verification/Redis_Api.thy ===== *)
theory Redis_Api
  imports Lua_Numbers
begin

text \<open>
  The Redis server is not part of the repository: it is a parameter of every script.  The record
  \<open>redis_api\<close> lists the commands the five Lua scripts issue through \<^verbatim>\<open>redis.call\<close>, on an
  abstract server state \<open>'s\<close>; \<open>None\<close> is an error reply, which aborts the script.

  The locale \<open>redis_server\<close> states the documented behaviour the scripts rely on: a function
  \<open>ks\<close> reads a server state as a keyspace (a clock, and for every key a hash or a sorted set with
  an optional deadline in Unix milliseconds), and each command has the documented effect on it.
  The reference server \<open>mem_redis\<close>, which stores the keyspace itself, satisfies the laws.

  Expiry follows the Redis documentation of \<^verbatim>\<open>PEXPIRE\<close>: the deadline is absolute, a key is gone
  once the clock has passed its deadline, and the expire error is zero to one millisecond, so a
  key is still readable in the very millisecond of its deadline.  A script runs atomically on a
  frozen clock.
\<close>

subsection \<open>Keyspace\<close>

datatype rvalue =
    HashV "string \<Rightarrow> rat option"
  | ZsetV "(rat \<times> string) list"

record keyspace =
  ks_clock :: "int \<times> int"
  ks_data :: "string \<Rightarrow> (rvalue \<times> int option) option"

definition ks_now :: "keyspace \<Rightarrow> int" where
  "ks_now K = mstime (ks_clock K)"

definition visible :: "int \<Rightarrow> (rvalue \<times> int option) option \<Rightarrow> (rvalue \<times> int option) option" where
  "visible now e = (case e of
       None \<Rightarrow> None
     | Some (v, None) \<Rightarrow> Some (v, None)
     | Some (v, Some d) \<Rightarrow> if d < now then None else Some (v, Some d))"

definition ks_live :: "string \<Rightarrow> keyspace \<Rightarrow> (rvalue \<times> int option) option" where
  "ks_live k K = visible (ks_now K) (ks_data K k)"

definition ks_put :: "string \<Rightarrow> (rvalue \<times> int option) option \<Rightarrow> keyspace \<Rightarrow> keyspace" where
  "ks_put k e K = K\<lparr>ks_data := (ks_data K)(k := e)\<rparr>"

subsection \<open>Commands on the keyspace\<close>

fun hash_put :: "(string \<times> rat) list \<Rightarrow> (string \<Rightarrow> rat option) \<Rightarrow> (string \<Rightarrow> rat option)" where
  "hash_put [] h = h"
| "hash_put ((f, v) # fvs) h = hash_put fvs (h(f := Some v))"

definition ks_hmget :: "string \<Rightarrow> keyspace \<Rightarrow> (string \<Rightarrow> rat option) option" where
  "ks_hmget k K = (case ks_live k K of
       None \<Rightarrow> Some (\<lambda>_. None)
     | Some (HashV h, _) \<Rightarrow> Some h
     | Some (ZsetV _, _) \<Rightarrow> None)"

definition ks_hset :: "string \<Rightarrow> (string \<times> rat) list \<Rightarrow> keyspace \<Rightarrow> keyspace option" where
  "ks_hset k fvs K = (case ks_live k K of
       None \<Rightarrow> Some (ks_put k (Some (HashV (hash_put fvs (\<lambda>_. None)), None)) K)
     | Some (HashV h, d) \<Rightarrow> Some (ks_put k (Some (HashV (hash_put fvs h), d)) K)
     | Some (ZsetV _, _) \<Rightarrow> None)"

definition ks_pexpire :: "string \<Rightarrow> int \<Rightarrow> bool \<Rightarrow> keyspace \<Rightarrow> keyspace" where
  "ks_pexpire k ms nx K = (case ks_live k K of
       None \<Rightarrow> K
     | Some (v, d) \<Rightarrow> if nx \<and> d \<noteq> None then K else ks_put k (Some (v, Some (ks_now K + ms))) K)"

definition ks_zremrangebyscore :: "string \<Rightarrow> rat \<Rightarrow> keyspace \<Rightarrow> keyspace option" where
  "ks_zremrangebyscore k mx K = (case ks_live k K of
       None \<Rightarrow> Some K
     | Some (ZsetV z, d) \<Rightarrow>
         (let z' = filter (\<lambda>(sc, m). mx < sc) z
          in Some (ks_put k (if z' = [] then None else Some (ZsetV z', d)) K))
     | Some (HashV _, _) \<Rightarrow> None)"

definition ks_zcard :: "string \<Rightarrow> keyspace \<Rightarrow> nat option" where
  "ks_zcard k K = (case ks_live k K of
       None \<Rightarrow> Some 0
     | Some (ZsetV z, _) \<Rightarrow> Some (length z)
     | Some (HashV _, _) \<Rightarrow> None)"

fun zset_insert :: "'a::linorder \<Rightarrow> string \<Rightarrow> ('a \<times> string) list \<Rightarrow> ('a \<times> string) list" where
  "zset_insert sc m [] = [(sc, m)]"
| "zset_insert sc m ((sc', m') # z) =
     (if sc < sc' \<or> sc = sc' \<and> m \<le> m' then (sc, m) # (sc', m') # z
      else (sc', m') # zset_insert sc m z)"

definition ks_zadd :: "string \<Rightarrow> rat \<Rightarrow> string \<Rightarrow> keyspace \<Rightarrow> keyspace option" where
  "ks_zadd k sc m K = (case ks_live k K of
       None \<Rightarrow> Some (ks_put k (Some (ZsetV [(sc, m)], None)) K)
     | Some (ZsetV z, d) \<Rightarrow>
         Some (ks_put k (Some (ZsetV (zset_insert sc m (filter (\<lambda>(_, m'). m' \<noteq> m) z)), d)) K)
     | Some (HashV _, _) \<Rightarrow> None)"

definition ks_zrange00 :: "string \<Rightarrow> keyspace \<Rightarrow> (rat \<times> string) list option" where
  "ks_zrange00 k K = (case ks_live k K of
       None \<Rightarrow> Some []
     | Some (ZsetV z, _) \<Rightarrow> Some (take 1 z)
     | Some (HashV _, _) \<Rightarrow> None)"

subsection \<open>The command interface of a server\<close>

record 's redis_api =
  r_time :: "'s \<Rightarrow> int \<times> int"
  r_hmget :: "string \<Rightarrow> 's \<Rightarrow> (string \<Rightarrow> rat option) option"
  r_hset :: "string \<Rightarrow> (string \<times> rat) list \<Rightarrow> 's \<Rightarrow> 's option"
  r_pexpire :: "string \<Rightarrow> rat \<Rightarrow> bool \<Rightarrow> 's \<Rightarrow> 's option"
  r_zremrangebyscore :: "string \<Rightarrow> rat \<Rightarrow> 's \<Rightarrow> 's option"
  r_zcard :: "string \<Rightarrow> 's \<Rightarrow> nat option"
  r_zadd :: "string \<Rightarrow> rat \<Rightarrow> string \<Rightarrow> 's \<Rightarrow> 's option"
  r_zrange00 :: "string \<Rightarrow> 's \<Rightarrow> (rat \<times> string) list option"

datatype script_error = RedisCallError | LuaRuntimeError

definition redis_call ::
  "'b option \<Rightarrow> 's \<Rightarrow> ('b \<Rightarrow> (script_error + 'a) \<times> 's) \<Rightarrow> (script_error + 'a) \<times> 's" where
  "redis_call r s k = (case r of None \<Rightarrow> (Inl RedisCallError, s) | Some x \<Rightarrow> k x)"

lemma redis_call_simps [simp]:
  "redis_call None s k = (Inl RedisCallError, s)"
  "redis_call (Some x) s k = k x"
  by (simp_all add: redis_call_def)

text \<open>The five numbers a script returns, as Redis converts them to integer replies.\<close>

record lua_reply =
  lr_allowed :: int
  lr_limit :: int
  lr_remaining :: int
  lr_retry :: int
  lr_reset :: int

definition int_reply :: "rat \<Rightarrow> int" where
  "int_reply x = (if 0 \<le> x then \<lfloor>x\<rfloor> else \<lceil>x\<rceil>)"

definition lua_return :: "rat \<Rightarrow> rat \<Rightarrow> rat \<Rightarrow> rat \<Rightarrow> rat \<Rightarrow> lua_reply" where
  "lua_return a l r w t = \<lparr>lr_allowed = int_reply a, lr_limit = int_reply l,
     lr_remaining = int_reply r, lr_retry = int_reply w, lr_reset = int_reply t\<rparr>"

lemma int_reply_of_int [simp]: "int_reply (of_int n) = n"
  by (simp add: int_reply_def)

lemma int_reply_numeral [simp]: "int_reply 0 = 0" "int_reply 1 = 1" "int_reply (- 1) = - 1"
  by (simp_all add: int_reply_def ceiling_def)

definition ttl_limit :: int where
  "ttl_limit = 2 ^ 53"

locale redis_server =
  fixes R :: "'s redis_api" and ks :: "'s \<Rightarrow> keyspace"
  assumes time: "r_time R s = ks_clock (ks s)"
    and hmget: "r_hmget R k s = ks_hmget k (ks s)"
    and hset: "map_option ks (r_hset R k fvs s) = ks_hset k fvs (ks s)"
    and pexpire: "1 \<le> ms \<Longrightarrow> ms \<le> ttl_limit \<Longrightarrow>
        map_option ks (r_pexpire R k (of_int ms) nx s) = Some (ks_pexpire k ms nx (ks s))"
    and pexpire_frame: "r_pexpire R k x nx s = Some s' \<Longrightarrow>
        ks_clock (ks s') = ks_clock (ks s) \<and> (\<forall>k'. k' \<noteq> k \<longrightarrow> ks_data (ks s') k' = ks_data (ks s) k')"
    and zremrangebyscore: "map_option ks (r_zremrangebyscore R k mx s) = ks_zremrangebyscore k mx (ks s)"
    and zcard: "r_zcard R k s = ks_zcard k (ks s)"
    and zadd: "map_option ks (r_zadd R k sc m s) = ks_zadd k sc m (ks s)"
    and zrange00: "r_zrange00 R k s = ks_zrange00 k (ks s)"
begin

lemma hset_Some: "ks_hset k fvs (ks s) = Some K \<Longrightarrow> \<exists>s'. r_hset R k fvs s = Some s' \<and> ks s' = K"
  using hset[of k fvs s] by auto

lemma pexpire_Some: "1 \<le> ms \<Longrightarrow> ms \<le> ttl_limit \<Longrightarrow>
    \<exists>s'. r_pexpire R k (of_int ms) nx s = Some s' \<and> ks s' = ks_pexpire k ms nx (ks s)"
  using pexpire[of ms k nx s] by auto

lemma zremrangebyscore_Some:
  "ks_zremrangebyscore k mx (ks s) = Some K \<Longrightarrow> \<exists>s'. r_zremrangebyscore R k mx s = Some s' \<and> ks s' = K"
  using zremrangebyscore[of k mx s] by auto

lemma zadd_Some: "ks_zadd k sc m (ks s) = Some K \<Longrightarrow> \<exists>s'. r_zadd R k sc m s = Some s' \<and> ks s' = K"
  using zadd[of k sc m s] by auto

end

subsection \<open>The reference server\<close>

definition mem_redis :: "keyspace redis_api" where
  "mem_redis = \<lparr>r_time = ks_clock, r_hmget = ks_hmget, r_hset = ks_hset,
     r_pexpire = (\<lambda>k x nx K. if x = of_int \<lfloor>x\<rfloor> \<and> 1 \<le> x \<and> x \<le> 2 ^ 62
        then Some (ks_pexpire k \<lfloor>x\<rfloor> nx K) else None),
     r_zremrangebyscore = ks_zremrangebyscore, r_zcard = ks_zcard, r_zadd = ks_zadd,
     r_zrange00 = ks_zrange00\<rparr>"

interpretation mem: redis_server mem_redis id
  by unfold_locales (auto simp: mem_redis_def ttl_limit_def option.map_id ks_pexpire_def ks_put_def split: option.splits if_splits)

subsection \<open>What each command leaves in a key\<close>

lemma ks_put_sel [simp]:
  "ks_clock (ks_put k e K) = ks_clock K" "ks_now (ks_put k e K) = ks_now K"
  "ks_data (ks_put k e K) k' = (if k' = k then e else ks_data K k')"
  by (simp_all add: ks_put_def ks_now_def)

lemma ks_live_put [simp]: "ks_live k' (ks_put k e K) = (if k' = k then visible (ks_now K) e else ks_live k' K)"
  by (simp add: ks_live_def)

lemma visible_simps [simp]:
  "visible now None = None" "visible now (Some (v, None)) = Some (v, None)"
  "visible now (Some (v, Some d)) = (if d < now then None else Some (v, Some d))"
  by (simp_all add: visible_def)

lemma visible_visible: "visible now e = Some (v, d) \<Longrightarrow> visible now (Some (v, d)) = Some (v, d)"
  by (auto simp: visible_def split: option.splits prod.splits if_splits)

definition same_elsewhere :: "string \<Rightarrow> keyspace \<Rightarrow> keyspace \<Rightarrow> bool" where
  "same_elsewhere k K K' \<longleftrightarrow> ks_clock K' = ks_clock K \<and> (\<forall>k'. k' \<noteq> k \<longrightarrow> ks_data K' k' = ks_data K k')"

lemma same_elsewhere_refl [simp]: "same_elsewhere k K K"
  by (simp add: same_elsewhere_def)

lemma same_elsewhere_put [simp]: "same_elsewhere k K (ks_put k e K') = same_elsewhere k K K'"
  by (simp add: same_elsewhere_def)

lemma same_elsewhere_trans: "same_elsewhere k K K' \<Longrightarrow> same_elsewhere k K' K'' \<Longrightarrow> same_elsewhere k K K''"
  by (simp add: same_elsewhere_def)

lemma same_elsewhere_pexpire [simp]: "same_elsewhere k K (ks_pexpire k ms nx K') = same_elsewhere k K K'"
  by (auto simp: ks_pexpire_def same_elsewhere_def split: option.splits)

text \<open>The two writes that end every hash-based script: \<^verbatim>\<open>HSET\<close>, then \<^verbatim>\<open>PEXPIRE\<close>.\<close>

lemma ks_hset_pexpire_fresh:
  assumes "ks_live k K = None" "ks_hset k fvs K = Some K1" "0 \<le> ms"
  shows "ks_live k (ks_pexpire k ms nx K1) = Some (HashV (hash_put fvs (\<lambda>_. None)), Some (ks_now K + ms))"
    and "same_elsewhere k K K1"
  using assms by (auto simp: ks_hset_def ks_pexpire_def)

lemma ks_hset_pexpire_hash:
  assumes "ks_live k K = Some (HashV h, d)" "ks_hset k fvs K = Some K1" "0 \<le> ms"
  shows "ks_live k (ks_pexpire k ms nx K1) =
      Some (HashV (hash_put fvs h), if nx \<and> d \<noteq> None then d else Some (ks_now K + ms))"
    and "same_elsewhere k K K1"
proof -
  have "visible (ks_now K) (Some (HashV (hash_put fvs h), d)) = Some (HashV (hash_put fvs h), d)"
    using assms(1) by (cases d) (auto simp: ks_live_def visible_def split: option.splits prod.splits if_splits)
  then show "ks_live k (ks_pexpire k ms nx K1) =
      Some (HashV (hash_put fvs h), if nx \<and> d \<noteq> None then d else Some (ks_now K + ms))"
    using assms by (auto simp: ks_hset_def ks_pexpire_def)
  show "same_elsewhere k K K1" using assms by (auto simp: ks_hset_def)
qed

context redis_server
begin

lemma hash_write_fresh:
  assumes "ks_live k (ks s) = None" "1 \<le> ms" "ms \<le> ttl_limit"
  shows "\<exists>s1 s2. r_hset R k fvs s = Some s1 \<and> r_pexpire R k (of_int ms) nx s1 = Some s2
     \<and> ks_live k (ks s2) = Some (HashV (hash_put fvs (\<lambda>_. None)), Some (ks_now (ks s) + ms))
     \<and> same_elsewhere k (ks s) (ks s2)"
proof -
  obtain K1 where K1: "ks_hset k fvs (ks s) = Some K1" using assms(1) by (simp add: ks_hset_def)
  obtain s1 where s1: "r_hset R k fvs s = Some s1" "ks s1 = K1" using hset_Some[OF K1] by blast
  obtain s2 where "r_pexpire R k (of_int ms) nx s1 = Some s2" "ks s2 = ks_pexpire k ms nx (ks s1)"
    using pexpire_Some[OF assms(2,3)] by blast
  with s1 ks_hset_pexpire_fresh(1)[OF assms(1) K1, of ms nx] ks_hset_pexpire_fresh(2)[OF assms(1) K1, of ms] assms(2)
  show ?thesis by auto
qed

lemma hash_write_hash:
  assumes "ks_live k (ks s) = Some (HashV h, d)" "1 \<le> ms" "ms \<le> ttl_limit"
  shows "\<exists>s1 s2. r_hset R k fvs s = Some s1 \<and> r_pexpire R k (of_int ms) nx s1 = Some s2
     \<and> ks_live k (ks s2) = Some (HashV (hash_put fvs h), if nx \<and> d \<noteq> None then d else Some (ks_now (ks s) + ms))
     \<and> same_elsewhere k (ks s) (ks s2)"
proof -
  obtain K1 where K1: "ks_hset k fvs (ks s) = Some K1" using assms(1) by (simp add: ks_hset_def)
  obtain s1 where s1: "r_hset R k fvs s = Some s1" "ks s1 = K1" using hset_Some[OF K1] by blast
  obtain s2 where "r_pexpire R k (of_int ms) nx s1 = Some s2" "ks s2 = ks_pexpire k ms nx (ks s1)"
    using pexpire_Some[OF assms(2,3)] by blast
  with s1 ks_hset_pexpire_hash(1)[OF assms(1) K1, of ms nx] ks_hset_pexpire_hash(2)[OF assms(1) K1, of ms] assms(2)
  show ?thesis by auto
qed

end

text \<open>Every command leaves the other keys and the clock alone.\<close>

lemma ks_frame:
  "ks_hset k fvs K = Some K' \<Longrightarrow> same_elsewhere k K K'"
  "ks_zremrangebyscore k mx K = Some K' \<Longrightarrow> same_elsewhere k K K'"
  "ks_zadd k sc m K = Some K' \<Longrightarrow> same_elsewhere k K K'"
  by (auto simp: ks_hset_def ks_zremrangebyscore_def ks_zadd_def Let_def split: option.splits prod.splits rvalue.splits)

context redis_server
begin

lemma frame:
  "r_hset R k fvs s = Some s' \<Longrightarrow> same_elsewhere k (ks s) (ks s')"
  "r_zremrangebyscore R k mx s = Some s' \<Longrightarrow> same_elsewhere k (ks s) (ks s')"
  "r_zadd R k sc m s = Some s' \<Longrightarrow> same_elsewhere k (ks s) (ks s')"
  "r_pexpire R k x nx s = Some s' \<Longrightarrow> same_elsewhere k (ks s) (ks s')"
proof -
  show "r_hset R k fvs s = Some s' \<Longrightarrow> same_elsewhere k (ks s) (ks s')"
    using hset[of k fvs s] by (simp add: ks_frame)
  show "r_zremrangebyscore R k mx s = Some s' \<Longrightarrow> same_elsewhere k (ks s) (ks s')"
    using zremrangebyscore[of k mx s] by (simp add: ks_frame)
  show "r_zadd R k sc m s = Some s' \<Longrightarrow> same_elsewhere k (ks s) (ks s')"
    using zadd[of k sc m s] by (simp add: ks_frame)
  show "r_pexpire R k x nx s = Some s' \<Longrightarrow> same_elsewhere k (ks s) (ks s')"
    using pexpire_frame[of k x nx s s'] by (simp add: same_elsewhere_def)
qed

text \<open>A script run in continuation style: each call is framed, so the whole run is.\<close>

lemma write_frame:
  assumes "same_elsewhere k (ks s0) (ks s)"
    "\<And>s'. same_elsewhere k (ks s0) (ks s') \<Longrightarrow> same_elsewhere k (ks s0) (ks (snd (f s')))"
  shows "same_elsewhere k (ks s0) (ks (snd (redis_call (r_hset R k fvs s) s f)))"
    "same_elsewhere k (ks s0) (ks (snd (redis_call (r_zremrangebyscore R k mx s) s f)))"
    "same_elsewhere k (ks s0) (ks (snd (redis_call (r_zadd R k sc m s) s f)))"
    "same_elsewhere k (ks s0) (ks (snd (redis_call (r_pexpire R k x nx s) s f)))"
proof -
  have step: "same_elsewhere k (ks s0) (ks (snd (redis_call r s f)))"
    if "\<And>s'. r = Some s' \<Longrightarrow> same_elsewhere k (ks s) (ks s')" for r
  proof (cases r)
    case (Some s')
    from same_elsewhere_trans[OF assms(1) that[OF Some]] show ?thesis using assms(2) Some by simp
  qed (simp add: assms(1))
  show "same_elsewhere k (ks s0) (ks (snd (redis_call (r_hset R k fvs s) s f)))"
    "same_elsewhere k (ks s0) (ks (snd (redis_call (r_zremrangebyscore R k mx s) s f)))"
    "same_elsewhere k (ks s0) (ks (snd (redis_call (r_zadd R k sc m s) s f)))"
    "same_elsewhere k (ks s0) (ks (snd (redis_call (r_pexpire R k x nx s) s f)))"
    by (rule step, erule frame)+
qed

lemma read_frame:
  assumes "same_elsewhere k (ks s0) (ks s)" "\<And>x. same_elsewhere k (ks s0) (ks (snd (f x)))"
  shows "same_elsewhere k (ks s0) (ks (snd (redis_call r s f)))"
  using assms by (cases r) simp_all

lemma return_frame: "same_elsewhere k (ks s0) (ks s) \<Longrightarrow> same_elsewhere k (ks s0) (ks (snd (x, s)))"
  by simp

lemma branch_frame:
  "(b \<Longrightarrow> P (snd x)) \<Longrightarrow> (\<not> b \<Longrightarrow> P (snd y)) \<Longrightarrow> P (snd (if b then x else y))"
  "P (snd n) \<Longrightarrow> (\<And>a. P (snd (g a))) \<Longrightarrow> P (snd (case v of None \<Rightarrow> n | Some a \<Rightarrow> g a))"
  "(\<And>a b. P (snd (h a b))) \<Longrightarrow> P (snd (case p of (a, b) \<Rightarrow> h a b))"
  by (simp_all split: option.splits prod.splits)

end

end
