(* ===== verification/Limiter_Interface.thy ===== *)
theory Limiter_Interface
  imports Redis_Api
begin

text \<open>
  The contract of \<^verbatim>\<open>interfaces/base.py\<close>: every algorithm class turns the five numbers its script
  returns into a \<open>RateLimitResult\<close> (\<^verbatim>\<open>model/rate_limit_result.py\<close>).  The locale
  \<open>limiter_algorithm\<close> is what the service relies on from an algorithm, stated on the per-key
  automaton that the algorithm's script refines: a step at a clock reading, from the state the key
  holds if it has not expired.  \<open>lim_run\<close> is a whole sequence of requests against one key,
  with the expiry of the key between them.
\<close>

record rate_limit_result =
  allowed :: bool
  limit :: int
  remaining :: int
  retry_after_ms :: "int option"
  reset_at_ms :: "int option"
  degraded :: bool

definition result_of_reply :: "lua_reply \<Rightarrow> rate_limit_result" where
  "result_of_reply r = \<lparr>allowed = (lr_allowed r \<noteq> 0), limit = lr_limit r, remaining = lr_remaining r,
     retry_after_ms = (if lr_retry r = - 1 then None else Some (lr_retry r)),
     reset_at_ms = Some (lr_reset r), degraded = False\<rparr>"

text \<open>
  A call to the server can fail in three ways: the request never arrives, the script runs but the
  reply is lost, or the script itself fails (\<^verbatim>\<open>ResponseError\<close>).
\<close>

datatype link_failure = RedisConnectionError | RedisTimeoutError

datatype link = LinkUp | RequestLost link_failure | ReplyLost link_failure

datatype check_error = LinkFailure link_failure | ResponseError script_error

text \<open>
  \<^verbatim>\<open>run_script\<close> logs and re-raises whatever the call raises, so it is the call itself.
\<close>

definition run_script :: "link \<Rightarrow> ('s \<Rightarrow> (script_error + lua_reply) \<times> 's) \<Rightarrow> 's \<Rightarrow> (check_error + lua_reply) \<times> 's" where
  "run_script l script s = (case l of
       RequestLost e \<Rightarrow> (Inl (LinkFailure e), s)
     | ReplyLost e \<Rightarrow> (Inl (LinkFailure e), snd (script s))
     | LinkUp \<Rightarrow> (case script s of
           (Inl e, s') \<Rightarrow> (Inl (ResponseError e), s')
         | (Inr r, s') \<Rightarrow> (Inr r, s')))"

definition reply_to_result :: "(check_error + lua_reply) \<times> 's \<Rightarrow> (check_error + rate_limit_result) \<times> 's" where
  "reply_to_result x = (map_sum id result_of_reply (fst x), snd x)"

subsection \<open>Replies\<close>

definition reply_ok :: "int \<Rightarrow> int \<Rightarrow> lua_reply \<Rightarrow> bool" where
  "reply_ok L now r \<longleftrightarrow> lr_limit r = L \<and> now \<le> lr_reset r \<and>
     (lr_allowed r = 1 \<and> 0 \<le> lr_remaining r \<and> lr_remaining r < L \<and> lr_retry r = - 1
      \<or> lr_allowed r = 0 \<and> lr_remaining r = 0 \<and> 0 \<le> lr_retry r)"

definition result_ok :: "int \<Rightarrow> int \<Rightarrow> rate_limit_result \<Rightarrow> bool" where
  "result_ok L now x \<longleftrightarrow> limit x = L \<and> \<not> degraded x \<and> 0 \<le> remaining x \<and> remaining x < L
     \<and> (case reset_at_ms x of None \<Rightarrow> False | Some t \<Rightarrow> now \<le> t)
     \<and> (allowed x \<longleftrightarrow> retry_after_ms x = None)
     \<and> (\<not> allowed x \<longrightarrow> remaining x = 0)"

lemma result_of_reply_ok: "reply_ok L now r \<Longrightarrow> 0 < L \<Longrightarrow> result_ok L now (result_of_reply r)"
  by (auto simp: reply_ok_def result_ok_def result_of_reply_def)

subsection \<open>Runs of requests against one key\<close>

definition lim_expire :: "('st \<Rightarrow> int) \<Rightarrow> int \<Rightarrow> 'st option \<Rightarrow> 'st option" where
  "lim_expire dl now st = (case st of None \<Rightarrow> None | Some x \<Rightarrow> if dl x < now then None else Some x)"

primrec lim_run :: "(int \<Rightarrow> 'st option \<Rightarrow> lua_reply \<times> 'st option) \<Rightarrow> ('st \<Rightarrow> int) \<Rightarrow>
    int list \<Rightarrow> 'st option \<Rightarrow> (int \<times> lua_reply) list" where
  "lim_run step dl [] st = []"
| "lim_run step dl (t # ts) st =
     (t, fst (step t (lim_expire dl t st))) # lim_run step dl ts (snd (step t (lim_expire dl t st)))"

definition admitted :: "(int \<times> lua_reply) list \<Rightarrow> int list" where
  "admitted rs = map fst (filter (\<lambda>(t, r). lr_allowed r = 1) rs)"

lemma admitted_simps [simp]:
  "admitted [] = []"
  "admitted ((t, r) # rs) = (if lr_allowed r = 1 then t # admitted rs else admitted rs)"
  by (simp_all add: admitted_def)

lemma length_lim_run [simp]: "length (lim_run step dl ts st) = length ts"
  by (induction ts arbitrary: st) simp_all

lemma admitted_lim_run_times: "set (admitted (lim_run step dl ts st)) \<subseteq> set ts"
  by (induction ts arbitrary: st) (auto split: if_splits)

lemma lim_expire_simps [simp]:
  "lim_expire dl now None = None"
  "lim_expire dl now (Some x) = (if dl x < now then None else Some x)"
  by (simp_all add: lim_expire_def)

lemma lim_expire_pred: "pred_option P st \<Longrightarrow> pred_option P (lim_expire dl now st)"
  by (cases st) auto

locale limiter_algorithm =
  fixes valid :: "'cfg \<Rightarrow> bool"
    and step :: "'cfg \<Rightarrow> int \<Rightarrow> 'st option \<Rightarrow> lua_reply \<times> 'st option"
    and deadline :: "'st \<Rightarrow> int"
    and inv :: "'cfg \<Rightarrow> int \<Rightarrow> 'st \<Rightarrow> bool"
    and lim :: "'cfg \<Rightarrow> int"
  assumes inv_later: "inv c t x \<Longrightarrow> t \<le> t' \<Longrightarrow> inv c t' x"
    and inv_step: "valid c \<Longrightarrow> pred_option (inv c now) st \<Longrightarrow> pred_option (inv c now) (snd (step c now st))"
    and step_reply: "valid c \<Longrightarrow> pred_option (inv c now) st \<Longrightarrow> reply_ok (lim c) now (fst (step c now st))"
begin

lemma inv_option_later: "pred_option (inv c t) st \<Longrightarrow> t \<le> t' \<Longrightarrow> pred_option (inv c t') st"
  by (cases st) (auto intro: inv_later)

lemma inv_expire: "pred_option (inv c t) st \<Longrightarrow> t \<le> t' \<Longrightarrow> pred_option (inv c t') (lim_expire deadline t' st)"
  by (blast intro: lim_expire_pred inv_option_later)

lemma run_replies:
  "valid c \<Longrightarrow> pred_option (inv c t0) st \<Longrightarrow> sorted (t0 # ts) \<Longrightarrow>
     list_all (\<lambda>(t, r). reply_ok (lim c) t r) (lim_run (step c) deadline ts st)"
proof (induction ts arbitrary: t0 st)
  case (Cons t ts)
  then have "pred_option (inv c t) (lim_expire deadline t st)" by (auto intro: inv_expire)
  with Cons show ?case by (auto intro: step_reply inv_step)
qed simp

lemma fresh_run_replies:
  "valid c \<Longrightarrow> sorted ts \<Longrightarrow> list_all (\<lambda>(t, r). reply_ok (lim c) t r) (lim_run (step c) deadline ts None)"
proof (cases ts)
  case (Cons t us)
  assume "valid c" "sorted ts"
  with Cons have "sorted (t # ts)" by auto
  with \<open>valid c\<close> show ?thesis by (intro run_replies[of c t None]) simp_all
qed simp

end

text \<open>
  An algorithm whose keys expire soundly: once the deadline of a key has passed, the state it held
  is as good as no state, for the reply and for what the key then holds (up to the deadline, which
  the observation \<open>core\<close> leaves out).
\<close>

locale expiring_limiter = limiter_algorithm +
  fixes core :: "'b \<Rightarrow> 'c"
  assumes expired_fresh: "valid c \<Longrightarrow> inv c t0 x \<Longrightarrow> t0 \<le> now \<Longrightarrow> deadline x < now \<Longrightarrow>
      fst (step c now (Some x)) = fst (step c now None) \<and>
      map_option core (snd (step c now (Some x))) = map_option core (snd (step c now None))"
begin

lemma expiry_unobservable:
  assumes "valid c" "pred_option (inv c t0) st" "t0 \<le> now"
  shows "fst (step c now (lim_expire deadline now st)) = fst (step c now st)"
    and "map_option core (snd (step c now (lim_expire deadline now st))) = map_option core (snd (step c now st))"
  using assms expired_fresh by (cases st; auto)+

end

text \<open>
  An algorithm that spends credit.  \<open>credit c t st\<close> is the credit a key has at time \<open>t\<close>; it grows
  at most at the rate \<open>gain c\<close> per millisecond, every admitted request costs one unit, and
  one request (with the expiry before it) creates at most \<open>slack c\<close> of it by rounding.  Then
  the number of admitted requests is bounded over every run.
\<close>

locale credit_limiter = limiter_algorithm +
  fixes credit :: "'a \<Rightarrow> int \<Rightarrow> 'b option \<Rightarrow> rat" and gain slack :: "'a \<Rightarrow> rat"
  assumes credit_nonneg: "valid c \<Longrightarrow> pred_option (inv c t) st \<Longrightarrow> 0 \<le> credit c t st"
    and credit_later: "valid c \<Longrightarrow> t \<le> t' \<Longrightarrow> credit c t' st \<le> credit c t st + gain c * of_int (t' - t)"
    and gain_nonneg: "valid c \<Longrightarrow> 0 \<le> gain c"
    and credit_step: "valid c \<Longrightarrow> pred_option (inv c t0) st \<Longrightarrow> t0 \<le> t \<Longrightarrow>
        credit c t (snd (step c t (lim_expire deadline t st)))
          + (if lr_allowed (fst (step c t (lim_expire deadline t st))) = 1 then 1 else 0)
        \<le> credit c t st + slack c"
begin

lemma run_bound:
  assumes "valid c" "pred_option (inv c t0) st" "sorted (t0 # ts)"
  shows "of_nat (length (admitted (lim_run (step c) deadline ts st)))
     \<le> credit c t0 st + gain c * of_int (last (t0 # ts) - t0) + of_nat (length ts) * slack c"
  using assms
proof (induction ts arbitrary: t0 st)
  case Nil
  then show ?case by (simp add: credit_nonneg)
next
  case (Cons t ts)
  define st1 where "st1 = lim_expire deadline t st"
  define st2 where "st2 = snd (step c t st1)"
  have "pred_option (inv c t) st2"
    unfolding st2_def st1_def using Cons.prems by (intro inv_step inv_expire[of c t0]) auto
  then have "of_nat (length (admitted (lim_run (step c) deadline ts st2)))
      \<le> credit c t st2 + gain c * of_int (last (t # ts) - t) + of_nat (length ts) * slack c"
    using Cons.prems by (intro Cons.IH) auto
  moreover have "credit c t st2 + (if lr_allowed (fst (step c t st1)) = 1 then 1 else 0) \<le> credit c t st + slack c"
    unfolding st2_def st1_def using Cons.prems by (intro credit_step[of c t0]) auto
  moreover have "credit c t st \<le> credit c t0 st + gain c * of_int (t - t0)"
    using Cons.prems by (intro credit_later) auto
  moreover have "gain c * of_int (last (t0 # t # ts) - t0) = gain c * of_int (last (t # ts) - t) + gain c * of_int (t - t0)"
    by (simp add: algebra_simps)
  ultimately show ?case by (simp add: st1_def st2_def distrib_right del: last.simps split: if_splits)
qed

end

end
