(* ===== verification/Fixed_Window.thy ===== *)
theory Fixed_Window
  imports Limiter_Interface
begin

text \<open>
  \<^verbatim>\<open>services/rate_limiter/fixed_window.py\<close> and \<^verbatim>\<open>scripts/fixed_window.lua\<close>.

  \<open>fixed_window_lua\<close> is the script, statement by statement, over any Redis server.  \<open>fw_step\<close> is
  the automaton it implements on one key: how many requests the current window has admitted, when
  the window opened and when the key expires.  The refinement lemma connects the two, and the
  properties of runs are proved on the automaton.
\<close>

subsection \<open>The script and its Python wrapper\<close>

definition fixed_window_lua ::
  "'s redis_api \<Rightarrow> string \<Rightarrow> int \<Rightarrow> int \<Rightarrow> 's \<Rightarrow> (script_error + lua_reply) \<times> 's" where
  "fixed_window_lua R key argv1 argv2 s =
    (let window_size_ms = dbl (of_int argv1); max_requests = dbl (of_int argv2);
         now_ms = lua_now_ms (r_time R s) in
     redis_call (r_hmget R key s) s (\<lambda>data.
       let (count, window_start_ms) =
             (case data ''window_start_ms'' of
                None \<Rightarrow> (Some 0, now_ms)
              | Some ws \<Rightarrow> if window_size_ms \<le> lsub now_ms ws then (Some 0, now_ms)
                           else (data ''count'', ws));
           reset_at_ms = ladd window_start_ms window_size_ms in
       case count of
         None \<Rightarrow> (Inl LuaRuntimeError, s)
       | Some c \<Rightarrow>
           if c < max_requests then
             let c = ladd c 1 in
             redis_call (r_hset R key [(''count'', c), (''window_start_ms'', window_start_ms)] s) s (\<lambda>s1.
             redis_call (r_pexpire R key window_size_ms True s1) s1 (\<lambda>s2.
               (Inr (lua_return 1 max_requests (lsub max_requests c) (- 1) reset_at_ms), s2)))
           else
             redis_call (r_hset R key [(''count'', c), (''window_start_ms'', window_start_ms)] s) s (\<lambda>s1.
             redis_call (r_pexpire R key window_size_ms True s1) s1 (\<lambda>s2.
               let retry_after_ms = lsub reset_at_ms now_ms;
                   retry_after_ms = (if retry_after_ms < 0 then 0 else retry_after_ms) in
               (Inr (lua_return 0 max_requests 0 retry_after_ms reset_at_ms), s2)))))"

definition fixed_window_key :: "string \<Rightarrow> string \<Rightarrow> string" where
  "fixed_window_key scope identifier_key = ''rl:fixed_window:'' @ scope @ '':'' @ identifier_key"

definition fixed_window_check :: "'s redis_api \<Rightarrow> link \<Rightarrow> int \<Rightarrow> int \<Rightarrow> string \<Rightarrow> string \<Rightarrow> 's \<Rightarrow>
    (check_error + rate_limit_result) \<times> 's" where
  "fixed_window_check R l window_size_ms max_requests scope identifier_key s =
     reply_to_result (run_script l
       (fixed_window_lua R (fixed_window_key scope identifier_key) window_size_ms max_requests) s)"

subsection \<open>The automaton of one key\<close>

record fw =
  fw_count :: int
  fw_start :: int
  fw_deadline :: int

definition fw_roll :: "int \<Rightarrow> int \<Rightarrow> fw option \<Rightarrow> fw" where
  "fw_roll w now st = (case st of
       None \<Rightarrow> \<lparr>fw_count = 0, fw_start = now, fw_deadline = now + w\<rparr>
     | Some f \<Rightarrow> if w \<le> now - fw_start f then f\<lparr>fw_count := 0, fw_start := now\<rparr> else f)"

definition fw_step :: "int \<Rightarrow> int \<Rightarrow> int \<Rightarrow> fw option \<Rightarrow> lua_reply \<times> fw option" where
  "fw_step w m now st = (let f = fw_roll w now st; reset = fw_start f + w in
     if fw_count f < m then
       (\<lparr>lr_allowed = 1, lr_limit = m, lr_remaining = m - (fw_count f + 1), lr_retry = - 1, lr_reset = reset\<rparr>,
        Some (f\<lparr>fw_count := fw_count f + 1\<rparr>))
     else
       (\<lparr>lr_allowed = 0, lr_limit = m, lr_remaining = 0, lr_retry = max 0 (reset - now), lr_reset = reset\<rparr>,
        Some f))"

definition fw_inv :: "int \<Rightarrow> int \<Rightarrow> int \<Rightarrow> fw \<Rightarrow> bool" where
  "fw_inv w m now f \<longleftrightarrow> 0 \<le> fw_count f \<and> fw_count f \<le> m \<and> fw_start f \<le> now
     \<and> fw_deadline f \<le> fw_start f + w"

definition fw_hash :: "fw \<Rightarrow> string \<Rightarrow> rat option" where
  "fw_hash f = (\<lambda>_. None)(''count'' := Some (of_int (fw_count f)),
     ''window_start_ms'' := Some (of_int (fw_start f)))"

definition fw_holds :: "string \<Rightarrow> keyspace \<Rightarrow> fw option \<Rightarrow> bool" where
  "fw_holds k K st \<longleftrightarrow> ks_live k K = map_option (\<lambda>f. (HashV (fw_hash f), Some (fw_deadline f))) st"

lemma fw_hash_sel [simp]:
  "fw_hash f ''count'' = Some (of_int (fw_count f))"
  "fw_hash f ''window_start_ms'' = Some (of_int (fw_start f))"
  by (simp_all add: fw_hash_def)

lemma fw_hash_put [simp]:
  "(\<lambda>_. None)(''count'' := Some (of_int c), ''window_start_ms'' := Some (of_int t)) =
     fw_hash \<lparr>fw_count = c, fw_start = t, fw_deadline = d\<rparr>"
  "(fw_hash f)(''count'' := Some (of_int c), ''window_start_ms'' := Some (of_int t)) =
     fw_hash (f\<lparr>fw_count := c, fw_start := t\<rparr>)"
  by (auto simp: fw_hash_def)

definition fw_params :: "int \<Rightarrow> int \<Rightarrow> bool" where
  "fw_params w m \<longleftrightarrow> 0 < w \<and> w \<le> 2 ^ 51 \<and> 0 < m \<and> m \<le> 2 ^ 51"

subsection \<open>The script refines the automaton\<close>

lemma fw_roll_cases:
  "fw_roll w now None = \<lparr>fw_count = 0, fw_start = now, fw_deadline = now + w\<rparr>"
  "w \<le> now - fw_start f \<Longrightarrow> fw_roll w now (Some f) = f\<lparr>fw_count := 0, fw_start := now\<rparr>"
  "now - fw_start f < w \<Longrightarrow> fw_roll w now (Some f) = f"
  by (simp_all add: fw_roll_def)

lemma fw_roll_inv:
  assumes "0 < w" "0 < m" "pred_option (fw_inv w m now) st"
  shows "fw_inv w m now (fw_roll w now st)"
  using assms by (cases st) (auto simp: fw_roll_def fw_inv_def)

definition fw_nonneg :: "fw option \<Rightarrow> bool" where
  "fw_nonneg st \<longleftrightarrow> pred_option (\<lambda>f. 0 \<le> fw_start f) st"

text \<open>
  The decision of the script once the window has been read: it writes the rolled window back,
  with one more request when there is room, and answers as \<open>fw_step\<close> does.
\<close>

context redis_server
begin

lemma fw_write:
  assumes "fw_holds k (ks s) st" "fw_params w m"
  shows "\<exists>s1 s2. r_hset R k [(''count'', of_int c), (''window_start_ms'', of_int (fw_start (fw_roll w now st)))] s = Some s1
     \<and> r_pexpire R k (of_int w) True s1 = Some s2
     \<and> (now = ks_now (ks s) \<longrightarrow> fw_holds k (ks s2) (Some ((fw_roll w now st)\<lparr>fw_count := c\<rparr>)))
     \<and> same_elsewhere k (ks s) (ks s2)"
proof (cases st)
  case None
  have "1 \<le> w" "w \<le> ttl_limit" using assms by (auto simp: fw_params_def ttl_limit_def)
  moreover have "ks_live k (ks s) = None" using assms None by (simp add: fw_holds_def)
  ultimately show ?thesis
    using hash_write_fresh[of k s w "[(''count'', of_int c), (''window_start_ms'', of_int now)]" True]
    by (auto simp: None fw_roll_cases fw_holds_def fw_hash_put(1)[where d = "now + w"])
next
  case (Some f)
  have "1 \<le> w" "w \<le> ttl_limit" using assms by (auto simp: fw_params_def ttl_limit_def)
  moreover have "ks_live k (ks s) = Some (HashV (fw_hash f), Some (fw_deadline f))"
    using assms Some by (simp add: fw_holds_def)
  moreover have "hash_put [(''count'', of_int c), (''window_start_ms'', of_int (fw_start (fw_roll w now st)))] (fw_hash f)
      = fw_hash ((fw_roll w now st)\<lparr>fw_count := c\<rparr>)" "fw_deadline (fw_roll w now st) = fw_deadline f"
    by (auto simp: Some fw_roll_def fw_hash_def)
  ultimately show ?thesis
    using hash_write_hash[of k s "fw_hash f" "Some (fw_deadline f)" w
        "[(''count'', of_int c), (''window_start_ms'', of_int (fw_start (fw_roll w now st)))]" True]
    by (auto simp: fw_holds_def simp del: hash_put.simps)
qed

lemma fixed_window_refines:
  assumes P: "fw_params w m" and T: "sane_time (ks_clock (ks s))"
    and H: "fw_holds k (ks s) st" and N: "fw_nonneg st"
    and I: "pred_option (fw_inv w m (ks_now (ks s))) st"
  shows "\<exists>s'. fixed_window_lua R k w m s = (Inr (fst (fw_step w m (ks_now (ks s)) st)), s')
     \<and> fw_holds k (ks s') (snd (fw_step w m (ks_now (ks s)) st)) \<and> same_elsewhere k (ks s) (ks s')"
proof -
  define now where "now = ks_now (ks s)"
  define f where "f = fw_roll w now st"
  have t: "lua_now_ms (r_time R s) = of_int now" and nb: "0 \<le> now" "now \<le> 2 ^ 51"
    using T by (auto simp: time lua_now_ms_exact now_def ks_now_def sane_time_def mstime_def)
  have pb: "0 < w" "w \<le> 2 ^ 51" "0 < m" "m \<le> 2 ^ 51" using P by (auto simp: fw_params_def)
  have args: "dbl (of_int w) = of_int w" "dbl (of_int m) = of_int m"
    using pb by (auto intro!: dbl_of_int)
  have fi: "fw_inv w m now f" using fw_roll_inv[OF pb(1,3)] I by (simp add: f_def now_def)
  have f0: "0 \<le> fw_start f" using N nb by (cases st) (auto simp: f_def fw_roll_def fw_nonneg_def)
  have fb: "0 \<le> fw_count f" "fw_count f \<le> m" "fw_start f \<le> now" using fi by (auto simp: fw_inv_def)
  obtain data where data: "r_hmget R k s = Some data"
    and win: "(case data ''window_start_ms'' of None \<Rightarrow> (Some 0, of_int now)
       | Some ws \<Rightarrow> if of_int w \<le> lsub (of_int now) ws then (Some 0, of_int now) else (data ''count'', ws))
       = (Some (of_int (fw_count f)), of_int (fw_start f))"
  proof (cases st)
    case None
    then have "r_hmget R k s = Some (\<lambda>_. None)" using H by (simp add: hmget ks_hmget_def fw_holds_def)
    then show ?thesis using that[of "\<lambda>_. None"] None by (simp add: f_def fw_roll_def)
  next
    case (Some g)
    then have "r_hmget R k s = Some (fw_hash g)" using H by (simp add: hmget ks_hmget_def fw_holds_def)
    moreover have "lsub (of_int now) (of_int (fw_start g)) = of_int (now - fw_start g)"
      using N I Some nb by (intro lsub_int) (auto simp: fw_nonneg_def fw_inv_def now_def)
    ultimately show ?thesis using that[of "fw_hash g"] Some by (auto simp: f_def fw_roll_def)
  qed
  have reset: "ladd (of_int (fw_start f)) (of_int w) = of_int (fw_start f + w)"
    using f0 fb nb pb by (intro ladd_int) auto
  show ?thesis
  proof (cases "fw_count f < m")
    case True
    have c: "ladd (of_int (fw_count f)) 1 = of_int (fw_count f + 1)"
      using ladd_int[of "fw_count f" 1] fb pb by simp
    have r: "lsub (of_int m) (of_int (fw_count f + 1)) = of_int (m - (fw_count f + 1))"
      using fb pb by (intro lsub_int) auto
    obtain s1 s2 where w: "r_hset R k [(''count'', of_int (fw_count f + 1)), (''window_start_ms'', of_int (fw_start f))] s = Some s1"
        "r_pexpire R k (of_int w) True s1 = Some s2" "fw_holds k (ks s2) (Some (f\<lparr>fw_count := fw_count f + 1\<rparr>))"
        "same_elsewhere k (ks s) (ks s2)"
      using fw_write[OF H P, of "fw_count f + 1" now] by (auto simp: f_def now_def)
    show ?thesis
      using True w by (simp add: fixed_window_lua_def t args data win c r reset fw_step_def Let_def
          lua_return_def f_def[symmetric] now_def[symmetric] del: of_int_add of_int_diff)
  next
    case False
    have r: "lsub (of_int (fw_start f + w)) (of_int now) = of_int (fw_start f + w - now)"
      using fb pb nb f0 by (intro lsub_int) auto
    obtain s1 s2 where w: "r_hset R k [(''count'', of_int (fw_count f)), (''window_start_ms'', of_int (fw_start f))] s = Some s1"
        "r_pexpire R k (of_int w) True s1 = Some s2" "fw_holds k (ks s2) (Some f)" "same_elsewhere k (ks s) (ks s2)"
      using fw_write[OF H P, of "fw_count f" now] by (auto simp: f_def now_def)
    have "(if of_int (fw_start f + w - now) < (0::rat) then 0 else of_int (fw_start f + w - now))
        = (of_int (max 0 (fw_start f + w - now)) :: rat)" by (simp add: max_def del: of_int_add of_int_diff)
    with False w show ?thesis
      by (simp add: fixed_window_lua_def t args data win r reset fw_step_def Let_def
          lua_return_def f_def[symmetric] now_def[symmetric] del: of_int_add of_int_diff)
  qed
qed

end

subsection \<open>Interface laws\<close>

definition fw_valid :: "int \<times> int \<Rightarrow> bool" where
  "fw_valid c \<longleftrightarrow> 0 < fst c \<and> 0 < snd c"

lemma fw_step_inv:
  assumes "0 < w" "0 < m" "pred_option (fw_inv w m now) st"
  shows "pred_option (fw_inv w m now) (snd (fw_step w m now st))"
  using fw_roll_inv[OF assms] by (auto simp: fw_step_def Let_def fw_inv_def)

lemma fw_step_reply:
  assumes "0 < w" "0 < m" "pred_option (fw_inv w m now) st"
  shows "reply_ok m now (fst (fw_step w m now st))"
proof -
  have "now < fw_start (fw_roll w now st) + w"
    using assms by (cases st) (auto simp: fw_roll_def)
  with fw_roll_inv[OF assms] show ?thesis
    by (auto simp: fw_step_def Let_def fw_inv_def reply_ok_def)
qed

interpretation fw: limiter_algorithm fw_valid "\<lambda>c. fw_step (fst c) (snd c)" fw_deadline
    "\<lambda>c. fw_inv (fst c) (snd c)" snd
  by unfold_locales (auto simp: fw_valid_def fw_inv_def intro: fw_step_inv fw_step_reply)

subsection \<open>How much a window admits\<close>

definition fw_clean :: "int \<Rightarrow> int \<Rightarrow> int \<Rightarrow> fw option \<Rightarrow> bool" where
  "fw_clean w m t0 st \<longleftrightarrow> pred_option (\<lambda>f. 0 \<le> fw_count f \<and> fw_count f \<le> m \<and> fw_start f \<le> t0
     \<and> fw_deadline f = fw_start f + w) st"

definition fw_base :: "int \<Rightarrow> fw option \<Rightarrow> int" where
  "fw_base t0 st = (case st of None \<Rightarrow> t0 | Some f \<Rightarrow> fw_start f)"

definition fw_used :: "fw option \<Rightarrow> int" where
  "fw_used st = (case st of None \<Rightarrow> 0 | Some f \<Rightarrow> fw_count f)"

definition count_before :: "int \<Rightarrow> int list \<Rightarrow> int" where
  "count_before b ts = int (length (filter (\<lambda>t. t < b) ts))"

lemma count_before_simps [simp]:
  "count_before b [] = 0"
  "count_before b (t # ts) = (if t < b then 1 else 0) + count_before b ts"
  by (simp_all add: count_before_def)

lemma count_before_none: "\<forall>t \<in> set ts. b \<le> t \<Longrightarrow> count_before b ts = 0"
  by (auto simp: count_before_def filter_empty_conv)

text \<open>
  From a clean state (its key expires when its window closes), and when no two requests are exactly
  one window apart: before the current window closes at most the unused part of the limit is
  admitted, and before the next one can close at most one more limit.
\<close>

lemma fw_run_bound:
  assumes "0 < w" "0 < m" "fw_clean w m t0 st" "sorted (t0 # ts)"
    "\<forall>t \<in> set ts. t + w \<notin> set ts" "pred_option (\<lambda>f. fw_start f + w \<notin> set ts) st"
  shows "(b \<le> fw_base t0 st + w \<longrightarrow>
      count_before b (admitted (lim_run (fw_step w m) fw_deadline ts st)) \<le> m - fw_used st)
    \<and> (b \<le> fw_base t0 st + 2 * w \<longrightarrow>
      count_before b (admitted (lim_run (fw_step w m) fw_deadline ts st)) \<le> 2 * m - fw_used st)"
  using assms
proof (induction ts arbitrary: t0 st)
  case Nil
  then show ?case by (cases st) (auto simp: fw_clean_def fw_used_def)
next
  case (Cons t ts)
  let ?run = "lim_run (fw_step w m) fw_deadline"
  define st1 where "st1 = lim_expire fw_deadline t st"
  define st2 where "st2 = snd (fw_step w m t st1)"
  have ge: "\<forall>u \<in> set (admitted (?run ts st2)). t \<le> u"
    using admitted_lim_run_times[of "fw_step w m" fw_deadline ts st2] Cons.prems(4) by auto
  have run: "admitted (?run (t # ts) st) =
      (if lr_allowed (fst (fw_step w m t st1)) = 1 then [t] else []) @ admitted (?run ts st2)"
    by (simp add: st1_def st2_def)
  have used: "0 \<le> fw_used st" "fw_used st \<le> m"
    using Cons.prems(2,3) by (cases st; auto simp: fw_clean_def fw_used_def)+
  show ?case
  proof (cases "t < b")
    case False
    then have "count_before b (admitted (?run (t # ts) st)) = 0"
      using ge unfolding run by (intro count_before_none) auto
    then show ?thesis using used Cons.prems(2) by auto
  next
    case True
    show ?thesis
    proof (cases st1)
      case None
      then have st2: "st2 = Some \<lparr>fw_count = 1, fw_start = t, fw_deadline = t + w\<rparr>"
        and a: "lr_allowed (fst (fw_step w m t st1)) = 1"
        using Cons.prems(2) by (simp_all add: st2_def fw_step_def fw_roll_def)
      have base: "st = None \<and> fw_base t0 st \<le> t \<or> fw_base t0 st + w < t"
        using None Cons.prems(3,4) by (cases st) (auto simp: st1_def fw_base_def fw_clean_def split: if_splits)
      have "(b \<le> t + w \<longrightarrow> count_before b (admitted (?run ts st2)) \<le> m - 1)
          \<and> (b \<le> t + 2 * w \<longrightarrow> count_before b (admitted (?run ts st2)) \<le> 2 * m - 1)"
        using Cons.IH[of t st2] Cons.prems st2 by (auto simp: fw_clean_def fw_base_def fw_used_def)
      with base a used True show ?thesis unfolding run by (auto simp: fw_used_def)
    next
      case (Some f)
      then have f: "st = Some f" "t \<le> fw_start f + w" "0 \<le> fw_count f" "fw_count f \<le> m" "fw_start f \<le> t"
        using Cons.prems(3,4) by (cases st; auto simp: st1_def fw_clean_def split: if_splits)+
      then have "t < fw_start f + w" using Cons.prems(6) by auto
      then have roll: "fw_roll w t st1 = f" by (simp add: Some fw_roll_def)
      show ?thesis
      proof (cases "fw_count f < m")
        case True
        then have "st2 = Some (f\<lparr>fw_count := fw_count f + 1\<rparr>)" "lr_allowed (fst (fw_step w m t st1)) = 1"
          by (simp_all add: st2_def fw_step_def roll)
        moreover from this have "fw_clean w m t st2"
          using Cons.prems(3) f True by (simp add: fw_clean_def)
        ultimately show ?thesis
          using Cons.IH[of t st2] Cons.prems f unfolding run by (auto simp: fw_base_def fw_used_def)
      next
        case False
        then have "st2 = Some f" "lr_allowed (fst (fw_step w m t st1)) = 0"
          by (simp_all add: st2_def fw_step_def roll Let_def)
        moreover from this have "fw_clean w m t st2"
          using Cons.prems(3) f by (simp add: fw_clean_def)
        ultimately show ?thesis
          using Cons.IH[of t st2] Cons.prems f unfolding run by (auto simp: fw_base_def fw_used_def)
      qed
    qed
  qed
qed

lemma count_in_eq_before:
  "\<forall>t \<in> set ts. a \<le> t \<Longrightarrow> int (length (filter (\<lambda>t. a \<le> t \<and> t < b) ts)) = count_before b ts"
  unfolding count_before_def by (metis (no_types, lifting) filter_cong)

lemma fw_run_clean:
  assumes "0 < w" "0 < m" "fw_clean w m t0 st" "t0 \<le> t" "pred_option (\<lambda>f. fw_start f + w \<noteq> t) st"
  shows "fw_clean w m t (snd (fw_step w m t (lim_expire fw_deadline t st)))"
    and "pred_option (\<lambda>f. fw_start f = t \<or> st \<noteq> None \<and> fw_start f = fw_start (the st))
      (snd (fw_step w m t (lim_expire fw_deadline t st)))"
  using assms by (cases st; auto simp: fw_clean_def fw_step_def fw_roll_def Let_def)+

lemma fw_window_bound:
  assumes "0 < w" "0 < m" "fw_clean w m t0 st" "sorted (t0 # ts)"
    "\<forall>t \<in> set ts. t + w \<notin> set ts" "pred_option (\<lambda>f. fw_start f + w \<notin> set ts) st"
  shows "int (length (filter (\<lambda>t. a \<le> t \<and> t < a + w)
      (admitted (lim_run (fw_step w m) fw_deadline ts st)))) \<le> 2 * m"
  using assms
proof (induction ts arbitrary: t0 st)
  case (Cons t ts)
  let ?A = "admitted (lim_run (fw_step w m) fw_deadline (t # ts) st)"
  have ne: "pred_option (\<lambda>f. fw_start f + w \<noteq> t) st" using Cons.prems(6) by (cases st) auto
  show ?case
  proof (cases "t < a")
    case True
    define st2 where "st2 = snd (fw_step w m t (lim_expire fw_deadline t st))"
    have "filter (\<lambda>t. a \<le> t \<and> t < a + w) ?A =
        filter (\<lambda>t. a \<le> t \<and> t < a + w) (admitted (lim_run (fw_step w m) fw_deadline ts st2))"
      using True by (simp add: st2_def)
    moreover have "fw_clean w m t st2" "pred_option (\<lambda>f. fw_start f + w \<notin> set ts) st2"
      using fw_run_clean[OF Cons.prems(1-3) _ ne] Cons.prems(4-6) unfolding st2_def
      by (auto simp: option.pred_set)
    ultimately show ?thesis using Cons.IH[of t st2] Cons.prems by auto
  next
    case False
    define st1 where "st1 = lim_expire fw_deadline t st"
    have A: "?A = admitted (lim_run (fw_step w m) fw_deadline (t # ts) st1)"
      by (cases st) (simp_all add: st1_def)
    have "\<forall>u \<in> set (t # ts). a \<le> u" using False Cons.prems(4) by auto
    then have "\<forall>u \<in> set ?A. a \<le> u"
      using admitted_lim_run_times[of "fw_step w m" fw_deadline "t # ts" st] by blast
    then have N: "int (length (filter (\<lambda>t. a \<le> t \<and> t < a + w) ?A)) = count_before (a + w) ?A"
      by (rule count_in_eq_before)
    have st1: "fw_clean w m t st1" "pred_option (\<lambda>f. fw_start f + w \<notin> set (t # ts)) st1"
      using Cons.prems(3,4,6) ne by (cases st; simp add: st1_def fw_clean_def; fastforce)+
    have st1': "a + w \<le> fw_base t st1 + 2 * w" "0 \<le> fw_used st1"
      using st1(1) Cons.prems(1,3) False
      by (cases st; auto simp: st1_def fw_clean_def fw_base_def fw_used_def)+
    have "sorted (t # t # ts)" using Cons.prems(4) by auto
    from fw_run_bound[OF Cons.prems(1,2) st1(1) this Cons.prems(5) st1(2), of "a + w"] st1'
    have "count_before (a + w) (admitted (lim_run (fw_step w m) fw_deadline (t # ts) st1)) \<le> 2 * m"
      by linarith
    then show ?thesis using N unfolding A by simp
  qed
qed simp

subsection \<open>Properties\<close>

text \<open>
  C1.  On any server that behaves as documented, one run of \<^verbatim>\<open>fixed_window.lua\<close> against a key that
  is absent or holds a window is exactly one step of the automaton \<open>fw_step\<close>: it returns the
  automaton's reply, leaves the automaton's next state in the key (fields and deadline), and
  touches no other key.  Windows and limits up to \<open>2 ^ 51\<close> and clock readings up to the year 2106
  are computed exactly in Lua's doubles.
\<close>

theorem fixed_window_script_refines:
  assumes "redis_server R ks" "fw_params w m" "sane_time (ks_clock (ks s))"
    and "fw_holds k (ks s) st" "fw_nonneg st" "pred_option (fw_inv w m (ks_now (ks s))) st"
  shows "\<exists>s'. fixed_window_lua R k w m s = (Inr (fst (fw_step w m (ks_now (ks s)) st)), s')
     \<and> fw_holds k (ks s') (snd (fw_step w m (ks_now (ks s)) st)) \<and> same_elsewhere k (ks s) (ks s')"
  using assms by (rule redis_server.fixed_window_refines)

definition demo_keyspace :: keyspace where
  "demo_keyspace = \<lparr>ks_clock = (1700000000, 250000), ks_data = (\<lambda>_. None)\<rparr>"

theorem fixed_window_script_refines_witness:
  "\<exists>s'. fixed_window_lua mem_redis ''k'' 60000 100 demo_keyspace =
      (Inr \<lparr>lr_allowed = 1, lr_limit = 100, lr_remaining = 99, lr_retry = - 1, lr_reset = 1700000060250\<rparr>, s')
    \<and> fw_holds ''k'' s' (Some \<lparr>fw_count = 1, fw_start = 1700000000250, fw_deadline = 1700000060250\<rparr>)"
proof -
  have h: "fw_params 60000 100" "sane_time (ks_clock (id demo_keyspace))"
      "fw_holds ''k'' (id demo_keyspace) None" "fw_nonneg None"
      "pred_option (fw_inv 60000 100 (ks_now (id demo_keyspace))) None"
    by (simp_all add: fw_params_def sane_time_def demo_keyspace_def fw_holds_def ks_live_def fw_nonneg_def)
  have "ks_now demo_keyspace = 1700000000250" by (simp add: ks_now_def mstime_def demo_keyspace_def)
  then show ?thesis
    using fixed_window_script_refines[OF mem.redis_server_axioms h] by (auto simp: fw_step_def fw_roll_def)
qed

text \<open>
  C2.  A fixed window admits at most twice its limit in any interval of one window's length, over
  every sequence of requests against one key, with the key expiring in between as Redis expires
  it, provided no two requests are exactly one window apart.
\<close>

theorem fixed_window_rate_bound:
  assumes "0 < w" "0 < m" "sorted ts" "\<forall>t \<in> set ts. t + w \<notin> set ts"
  shows "int (length (filter (\<lambda>t. a \<le> t \<and> t < a + w)
      (admitted (lim_run (fw_step w m) fw_deadline ts None)))) \<le> 2 * m"
proof (cases ts)
  case (Cons t us)
  with assms show ?thesis by (intro fw_window_bound[of w m t None ts a]) (auto simp: fw_clean_def)
qed (use assms in simp)

theorem fixed_window_rate_bound_witness:
  "int (length (filter (\<lambda>t. 8 \<le> t \<and> t < 8 + 10)
      (admitted (lim_run (fw_step 10 2) fw_deadline [0, 8, 9, 12, 13, 14] None)))) \<le> 2 * 2"
  by (rule fixed_window_rate_bound) simp_all

text \<open>
  The proviso of the rate bound is needed.  When a request arrives in the millisecond in which
  the window closes, the key is still alive: the script opens a new window in it, but
  \<^verbatim>\<open>PEXPIRE ... NX\<close> leaves the old deadline in place, so the new window is dropped one
  millisecond later.  With a limit of one per window, requests at \<open>0\<close>, \<open>w\<close> and \<open>w + 1\<close> are all
  admitted, for every window length \<open>w > 1\<close>.
\<close>

theorem fixed_window_boundary_overrun:
  assumes "1 < w"
  shows "admitted (lim_run (fw_step w 1) fw_deadline [0, w, w + 1] None) = [0, w, w + 1]"
  using assms by (simp add: fw_step_def fw_roll_def Let_def)

theorem fixed_window_boundary_overrun_witness:
  "(1::int) < 60000 \<and>
   admitted (lim_run (fw_step 60000 1) fw_deadline [0, 60000, 60000 + 1] None) = [0, 60000, 60000 + 1]"
  using fixed_window_boundary_overrun[of 60000] by simp

text \<open>
  A denied caller that waits for the \<^verbatim>\<open>retry_after_ms\<close> it was given, with no other request in
  between, is admitted.
\<close>

theorem fixed_window_retry_admits:
  assumes "0 < w" "0 < m" "pred_option (fw_inv w m now) st"
    and "lr_allowed (fst (fw_step w m now st)) = 0"
  shows "lr_allowed (fst (fw_step w m (now + lr_retry (fst (fw_step w m now st)))
      (lim_expire fw_deadline (now + lr_retry (fst (fw_step w m now st))) (snd (fw_step w m now st))))) = 1"
proof -
  have "now < fw_start (fw_roll w now st) + w" using assms(1-3) by (cases st) (auto simp: fw_roll_def)
  then show ?thesis using assms(2,4)
    by (auto simp: fw_step_def Let_def fw_roll_def[of w "fw_start _ + w"] split: if_splits)
qed

theorem fixed_window_retry_admits_witness:
  "lr_allowed (fst (fw_step 10 1 (3 + 7) (lim_expire fw_deadline (3 + 7)
     (snd (fw_step 10 1 3 (Some \<lparr>fw_count = 1, fw_start = 0, fw_deadline = 10\<rparr>)))))) = 1"
proof -
  let ?st = "Some \<lparr>fw_count = 1, fw_start = 0, fw_deadline = 10\<rparr>"
  have h: "(0::int) < 10" "(0::int) < 1" "pred_option (fw_inv 10 1 3) ?st"
      "lr_allowed (fst (fw_step 10 1 3 ?st)) = 0"
    by (simp_all add: fw_inv_def fw_step_def fw_roll_def)
  have "lr_retry (fst (fw_step 10 1 3 ?st)) = 7" by (simp add: fw_step_def fw_roll_def)
  then show ?thesis using fixed_window_retry_admits[OF h] by simp
qed

end
