(* ===== verification/Sliding_Window_Log.thy ===== *)
theory Sliding_Window_Log
  imports Limiter_Interface
begin

text \<open>
  \<^verbatim>\<open>services/rate_limiter/sliding_window_log.py\<close> and \<^verbatim>\<open>scripts/sliding_window_log.lua\<close>: one entry
  per admitted request in a sorted set scored by its time.  The request id is a \<^verbatim>\<open>uuid4\<close> made in
  Python, a parameter here; the script relies on it being new.  \<open>sl_step\<close> is the automaton of one
  key: the times of the entries, oldest first, and the deadline of the key.
\<close>

subsection \<open>The script and its Python wrapper\<close>

definition oldest_reset_at_ms :: "rat \<Rightarrow> rat \<Rightarrow> (rat \<times> string) list \<Rightarrow> rat" where
  "oldest_reset_at_ms now_ms window_size_ms oldest = (case oldest of
       [] \<Rightarrow> ladd now_ms window_size_ms
     | (score, _) # _ \<Rightarrow> ladd score window_size_ms)"

definition sliding_window_log_lua ::
  "'s redis_api \<Rightarrow> string \<Rightarrow> int \<Rightarrow> int \<Rightarrow> string \<Rightarrow> 's \<Rightarrow> (script_error + lua_reply) \<times> 's" where
  "sliding_window_log_lua R key argv1 argv2 request_id s =
    (let window_size_ms = dbl (of_int argv1); max_requests = dbl (of_int argv2);
         now_ms = lua_now_ms (r_time R s);
         window_start_ms = lsub now_ms window_size_ms in
     redis_call (r_zremrangebyscore R key window_start_ms s) s (\<lambda>s1.
     redis_call (r_zcard R key s1) s1 (\<lambda>n. let count = of_nat n in
       if count < max_requests then
         redis_call (r_zadd R key now_ms request_id s1) s1 (\<lambda>s2.
         redis_call (r_pexpire R key window_size_ms False s2) s2 (\<lambda>s3.
           let remaining = lsub (lsub max_requests count) 1 in
         redis_call (r_zrange00 R key s3) s3 (\<lambda>oldest.
           (Inr (lua_return 1 max_requests remaining (- 1)
              (oldest_reset_at_ms now_ms window_size_ms oldest)), s3))))
       else
         redis_call (r_zrange00 R key s1) s1 (\<lambda>oldest.
           let reset_at_ms = oldest_reset_at_ms now_ms window_size_ms oldest;
               retry_after_ms = lsub reset_at_ms now_ms;
               retry_after_ms = (if retry_after_ms < 0 then 0 else retry_after_ms) in
         redis_call (r_pexpire R key window_size_ms False s1) s1 (\<lambda>s2.
           (Inr (lua_return 0 max_requests 0 retry_after_ms reset_at_ms), s2))))))"

definition sliding_window_log_key :: "string \<Rightarrow> string \<Rightarrow> string" where
  "sliding_window_log_key scope identifier_key = ''rl:sliding_window_log:'' @ scope @ '':'' @ identifier_key"

definition sliding_window_log_check :: "'s redis_api \<Rightarrow> link \<Rightarrow> string \<Rightarrow> int \<Rightarrow> int \<Rightarrow> string \<Rightarrow> string \<Rightarrow> 's \<Rightarrow>
    (check_error + rate_limit_result) \<times> 's" where
  "sliding_window_log_check R l request_id window_size_ms max_requests scope identifier_key s =
     reply_to_result (run_script l
       (sliding_window_log_lua R (sliding_window_log_key scope identifier_key)
          window_size_ms max_requests request_id) s)"

subsection \<open>The automaton of one key\<close>

record swl =
  sl_times :: "int list"
  sl_deadline :: int

definition sl_window :: "int \<Rightarrow> int \<Rightarrow> swl option \<Rightarrow> int list" where
  "sl_window w now st = (case st of None \<Rightarrow> [] | Some x \<Rightarrow> filter (\<lambda>t. now - w < t) (sl_times x))"

definition sl_step :: "int \<Rightarrow> int \<Rightarrow> int \<Rightarrow> swl option \<Rightarrow> lua_reply \<times> swl option" where
  "sl_step w m now st = (let z = sl_window w now st in
     if int (length z) < m then
       (\<lparr>lr_allowed = 1, lr_limit = m, lr_remaining = m - int (length z) - 1, lr_retry = - 1,
          lr_reset = hd (z @ [now]) + w\<rparr>,
        Some \<lparr>sl_times = z @ [now], sl_deadline = now + w\<rparr>)
     else
       (\<lparr>lr_allowed = 0, lr_limit = m, lr_remaining = 0, lr_retry = max 0 (hd z + w - now),
          lr_reset = hd z + w\<rparr>,
        Some \<lparr>sl_times = z, sl_deadline = now + w\<rparr>))"

definition sl_inv :: "int \<Rightarrow> int \<Rightarrow> int \<Rightarrow> swl \<Rightarrow> bool" where
  "sl_inv w m now x \<longleftrightarrow> sorted (sl_times x) \<and> int (length (sl_times x)) \<le> m \<and> sl_times x \<noteq> []
     \<and> sl_deadline x \<le> now + w \<and> (\<forall>t \<in> set (sl_times x). t + w \<le> sl_deadline x)"

definition sl_valid :: "int \<times> int \<Rightarrow> bool" where
  "sl_valid c \<longleftrightarrow> 0 < fst c \<and> 0 < snd c"

lemma sl_window_props:
  assumes "pred_option (sl_inv w m now) st"
  shows "sorted (sl_window w now st)" "0 < m \<Longrightarrow> int (length (sl_window w now st)) \<le> m"
    "\<forall>t \<in> set (sl_window w now st). now - w < t \<and> t \<le> now"
proof -
  show "0 < m \<Longrightarrow> int (length (sl_window w now st)) \<le> m"
  proof (cases st)
    case (Some x)
    have "length (sl_window w now st) \<le> length (sl_times x)" by (simp add: Some sl_window_def)
    with assms Some show ?thesis by (auto simp: sl_inv_def)
  qed (simp add: sl_window_def)
qed (use assms in \<open>cases st; fastforce simp: sl_window_def sl_inv_def sorted_wrt_filter\<close>)+

lemma sl_step_inv:
  assumes "0 < w" "0 < m" "pred_option (sl_inv w m now) st"
  shows "pred_option (sl_inv w m now) (snd (sl_step w m now st))"
  using sl_window_props[OF assms(3)] assms(1,2)
  by (auto simp: sl_step_def Let_def sl_inv_def sorted_append)

lemma sl_step_reply:
  assumes "0 < w" "0 < m" "pred_option (sl_inv w m now) st"
  shows "reply_ok m now (fst (sl_step w m now st))"
proof -
  have "hd (sl_window w now st @ [now]) \<in> set (sl_window w now st @ [now])" by (rule hd_in_set) simp
  moreover have "sl_window w now st \<noteq> [] \<Longrightarrow> hd (sl_window w now st) \<in> set (sl_window w now st)"
    by (rule hd_in_set)
  moreover have "m \<le> int (length (sl_window w now st)) \<Longrightarrow> sl_window w now st \<noteq> []" using assms(2) by auto
  ultimately show ?thesis
    using sl_window_props(3)[OF assms(3)] assms(1,2)
    by (fastforce simp: sl_step_def Let_def reply_ok_def)
qed

interpretation sl: expiring_limiter sl_valid "\<lambda>c. sl_step (fst c) (snd c)" sl_deadline
    "\<lambda>c. sl_inv (fst c) (snd c)" snd sl_times
proof unfold_locales
  fix c :: "int \<times> int" and t0 now :: int and x :: swl
  assume "sl_valid c" "sl_inv (fst c) (snd c) t0 x" "t0 \<le> now" "sl_deadline x < now"
  then have "sl_window (fst c) now (Some x) = sl_window (fst c) now None"
    by (fastforce simp: sl_window_def sl_inv_def filter_empty_conv)
  then show "fst (sl_step (fst c) (snd c) now (Some x)) = fst (sl_step (fst c) (snd c) now None) \<and>
      map_option sl_times (snd (sl_step (fst c) (snd c) now (Some x))) =
      map_option sl_times (snd (sl_step (fst c) (snd c) now None))"
    by (simp add: sl_step_def)
qed (auto simp: sl_valid_def intro: sl_step_inv sl_step_reply, auto simp: sl_inv_def)

subsection \<open>How much any window admits\<close>

definition count_in :: "int \<Rightarrow> int \<Rightarrow> int list \<Rightarrow> int" where
  "count_in a b ts = int (length (filter (\<lambda>t. a < t \<and> t \<le> b) ts))"

lemma count_in_simps [simp]:
  "count_in a b [] = 0"
  "count_in a b (t # ts) = (if a < t \<and> t \<le> b then 1 else 0) + count_in a b ts"
  "count_in a b (ts @ us) = count_in a b ts + count_in a b us"
  by (simp_all add: count_in_def)

lemma count_in_le: "count_in a b ts \<le> int (length ts)"
  by (simp add: count_in_def)

lemma count_in_none: "\<forall>t \<in> set ts. b < t \<Longrightarrow> count_in a b ts = 0"
  by (auto simp: count_in_def filter_empty_conv)

definition sl_logged :: "swl option \<Rightarrow> int list" where
  "sl_logged st = (case st of None \<Rightarrow> [] | Some x \<Rightarrow> sl_times x)"

lemma count_in_window:
  assumes "pred_option (sl_inv w m t0) st" "t0 \<le> t" "t \<le> a + w"
  shows "count_in a (a + w) (sl_window w t (lim_expire sl_deadline t st)) = count_in a (a + w) (sl_logged st)"
proof (cases st)
  case (Some x)
  have "filter (\<lambda>u. a < u \<and> u \<le> a + w) (filter (\<lambda>u. t - w < u) (sl_times x)) =
      filter (\<lambda>u. a < u \<and> u \<le> a + w) (sl_times x)"
    using assms(3) by (auto simp: filter_filter intro!: filter_cong)
  moreover have "sl_deadline x < t \<Longrightarrow> filter (\<lambda>u. a < u \<and> u \<le> a + w) (sl_times x) = []"
    using assms Some by (fastforce simp: sl_inv_def filter_empty_conv)
  ultimately show ?thesis by (simp add: Some sl_window_def sl_logged_def count_in_def)
qed (simp add: sl_window_def sl_logged_def)

lemma sl_run_bound:
  assumes "0 < w" "0 < m" "pred_option (sl_inv w m t0) st" "sorted (t0 # ts)"
  shows "count_in a (a + w) (sl_logged st)
     + count_in a (a + w) (admitted (lim_run (sl_step w m) sl_deadline ts st)) \<le> m"
  using assms
proof (induction ts arbitrary: t0 st)
  case Nil
  then show ?case using count_in_le[of a "a + w" "sl_logged st"] by (cases st) (auto simp: sl_logged_def sl_inv_def)
next
  case (Cons t ts)
  let ?run = "lim_run (sl_step w m) sl_deadline"
  define st1 where "st1 = lim_expire sl_deadline t st"
  define st2 where "st2 = snd (sl_step w m t st1)"
  have i1: "pred_option (sl_inv w m t) st1"
    using sl.inv_expire[of "(w, m)" t0 st t] Cons.prems by (simp add: st1_def)
  have i2: "pred_option (sl_inv w m t) st2"
    using sl_step_inv[OF Cons.prems(1,2) i1] by (simp add: st2_def)
  have IH: "count_in a (a + w) (sl_logged st2) + count_in a (a + w) (admitted (?run ts st2)) \<le> m"
    using Cons.IH[OF Cons.prems(1,2) i2] Cons.prems(4) by auto
  have run: "admitted (?run (t # ts) st) =
      (if lr_allowed (fst (sl_step w m t st1)) = 1 then [t] else []) @ admitted (?run ts st2)"
    by (simp add: st1_def st2_def)
  show ?case
  proof (cases "t \<le> a + w")
    case True
    have "count_in a (a + w) (sl_logged st2) = count_in a (a + w) (sl_window w t st1)
        + count_in a (a + w) (if lr_allowed (fst (sl_step w m t st1)) = 1 then [t] else [])"
      by (simp add: st2_def sl_step_def Let_def sl_logged_def)
    with IH count_in_window[OF Cons.prems(3) _ True] Cons.prems(4) show ?thesis
      unfolding run by (simp add: st1_def)
  next
    case False
    have "\<forall>u \<in> set (t # ts). a + w < u" using False Cons.prems(4) by auto
    then have "count_in a (a + w) (admitted (?run (t # ts) st)) = 0"
      using admitted_lim_run_times[of "sl_step w m" sl_deadline "t # ts" st] by (intro count_in_none) blast
    then show ?thesis using Cons.prems(2,3) count_in_le[of a "a + w" "sl_logged st"]
      by (cases st) (auto simp: sl_logged_def sl_inv_def)
  qed
qed

subsection \<open>The script refines the automaton\<close>

definition sl_holds :: "string \<Rightarrow> keyspace \<Rightarrow> swl option \<Rightarrow> bool" where
  "sl_holds k K st \<longleftrightarrow> (case st of
       None \<Rightarrow> ks_live k K = None
     | Some x \<Rightarrow> (\<exists>z. ks_live k K = Some (ZsetV z, Some (sl_deadline x)) \<and> map fst z = map of_int (sl_times x)))"

definition fresh_id :: "string \<Rightarrow> keyspace \<Rightarrow> string \<Rightarrow> bool" where
  "fresh_id k K rid \<longleftrightarrow> (\<forall>z d. ks_live k K = Some (ZsetV z, d) \<longrightarrow> rid \<notin> snd ` set z)"

definition sl_nonneg :: "swl option \<Rightarrow> bool" where
  "sl_nonneg st \<longleftrightarrow> pred_option (\<lambda>x. \<forall>t \<in> set (sl_times x). 0 \<le> t) st"

definition sl_params :: "int \<Rightarrow> int \<Rightarrow> bool" where
  "sl_params w m \<longleftrightarrow> 0 < w \<and> w \<le> 2 ^ 51 \<and> 0 < m \<and> m \<le> 2 ^ 51"

lemma cons_all_same: "\<forall>x \<in> set xs. x = c \<Longrightarrow> c # xs = xs @ [c]"
  by (induction xs) auto

lemma zset_insert_latest:
  "sorted (map fst z) \<Longrightarrow> \<forall>x \<in> fst ` set z. x \<le> sc \<Longrightarrow> map fst (zset_insert sc m z) = map fst z @ [sc]"
proof (induction z)
  case (Cons p z)
  obtain sc' m' where p: "p = (sc', m')" by (cases p)
  show ?case
  proof (cases "sc < sc' \<or> sc = sc' \<and> m \<le> m'")
    case True
    with Cons.prems p have "sc' = sc" by auto
    then have "\<forall>x \<in> set (map fst z). x = sc" using Cons.prems p by fastforce
    then show ?thesis using True \<open>sc' = sc\<close> cons_all_same[of "map fst z" sc] by (simp add: p)
  next
    case False
    with Cons p show ?thesis by auto
  qed
qed simp

lemma map_fst_filter: "map fst (filter (\<lambda>(t, m). c < t) z) = filter (\<lambda>t. c < t) (map fst z)"
  by (induction z) auto

lemma filter_of_int: "filter (\<lambda>t. of_int c < t) (map of_int ts) = map (of_int :: int \<Rightarrow> rat) (filter (\<lambda>t. c < t) ts)"
  by (induction ts) auto

text \<open>After \<^verbatim>\<open>ZREMRANGEBYSCORE\<close> the key holds the entries of the window, or is gone if there are none.\<close>

lemma zrem_view:
  assumes "sl_holds k K st" "pred_option (sl_inv w m now) st"
  obtains K1 z d where "ks_zremrangebyscore k (of_int (now - w)) K = Some K1"
    "same_elsewhere k K K1" "ks_now K1 = ks_now K" "map fst z = map of_int (sl_window w now st)"
    "ks_live k K1 = (if z = [] then None else Some (ZsetV z, d))"
    "fresh_id k K rid \<Longrightarrow> rid \<notin> snd ` set z"
proof (cases st)
  case None
  then show ?thesis using assms that[of K "[]" None] by (auto simp: sl_holds_def ks_zremrangebyscore_def sl_window_def)
next
  case (Some x)
  then obtain z0 where z0: "ks_live k K = Some (ZsetV z0, Some (sl_deadline x))" "map fst z0 = map of_int (sl_times x)"
    using assms by (auto simp: sl_holds_def)
  define z where "z = filter (\<lambda>(sc, m). of_int (now - w) < sc) z0"
  define K1 where "K1 = ks_put k (if z = [] then None else Some (ZsetV z, Some (sl_deadline x))) K"
  have "ks_zremrangebyscore k (of_int (now - w)) K = Some K1"
    by (simp add: ks_zremrangebyscore_def z0 z_def K1_def Let_def)
  moreover have "map fst z = map of_int (sl_window w now st)"
    by (simp add: z_def map_fst_filter z0 filter_of_int sl_window_def Some del: of_int_diff)
  moreover have "\<not> sl_deadline x < ks_now K"
    using z0(1) by (auto simp: ks_live_def visible_def split: option.splits prod.splits if_splits)
  then have "ks_live k K1 = (if z = [] then None else Some (ZsetV z, Some (sl_deadline x)))"
    by (simp add: K1_def)
  moreover have "rid \<notin> snd ` set z" if "fresh_id k K rid"
    using that z0(1) by (auto simp: fresh_id_def z_def)
  ultimately show ?thesis by (intro that[of K1 z "Some (sl_deadline x)"]) (auto simp: K1_def)
qed

lemma ks_pexpire_zset:
  assumes "ks_live k K = Some (ZsetV z, d)" "0 \<le> ms"
  shows "ks_live k (ks_pexpire k ms False K) = Some (ZsetV z, Some (ks_now K + ms))"
  using assms by (auto simp: ks_pexpire_def)

lemma zadd_view:
  assumes "ks_live k K = (if z = [] then None else Some (ZsetV z, d))" "rid \<notin> snd ` set z"
  obtains K2 where "ks_zadd k sc rid K = Some K2" "same_elsewhere k K K2" "ks_now K2 = ks_now K"
    "\<exists>d. ks_live k K2 = Some (ZsetV (zset_insert sc rid z), d)"
proof (cases "z = []")
  case True
  then show ?thesis using assms that by (auto simp: ks_zadd_def)
next
  case False
  have f: "filter (\<lambda>(_, m'). m' \<noteq> rid) z = z" using assms(2) by (force simp: filter_id_conv)
  have v: "visible (ks_now K) (Some (ZsetV z', d)) = Some (ZsetV z', d)" for z'
    using assms(1) False by (cases d) (auto simp: ks_live_def visible_def split: option.splits prod.splits if_splits)
  show ?thesis using assms(1) False f v that by (auto simp: ks_zadd_def)
qed

context redis_server
begin

lemma sl_admit:
  assumes "ks_live k (ks s) = (if z = [] then None else Some (ZsetV z, d))" "rid \<notin> snd ` set z"
    "map fst z = map of_int ts" "sorted ts" "\<forall>t \<in> set ts. t \<le> ks_now (ks s)" "sl_params w m"
  shows "\<exists>s1 s2. r_zadd R k (of_int (ks_now (ks s))) rid s = Some s1 \<and> r_pexpire R k (of_int w) False s1 = Some s2
     \<and> sl_holds k (ks s2) (Some \<lparr>sl_times = ts @ [ks_now (ks s)], sl_deadline = ks_now (ks s) + w\<rparr>)
     \<and> (\<exists>m'. r_zrange00 R k s2 = Some [(of_int (hd (ts @ [ks_now (ks s)])), m')])
     \<and> same_elsewhere k (ks s) (ks s2)"
proof -
  let ?now = "ks_now (ks s)"
  let ?z = "zset_insert (of_int ?now) rid z"
  obtain K2 where K2: "ks_zadd k (of_int ?now) rid (ks s) = Some K2" "same_elsewhere k (ks s) K2"
      "ks_now K2 = ?now" "\<exists>d. ks_live k K2 = Some (ZsetV ?z, d)"
    using zadd_view[OF assms(1,2)] by blast
  obtain s1 where s1: "r_zadd R k (of_int ?now) rid s = Some s1" "ks s1 = K2" using zadd_Some[OF K2(1)] by blast
  have w: "1 \<le> w" "w \<le> ttl_limit" using assms(6) by (auto simp: sl_params_def ttl_limit_def)
  obtain s2 where s2: "r_pexpire R k (of_int w) False s1 = Some s2" "ks s2 = ks_pexpire k w False (ks s1)"
    using pexpire_Some[OF w] by blast
  have live: "ks_live k (ks s2) = Some (ZsetV ?z, Some (?now + w))"
    using K2(3,4) s1 s2 w ks_pexpire_zset[of k "ks s1" ?z _ w] by auto
  have srt: "sorted (map fst z)" "\<forall>x \<in> fst ` set z. x \<le> of_int ?now"
  proof -
    show "sorted (map fst z)" using assms(3,4) by (simp add: sorted_map)
    have "fst ` set z = of_int ` set ts" using arg_cong[OF assms(3), of set] by simp
    then show "\<forall>x \<in> fst ` set z. x \<le> of_int ?now" using assms(5) by auto
  qed
  have mf: "map fst ?z = map of_int (ts @ [?now])" using zset_insert_latest[OF srt] assms(3) by simp
  then have "map fst (take 1 ?z) = map of_int (take 1 (ts @ [?now]))" by (metis take_map)
  moreover have "take 1 (ts @ [?now]) = [hd (ts @ [?now])]" by (cases ts) auto
  ultimately have "map fst (take 1 ?z) = [of_int (hd (ts @ [?now]))]" by (simp only: list.map)
  then obtain m' where "take 1 ?z = [(of_int (hd (ts @ [?now])), m')]" by auto
  moreover have "r_zrange00 R k s2 = Some (take 1 ?z)" by (simp add: zrange00 ks_zrange00_def live)
  ultimately have "\<exists>m'. r_zrange00 R k s2 = Some [(of_int (hd (ts @ [?now])), m')]" by simp
  moreover have "sl_holds k (ks s2) (Some \<lparr>sl_times = ts @ [?now], sl_deadline = ?now + w\<rparr>)"
    using live mf by (simp add: sl_holds_def)
  moreover have "same_elsewhere k (ks s) (ks s2)" using K2(2) s1 s2 by simp
  ultimately show ?thesis using s1 s2 by blast
qed

lemma sliding_window_log_refines:
  assumes P: "sl_params w m" and T: "sane_time (ks_clock (ks s))"
    and H: "sl_holds k (ks s) st" and N: "sl_nonneg st" and F: "fresh_id k (ks s) rid"
    and I: "pred_option (sl_inv w m (ks_now (ks s))) st"
  shows "\<exists>s'. sliding_window_log_lua R k w m rid s = (Inr (fst (sl_step w m (ks_now (ks s)) st)), s')
     \<and> sl_holds k (ks s') (snd (sl_step w m (ks_now (ks s)) st)) \<and> same_elsewhere k (ks s) (ks s')"
proof -
  define now where "now = ks_now (ks s)"
  define ts where "ts = sl_window w now st"
  have t: "lua_now_ms (r_time R s) = of_int now" and nb: "0 \<le> now" "now \<le> 2 ^ 51"
    using T by (auto simp: time lua_now_ms_exact now_def ks_now_def sane_time_def mstime_def)
  have pb: "0 < w" "w \<le> 2 ^ 51" "0 < m" "m \<le> 2 ^ 51" using P by (auto simp: sl_params_def)
  have args: "dbl (of_int w) = of_int w" "dbl (of_int m) = of_int m"
    using pb nb by (auto intro!: dbl_of_int)
  have lo: "lsub (of_int now) (of_int w) = of_int (now - w)" using pb nb by (intro lsub_int) auto
  have win: "sorted ts" "int (length ts) \<le> m" "\<forall>x \<in> set ts. x \<le> now"
    using sl_window_props[of w m now st] I pb by (auto simp: ts_def now_def)
  have win0: "\<forall>x \<in> set ts. 0 \<le> x" using N by (cases st) (auto simp: ts_def sl_window_def sl_nonneg_def)
  obtain K1 z d where K1: "ks_zremrangebyscore k (of_int (now - w)) (ks s) = Some K1"
      "same_elsewhere k (ks s) K1" "ks_now K1 = now" "map fst z = map of_int ts"
      "ks_live k K1 = (if z = [] then None else Some (ZsetV z, d))" "rid \<notin> snd ` set z"
    using zrem_view[OF H I, where rid = rid] F unfolding ts_def now_def by metis
  obtain s1 where s1: "r_zremrangebyscore R k (of_int (now - w)) s = Some s1" "ks s1 = K1"
    using zremrangebyscore_Some[OF K1(1)] by blast
  have len: "length z = length ts" using arg_cong[OF K1(4), of length] by simp
  have card: "r_zcard R k s1 = Some (length ts)" using K1(5) s1(2) len by (auto simp: zcard ks_zcard_def)
  have reset: "\<forall>x \<in> set (ts @ [now]). ladd (of_int x) (of_int w) = of_int (x + w)"
    using win win0 nb pb by (intro ballI ladd_int) auto
  have step: "sl_step w m now st = (if int (length ts) < m then
       (\<lparr>lr_allowed = 1, lr_limit = m, lr_remaining = m - int (length ts) - 1, lr_retry = - 1,
          lr_reset = hd (ts @ [now]) + w\<rparr>, Some \<lparr>sl_times = ts @ [now], sl_deadline = now + w\<rparr>)
     else (\<lparr>lr_allowed = 0, lr_limit = m, lr_remaining = 0, lr_retry = max 0 (hd ts + w - now),
          lr_reset = hd ts + w\<rparr>, Some \<lparr>sl_times = ts, sl_deadline = now + w\<rparr>))"
    by (simp add: sl_step_def ts_def Let_def)
  have cmp: "of_nat (length ts) < (of_int m :: rat) \<longleftrightarrow> int (length ts) < m"
    by (metis of_int_less_iff of_int_of_nat_eq)
  show ?thesis
  proof (cases "int (length ts) < m")
    case True
    obtain s2 s3 m' where w: "r_zadd R k (of_int now) rid s1 = Some s2" "r_pexpire R k (of_int w) False s2 = Some s3"
        "sl_holds k (ks s3) (Some \<lparr>sl_times = ts @ [now], sl_deadline = now + w\<rparr>)"
        "r_zrange00 R k s3 = Some [(of_int (hd (ts @ [now])), m')]" "same_elsewhere k (ks s1) (ks s3)"
      using sl_admit[of k s1 z d rid ts w m] K1 s1 win P by auto
    have rem: "lsub (lsub (of_int m) (of_nat (length ts))) 1 = of_int (m - int (length ts) - 1)"
      using lsub_int[of m "int (length ts)"] lsub_int[of "m - int (length ts)" 1] win(2) pb by simp
    have r: "ladd (of_int (hd (ts @ [now]))) (of_int w) = of_int (hd (ts @ [now]) + w)"
      using reset hd_in_set[of "ts @ [now]"] by blast
    have "sliding_window_log_lua R k w m rid s =
        (Inr (lua_return 1 (of_int m) (of_int (m - int (length ts) - 1)) (- 1) (of_int (hd (ts @ [now]) + w))), s3)"
      using True by (simp only: sliding_window_log_lua_def Let_def t args lo s1 card w rem r cmp
          redis_call_simps oldest_reset_at_ms_def list.case prod.case if_True)
    then show ?thesis
      using True w(3,5) K1(2) s1(2) by (auto simp: step lua_return_def now_def[symmetric] simp del: of_int_add of_int_diff intro: same_elsewhere_trans)
  next
    case False
    then have ne: "ts \<noteq> []" using pb by auto
    then have "z \<noteq> []" using len by auto
    have "map fst (take 1 z) = map of_int (take 1 ts)" using K1(4) by (metis take_map)
    moreover have "take 1 ts = [hd ts]" using ne by (cases ts) auto
    ultimately obtain m' where "take 1 z = [(of_int (hd ts), m')]" by auto
    then have zr: "r_zrange00 R k s1 = Some [(of_int (hd ts), m')]"
      using K1(5) s1(2) \<open>z \<noteq> []\<close> by (simp add: zrange00 ks_zrange00_def)
    have w1: "1 \<le> w" "w \<le> ttl_limit" using pb by (auto simp: ttl_limit_def)
    obtain s2 where s2: "r_pexpire R k (of_int w) False s1 = Some s2" "ks s2 = ks_pexpire k w False (ks s1)"
      using pexpire_Some[OF w1] by blast
    have live: "ks_live k (ks s2) = Some (ZsetV z, Some (now + w))"
      using K1 s1 s2 w1 \<open>z \<noteq> []\<close> ks_pexpire_zset[of k "ks s1" z _ w] by auto
    have h: "hd ts \<in> set ts" using ne by simp
    have r: "ladd (of_int (hd ts)) (of_int w) = of_int (hd ts + w)" using reset h by auto
    have r2: "lsub (of_int (hd ts + w)) (of_int now) = of_int (hd ts + w - now)"
      using h win(3) win0 pb nb by (intro lsub_int) fastforce
    have mx: "(if of_int (hd ts + w - now) < (0::rat) then 0 else of_int (hd ts + w - now))
        = (of_int (max 0 (hd ts + w - now)) :: rat)" by (simp add: max_def del: of_int_add of_int_diff)
    have "sliding_window_log_lua R k w m rid s =
        (Inr (lua_return 0 (of_int m) 0 (of_int (max 0 (hd ts + w - now))) (of_int (hd ts + w))), s2)"
      using False by (simp only: sliding_window_log_lua_def Let_def t args lo s1 card zr s2 r r2 mx cmp
          redis_call_simps oldest_reset_at_ms_def list.case prod.case if_False)
    then show ?thesis
      using False live K1(2,4) s1(2) s2(2)
      by (simp add: step lua_return_def now_def[symmetric] sl_holds_def del: of_int_add of_int_diff)
  qed
qed

end

subsection \<open>Properties\<close>

text \<open>
  C3.  On any server that behaves as documented, one run of \<^verbatim>\<open>sliding_window_log.lua\<close> with a
  request id the key does not hold is exactly one step of the automaton \<open>sl_step\<close>, and touches no
  other key.
\<close>

theorem sliding_window_log_script_refines:
  assumes "redis_server R ks" "sl_params w m" "sane_time (ks_clock (ks s))" "sl_holds k (ks s) st"
    and "sl_nonneg st" "fresh_id k (ks s) rid" "pred_option (sl_inv w m (ks_now (ks s))) st"
  shows "\<exists>s'. sliding_window_log_lua R k w m rid s = (Inr (fst (sl_step w m (ks_now (ks s)) st)), s')
     \<and> sl_holds k (ks s') (snd (sl_step w m (ks_now (ks s)) st)) \<and> same_elsewhere k (ks s) (ks s')"
  using assms by (rule redis_server.sliding_window_log_refines)

definition demo_log_keyspace :: keyspace where
  "demo_log_keyspace = \<lparr>ks_clock = (100, 0),
     ks_data = (\<lambda>_. None)(''k'' := Some (ZsetV [(99500, ''a'')], Some 159500))\<rparr>"

theorem sliding_window_log_script_refines_witness:
  "\<exists>s'. sliding_window_log_lua mem_redis ''k'' 60000 1 ''b'' demo_log_keyspace =
      (Inr \<lparr>lr_allowed = 0, lr_limit = 1, lr_remaining = 0, lr_retry = 59500, lr_reset = 159500\<rparr>, s')
    \<and> sl_holds ''k'' s' (Some \<lparr>sl_times = [99500], sl_deadline = 160000\<rparr>)"
proof -
  let ?st = "Some \<lparr>sl_times = [99500], sl_deadline = 159500\<rparr>"
  have n: "ks_now demo_log_keyspace = 100000" by (simp add: ks_now_def mstime_def demo_log_keyspace_def)
  then have l: "ks_live ''k'' demo_log_keyspace = Some (ZsetV [(99500, ''a'')], Some 159500)"
    by (simp add: ks_live_def) (simp add: demo_log_keyspace_def)
  have h: "sl_params 60000 1" "sane_time (ks_clock (id demo_log_keyspace))"
      "sl_holds ''k'' (id demo_log_keyspace) ?st" "sl_nonneg ?st" "fresh_id ''k'' (id demo_log_keyspace) ''b''"
      "pred_option (sl_inv 60000 1 (ks_now (id demo_log_keyspace))) ?st"
    by (simp_all add: sl_params_def sl_holds_def l n sl_nonneg_def fresh_id_def sl_inv_def)
      (simp_all add: sane_time_def demo_log_keyspace_def)
  show ?thesis
    using sliding_window_log_script_refines[OF mem.redis_server_axioms h]
    by (auto simp: sl_step_def sl_window_def n)
qed

text \<open>
  C4.  The sliding log is exact: whatever the sequence of requests, and with the key expiring as
  Redis expires it, no window of length \<open>w\<close>, wherever it starts, contains more than the limit of
  admitted requests.
\<close>

theorem sliding_window_log_exact:
  assumes "0 < w" "0 < m" "sorted ts"
  shows "int (length (filter (\<lambda>t. a < t \<and> t \<le> a + w)
      (admitted (lim_run (sl_step w m) sl_deadline ts None)))) \<le> m"
proof (cases ts)
  case (Cons t us)
  with assms sl_run_bound[of w m t None ts a] show ?thesis by (simp add: sl_logged_def count_in_def)
qed (use assms in simp)

theorem sliding_window_log_exact_witness:
  "int (length (filter (\<lambda>t. 4 < t \<and> t \<le> 4 + 10)
      (admitted (lim_run (sl_step 10 2) sl_deadline [0, 3, 5, 11, 14, 40] None)))) \<le> 2"
  by (rule sliding_window_log_exact) simp_all

text \<open>
  The TTL of the log is sound: the reply to a request, and the entries it leaves, are the same
  whether or not Redis has dropped the key since its deadline.
\<close>

theorem sliding_window_log_expiry_unobservable:
  assumes "0 < w" "0 < m" "pred_option (sl_inv w m t0) st" "t0 \<le> now"
  shows "fst (sl_step w m now (lim_expire sl_deadline now st)) = fst (sl_step w m now st)
    \<and> map_option sl_times (snd (sl_step w m now (lim_expire sl_deadline now st)))
      = map_option sl_times (snd (sl_step w m now st))"
  using sl.expiry_unobservable[of "(w, m)" t0 st now] assms by (simp add: sl_valid_def)

theorem sliding_window_log_expiry_unobservable_witness:
  "fst (sl_step 10 1 25 None) = fst (sl_step 10 1 25 (Some \<lparr>sl_times = [3], sl_deadline = 13\<rparr>))"
  using sliding_window_log_expiry_unobservable[of 10 1 3 "Some \<lparr>sl_times = [3], sl_deadline = 13\<rparr>" 25]
  by (simp add: sl_inv_def)

end
