(* ===== verification/Sliding_Window_Counter.thy ===== *)
theory Sliding_Window_Counter
  imports Limiter_Interface
begin

text \<open>
  \<^verbatim>\<open>services/rate_limiter/sliding_window_counter.py\<close> and \<^verbatim>\<open>scripts/sliding_window_counter.lua\<close>:
  windows aligned to multiples of the window length, the count of the previous window weighted
  into the current one.  The weight and the estimate are doubles, so the automaton \<open>sc_step\<close>
  computes them with the same rounding as the script.
\<close>

subsection \<open>The script and its Python wrapper\<close>

definition sliding_window_counter_lua ::
  "'s redis_api \<Rightarrow> string \<Rightarrow> int \<Rightarrow> int \<Rightarrow> 's \<Rightarrow> (script_error + lua_reply) \<times> 's" where
  "sliding_window_counter_lua R key argv1 argv2 s =
    (let window_size_ms = dbl (of_int argv1); max_requests = dbl (of_int argv2);
         now_ms = lua_now_ms (r_time R s);
         window_start_ms = lmul (of_int \<lfloor>ldiv now_ms window_size_ms\<rfloor>) window_size_ms in
     redis_call (r_hmget R key s) s (\<lambda>data.
       let stored_window_start = data ''window_start_ms'';
           curr_count = (case data ''curr_count'' of None \<Rightarrow> 0 | Some x \<Rightarrow> x);
           prev_count = (case data ''prev_count'' of None \<Rightarrow> 0 | Some x \<Rightarrow> x);
           (stored_window_start, curr_count, prev_count) =
             (case stored_window_start of
                None \<Rightarrow> (window_start_ms, curr_count, prev_count)
              | Some sws \<Rightarrow>
                  if sws \<noteq> window_start_ms then
                    (window_start_ms, 0,
                     if lsub window_start_ms sws = window_size_ms then curr_count else 0)
                  else (sws, curr_count, prev_count));
           elapsed_in_window_ms = lsub now_ms window_start_ms;
           weight = lsub 1 (ldiv elapsed_in_window_ms window_size_ms);
           estimated_count = ladd (lmul prev_count weight) curr_count;
           reset_at_ms = ladd window_start_ms window_size_ms in
       if estimated_count < max_requests then
         let curr_count = ladd curr_count 1 in
         redis_call (r_hset R key [(''window_start_ms'', stored_window_start), (''curr_count'', curr_count),
             (''prev_count'', prev_count)] s) s (\<lambda>s1.
         redis_call (r_pexpire R key (lmul window_size_ms 2) False s1) s1 (\<lambda>s2.
           let remaining = of_int \<lfloor>lsub (lsub max_requests estimated_count) 1\<rfloor>;
               remaining = (if remaining < 0 then 0 else remaining) in
           (Inr (lua_return 1 max_requests remaining (- 1) reset_at_ms), s2)))
       else
         redis_call (r_hset R key [(''window_start_ms'', stored_window_start), (''curr_count'', curr_count),
             (''prev_count'', prev_count)] s) s (\<lambda>s1.
         redis_call (r_pexpire R key (lmul window_size_ms 2) False s1) s1 (\<lambda>s2.
           let retry_after_ms = lsub window_size_ms elapsed_in_window_ms;
               retry_after_ms = (if retry_after_ms < 0 then 0 else retry_after_ms) in
           (Inr (lua_return 0 max_requests 0 retry_after_ms reset_at_ms), s2)))))"

definition sliding_window_counter_key :: "string \<Rightarrow> string \<Rightarrow> string" where
  "sliding_window_counter_key scope identifier_key =
     ''rl:sliding_window_counter:'' @ scope @ '':'' @ identifier_key"

definition sliding_window_counter_check :: "'s redis_api \<Rightarrow> link \<Rightarrow> int \<Rightarrow> int \<Rightarrow> string \<Rightarrow> string \<Rightarrow> 's \<Rightarrow>
    (check_error + rate_limit_result) \<times> 's" where
  "sliding_window_counter_check R l window_size_ms max_requests scope identifier_key s =
     reply_to_result (run_script l
       (sliding_window_counter_lua R (sliding_window_counter_key scope identifier_key)
          window_size_ms max_requests) s)"

subsection \<open>The automaton of one key\<close>

record swc =
  sc_start :: int
  sc_curr :: int
  sc_prev :: int
  sc_deadline :: int

definition aligned :: "int \<Rightarrow> int \<Rightarrow> int" where
  "aligned w t = t div w * w"

definition sc_roll :: "int \<Rightarrow> int \<Rightarrow> swc option \<Rightarrow> swc" where
  "sc_roll w now st = (case st of
       None \<Rightarrow> \<lparr>sc_start = aligned w now, sc_curr = 0, sc_prev = 0, sc_deadline = now + 2 * w\<rparr>
     | Some x \<Rightarrow> if sc_start x = aligned w now then x\<lparr>sc_deadline := now + 2 * w\<rparr>
         else \<lparr>sc_start = aligned w now, sc_curr = 0,
            sc_prev = (if aligned w now - sc_start x = w then sc_curr x else 0), sc_deadline = now + 2 * w\<rparr>)"

definition sc_estimate :: "int \<Rightarrow> int \<Rightarrow> swc \<Rightarrow> rat" where
  "sc_estimate w now x =
     ladd (lmul (of_int (sc_prev x)) (lsub 1 (ldiv (of_int (now - aligned w now)) (of_int w)))) (of_int (sc_curr x))"

definition sc_step :: "int \<Rightarrow> int \<Rightarrow> int \<Rightarrow> swc option \<Rightarrow> lua_reply \<times> swc option" where
  "sc_step w m now st = (let x = sc_roll w now st; est = sc_estimate w now x; reset = aligned w now + w in
     if est < of_int m then
       (\<lparr>lr_allowed = 1, lr_limit = m, lr_remaining = max 0 \<lfloor>lsub (lsub (of_int m) est) 1\<rfloor>,
          lr_retry = - 1, lr_reset = reset\<rparr>,
        Some (x\<lparr>sc_curr := sc_curr x + 1\<rparr>))
     else
       (\<lparr>lr_allowed = 0, lr_limit = m, lr_remaining = 0,
          lr_retry = max 0 (w - (now - aligned w now)), lr_reset = reset\<rparr>,
        Some x))"

definition sc_inv :: "int \<Rightarrow> int \<Rightarrow> int \<Rightarrow> swc \<Rightarrow> bool" where
  "sc_inv w m now x \<longleftrightarrow> 0 \<le> sc_curr x \<and> sc_curr x \<le> m \<and> 0 \<le> sc_prev x \<and> sc_prev x \<le> m
     \<and> sc_start x \<le> now \<and> w dvd sc_start x \<and> sc_start x + 2 * w \<le> sc_deadline x"

definition sc_valid :: "int \<times> int \<Rightarrow> bool" where
  "sc_valid c \<longleftrightarrow> 0 < fst c \<and> 0 < snd c \<and> snd c \<le> 2 ^ 51"

lemma aligned_bounds: "0 < w \<Longrightarrow> aligned w t \<le> t" "0 < w \<Longrightarrow> t < aligned w t + w" "w dvd aligned w t"
proof -
  have "t = aligned w t + t mod w" by (simp add: aligned_def)
  moreover have "0 < w \<Longrightarrow> 0 \<le> t mod w \<and> t mod w < w" by simp
  ultimately show "0 < w \<Longrightarrow> aligned w t \<le> t" "0 < w \<Longrightarrow> t < aligned w t + w" by linarith+
qed (simp add: aligned_def)

lemma aligned_mono: "0 < w \<Longrightarrow> s \<le> t \<Longrightarrow> aligned w s \<le> aligned w t"
  by (simp add: aligned_def zdiv_mono1 mult_right_mono)

lemma aligned_ge: "0 < w \<Longrightarrow> w dvd a \<Longrightarrow> a \<le> t \<Longrightarrow> a \<le> aligned w t"
  using aligned_mono[of w a t] by (simp add: aligned_def)

lemma weight_bounds:
  assumes "0 < w"
  shows "0 \<le> lsub 1 (ldiv (of_int (now - aligned w now)) (of_int w))"
    and "lsub 1 (ldiv (of_int (now - aligned w now)) (of_int w)) \<le> 1"
proof -
  let ?q = "ldiv (of_int (now - aligned w now)) (of_int w)"
  have b: "0 \<le> now - aligned w now" "now - aligned w now \<le> w"
    using aligned_bounds(1,2)[OF assms, of now] by linarith+
  have "(0::rat) \<le> of_int (now - aligned w now) / of_int w"
    using b assms by (simp del: of_int_diff)
  moreover have "of_int (now - aligned w now) / of_int w \<le> (of_int 1 :: rat)"
    using b assms by (simp add: divide_le_eq del: of_int_diff)
  ultimately have q: "0 \<le> ?q" "?q \<le> of_int 1"
    unfolding ldiv_def by (auto intro: dbl.fl_nonneg dbl.fl_le_int simp del: of_int_1)
  then show "0 \<le> lsub 1 ?q" unfolding lsub_def by (intro dbl.fl_nonneg) simp
  have "1 - ?q \<le> of_int 1" using q by simp
  then have "dbl (1 - ?q) \<le> of_int 1" by (rule dbl.fl_le_int) simp
  then show "lsub 1 ?q \<le> 1" by (simp add: lsub_def)
qed

lemma sc_estimate_ge:
  assumes "0 < w" "0 \<le> sc_prev x" "0 \<le> sc_curr x" "sc_curr x \<le> 2 ^ 52"
  shows "of_int (sc_curr x) \<le> sc_estimate w now x"
proof -
  have "0 \<le> lmul (of_int (sc_prev x)) (lsub 1 (ldiv (of_int (now - aligned w now)) (of_int w)))"
    unfolding lmul_def using assms(2) weight_bounds(1)[OF assms(1)] by (intro dbl.fl_nonneg) simp
  then show ?thesis unfolding sc_estimate_def ladd_def[of "lmul _ _"] using assms(3,4)
    by (intro dbl.fl_ge_int) auto
qed

lemma sc_roll_inv:
  assumes "0 < w" "0 < m" "pred_option (sc_inv w m now) st"
  shows "sc_inv w m now (sc_roll w now st)" "sc_start (sc_roll w now st) = aligned w now"
  using assms aligned_bounds(1,2)[OF assms(1), of now]
  by (cases st; auto simp: sc_roll_def sc_inv_def aligned_bounds(3))+

lemma sc_step_curr:
  assumes "0 < w" "0 < m" "m \<le> 2 ^ 51" "pred_option (sc_inv w m now) st"
    "sc_estimate w now (sc_roll w now st) < of_int m"
  shows "sc_curr (sc_roll w now st) < m"
proof -
  have "of_int (sc_curr (sc_roll w now st)) < (of_int m :: rat)"
    using sc_roll_inv(1)[OF assms(1,2,4)] assms sc_estimate_ge[OF assms(1), of "sc_roll w now st" now]
    by (force simp: sc_inv_def)
  then show ?thesis by simp
qed

lemma sc_step_inv:
  assumes "0 < w" "0 < m" "m \<le> 2 ^ 51" "pred_option (sc_inv w m now) st"
  shows "pred_option (sc_inv w m now) (snd (sc_step w m now st))"
  using sc_roll_inv(1)[OF assms(1,2,4)] sc_step_curr[OF assms]
  by (auto simp: sc_step_def Let_def sc_inv_def)

lemma sc_remaining_less:
  assumes "0 \<le> est" "0 < m" "m \<le> 2 ^ 51"
  shows "\<lfloor>lsub (lsub (of_int m) est) 1\<rfloor> < m"
proof -
  have "lsub (of_int m) est \<le> of_int m"
    unfolding lsub_def using assms by (intro dbl.fl_le_int) auto
  then have "lsub (of_int m) est - 1 \<le> of_int (m - 1)" by simp
  then have "lsub (lsub (of_int m) est) 1 \<le> of_int (m - 1)"
    unfolding lsub_def[of "lsub _ _"] using assms by (intro dbl.fl_le_int) auto
  then show ?thesis by linarith
qed

lemma sc_step_reply:
  assumes "0 < w" "0 < m" "m \<le> 2 ^ 51" "pred_option (sc_inv w m now) st"
  shows "reply_ok m now (fst (sc_step w m now st))"
proof -
  have "0 \<le> sc_estimate w now (sc_roll w now st)"
    using sc_roll_inv(1)[OF assms(1,2,4)] sc_estimate_ge[OF assms(1), of "sc_roll w now st" now] assms(3)
    by (force simp: sc_inv_def)
  from sc_remaining_less[OF this assms(2,3)] aligned_bounds(1,2)[OF assms(1), of now] assms(2) show ?thesis
    by (auto simp: sc_step_def Let_def reply_ok_def)
qed

interpretation sc: expiring_limiter sc_valid "\<lambda>c. sc_step (fst c) (snd c)" sc_deadline
    "\<lambda>c. sc_inv (fst c) (snd c)" snd "\<lambda>x. (sc_start x, sc_curr x, sc_prev x)"
proof unfold_locales
  fix c :: "int \<times> int" and t0 now :: int and x :: swc
  assume a: "sc_valid c" "sc_inv (fst c) (snd c) t0 x" "t0 \<le> now" "sc_deadline x < now"
  then have "fst c dvd sc_start x + 2 * fst c" "sc_start x + 2 * fst c \<le> now" by (auto simp: sc_inv_def)
  then have "sc_start x + 2 * fst c \<le> aligned (fst c) now"
    using a by (intro aligned_ge) (auto simp: sc_valid_def)
  then have "sc_roll (fst c) now (Some x) = sc_roll (fst c) now None"
    using a by (auto simp: sc_roll_def sc_valid_def)
  then show "fst (sc_step (fst c) (snd c) now (Some x)) = fst (sc_step (fst c) (snd c) now None) \<and>
      map_option (\<lambda>x. (sc_start x, sc_curr x, sc_prev x)) (snd (sc_step (fst c) (snd c) now (Some x))) =
      map_option (\<lambda>x. (sc_start x, sc_curr x, sc_prev x)) (snd (sc_step (fst c) (snd c) now None))"
    by (simp add: sc_step_def)
qed (auto simp: sc_valid_def intro: sc_step_inv sc_step_reply, auto simp: sc_inv_def)

subsection \<open>The script refines the automaton\<close>

definition sc_hash :: "swc \<Rightarrow> string \<Rightarrow> rat option" where
  "sc_hash x = (\<lambda>_. None)(''window_start_ms'' := Some (of_int (sc_start x)),
     ''curr_count'' := Some (of_int (sc_curr x)), ''prev_count'' := Some (of_int (sc_prev x)))"

definition sc_holds :: "string \<Rightarrow> keyspace \<Rightarrow> swc option \<Rightarrow> bool" where
  "sc_holds k K st \<longleftrightarrow> ks_live k K = map_option (\<lambda>x. (HashV (sc_hash x), Some (sc_deadline x))) st"

definition sc_params :: "int \<Rightarrow> int \<Rightarrow> bool" where
  "sc_params w m \<longleftrightarrow> 0 < w \<and> w \<le> 2 ^ 51 \<and> 0 < m \<and> m \<le> 2 ^ 51"

definition sc_nonneg :: "swc option \<Rightarrow> bool" where
  "sc_nonneg st \<longleftrightarrow> pred_option (\<lambda>x. 0 \<le> sc_start x) st"

lemma sc_hash_sel [simp]:
  "sc_hash x ''window_start_ms'' = Some (of_int (sc_start x))"
  "sc_hash x ''curr_count'' = Some (of_int (sc_curr x))"
  "sc_hash x ''prev_count'' = Some (of_int (sc_prev x))"
  by (simp_all add: sc_hash_def)

definition sc_fields :: "swc \<Rightarrow> (string \<times> rat) list" where
  "sc_fields x = [(''window_start_ms'', of_int (sc_start x)), (''curr_count'', of_int (sc_curr x)),
     (''prev_count'', of_int (sc_prev x))]"

lemma sc_hash_put: "hash_put (sc_fields x) (\<lambda>_. None) = sc_hash x" "hash_put (sc_fields x) (sc_hash y) = sc_hash x"
  by (auto simp: sc_fields_def sc_hash_def)

text \<open>The quotient of two doubles can be rounded up, but never across an integer here.\<close>

lemma floor_ldiv_int:
  assumes "0 \<le> a" "a < 2 ^ 53" "0 < w"
  shows "\<lfloor>ldiv (of_int a) (of_int w)\<rfloor> = a div w"
proof -
  let ?x = "of_int a / of_int w :: rat"
  have q: "0 \<le> a div w" "a div w \<le> a"
    using assms zdiv_mono2[of a 1 w] by (auto simp: pos_imp_zdiv_nonneg_iff)
  have f: "\<lfloor>?x\<rfloor> = a div w" by (rule floor_divide_of_int_eq)
  have "of_int (a div w) \<le> ?x" using f by linarith
  then have lo: "of_int (a div w) \<le> ldiv (of_int a) (of_int w)"
    unfolding ldiv_def using q assms by (intro dbl.fl_ge_int) auto
  have "a < (a div w + 1) * w" using assms(3) by (metis div_mult_mod_eq add_less_cancel_left distrib_right mult_1 pos_mod_bound)
  then have "a + 1 \<le> (a div w + 1) * w" by linarith
  then have "(of_int (a + 1) :: rat) \<le> of_int ((a div w + 1) * w)" by (simp only: of_int_le_iff)
  then have gap: "?x + 1 / of_int w \<le> of_int (a div w) + 1"
    using assms(3) by (simp add: field_simps)
  have "?x / 2 ^ 53 < 1 / of_int w"
  proof -
    have "(of_int a :: rat) < of_int (2 ^ 53)" using assms(2) by (simp only: of_int_less_iff)
    then show ?thesis using assms(3) by (simp add: field_simps)
  qed
  moreover have "ldiv (of_int a) (of_int w) \<le> ?x * (1 + 1 / 2 ^ 53)"
    unfolding ldiv_def using assms by (intro dbl.fl_upper) simp
  ultimately have "ldiv (of_int a) (of_int w) < of_int (a div w) + 1"
    using gap by (simp add: distrib_left)
  with lo show ?thesis by linarith
qed

context redis_server
begin

lemma sc_write:
  assumes "sc_holds k (ks s) st" "sc_params w m" "sc_deadline x = ks_now (ks s) + 2 * w"
  shows "\<exists>s1 s2. r_hset R k (sc_fields x) s = Some s1 \<and> r_pexpire R k (of_int (w * 2)) False s1 = Some s2
     \<and> sc_holds k (ks s2) (Some x) \<and> same_elsewhere k (ks s) (ks s2)"
proof -
  have b: "1 \<le> w * 2" "w * 2 \<le> ttl_limit" using assms(2) by (auto simp: sc_params_def ttl_limit_def)
  show ?thesis
  proof (cases st)
    case None
    then have "ks_live k (ks s) = None" using assms(1) by (simp add: sc_holds_def)
    from hash_write_fresh[OF this b, of "sc_fields x" False] show ?thesis
      unfolding sc_hash_put sc_holds_def by (simp add: assms(3) mult.commute)
  next
    case (Some y)
    then have "ks_live k (ks s) = Some (HashV (sc_hash y), Some (sc_deadline y))"
      using assms(1) by (simp add: sc_holds_def)
    from hash_write_hash[OF this b, of "sc_fields x" False] show ?thesis
      unfolding sc_hash_put sc_holds_def by (simp add: assms(3) mult.commute)
  qed
qed

lemma sliding_window_counter_refines:
  assumes P: "sc_params w m" and T: "sane_time (ks_clock (ks s))"
    and H: "sc_holds k (ks s) st" and N: "sc_nonneg st"
    and I: "pred_option (sc_inv w m (ks_now (ks s))) st"
  shows "\<exists>s'. sliding_window_counter_lua R k w m s = (Inr (fst (sc_step w m (ks_now (ks s)) st)), s')
     \<and> sc_holds k (ks s') (snd (sc_step w m (ks_now (ks s)) st)) \<and> same_elsewhere k (ks s) (ks s')"
proof -
  define now where "now = ks_now (ks s)"
  define x where "x = sc_roll w now st"
  define a where "a = aligned w now"
  have t: "lua_now_ms (r_time R s) = of_int now" and nb: "0 \<le> now" "now \<le> 2 ^ 51"
    using T by (auto simp: time lua_now_ms_exact now_def ks_now_def sane_time_def mstime_def)
  have pb: "0 < w" "w \<le> 2 ^ 51" "0 < m" "m \<le> 2 ^ 51" using P by (auto simp: sc_params_def)
  have args: "dbl (of_int w) = of_int w" "dbl (of_int m) = of_int m"
    using pb by (auto intro!: dbl_of_int)
  have ab: "0 \<le> a" "a \<le> now" "now < a + w"
    using aligned_bounds(1,2)[OF pb(1), of now] aligned_ge[of w 0 now] pb nb by (auto simp: a_def)
  have xi: "sc_inv w m now x" "sc_start x = a" "sc_deadline x = now + 2 * w"
    using sc_roll_inv[OF pb(1,3)] I by (auto simp: x_def a_def now_def sc_roll_def split: option.splits)
  then have xb: "0 \<le> sc_curr x" "sc_curr x \<le> m" by (auto simp: sc_inv_def)
  have ws: "lmul (of_int \<lfloor>ldiv (of_int now) (of_int w)\<rfloor>) (of_int w) = of_int a"
    using floor_ldiv_int[of now w] nb pb ab lmul_int[of "now div w" w] by (simp add: a_def aligned_def)
  obtain data where data: "r_hmget R k s = Some data"
    and win: "(case data ''window_start_ms'' of
         None \<Rightarrow> (of_int a, case data ''curr_count'' of None \<Rightarrow> 0 | Some x \<Rightarrow> x, case data ''prev_count'' of None \<Rightarrow> 0 | Some x \<Rightarrow> x)
       | Some sws \<Rightarrow> if sws \<noteq> of_int a then (of_int a, 0, if lsub (of_int a) sws = of_int w
            then (case data ''curr_count'' of None \<Rightarrow> 0 | Some x \<Rightarrow> x) else 0)
          else (sws, case data ''curr_count'' of None \<Rightarrow> 0 | Some x \<Rightarrow> x, case data ''prev_count'' of None \<Rightarrow> 0 | Some x \<Rightarrow> x))
       = (of_int a, of_int (sc_curr x), of_int (sc_prev x))"
  proof (cases st)
    case None
    then have "r_hmget R k s = Some (\<lambda>_. None)" using H by (simp add: hmget ks_hmget_def sc_holds_def)
    then show ?thesis using that[of "\<lambda>_. None"] None by (simp add: x_def sc_roll_def)
  next
    case (Some y)
    then have "r_hmget R k s = Some (sc_hash y)" using H by (simp add: hmget ks_hmget_def sc_holds_def)
    moreover have "lsub (of_int a) (of_int (sc_start y)) = of_int (a - sc_start y)"
      using N I Some nb ab by (intro lsub_int) (auto simp: sc_nonneg_def sc_inv_def now_def)
    ultimately show ?thesis
      using that[of "sc_hash y"] Some by (auto simp: x_def a_def sc_roll_def simp del: of_int_diff)
  qed
  have reset: "ladd (of_int a) (of_int w) = of_int (a + w)" using ab nb pb by (intro ladd_int) auto
  have el: "lsub (of_int now) (of_int a) = of_int (now - a)" using ab nb pb by (intro lsub_int) auto
  have re: "lsub (of_int w) (of_int (now - a)) = of_int (w - (now - a))" using ab nb pb by (intro lsub_int) auto
  have ttl: "lmul (of_int w) 2 = of_int (w * 2)" using lmul_int[of w 2] pb by simp
  define est where "est = sc_estimate w now x"
  have est: "ladd (lmul (of_int (sc_prev x)) (lsub 1 (ldiv (of_int (now - a)) (of_int w)))) (of_int (sc_curr x)) = est"
    by (simp add: est_def sc_estimate_def a_def)
  note facts = data win reset el re ttl est sc_step_def Let_def lua_return_def
  show ?thesis
  proof (cases "est < of_int m")
    case True
    have c: "ladd (of_int (sc_curr x)) 1 = of_int (sc_curr x + 1)"
      using ladd_int[of "sc_curr x" 1] xb pb by simp
    have f: "[(''window_start_ms'', of_int a), (''curr_count'', of_int (sc_curr x + 1)), (''prev_count'', of_int (sc_prev x))]
        = sc_fields (x\<lparr>sc_curr := sc_curr x + 1\<rparr>)" by (simp add: sc_fields_def xi(2))
    obtain s1 s2 where w: "r_hset R k (sc_fields (x\<lparr>sc_curr := sc_curr x + 1\<rparr>)) s = Some s1"
        "r_pexpire R k (of_int (w * 2)) False s1 = Some s2" "sc_holds k (ks s2) (Some (x\<lparr>sc_curr := sc_curr x + 1\<rparr>))"
        "same_elsewhere k (ks s) (ks s2)"
      using sc_write[OF H P, of "x\<lparr>sc_curr := sc_curr x + 1\<rparr>"] xi(3) by (auto simp: now_def)
    have "(if of_int n < (0::rat) then 0 else of_int n) = (of_int (max 0 n) :: rat)" for n
      by (simp add: max_def)
    with True w show ?thesis unfolding sliding_window_counter_lua_def Let_def t args ws
      by (simp add: facts c f x_def[symmetric] now_def[symmetric] est_def[symmetric] a_def[symmetric]
          del: of_int_add of_int_diff of_int_mult)
  next
    case False
    have f: "[(''window_start_ms'', of_int a), (''curr_count'', of_int (sc_curr x)), (''prev_count'', of_int (sc_prev x))]
        = sc_fields x" by (simp add: sc_fields_def xi(2))
    obtain s1 s2 where w: "r_hset R k (sc_fields x) s = Some s1"
        "r_pexpire R k (of_int (w * 2)) False s1 = Some s2" "sc_holds k (ks s2) (Some x)"
        "same_elsewhere k (ks s) (ks s2)"
      using sc_write[OF H P, of x] xi(3) by (auto simp: now_def)
    have "(if of_int n < (0::rat) then 0 else of_int n) = (of_int (max 0 n) :: rat)" for n
      by (simp add: max_def)
    with False w show ?thesis unfolding sliding_window_counter_lua_def Let_def t args ws
      by (simp add: facts f x_def[symmetric] now_def[symmetric] est_def[symmetric] a_def[symmetric]
          del: of_int_add of_int_diff of_int_mult)
  qed
qed

end

subsection \<open>How much an aligned window admits\<close>

definition window_count :: "int \<Rightarrow> int \<Rightarrow> int list \<Rightarrow> int" where
  "window_count w b ts = int (length (filter (\<lambda>t. aligned w t = b) ts))"

definition sc_used :: "int \<Rightarrow> swc option \<Rightarrow> int" where
  "sc_used b st = (case st of None \<Rightarrow> 0 | Some x \<Rightarrow> if sc_start x = b then sc_curr x else 0)"

lemma window_count_simps [simp]:
  "window_count w b [] = 0"
  "window_count w b (t # ts) = (if aligned w t = b then 1 else 0) + window_count w b ts"
  by (simp_all add: window_count_def)

lemma window_count_none: "\<forall>t \<in> set ts. aligned w t \<noteq> b \<Longrightarrow> window_count w b ts = 0"
  by (auto simp: window_count_def filter_empty_conv)

lemma sc_used_bounds: "0 < m \<Longrightarrow> pred_option (sc_inv w m t) st \<Longrightarrow> 0 \<le> sc_used b st \<and> sc_used b st \<le> m"
  by (cases st) (auto simp: sc_used_def sc_inv_def)

lemma sc_inv_aligned: "0 < w \<Longrightarrow> sc_inv w m t x \<Longrightarrow> t \<le> t' \<Longrightarrow> sc_start x \<le> aligned w t'"
  by (intro aligned_ge) (auto simp: sc_inv_def)

lemma sc_used_step:
  assumes "0 < w" "0 < m" "pred_option (sc_inv w m t0) st" "t0 \<le> t"
  shows "sc_used (aligned w t) (snd (sc_step w m t (lim_expire sc_deadline t st))) =
      sc_used (aligned w t) st + (if lr_allowed (fst (sc_step w m t (lim_expire sc_deadline t st))) = 1 then 1 else 0)"
proof -
  have "sc_curr (sc_roll w t (lim_expire sc_deadline t st)) = sc_used (aligned w t) st"
  proof (cases st)
    case (Some x)
    have "sc_start x = aligned w t \<Longrightarrow> t < sc_deadline x"
      using assms Some aligned_bounds(2)[OF assms(1), of t] by (auto simp: sc_inv_def)
    then show ?thesis by (auto simp: Some sc_roll_def sc_used_def)
  qed (simp add: sc_roll_def sc_used_def)
  moreover have "sc_start (sc_roll w t s) = aligned w t" for s by (auto simp: sc_roll_def split: option.splits)
  ultimately show ?thesis by (auto simp: sc_step_def Let_def sc_used_def)
qed

lemma sc_run_bound:
  assumes "sc_valid (w, m)" "pred_option (sc_inv w m t0) st" "sorted (t0 # ts)"
  shows "sc_used b st + window_count w b (admitted (lim_run (sc_step w m) sc_deadline ts st)) \<le> m"
  using assms
proof (induction ts arbitrary: t0 st)
  case Nil
  then show ?case using sc_used_bounds[of m w t0 st b] by (simp add: sc_valid_def)
next
  case (Cons t ts)
  let ?run = "lim_run (sc_step w m) sc_deadline"
  have v: "0 < w" "0 < m" "m \<le> 2 ^ 51" using Cons.prems(1) by (auto simp: sc_valid_def)
  define st1 where "st1 = lim_expire sc_deadline t st"
  define st2 where "st2 = snd (sc_step w m t st1)"
  have i1: "pred_option (sc_inv w m t) st1"
    using sc.inv_expire[of "(w, m)" t0 st t] Cons.prems by (simp add: st1_def)
  have i2: "pred_option (sc_inv w m t) st2" using sc_step_inv[OF v i1] by (simp add: st2_def)
  have IH: "sc_used b st2 + window_count w b (admitted (?run ts st2)) \<le> m"
    using Cons.IH[OF Cons.prems(1) i2] Cons.prems(3) by auto
  have run: "admitted (?run (t # ts) st) =
      (if lr_allowed (fst (sc_step w m t st1)) = 1 then [t] else []) @ admitted (?run ts st2)"
    by (simp add: st1_def st2_def)
  consider "aligned w t = b" | "aligned w t < b" | "b < aligned w t" by linarith
  then show ?case
  proof cases
    case 1
    then show ?thesis using IH sc_used_step[OF v(1,2) Cons.prems(2), of t] Cons.prems(3)
      unfolding run st2_def st1_def by auto
  next
    case 2
    have "sc_used b st = 0"
      using 2 Cons.prems(2,3) sc_inv_aligned[OF v(1)] by (cases st) (fastforce simp: sc_used_def)+
    then show ?thesis using IH 2 sc_used_bounds[OF v(2) i2, of b] unfolding run by auto
  next
    case 3
    have "\<forall>u \<in> set (t # ts). b < aligned w u"
      using 3 Cons.prems(3) aligned_mono[OF v(1), of t] by fastforce
    then have "window_count w b (admitted (?run (t # ts) st)) = 0"
      using admitted_lim_run_times[of "sc_step w m" sc_deadline "t # ts" st]
      by (intro window_count_none) (metis less_irrefl subsetD)
    then show ?thesis using sc_used_bounds[OF v(2) Cons.prems(2), of b] by simp
  qed
qed

subsection \<open>Properties\<close>

text \<open>
  C5.  One run of \<^verbatim>\<open>sliding_window_counter.lua\<close> is one step of \<open>sc_step\<close>: the same reply, the
  automaton's next state in the key with a deadline two windows ahead, and no other key touched.
  The window boundary \<^verbatim>\<open>math.floor(now_ms / window_size_ms) * window_size_ms\<close> is exact although
  the quotient is rounded.
\<close>

theorem sliding_window_counter_script_refines:
  assumes "redis_server R ks" "sc_params w m" "sane_time (ks_clock (ks s))"
    and "sc_holds k (ks s) st" "sc_nonneg st" "pred_option (sc_inv w m (ks_now (ks s))) st"
  shows "\<exists>s'. sliding_window_counter_lua R k w m s = (Inr (fst (sc_step w m (ks_now (ks s)) st)), s')
     \<and> sc_holds k (ks s') (snd (sc_step w m (ks_now (ks s)) st)) \<and> same_elsewhere k (ks s) (ks s')"
  using assms by (rule redis_server.sliding_window_counter_refines)

definition sc_keyspace :: keyspace where
  "sc_keyspace = \<lparr>ks_clock = (1700000000, 250000), ks_data = (\<lambda>_. None)\<rparr>"

theorem sliding_window_counter_script_refines_witness:
  "\<exists>s'. sliding_window_counter_lua mem_redis ''k'' 60000 100 sc_keyspace =
      (Inr \<lparr>lr_allowed = 1, lr_limit = 100, lr_remaining = 99, lr_retry = - 1, lr_reset = 1700000040000\<rparr>, s')
    \<and> sc_holds ''k'' s' (Some \<lparr>sc_start = 1699999980000, sc_curr = 1, sc_prev = 0, sc_deadline = 1700000120250\<rparr>)"
proof -
  have h: "sc_params 60000 100" "sane_time (ks_clock (id sc_keyspace))"
      "sc_holds ''k'' (id sc_keyspace) None" "sc_nonneg None"
      "pred_option (sc_inv 60000 100 (ks_now (id sc_keyspace))) None"
    by (simp_all add: sc_params_def sane_time_def sc_keyspace_def sc_holds_def ks_live_def sc_nonneg_def)
  have "ks_now sc_keyspace = 1700000000250" by (simp add: ks_now_def mstime_def sc_keyspace_def)
  moreover have "sc_estimate 60000 1700000000250 (sc_roll 60000 1700000000250 None) = 0"
    by (simp add: sc_estimate_def sc_roll_def lmul_def ladd_def)
  moreover have "lsub 100 0 = 100" "lsub 100 1 = 99" by (simp_all add: lsub_def)
  ultimately show ?thesis
    using sliding_window_counter_script_refines[OF mem.redis_server_axioms h]
    by (auto simp: sc_step_def sc_roll_def aligned_def)
qed

text \<open>
  C6.  The sliding window counter admits at most its limit in every aligned window, over every
  sequence of requests with the key expiring in between.
\<close>

theorem sliding_window_counter_window_bound:
  assumes "0 < w" "0 < m" "m \<le> 2 ^ 51" "sorted ts"
  shows "window_count w b (admitted (lim_run (sc_step w m) sc_deadline ts None)) \<le> m"
proof (cases ts)
  case (Cons t us)
  with assms show ?thesis
    using sc_run_bound[of w m t None ts b] by (auto simp: sc_valid_def sc_used_def)
qed (use assms in simp)

theorem sliding_window_counter_window_bound_witness:
  "window_count 10 20 (admitted (lim_run (sc_step 10 2) sc_deadline [3, 5, 21, 22, 23, 29] None)) \<le> 2"
  by (rule sliding_window_counter_window_bound) simp_all

text \<open>
  The retention of two windows is enough: a request answered after the key has expired gets the
  reply, and leaves the counts, it would have had if the key had been kept for ever.
\<close>

theorem sliding_window_counter_expiry_unobservable:
  assumes "0 < w" "0 < m" "m \<le> 2 ^ 51" "pred_option (sc_inv w m t0) st" "t0 \<le> now"
  shows "fst (sc_step w m now (lim_expire sc_deadline now st)) = fst (sc_step w m now st)
     \<and> map_option (\<lambda>x. (sc_start x, sc_curr x, sc_prev x)) (snd (sc_step w m now (lim_expire sc_deadline now st)))
       = map_option (\<lambda>x. (sc_start x, sc_curr x, sc_prev x)) (snd (sc_step w m now st))"
  using sc.expiry_unobservable[of "(w, m)" t0 st now] assms by (simp add: sc_valid_def)

theorem sliding_window_counter_expiry_unobservable_witness:
  "fst (sc_step 10 2 31 (lim_expire sc_deadline 31 (Some \<lparr>sc_start = 10, sc_curr = 2, sc_prev = 1, sc_deadline = 30\<rparr>)))
   = fst (sc_step 10 2 31 (Some \<lparr>sc_start = 10, sc_curr = 2, sc_prev = 1, sc_deadline = 30\<rparr>))"
  using sliding_window_counter_expiry_unobservable[of 10 2 12
      "Some \<lparr>sc_start = 10, sc_curr = 2, sc_prev = 1, sc_deadline = 30\<rparr>" 31]
  by (simp add: sc_inv_def)

text \<open>
  The \<^verbatim>\<open>retry_after_ms\<close> of this algorithm is not a time at which the caller is admitted: once
  the current window is full, the caller is denied with the time to the end of the window, and a
  caller that comes back exactly then, with nothing in between, is denied again, since the full
  window now weighs in as the previous one with weight one.
\<close>

theorem sliding_window_counter_retry_denied:
  assumes "0 < w" "0 < m" "m \<le> 2 ^ 51" "sc_inv w m now x" "sc_start x = aligned w now" "sc_curr x = m"
  defines "r \<equiv> fst (sc_step w m now (Some x))"
  shows "lr_allowed r = 0 \<and> lr_retry r = aligned w now + w - now \<and>
    lr_allowed (fst (sc_step w m (now + lr_retry r)
      (lim_expire sc_deadline (now + lr_retry r) (snd (sc_step w m now (Some x)))))) = 0"
proof -
  have b: "aligned w now \<le> now" "now < aligned w now + w" using aligned_bounds(1,2)[OF assms(1)] by auto
  have roll: "sc_roll w now (Some x) = x\<lparr>sc_deadline := now + 2 * w\<rparr>" using assms(5) by (simp add: sc_roll_def)
  have "of_int m \<le> sc_estimate w now (x\<lparr>sc_deadline := now + 2 * w\<rparr>)"
    using sc_estimate_ge[OF assms(1), of "x\<lparr>sc_deadline := now + 2 * w\<rparr>" now] assms(2-6) by (simp add: sc_inv_def)
  then have s: "sc_step w m now (Some x) = (\<lparr>lr_allowed = 0, lr_limit = m, lr_remaining = 0,
      lr_retry = aligned w now + w - now, lr_reset = aligned w now + w\<rparr>, Some (x\<lparr>sc_deadline := now + 2 * w\<rparr>))"
    using b by (simp add: sc_step_def roll Let_def)
  have a: "aligned w (aligned w now + w) = aligned w now + w"
    using assms(1) by (simp add: aligned_def distrib_right)
  have "lsub 1 (ldiv 0 (of_int w)) = 1" by (simp add: ldiv_def lsub_def)
  moreover have "lmul (of_int m) 1 = of_int m" "ladd (of_int m) 0 = of_int m"
    using lmul_int[of m 1] ladd_int[of m 0] assms(2,3) by auto
  ultimately have "sc_estimate w (aligned w now + w)
      (sc_roll w (aligned w now + w) (Some (x\<lparr>sc_deadline := now + 2 * w\<rparr>))) = of_int m"
    using assms(1,5,6) by (simp add: sc_estimate_def sc_roll_def a)
  then show ?thesis using b by (simp add: r_def s sc_step_def[of w m "aligned w now + w"] Let_def)
qed

theorem sliding_window_counter_retry_denied_witness:
  "lr_retry (fst (sc_step 10 2 13 (Some \<lparr>sc_start = 10, sc_curr = 2, sc_prev = 0, sc_deadline = 31\<rparr>))) = 7"
  using sliding_window_counter_retry_denied[of 10 2 13 "\<lparr>sc_start = 10, sc_curr = 2, sc_prev = 0, sc_deadline = 31\<rparr>"]
  by (simp add: sc_inv_def aligned_def)

end
