(* ===== verification/Bucket_Arith.thy ===== *)
theory Bucket_Arith
  imports Limiter_Interface
begin

text \<open>
  What \<^verbatim>\<open>token_bucket.lua\<close> and \<^verbatim>\<open>leaky_bucket.lua\<close> share: the time to move an amount at a rate,
  \<^verbatim>\<open>math.ceil((amount / rate) * 1000)\<close>, the parameters for which it fits a TTL, and the bounds on
  the double arithmetic of a bucket of integer capacity.
\<close>

definition bucket_wait :: "rat \<Rightarrow> rat \<Rightarrow> int" where
  "bucket_wait r missing = \<lceil>lmul (ldiv missing r) 1000\<rceil>"

definition bucket_valid :: "int \<times> rat \<Rightarrow> bool" where
  "bucket_valid c \<longleftrightarrow> 0 < fst c \<and> fst c \<le> 2 ^ 51 \<and> 0 < snd c"

definition bucket_params :: "int \<Rightarrow> rat \<Rightarrow> bool" where
  "bucket_params cap r \<longleftrightarrow> 0 < cap \<and> cap \<le> 2 ^ 51 \<and> 0 < r \<and> dbl r = r \<and> of_int cap / r * 1000 \<le> 2 ^ 50"

lemma bucket_wait_nonneg: "0 < r \<Longrightarrow> 0 \<le> x \<Longrightarrow> 0 \<le> bucket_wait r x"
proof -
  assume "0 < r" "0 \<le> x"
  then have "0 \<le> lmul (ldiv x r) 1000" unfolding lmul_def ldiv_def by (auto intro!: dbl.fl_nonneg)
  then show ?thesis unfolding bucket_wait_def by (simp add: order_trans[of _ 0])
qed

lemma lsub_bounds:
  assumes "0 \<le> x" "x \<le> of_int cap" "0 < cap" "cap \<le> 2 ^ 51"
  shows "0 \<le> lsub (of_int cap) x" "1 \<le> x \<Longrightarrow> 0 \<le> lsub x 1" "1 \<le> x \<Longrightarrow> lsub x 1 \<le> of_int (cap - 1)"
    "x - 1 - of_int cap / 2 ^ 53 \<le> lsub x 1 \<or> x < 1" "lsub x 1 \<le> x - 1 + of_int cap / 2 ^ 53 \<or> x < 1"
proof -
  show "0 \<le> lsub (of_int cap) x" "1 \<le> x \<Longrightarrow> 0 \<le> lsub x 1"
    using assms by (auto simp: lsub_def intro!: dbl.fl_nonneg)
  show "1 \<le> x \<Longrightarrow> lsub x 1 \<le> of_int (cap - 1)"
    unfolding lsub_def using assms by (intro dbl.fl_le_int) auto
  have "x < 1 \<or> \<bar>dbl (x - 1) - (x - 1)\<bar> \<le> of_int cap / 2 ^ 53"
  proof (cases "x < 1")
    case False
    have "\<bar>x - 1\<bar> / 2 ^ 53 \<le> of_int cap / 2 ^ 53" using False assms by (intro divide_right_mono) auto
    with dbl_err[of "x - 1"] show ?thesis by linarith
  qed simp
  then show "x - 1 - of_int cap / 2 ^ 53 \<le> lsub x 1 \<or> x < 1" "lsub x 1 \<le> x - 1 + of_int cap / 2 ^ 53 \<or> x < 1"
    unfolding lsub_def by linarith+
qed

lemma bucket_wait_bound:
  assumes "bucket_params cap r" "0 \<le> x" "x \<le> of_int cap"
  shows "0 \<le> bucket_wait r x" "bucket_wait r x \<le> 2 ^ 51"
proof -
  have r: "0 < r" "of_int cap / r * 1000 \<le> 2 ^ 50" using assms(1) by (auto simp: bucket_params_def)
  show "0 \<le> bucket_wait r x" using r assms by (intro bucket_wait_nonneg) auto
  have "x / r * 1000 \<le> of_int cap / r * 1000"
    using r assms by (intro mult_right_mono divide_right_mono) auto
  then have "x / r * 1000 \<le> 2 ^ 50" using r(2) by linarith
  then have "x / r * 1000 * (1 + 1 / 2 ^ 53) ^ 2 \<le> 2 ^ 50 * (1 + 1 / 2 ^ 53) ^ 2"
    by (intro mult_right_mono) auto
  moreover have "lmul (ldiv x r) 1000 \<le> x / r * 1000 * (1 + 1 / 2 ^ 53) ^ 2"
    unfolding lmul_def ldiv_def using r assms by (intro dbl.fl_div_mul_upper) auto
  moreover have "2 ^ 50 * (1 + 1 / 2 ^ 53) ^ 2 \<le> (of_int (2 ^ 51) :: rat)"
    by (simp add: power2_eq_square field_simps)
  ultimately have "lmul (ldiv x r) 1000 \<le> of_int (2 ^ 51)" by linarith
  then show "bucket_wait r x \<le> 2 ^ 51" unfolding bucket_wait_def by (simp only: ceiling_le_iff)
qed

end
