(* ===== verification/Token_Bucket.thy ===== *)
theory Token_Bucket
  imports Bucket_Arith
begin

text \<open>
  \<^verbatim>\<open>services/rate_limiter/token_bucket.py\<close> and \<^verbatim>\<open>scripts/token_bucket.lua\<close>: a bucket of at most
  \<open>capacity\<close> tokens, refilled at a constant rate, one token per admitted request.  The number of
  tokens is a double; the automaton \<open>tb_step\<close> rounds exactly where the script does.

  The script derives the key's TTL from the tokens it has before it takes one, so the key of a
  bucket that was full lives for one second whatever the refill rate.  The long-run bound therefore
  needs a rate of at least one token per second, and \<open>token_bucket_slow_rate_unlimited\<close> shows what
  happens below that.
\<close>

subsection \<open>The script and its Python wrapper\<close>

definition token_bucket_lua ::
  "'s redis_api \<Rightarrow> string \<Rightarrow> int \<Rightarrow> rat \<Rightarrow> 's \<Rightarrow> (script_error + lua_reply) \<times> 's" where
  "token_bucket_lua R key argv1 argv2 s =
    (let capacity = dbl (of_int argv1); refill_rate = dbl argv2;
         now_ms = lua_now_ms (r_time R s) in
     redis_call (r_hmget R key s) s (\<lambda>data.
       let (tokens, last_refill_ms) =
             (case data ''tokens'' of None \<Rightarrow> (capacity, Some now_ms) | Some x \<Rightarrow> (x, data ''last_refill_ms'')) in
       case last_refill_ms of
         None \<Rightarrow> (Inl LuaRuntimeError, s)
       | Some last_refill_ms \<Rightarrow>
           let elapsed_ms = lsub now_ms last_refill_ms;
               tokens = (if 0 < elapsed_ms
                 then min capacity (ladd tokens (lmul (ldiv elapsed_ms 1000) refill_rate)) else tokens);
               ttl_ms = max 1 (ladd (of_int \<lceil>lmul (ldiv (lsub capacity tokens) refill_rate) 1000\<rceil>) 1000) in
           if 1 \<le> tokens then
             let tokens = lsub tokens 1 in
             redis_call (r_hset R key [(''tokens'', tokens), (''last_refill_ms'', now_ms)] s) s (\<lambda>s1.
             redis_call (r_pexpire R key ttl_ms False s1) s1 (\<lambda>s2.
               let reset_at_ms = ladd now_ms (of_int \<lceil>lmul (ldiv (lsub capacity tokens) refill_rate) 1000\<rceil>) in
               (Inr (lua_return 1 capacity (of_int \<lfloor>tokens\<rfloor>) (- 1) reset_at_ms), s2)))
           else
             redis_call (r_hset R key [(''tokens'', tokens), (''last_refill_ms'', now_ms)] s) s (\<lambda>s1.
             redis_call (r_pexpire R key ttl_ms False s1) s1 (\<lambda>s2.
               let deficit = lsub 1 tokens;
                   retry_after_ms = of_int \<lceil>lmul (ldiv deficit refill_rate) 1000\<rceil> in
               (Inr (lua_return 0 capacity 0 retry_after_ms (ladd now_ms retry_after_ms)), s2)))))"

definition token_bucket_key :: "string \<Rightarrow> string \<Rightarrow> string" where
  "token_bucket_key scope identifier_key = ''rl:token_bucket:'' @ scope @ '':'' @ identifier_key"

definition token_bucket_check :: "'s redis_api \<Rightarrow> link \<Rightarrow> int \<Rightarrow> rat \<Rightarrow> string \<Rightarrow> string \<Rightarrow> 's \<Rightarrow>
    (check_error + rate_limit_result) \<times> 's" where
  "token_bucket_check R l capacity refill_rate scope identifier_key s =
     reply_to_result (run_script l
       (token_bucket_lua R (token_bucket_key scope identifier_key) capacity refill_rate) s)"

subsection \<open>The automaton of one key\<close>

record tbucket =
  tb_tokens :: rat
  tb_last :: int
  tb_deadline :: int

definition tb_refill :: "int \<Rightarrow> rat \<Rightarrow> int \<Rightarrow> tbucket option \<Rightarrow> rat" where
  "tb_refill cap r now st = (case st of
       None \<Rightarrow> of_int cap
     | Some x \<Rightarrow> if tb_last x < now
         then min (of_int cap) (ladd (tb_tokens x) (lmul (ldiv (of_int (now - tb_last x)) 1000) r))
         else tb_tokens x)"

definition tb_ttl :: "int \<Rightarrow> rat \<Rightarrow> rat \<Rightarrow> int" where
  "tb_ttl cap r tokens = max 1 (bucket_wait r (lsub (of_int cap) tokens) + 1000)"

definition tb_step :: "int \<Rightarrow> rat \<Rightarrow> int \<Rightarrow> tbucket option \<Rightarrow> lua_reply \<times> tbucket option" where
  "tb_step cap r now st = (let p = tb_refill cap r now st; d = now + tb_ttl cap r p in
     if 1 \<le> p then
       (\<lparr>lr_allowed = 1, lr_limit = cap, lr_remaining = \<lfloor>lsub p 1\<rfloor>, lr_retry = - 1,
          lr_reset = now + bucket_wait r (lsub (of_int cap) (lsub p 1))\<rparr>,
        Some \<lparr>tb_tokens = lsub p 1, tb_last = now, tb_deadline = d\<rparr>)
     else
       (\<lparr>lr_allowed = 0, lr_limit = cap, lr_remaining = 0, lr_retry = bucket_wait r (lsub 1 p),
          lr_reset = now + bucket_wait r (lsub 1 p)\<rparr>,
        Some \<lparr>tb_tokens = p, tb_last = now, tb_deadline = d\<rparr>))"

text \<open>
  \<open>tb_covers\<close>: with a rate of at least one, a bucket whose key has expired had refilled, up to
  four roundings of the capacity.
\<close>

definition tb_covers :: "int \<Rightarrow> rat \<Rightarrow> tbucket \<Rightarrow> bool" where
  "tb_covers cap r x \<longleftrightarrow>
     of_int cap \<le> tb_tokens x + of_int (tb_deadline x + 1 - tb_last x) / 1000 * r + 4 * of_int cap / 2 ^ 53"

definition tb_inv :: "int \<Rightarrow> rat \<Rightarrow> int \<Rightarrow> tbucket \<Rightarrow> bool" where
  "tb_inv cap r now x \<longleftrightarrow> 0 \<le> tb_tokens x \<and> tb_tokens x \<le> of_int cap \<and> tb_last x \<le> now
     \<and> tb_last x < tb_deadline x \<and> (1 \<le> r \<longrightarrow> tb_covers cap r x)"

lemma tb_refill_bounds:
  assumes "0 < cap" "0 < r" "pred_option (tb_inv cap r now) st"
  shows "0 \<le> tb_refill cap r now st" "tb_refill cap r now st \<le> of_int cap"
proof -
  have "0 \<le> ladd (tb_tokens x) (lmul (ldiv (of_int (now - tb_last x)) 1000) r)"
    if "0 \<le> tb_tokens x" "tb_last x < now" for x
    unfolding ladd_def lmul_def ldiv_def using that assms(2)
    by (intro dbl.fl_nonneg add_nonneg_nonneg mult_nonneg_nonneg) auto
  with assms show "0 \<le> tb_refill cap r now st" "tb_refill cap r now st \<le> of_int cap"
    by (auto simp: tb_refill_def tb_inv_def split: option.splits)
qed

lemma tb_covers_step:
  assumes "0 < cap" "cap \<le> 2 ^ 51" "1 \<le> r" "0 \<le> p" "p \<le> of_int cap"
  shows "tb_covers cap r \<lparr>tb_tokens = if 1 \<le> p then lsub p 1 else p, tb_last = now,
     tb_deadline = now + tb_ttl cap r p\<rparr>"
proof -
  let ?w = "lmul (ldiv (lsub (of_int cap) p) r) 1000"
  have "(of_int cap - p) / r * 1000 * (1 - 3 * (1 / 2 ^ 53)) \<le> ?w"
    unfolding lmul_def ldiv_def lsub_def using assms by (intro dbl.fl_sub_div_mul_lower) auto
  moreover have "?w + 1000 \<le> of_int (tb_ttl cap r p)" by (simp add: tb_ttl_def bucket_wait_def) linarith
  ultimately have le: "((of_int cap - p) / r * 1000 * (1 - 3 * (1 / 2 ^ 53)) + 1000) / 1000 * r
      \<le> of_int (tb_ttl cap r p + 1) / 1000 * r"
    using assms(3) by (intro mult_right_mono divide_right_mono) auto
  have eq: "((of_int cap - p) / r * 1000 * (1 - 3 * e) + 1000) / 1000 * r
      = of_int cap - p - e * (3 * (of_int cap - p)) + r" for e
    using assms(3) by (simp add: field_simps)
  have "1 / 2 ^ 53 * (3 * (of_int cap - p)) \<le> 1 / 2 ^ 53 * (3 * of_int cap)"
    using assms(4) by (intro mult_left_mono) auto
  then have "of_int cap - p - 3 * (of_int cap / 2 ^ 53) + r \<le> of_int cap - p - 1 / 2 ^ 53 * (3 * (of_int cap - p)) + r"
    by simp
  also note le[unfolded eq]
  finally have A: "of_int cap - p - 3 * (of_int cap / 2 ^ 53) + r \<le> of_int (tb_ttl cap r p + 1) / 1000 * r" .
  have "p - 1 - of_int cap / 2 ^ 53 \<le> (if 1 \<le> p then lsub p 1 else p)"
    using lsub_bounds(4)[OF assms(4,5,1,2)] assms(1) by auto
  with A assms(3) have "of_int cap \<le> (if 1 \<le> p then lsub p 1 else p)
      + of_int (tb_ttl cap r p + 1) / 1000 * r + 4 * (of_int cap / 2 ^ 53)"
    by (simp only: distrib_left add_ac)
  moreover have "now + tb_ttl cap r p + 1 - now = tb_ttl cap r p + 1" by simp
  ultimately show ?thesis unfolding tb_covers_def tbucket.simps by simp
qed

lemma tb_step_state:
  "snd (tb_step cap r now st) = (let p = tb_refill cap r now st in
     Some \<lparr>tb_tokens = if 1 \<le> p then lsub p 1 else p, tb_last = now, tb_deadline = now + tb_ttl cap r p\<rparr>)"
  by (simp add: tb_step_def Let_def)

lemma tb_step_allowed: "lr_allowed (fst (tb_step cap r now st)) = (if 1 \<le> tb_refill cap r now st then 1 else 0)"
  by (simp add: tb_step_def Let_def)

lemma tb_step_inv:
  assumes "bucket_valid (cap, r)" "pred_option (tb_inv cap r now) st"
  shows "pred_option (tb_inv cap r now) (snd (tb_step cap r now st))"
proof -
  let ?p = "tb_refill cap r now st"
  have v: "0 < cap" "cap \<le> 2 ^ 51" "0 < r" using assms(1) by (auto simp: bucket_valid_def)
  have p: "0 \<le> ?p" "?p \<le> of_int cap" using tb_refill_bounds[OF v(1,3) assms(2)] by auto
  have "lsub ?p 1 \<le> of_int cap" if "1 \<le> ?p" using lsub_bounds(3)[OF p v(1,2) that] by simp
  moreover have "0 < tb_ttl cap r ?p" by (simp add: tb_ttl_def)
  ultimately show ?thesis
    using p lsub_bounds(2)[OF p v(1,2)] tb_covers_step[OF v(1,2) _ p, of r now]
    by (auto simp: tb_step_state Let_def tb_inv_def)
qed

lemma tb_step_reply:
  assumes "bucket_valid (cap, r)" "pred_option (tb_inv cap r now) st"
  shows "reply_ok cap now (fst (tb_step cap r now st))"
proof -
  let ?p = "tb_refill cap r now st"
  have v: "0 < cap" "cap \<le> 2 ^ 51" "0 < r" using assms(1) by (auto simp: bucket_valid_def)
  have p: "0 \<le> ?p" "?p \<le> of_int cap" using tb_refill_bounds[OF v(1,3) assms(2)] by auto
  show ?thesis
  proof (cases "1 \<le> ?p")
    case True
    have q: "0 \<le> lsub ?p 1" "lsub ?p 1 \<le> of_int (cap - 1)"
      using lsub_bounds(2,3)[OF p v(1,2) True] by auto
    then have "0 \<le> \<lfloor>lsub ?p 1\<rfloor>" "\<lfloor>lsub ?p 1\<rfloor> < cap" by linarith+
    moreover have "0 \<le> bucket_wait r (lsub (of_int cap) (lsub ?p 1))"
      using q v by (intro bucket_wait_nonneg) (auto simp: lsub_def[of "of_int cap"] intro!: dbl.fl_nonneg)
    ultimately show ?thesis using True by (simp add: tb_step_def Let_def reply_ok_def)
  next
    case False
    then have "0 \<le> bucket_wait r (lsub 1 ?p)"
      using v by (intro bucket_wait_nonneg) (auto simp: lsub_def intro!: dbl.fl_nonneg)
    with False show ?thesis by (simp add: tb_step_def Let_def reply_ok_def)
  qed
qed

interpretation tb: limiter_algorithm bucket_valid "\<lambda>c. tb_step (fst c) (snd c)" tb_deadline
    "\<lambda>c. tb_inv (fst c) (snd c)" fst
  by unfold_locales (auto intro: tb_step_inv tb_step_reply simp: tb_inv_def)

subsection \<open>Credit: how much a bucket admits in the long run\<close>

definition tb_gain :: "int \<times> rat \<Rightarrow> rat" where
  "tb_gain c = snd c / 1000 * (1 + 1 / 2 ^ 53) ^ 3"

definition tb_credit :: "int \<times> rat \<Rightarrow> int \<Rightarrow> tbucket option \<Rightarrow> rat" where
  "tb_credit c t st = (case st of
       None \<Rightarrow> of_int (fst c)
     | Some x \<Rightarrow> tb_tokens x + tb_gain c * of_int (t - tb_last x))"

definition tb_slack :: "int \<times> rat \<Rightarrow> rat" where
  "tb_slack c = 5 * of_int (fst c) / 2 ^ 53"

lemma tb_refill_gain:
  assumes "0 < r" "0 \<le> k" "k \<le> of_int cap" "0 \<le> e"
  shows "ladd k (lmul (ldiv (of_int e) 1000) r) \<le> k + tb_gain (cap, r) * of_int e + of_int cap / 2 ^ 53"
proof -
  let ?g = "lmul (ldiv (of_int e) 1000) r" and ?u = "1 / 2 ^ 53 :: rat"
  have g: "0 \<le> ?g" unfolding lmul_def ldiv_def using assms by (intro dbl.fl_nonneg mult_nonneg_nonneg) auto
  have "?g \<le> of_int e / 1000 * r * (1 + ?u) ^ 2"
    unfolding lmul_def ldiv_def using assms by (intro dbl.fl_div_mul_upper) auto
  then have "?g * (1 + ?u) \<le> of_int e / 1000 * r * (1 + ?u) ^ 2 * (1 + ?u)"
    by (intro mult_right_mono) auto
  also have "\<dots> = tb_gain (cap, r) * of_int e" by (simp add: tb_gain_def power3_eq_cube power2_eq_square)
  finally have 1: "?g * (1 + ?u) \<le> tb_gain (cap, r) * of_int e" .
  have 2: "k / 2 ^ 53 \<le> of_int cap / 2 ^ 53" using assms by (intro divide_right_mono) auto
  have "ladd k ?g \<le> (k + ?g) * (1 + ?u)"
    unfolding ladd_def using assms g by (intro dbl.fl_upper) auto
  also have "\<dots> = k + k / 2 ^ 53 + ?g * (1 + ?u)" by (simp add: algebra_simps)
  finally show ?thesis using 1 2 by linarith
qed

lemma tb_refill_credit:
  assumes "bucket_valid (cap, r)" "1 \<le> r" "pred_option (tb_inv cap r t0) st" "t0 \<le> t"
  shows "tb_refill cap r t (lim_expire tb_deadline t st) \<le> tb_credit (cap, r) t st + 4 * of_int cap / 2 ^ 53"
proof (cases st)
  case None
  then show ?thesis using assms(1) by (simp add: tb_refill_def tb_credit_def bucket_valid_def)
next
  case (Some x)
  have v: "0 < cap" "0 < r" using assms(1) by (auto simp: bucket_valid_def)
  have x: "0 \<le> tb_tokens x" "tb_tokens x \<le> of_int cap" "tb_last x \<le> t" "tb_covers cap r x"
    using assms Some by (auto simp: tb_inv_def)
  have g: "r / 1000 \<le> tb_gain (cap, r)" using v by (simp add: tb_gain_def)
  have c: "(of_int cap :: rat) / 2 ^ 53 \<le> 4 * of_int cap / 2 ^ 53" using v by simp
  show ?thesis
  proof (cases "tb_deadline x < t")
    case True
    then have "of_int (tb_deadline x + 1 - tb_last x) / 1000 * r \<le> of_int (t - tb_last x) / 1000 * r"
      using v by (intro mult_right_mono divide_right_mono) auto
    also have "\<dots> = r / 1000 * of_int (t - tb_last x)" by simp
    also have "\<dots> \<le> tb_gain (cap, r) * of_int (t - tb_last x)"
      using g x(3) by (intro mult_right_mono) auto
    finally show ?thesis using True x(4) by (simp add: Some tb_refill_def tb_credit_def tb_covers_def)
  next
    case False
    show ?thesis
    proof (cases "tb_last x < t")
      case True
      with False tb_refill_gain[OF v(2) x(1,2), of "t - tb_last x"] c show ?thesis
        by (simp add: Some tb_refill_def tb_credit_def)
    next
      case F: False
      with False x(3) v show ?thesis by (simp add: Some tb_refill_def tb_credit_def)
    qed
  qed
qed

interpretation tbc: credit_limiter "\<lambda>c. bucket_valid c \<and> 1 \<le> snd c" "\<lambda>c. tb_step (fst c) (snd c)" tb_deadline
    "\<lambda>c. tb_inv (fst c) (snd c)" fst tb_credit tb_gain tb_slack
proof unfold_locales
  fix c :: "int \<times> rat" and t t' :: int and st :: "tbucket option"
  assume v: "bucket_valid c \<and> 1 \<le> snd c"
  then show g: "0 \<le> tb_gain c" by (simp add: tb_gain_def)
  show "pred_option (tb_inv (fst c) (snd c) t) st \<Longrightarrow> 0 \<le> tb_credit c t st"
    using v g by (cases st) (auto simp: tb_credit_def tb_inv_def bucket_valid_def simp del: of_int_diff)
  show "t \<le> t' \<Longrightarrow> tb_credit c t' st \<le> tb_credit c t st + tb_gain c * of_int (t' - t)"
    using g by (cases st) (auto simp: tb_credit_def algebra_simps mult_right_mono)
next
  fix c :: "int \<times> rat" and t0 t :: int and st :: "tbucket option"
  assume v: "bucket_valid c \<and> 1 \<le> snd c" and i: "pred_option (tb_inv (fst c) (snd c) t0) st" and t: "t0 \<le> t"
  let ?st = "lim_expire tb_deadline t st"
  let ?p = "tb_refill (fst c) (snd c) t ?st"
  have c: "0 < fst c" "fst c \<le> 2 ^ 51" "0 < snd c" using v by (auto simp: bucket_valid_def)
  have p: "0 \<le> ?p" "?p \<le> of_int (fst c)"
    using tb_refill_bounds[OF c(1,3) tb.inv_expire[OF i t]] by auto
  have "tb_credit c t (snd (tb_step (fst c) (snd c) t ?st)) + (if 1 \<le> ?p then 1 else 0) \<le> ?p + of_int (fst c) / 2 ^ 53"
    using lsub_bounds(5)[OF p c(1,2)] c(1) by (auto simp: tb_step_state Let_def tb_credit_def)
  moreover have "?p \<le> tb_credit c t st + 4 * of_int (fst c) / 2 ^ 53"
    using tb_refill_credit[of "fst c" "snd c" t0 st t] v i t by simp
  ultimately show "tb_credit c t (snd (tb_step (fst c) (snd c) t ?st))
      + (if lr_allowed (fst (tb_step (fst c) (snd c) t ?st)) = 1 then 1 else 0) \<le> tb_credit c t st + tb_slack c"
    by (auto simp: tb_step_allowed tb_slack_def split: if_splits)
qed (auto intro: tb_step_inv tb_step_reply simp: tb_inv_def)

subsection \<open>The script refines the automaton\<close>

definition tb_hash :: "tbucket \<Rightarrow> string \<Rightarrow> rat option" where
  "tb_hash x = (\<lambda>_. None)(''tokens'' := Some (tb_tokens x), ''last_refill_ms'' := Some (of_int (tb_last x)))"

definition tb_holds :: "string \<Rightarrow> keyspace \<Rightarrow> tbucket option \<Rightarrow> bool" where
  "tb_holds k K st \<longleftrightarrow> ks_live k K = map_option (\<lambda>x. (HashV (tb_hash x), Some (tb_deadline x))) st"

definition tb_nonneg :: "tbucket option \<Rightarrow> bool" where
  "tb_nonneg st \<longleftrightarrow> pred_option (\<lambda>x. 0 \<le> tb_last x) st"

definition tb_fields :: "tbucket \<Rightarrow> (string \<times> rat) list" where
  "tb_fields x = [(''tokens'', tb_tokens x), (''last_refill_ms'', of_int (tb_last x))]"

lemma tb_hash_put: "hash_put (tb_fields x) (\<lambda>_. None) = tb_hash x" "hash_put (tb_fields x) (tb_hash y) = tb_hash x"
  by (auto simp: tb_fields_def tb_hash_def)

context redis_server
begin

lemma tb_write:
  assumes "tb_holds k (ks s) st" "1 \<le> ttl" "ttl \<le> ttl_limit" "tb_deadline x = ks_now (ks s) + ttl"
  shows "\<exists>s1 s2. r_hset R k (tb_fields x) s = Some s1 \<and> r_pexpire R k (of_int ttl) False s1 = Some s2
     \<and> tb_holds k (ks s2) (Some x) \<and> same_elsewhere k (ks s) (ks s2)"
proof (cases st)
  case None
  then have "ks_live k (ks s) = None" using assms(1) by (simp add: tb_holds_def)
  from hash_write_fresh[OF this assms(2,3), of "tb_fields x" False] show ?thesis
    unfolding tb_hash_put tb_holds_def by (simp add: assms(4))
next
  case (Some y)
  then have "ks_live k (ks s) = Some (HashV (tb_hash y), Some (tb_deadline y))"
    using assms(1) by (simp add: tb_holds_def)
  from hash_write_hash[OF this assms(2,3), of "tb_fields x" False] show ?thesis
    unfolding tb_hash_put tb_holds_def by (simp add: assms(4))
qed

lemma token_bucket_refines:
  assumes P: "bucket_params cap r" and T: "sane_time (ks_clock (ks s))"
    and H: "tb_holds k (ks s) st" and N: "tb_nonneg st"
    and I: "pred_option (tb_inv cap r (ks_now (ks s))) st"
  shows "\<exists>s'. token_bucket_lua R k cap r s = (Inr (fst (tb_step cap r (ks_now (ks s)) st)), s')
     \<and> tb_holds k (ks s') (snd (tb_step cap r (ks_now (ks s)) st)) \<and> same_elsewhere k (ks s) (ks s')"
proof -
  define now where "now = ks_now (ks s)"
  define p where "p = tb_refill cap r now st"
  have t: "lua_now_ms (r_time R s) = of_int now" and nb: "0 \<le> now" "now \<le> 2 ^ 51"
    using T by (auto simp: time lua_now_ms_exact now_def ks_now_def sane_time_def mstime_def)
  have pb: "0 < cap" "cap \<le> 2 ^ 51" "0 < r" "dbl r = r" using P by (auto simp: bucket_params_def)
  have args: "dbl (of_int cap) = of_int cap" "dbl r = r" using pb by (auto intro!: dbl_of_int)
  have p: "0 \<le> p" "p \<le> of_int cap" using tb_refill_bounds[OF pb(1,3) I] by (simp_all add: p_def now_def)
  obtain data last0 tok0 where data: "r_hmget R k s = Some data"
    and read: "(case data ''tokens'' of None \<Rightarrow> (of_int cap, Some (of_int now))
        | Some x \<Rightarrow> (x, data ''last_refill_ms'')) = (tok0, Some (of_int last0))"
    and refill: "(if 0 < lsub (of_int now) (of_int last0)
        then min (of_int cap) (ladd tok0 (lmul (ldiv (lsub (of_int now) (of_int last0)) 1000) r)) else tok0) = p"
  proof (cases st)
    case None
    then have "r_hmget R k s = Some (\<lambda>_. None)" using H by (simp add: hmget ks_hmget_def tb_holds_def)
    then show ?thesis using that[of "\<lambda>_. None" "of_int cap" now] None
      by (simp add: p_def tb_refill_def lsub_def)
  next
    case (Some y)
    then have "r_hmget R k s = Some (tb_hash y)" using H by (simp add: hmget ks_hmget_def tb_holds_def)
    moreover have "lsub (of_int now) (of_int (tb_last y)) = of_int (now - tb_last y)"
      using N I Some nb by (intro lsub_int) (auto simp: tb_nonneg_def tb_inv_def now_def)
    ultimately show ?thesis
      using that[of "tb_hash y" "tb_tokens y" "tb_last y"] Some
      by (auto simp: p_def tb_refill_def tb_hash_def simp del: of_int_diff)
  qed
  have l: "0 \<le> lsub (of_int cap) p" "lsub (of_int cap) p \<le> of_int cap"
    using p pb by (auto simp: lsub_def intro!: dbl.fl_nonneg dbl.fl_le_int)
  have wait: "of_int \<lceil>lmul (ldiv x r) 1000\<rceil> = of_int (bucket_wait r x)" for x by (simp add: bucket_wait_def)
  have ttl: "max 1 (ladd (of_int (bucket_wait r (lsub (of_int cap) p))) 1000) = of_int (tb_ttl cap r p)"
    using ladd_int[of "bucket_wait r (lsub (of_int cap) p)" 1000] bucket_wait_bound[OF P l]
    by (simp add: tb_ttl_def max_def)
  have tb: "1 \<le> tb_ttl cap r p" "tb_ttl cap r p \<le> ttl_limit"
    using bucket_wait_bound[OF P l] by (auto simp: tb_ttl_def ttl_limit_def)
  note facts = data read refill wait ttl tb_step_def Let_def lua_return_def
  show ?thesis
  proof (cases "1 \<le> p")
    case True
    let ?q = "lsub p 1"
    have q: "0 \<le> lsub (of_int cap) ?q" "lsub (of_int cap) ?q \<le> of_int cap"
      using lsub_bounds(2,3)[OF p pb(1,2) True] pb
      by (auto simp: lsub_def[of "of_int cap"] intro!: dbl.fl_nonneg dbl.fl_le_int)
    have reset: "ladd (of_int now) (of_int (bucket_wait r (lsub (of_int cap) ?q))) = of_int (now + bucket_wait r (lsub (of_int cap) ?q))"
      using bucket_wait_bound[OF P q] nb by (intro ladd_int) auto
    let ?x = "\<lparr>tb_tokens = ?q, tb_last = now, tb_deadline = now + tb_ttl cap r p\<rparr>"
    have f: "[(''tokens'', ?q), (''last_refill_ms'', of_int now)] = tb_fields ?x" by (simp add: tb_fields_def)
    obtain s1 s2 where w: "r_hset R k (tb_fields ?x) s = Some s1" "r_pexpire R k (of_int (tb_ttl cap r p)) False s1 = Some s2"
        "tb_holds k (ks s2) (Some ?x)" "same_elsewhere k (ks s) (ks s2)"
      using tb_write[OF H tb, of ?x] by (auto simp: now_def)
    show ?thesis using True w unfolding token_bucket_lua_def Let_def t args
      by (simp add: facts reset f p_def[symmetric] now_def[symmetric] del: of_int_add)
  next
    case False
    have q: "0 \<le> lsub 1 p" "lsub 1 p \<le> of_int cap"
    proof -
      show "0 \<le> lsub 1 p" using False by (auto simp: lsub_def intro!: dbl.fl_nonneg)
      show "lsub 1 p \<le> of_int cap" unfolding lsub_def using p pb by (intro dbl.fl_le_int) (auto simp: order_trans[of _ 1])
    qed
    have reset: "ladd (of_int now) (of_int (bucket_wait r (lsub 1 p))) = of_int (now + bucket_wait r (lsub 1 p))"
      using bucket_wait_bound[OF P q] nb by (intro ladd_int) auto
    let ?x = "\<lparr>tb_tokens = p, tb_last = now, tb_deadline = now + tb_ttl cap r p\<rparr>"
    have f: "[(''tokens'', p), (''last_refill_ms'', of_int now)] = tb_fields ?x" by (simp add: tb_fields_def)
    obtain s1 s2 where w: "r_hset R k (tb_fields ?x) s = Some s1" "r_pexpire R k (of_int (tb_ttl cap r p)) False s1 = Some s2"
        "tb_holds k (ks s2) (Some ?x)" "same_elsewhere k (ks s) (ks s2)"
      using tb_write[OF H tb, of ?x] by (auto simp: now_def)
    show ?thesis using False w unfolding token_bucket_lua_def Let_def t args
      by (simp add: facts reset f p_def[symmetric] now_def[symmetric] del: of_int_add)
  qed
qed

end

subsection \<open>Waiting\<close>

lemma tb_refill_after_wait:
  assumes "0 < cap" "1 / 2 ^ 40 \<le> r" "0 \<le> k" "k < 1" "bucket_wait r (lsub 1 k) < e"
  shows "1 \<le> ladd k (lmul (ldiv (of_int e) 1000) r)"
proof -
  let ?u = "1 / 2 ^ 53 :: rat" and ?g = "lmul (ldiv (of_int e) 1000) r"
  have r: "0 < r" using assms(2) by (rule less_le_trans[rotated]) simp
  have "(1 - k) / r * 1000 * (1 - 3 * ?u) \<le> lmul (ldiv (lsub 1 k) r) 1000"
    unfolding lmul_def ldiv_def lsub_def using assms r by (intro dbl.fl_sub_div_mul_lower) auto
  also have "\<dots> \<le> of_int (bucket_wait r (lsub 1 k))" unfolding bucket_wait_def by linarith
  finally have e: "(1 - k) / r * 1000 * (1 - 3 * ?u) + 1 \<le> of_int e" using assms(5) by linarith
  moreover have "0 \<le> (1 - k) / r * 1000 * (1 - 3 * ?u)" using assms(4) r by simp
  ultimately have e0: "0 \<le> e" by linarith
  have "((1 - k) / r * 1000 * (1 - 3 * ?u) + 1) / 1000 * r \<le> of_int e / 1000 * r"
    using e r by (intro mult_right_mono divide_right_mono) auto
  moreover have "((1 - k) / r * 1000 * (1 - 3 * ?u) + 1) / 1000 * r = (1 - k) * (1 - 3 * ?u) + r / 1000"
    using r by (simp add: field_simps)
  moreover have "8 * ?u \<le> r / 1000" using assms(2) by simp
  moreover have "1 - k - 3 * ?u \<le> (1 - k) * (1 - 3 * ?u)" using assms(3,4) by (simp add: algebra_simps)
  ultimately have x: "1 - k + 5 * ?u \<le> of_int e / 1000 * r" by linarith
  have "(1 - k + 5 * ?u) * (1 - ?u) ^ 2 \<le> of_int e / 1000 * r * (1 - ?u) ^ 2"
    using x by (intro mult_right_mono) auto
  also have "\<dots> \<le> ?g"
    unfolding lmul_def ldiv_def using e0 r by (intro dbl.fl_div_mul_lower) auto
  finally have g: "(1 - k + 5 * ?u) * (1 - ?u) ^ 2 \<le> ?g" .
  have "1 - k \<le> (1 - k + 5 * ?u) * (1 - ?u) ^ 2"
    using assms(3,4) by (simp add: power2_eq_square field_simps)
  with g have "of_int 1 \<le> k + ?g" by simp
  then have "of_int 1 \<le> ladd k ?g" unfolding ladd_def by (rule dbl.fl_ge_int) simp
  then show ?thesis by simp
qed

lemma tb_fresh_step:
  assumes "0 < cap"
  shows "lr_allowed (fst (tb_step cap r now None)) = 1"
    "snd (tb_step cap r now None) =
       Some \<lparr>tb_tokens = lsub (of_int cap) 1, tb_last = now, tb_deadline = now + 1000\<rparr>"
proof -
  have "bucket_wait r 0 = 0" by (simp add: bucket_wait_def ldiv_def lmul_def)
  then show "lr_allowed (fst (tb_step cap r now None)) = 1"
    "snd (tb_step cap r now None) =
       Some \<lparr>tb_tokens = lsub (of_int cap) 1, tb_last = now, tb_deadline = now + 1000\<rparr>"
    using assms by (simp_all add: tb_step_def tb_refill_def tb_ttl_def Let_def lsub_def[of "of_int cap" "of_int cap"])
qed

lemma tb_spaced_run:
  assumes "0 < cap" "sorted_wrt (\<lambda>a b. a + 1000 < b) ts" "\<forall>t \<in> set ts. pred_option (\<lambda>x. tb_deadline x < t) st"
  shows "admitted (lim_run (tb_step cap r) tb_deadline ts st) = ts"
  using assms(2,3)
proof (induction ts arbitrary: st)
  case (Cons t ts)
  have "lim_expire tb_deadline t st = None" using Cons.prems(2) by (cases st) auto
  with Cons tb_fresh_step[OF assms(1), of r t] show ?case by simp
qed simp

subsection \<open>Properties\<close>

text \<open>
  C7.  One run of \<^verbatim>\<open>token_bucket.lua\<close> is one step of \<open>tb_step\<close>, for every refill rate that is a
  double and fills the bucket within \<open>2 ^ 50\<close> milliseconds: the same reply, the automaton's next
  state in the key, and no other key touched.
\<close>

theorem token_bucket_script_refines:
  assumes "redis_server R ks" "bucket_params cap r" "sane_time (ks_clock (ks s))"
    and "tb_holds k (ks s) st" "tb_nonneg st" "pred_option (tb_inv cap r (ks_now (ks s))) st"
  shows "\<exists>s'. token_bucket_lua R k cap r s = (Inr (fst (tb_step cap r (ks_now (ks s)) st)), s')
     \<and> tb_holds k (ks s') (snd (tb_step cap r (ks_now (ks s)) st)) \<and> same_elsewhere k (ks s) (ks s')"
  using assms by (rule redis_server.token_bucket_refines)

definition tb_keyspace :: keyspace where
  "tb_keyspace = \<lparr>ks_clock = (1700000000, 250000), ks_data = (\<lambda>_. None)\<rparr>"

theorem token_bucket_script_refines_witness:
  "\<exists>s'. token_bucket_lua mem_redis ''k'' 10 5 tb_keyspace =
      (Inr (fst (tb_step 10 5 1700000000250 None)), s')
    \<and> tb_holds ''k'' s' (Some \<lparr>tb_tokens = 9, tb_last = 1700000000250, tb_deadline = 1700000001250\<rparr>)"
proof -
  have h: "bucket_params 10 5" "sane_time (ks_clock (id tb_keyspace))"
      "tb_holds ''k'' (id tb_keyspace) None" "tb_nonneg None"
      "pred_option (tb_inv 10 5 (ks_now (id tb_keyspace))) None"
    by (simp_all add: bucket_params_def sane_time_def tb_keyspace_def tb_holds_def ks_live_def tb_nonneg_def)
  have "ks_now tb_keyspace = 1700000000250" by (simp add: ks_now_def mstime_def tb_keyspace_def)
  moreover have "lsub 10 1 = 9" by (simp add: lsub_def)
  ultimately show ?thesis
    using token_bucket_script_refines[OF mem.redis_server_axioms h] tb_fresh_step(2)[of 10 5 1700000000250] by auto
qed

text \<open>
  C8.  The long-run bound, floating point and key expiry included: with a refill rate of at least one
  token per second, every run of requests is admitted at most the capacity plus what the rate
  refills over the duration of the run, up to a relative error of three roundings on the refill and
  five roundings of the capacity per request.
\<close>

theorem token_bucket_rate_bound:
  assumes "0 < cap" "cap \<le> 2 ^ 51" "1 \<le> r" "sorted ts" "ts \<noteq> []"
  shows "of_nat (length (admitted (lim_run (tb_step cap r) tb_deadline ts None)))
    \<le> of_int cap + r / 1000 * (1 + 1 / 2 ^ 53) ^ 3 * of_int (last ts - hd ts)
      + of_nat (length ts) * (5 * of_int cap / 2 ^ 53)"
proof -
  have v: "bucket_valid (cap, r) \<and> 1 \<le> snd (cap, r)" "sorted (hd ts # ts)" "last (hd ts # ts) = last ts"
    using assms by (cases ts; force simp: bucket_valid_def)+
  show ?thesis
    using tbc.run_bound[OF v(1), of "hd ts" None ts] v(2,3)
    by (simp add: tb_credit_def tb_gain_def tb_slack_def del: last.simps)
qed

theorem token_bucket_rate_bound_witness:
  "of_nat (length (admitted (lim_run (tb_step 2 4) tb_deadline [0, 0, 0, 300, 2000] None)))
    \<le> of_int 2 + 4 / 1000 * (1 + 1 / 2 ^ 53) ^ 3 * of_int (2000 - 0) + (of_nat 5 * (5 * of_int 2 / 2 ^ 53) :: rat)"
  using token_bucket_rate_bound[of 2 4 "[0, 0, 0, 300, 2000]"] by simp

text \<open>
  Below one token per second the bound fails.  The TTL is computed from the tokens before one is
  taken, so a bucket that was full keeps its key for one second only and then starts full again:
  requests more than a second apart are all admitted, for ever, whatever the capacity and the refill
  rate.
\<close>

theorem token_bucket_slow_rate_unlimited:
  assumes "0 < cap" "sorted_wrt (\<lambda>a b. a + 1000 < b) ts"
  shows "admitted (lim_run (tb_step cap r) tb_deadline ts None) = ts"
  using assms by (intro tb_spaced_run) auto

theorem token_bucket_slow_rate_unlimited_witness:
  "admitted (lim_run (tb_step 1 (1 / 3600)) tb_deadline [0, 1001, 2002, 3003, 4004] None) = [0, 1001, 2002, 3003, 4004]"
  by (rule token_bucket_slow_rate_unlimited) simp_all

text \<open>
  A denied caller that waits longer than the \<^verbatim>\<open>retry_after_ms\<close> it was given, with no other
  request in between, is admitted, for every rate down to \<open>2 ^ -40\<close> tokens per second.
\<close>

theorem token_bucket_retry_admits:
  assumes "bucket_valid (cap, r)" "1 / 2 ^ 40 \<le> r" "pred_option (tb_inv cap r now) st"
    and "lr_allowed (fst (tb_step cap r now st)) = 0" "now + lr_retry (fst (tb_step cap r now st)) < now'"
  shows "lr_allowed (fst (tb_step cap r now' (lim_expire tb_deadline now' (snd (tb_step cap r now st))))) = 1"
proof -
  let ?p = "tb_refill cap r now st"
  have v: "0 < cap" "0 < r" using assms(1) by (auto simp: bucket_valid_def)
  have p: "0 \<le> ?p" "?p < 1"
    using tb_refill_bounds[OF v assms(3)] assms(4) by (auto simp: tb_step_allowed split: if_splits)
  have w: "lr_retry (fst (tb_step cap r now st)) = bucket_wait r (lsub 1 ?p)"
    using p by (simp add: tb_step_def Let_def)
  have "0 \<le> bucket_wait r (lsub 1 ?p)"
    using p v by (intro bucket_wait_nonneg) (auto simp: lsub_def intro!: dbl.fl_nonneg)
  then have n: "now < now'" "bucket_wait r (lsub 1 ?p) < now' - now" using assms(5) w by auto
  have "1 \<le> tb_refill cap r now' (lim_expire tb_deadline now' (snd (tb_step cap r now st)))"
    using tb_refill_after_wait[OF v(1) assms(2) p n(2)] n(1) p v
    by (simp add: tb_step_state Let_def tb_refill_def[of cap r now'])
  then show ?thesis by (simp add: tb_step_allowed)
qed

theorem token_bucket_retry_admits_witness:
  "lr_allowed (fst (tb_step 2 1 1501 (lim_expire tb_deadline 1501 (snd (tb_step 2 1 500
      (Some \<lparr>tb_tokens = 0, tb_last = 500, tb_deadline = 3500\<rparr>)))))) = 1"
proof -
  let ?st = "Some \<lparr>tb_tokens = 0, tb_last = 500, tb_deadline = 3500\<rparr>"
  have r: "tb_refill 2 1 500 ?st = 0" by (simp add: tb_refill_def)
  have w: "bucket_wait 1 (lsub 1 0) = 1000" by (simp add: bucket_wait_def lsub_def ldiv_def lmul_def)
  have h: "bucket_valid (2, 1)" "(1::rat) / 2 ^ 40 \<le> 1" "pred_option (tb_inv 2 1 500) ?st"
      "lr_allowed (fst (tb_step 2 1 500 ?st)) = 0" "500 + lr_retry (fst (tb_step 2 1 500 ?st)) < 1501"
    by (simp_all add: bucket_valid_def tb_inv_def tb_covers_def tb_step_def r w)
  show ?thesis by (rule token_bucket_retry_admits[OF h])
qed

text \<open>The roundings of the example below.\<close>

lemma dbl_example_steps:
  "dbl (1 / 5) = 3602879701896397 / 18014398509481984"
  "dbl (450359962737049625 / 2251799813685248) = 200"
  "dbl (7 / 250) = 8070450532247929 / 288230376151711744"
  "dbl (40352252661239645 / 288230376151711744) = 1261007895663739 / 9007199254740992"
  "dbl (1261007895663739 / 9007199254740992) = 1261007895663739 / 9007199254740992"
  "dbl (7746191359077253 / 9007199254740992) = 7746191359077253 / 9007199254740992"
  "dbl (7746191359077253 / 45035996273704960) = 3098476543630901 / 18014398509481984"
  "dbl (387309567953862625 / 2251799813685248) = 172"
  "dbl (43 / 250) = 3098476543630901 / 18014398509481984"
  "dbl (15492382718154505 / 18014398509481984) = 1936547839769313 / 2251799813685248"
  "dbl (9007199254740991 / 9007199254740992) = 9007199254740991 / 9007199254740992"
  "dbl (1 / 45035996273704960) = 3602879701896397 / 162259276829213363391578010288128"
  "dbl (450359962737049625 / 20282409603651670423947251286016) = 25 / 1125899906842624"
proof -
  show "dbl (1 / 5) = 3602879701896397 / 18014398509481984" by (rule trans[OF dbl_eqI[of 7205759403792794 _ 55]]) simp_all
  show "dbl (450359962737049625 / 2251799813685248) = 200" by (rule trans[OF dbl_eqI[of 7036874417766400 _ 45]]) simp_all
  show "dbl (7 / 250) = 8070450532247929 / 288230376151711744" by (rule trans[OF dbl_eqI[of 8070450532247929 _ 58]]) simp_all
  show "dbl (40352252661239645 / 288230376151711744) = 1261007895663739 / 9007199254740992" by (rule trans[OF dbl_eqI[of 5044031582654956 _ 55]]) simp_all
  show "dbl (1261007895663739 / 9007199254740992) = 1261007895663739 / 9007199254740992" by (rule trans[OF dbl_eqI[of 5044031582654956 _ 55]]) simp_all
  show "dbl (7746191359077253 / 9007199254740992) = 7746191359077253 / 9007199254740992" by (rule trans[OF dbl_eqI[of 7746191359077253 _ 53]]) simp_all
  show "dbl (7746191359077253 / 45035996273704960) = 3098476543630901 / 18014398509481984" by (rule trans[OF dbl_eqI[of 6196953087261802 _ 55]]) simp_all
  show "dbl (387309567953862625 / 2251799813685248) = 172" by (rule trans[OF dbl_eqI[of 6051711999279104 _ 45]]) simp_all
  show "dbl (43 / 250) = 3098476543630901 / 18014398509481984" by (rule trans[OF dbl_eqI[of 6196953087261802 _ 55]]) simp_all
  show "dbl (15492382718154505 / 18014398509481984) = 1936547839769313 / 2251799813685248" by (rule trans[OF dbl_eqI[of 7746191359077252 _ 53]]) simp_all
  show "dbl (9007199254740991 / 9007199254740992) = 9007199254740991 / 9007199254740992" by (rule trans[OF dbl_eqI[of 9007199254740991 _ 53]]) simp_all
  show "dbl (1 / 45035996273704960) = 3602879701896397 / 162259276829213363391578010288128" by (rule trans[OF dbl_eqI[of 7205759403792794 _ 108]]) simp_all
  show "dbl (450359962737049625 / 20282409603651670423947251286016) = 25 / 1125899906842624" by (rule trans[OF dbl_eqI[of 7036874417766400 _ 98]]) simp_all
qed

text \<open>
  The extra millisecond is needed: with capacity 1 and 5 tokens per second, the request at 28 ms
  is told to retry after 172 ms, and the request 172 ms later is denied again, because the
  refilled fractions add up to one rounding less than a whole token.
\<close>

theorem token_bucket_retry_one_short:
  "map (\<lambda>(t, r). (t, lr_allowed r, lr_retry r)) (lim_run (tb_step 1 5) tb_deadline [0, 28, 28 + 172] None)
     = [(0, 1, - 1), (28, 0, 172), (200, 0, 1)]"
proof -
  let ?k = "1261007895663739 / 9007199254740992 :: rat"
  have e: "dbl (1 / 9007199254740992) = 1 / 9007199254740992"
    using dbl_exact[of 1 "- 53"] by (simp add: power_int_def power_one_over)
  note steps = dbl_example_steps e ldiv_def lmul_def ladd_def lsub_def tb_refill_def bucket_wait_def
  have 0: "tb_step 1 5 0 None = (\<lparr>lr_allowed = 1, lr_limit = 1, lr_remaining = 0, lr_retry = - 1, lr_reset = 200\<rparr>,
      Some \<lparr>tb_tokens = 0, tb_last = 0, tb_deadline = 1000\<rparr>)"
    by (simp add: tb_step_def tb_ttl_def steps)
  have 1: "tb_step 1 5 28 (Some \<lparr>tb_tokens = 0, tb_last = 0, tb_deadline = 1000\<rparr>) =
      (\<lparr>lr_allowed = 0, lr_limit = 1, lr_remaining = 0, lr_retry = 172, lr_reset = 200\<rparr>,
       Some \<lparr>tb_tokens = ?k, tb_last = 28, tb_deadline = 1200\<rparr>)"
    by (simp add: tb_step_def tb_ttl_def steps)
  have c: "\<lceil>25 / 1125899906842624 :: rat\<rceil> = 1" by (rule ceiling_unique) simp_all
  have 2: "fst (tb_step 1 5 200 (Some \<lparr>tb_tokens = ?k, tb_last = 28, tb_deadline = 1200\<rparr>)) =
      \<lparr>lr_allowed = 0, lr_limit = 1, lr_remaining = 0, lr_retry = 1, lr_reset = 201\<rparr>"
    by (simp add: tb_step_def Let_def steps c)
  show ?thesis by (simp add: 0 1 2)
qed

end
