(* ===== verification/Leaky_Bucket.thy ===== *)
theory Leaky_Bucket
  imports Bucket_Arith
begin

text \<open>
  \<^verbatim>\<open>services/rate_limiter/leaky_bucket.py\<close> and \<^verbatim>\<open>scripts/leaky_bucket.lua\<close>: a bucket whose level
  rises by one per admitted request and leaks at a constant rate; a request needs a whole unit of
  headroom.  The level is a double, rounded in \<open>lk_step\<close> where the script rounds.  As in the token
  bucket, the TTL is computed from the level before the request is added.
\<close>

subsection \<open>The script and its Python wrapper\<close>

definition leaky_bucket_lua ::
  "'s redis_api \<Rightarrow> string \<Rightarrow> int \<Rightarrow> rat \<Rightarrow> 's \<Rightarrow> (script_error + lua_reply) \<times> 's" where
  "leaky_bucket_lua R key argv1 argv2 s =
    (let capacity = dbl (of_int argv1); leak_rate = dbl argv2;
         now_ms = lua_now_ms (r_time R s) in
     redis_call (r_hmget R key s) s (\<lambda>data.
       let (level, last_leak_ms) =
             (case data ''level'' of None \<Rightarrow> (0, Some now_ms) | Some x \<Rightarrow> (x, data ''last_leak_ms'')) in
       case last_leak_ms of
         None \<Rightarrow> (Inl LuaRuntimeError, s)
       | Some last_leak_ms \<Rightarrow>
           let elapsed_ms = lsub now_ms last_leak_ms;
               level = (if 0 < elapsed_ms
                 then max 0 (lsub level (lmul (ldiv elapsed_ms 1000) leak_rate)) else level);
               ttl_ms = max 1 (ladd (of_int \<lceil>lmul (ldiv level leak_rate) 1000\<rceil>) 1000) in
           if level \<le> lsub capacity 1 then
             let level = ladd level 1 in
             redis_call (r_hset R key [(''level'', level), (''last_leak_ms'', now_ms)] s) s (\<lambda>s1.
             redis_call (r_pexpire R key ttl_ms False s1) s1 (\<lambda>s2.
               let reset_at_ms = ladd now_ms (of_int \<lceil>lmul (ldiv level leak_rate) 1000\<rceil>) in
               (Inr (lua_return 1 capacity (of_int \<lfloor>lsub capacity level\<rfloor>) (- 1) reset_at_ms), s2)))
           else
             redis_call (r_hset R key [(''level'', level), (''last_leak_ms'', now_ms)] s) s (\<lambda>s1.
             redis_call (r_pexpire R key ttl_ms False s1) s1 (\<lambda>s2.
               let excess = ladd (lsub level capacity) 1;
                   retry_after_ms = of_int \<lceil>lmul (ldiv excess leak_rate) 1000\<rceil> in
               (Inr (lua_return 0 capacity 0 retry_after_ms (ladd now_ms retry_after_ms)), s2)))))"

definition leaky_bucket_key :: "string \<Rightarrow> string \<Rightarrow> string" where
  "leaky_bucket_key scope identifier_key = ''rl:leaky_bucket:'' @ scope @ '':'' @ identifier_key"

definition leaky_bucket_check :: "'s redis_api \<Rightarrow> link \<Rightarrow> int \<Rightarrow> rat \<Rightarrow> string \<Rightarrow> string \<Rightarrow> 's \<Rightarrow>
    (check_error + rate_limit_result) \<times> 's" where
  "leaky_bucket_check R l capacity leak_rate scope identifier_key s =
     reply_to_result (run_script l
       (leaky_bucket_lua R (leaky_bucket_key scope identifier_key) capacity leak_rate) s)"

subsection \<open>The automaton of one key\<close>

record lbucket =
  lk_level :: rat
  lk_last :: int
  lk_deadline :: int

definition lk_leak :: "rat \<Rightarrow> int \<Rightarrow> lbucket option \<Rightarrow> rat" where
  "lk_leak r now st = (case st of
       None \<Rightarrow> 0
     | Some x \<Rightarrow> if lk_last x < now
         then max 0 (lsub (lk_level x) (lmul (ldiv (of_int (now - lk_last x)) 1000) r))
         else lk_level x)"

definition lk_ttl :: "rat \<Rightarrow> rat \<Rightarrow> int" where
  "lk_ttl r level = max 1 (bucket_wait r level + 1000)"

definition lk_excess :: "int \<Rightarrow> rat \<Rightarrow> rat" where
  "lk_excess cap level = ladd (lsub level (of_int cap)) 1"

definition lk_step :: "int \<Rightarrow> rat \<Rightarrow> int \<Rightarrow> lbucket option \<Rightarrow> lua_reply \<times> lbucket option" where
  "lk_step cap r now st = (let l = lk_leak r now st; d = now + lk_ttl r l in
     if l \<le> of_int (cap - 1) then
       (\<lparr>lr_allowed = 1, lr_limit = cap, lr_remaining = \<lfloor>lsub (of_int cap) (ladd l 1)\<rfloor>, lr_retry = - 1,
          lr_reset = now + bucket_wait r (ladd l 1)\<rparr>,
        Some \<lparr>lk_level = ladd l 1, lk_last = now, lk_deadline = d\<rparr>)
     else
       (\<lparr>lr_allowed = 0, lr_limit = cap, lr_remaining = 0, lr_retry = bucket_wait r (lk_excess cap l),
          lr_reset = now + bucket_wait r (lk_excess cap l)\<rparr>,
        Some \<lparr>lk_level = l, lk_last = now, lk_deadline = d\<rparr>))"

definition lk_covers :: "int \<Rightarrow> rat \<Rightarrow> lbucket \<Rightarrow> bool" where
  "lk_covers cap r x \<longleftrightarrow>
     lk_level x \<le> of_int (lk_deadline x + 1 - lk_last x) / 1000 * r + 3 * of_int cap / 2 ^ 53"

definition lk_inv :: "int \<Rightarrow> rat \<Rightarrow> int \<Rightarrow> lbucket \<Rightarrow> bool" where
  "lk_inv cap r now x \<longleftrightarrow> 0 \<le> lk_level x \<and> lk_level x \<le> of_int cap \<and> lk_last x \<le> now
     \<and> lk_last x < lk_deadline x \<and> (1 \<le> r \<longrightarrow> lk_covers cap r x)"

lemma lk_leak_bounds:
  assumes "0 < cap" "cap \<le> 2 ^ 51" "0 < r" "pred_option (lk_inv cap r now) st"
  shows "0 \<le> lk_leak r now st" "lk_leak r now st \<le> of_int cap"
proof -
  have "lsub (lk_level x) (lmul (ldiv (of_int (now - lk_last x)) 1000) r) \<le> of_int cap"
    if "lk_level x \<le> of_int cap" "lk_last x < now" for x
  proof -
    have "0 \<le> lmul (ldiv (of_int (now - lk_last x)) 1000) r"
      unfolding lmul_def ldiv_def using that assms(3)
      by (intro dbl.fl_nonneg mult_nonneg_nonneg) auto
    then show ?thesis unfolding lsub_def using that assms by (intro dbl.fl_le_int) auto
  qed
  with assms show "0 \<le> lk_leak r now st" "lk_leak r now st \<le> of_int cap"
    by (auto simp: lk_leak_def lk_inv_def split: option.splits)
qed

lemma lk_add_bounds:
  assumes "0 \<le> l" "l \<le> of_int (cap - 1)" "0 < cap" "cap \<le> 2 ^ 51"
  shows "of_int 1 \<le> ladd l 1" "ladd l 1 \<le> of_int cap"
    "l + 1 - of_int cap / 2 ^ 53 \<le> ladd l 1" "ladd l 1 \<le> l + 1 + of_int cap / 2 ^ 53"
proof -
  show "of_int 1 \<le> ladd l 1" unfolding ladd_def using assms by (intro dbl.fl_ge_int) auto
  show "ladd l 1 \<le> of_int cap" unfolding ladd_def using assms by (intro dbl.fl_le_int) auto
  have "\<bar>l + 1\<bar> / 2 ^ 53 \<le> of_int cap / 2 ^ 53" using assms by (intro divide_right_mono) auto
  with dbl_err[of "l + 1"] show "l + 1 - of_int cap / 2 ^ 53 \<le> ladd l 1" "ladd l 1 \<le> l + 1 + of_int cap / 2 ^ 53"
    unfolding ladd_def by linarith+
qed

lemma lk_excess_nonneg:
  assumes "of_int (cap - 1) < l" "0 < cap" "cap \<le> 2 ^ 51"
  shows "0 \<le> lk_excess cap l"
proof -
  have "of_int (- 1) \<le> l - of_int cap" using assms(1) by simp
  then have "of_int (- 1) \<le> lsub l (of_int cap)" unfolding lsub_def by (rule dbl.fl_ge_int) simp
  then show ?thesis unfolding lk_excess_def ladd_def by (intro dbl.fl_nonneg) simp
qed

lemma lk_covers_step:
  assumes "0 < cap" "cap \<le> 2 ^ 51" "1 \<le> r" "0 \<le> l" "l \<le> of_int cap"
  shows "lk_covers cap r \<lparr>lk_level = if l \<le> of_int (cap - 1) then ladd l 1 else l, lk_last = now,
     lk_deadline = now + lk_ttl r l\<rparr>"
proof -
  let ?w = "lmul (ldiv l r) 1000" and ?u = "1 / 2 ^ 53 :: rat"
  have "l / r * 1000 * (1 - ?u) ^ 2 \<le> ?w"
    unfolding lmul_def ldiv_def using assms by (intro dbl.fl_div_mul_lower) auto
  moreover have "l / r * 1000 * (1 - 2 * ?u) \<le> l / r * 1000 * (1 - ?u) ^ 2"
    using assms by (intro mult_left_mono) (auto simp: power2_eq_square)
  moreover have "?w + 1000 \<le> of_int (lk_ttl r l)" by (simp add: lk_ttl_def bucket_wait_def) linarith
  ultimately have "l / r * 1000 * (1 - 2 * ?u) + 1000 \<le> of_int (lk_ttl r l + 1)" by linarith
  then have le: "(l / r * 1000 * (1 - 2 * ?u) + 1000) / 1000 * r \<le> of_int (lk_ttl r l + 1) / 1000 * r"
    using assms(3) by (intro mult_right_mono divide_right_mono) auto
  have eq: "(l / r * 1000 * (1 - 2 * e) + 1000) / 1000 * r = l - e * (2 * l) + r" for e
    using assms(3) by (simp add: field_simps)
  have "?u * (2 * l) \<le> ?u * (2 * of_int cap)" using assms(5) by (intro mult_left_mono) auto
  then have "l - 2 * (of_int cap / 2 ^ 53) + r \<le> l - ?u * (2 * l) + r" by simp
  also note le[unfolded eq]
  finally have A: "l - 2 * (of_int cap / 2 ^ 53) + r \<le> of_int (lk_ttl r l + 1) / 1000 * r" .
  have "(if l \<le> of_int (cap - 1) then ladd l 1 else l) \<le> l + 1 + of_int cap / 2 ^ 53"
    using lk_add_bounds(4)[OF assms(4) _ assms(1,2)] assms(1) by auto
  with A assms(3) have "(if l \<le> of_int (cap - 1) then ladd l 1 else l)
      \<le> of_int (lk_ttl r l + 1) / 1000 * r + 3 * (of_int cap / 2 ^ 53)"
    by linarith
  moreover have "now + lk_ttl r l + 1 - now = lk_ttl r l + 1" by simp
  ultimately show ?thesis unfolding lk_covers_def lbucket.simps by simp
qed

lemma lk_step_state:
  "snd (lk_step cap r now st) = (let l = lk_leak r now st in
     Some \<lparr>lk_level = if l \<le> of_int (cap - 1) then ladd l 1 else l, lk_last = now, lk_deadline = now + lk_ttl r l\<rparr>)"
  by (simp add: lk_step_def Let_def)

lemma lk_step_allowed:
  "lr_allowed (fst (lk_step cap r now st)) = (if lk_leak r now st \<le> of_int (cap - 1) then 1 else 0)"
  by (simp add: lk_step_def Let_def)

lemma lk_step_inv:
  assumes "bucket_valid (cap, r)" "pred_option (lk_inv cap r now) st"
  shows "pred_option (lk_inv cap r now) (snd (lk_step cap r now st))"
proof -
  let ?l = "lk_leak r now st"
  have v: "0 < cap" "cap \<le> 2 ^ 51" "0 < r" using assms(1) by (auto simp: bucket_valid_def)
  have l: "0 \<le> ?l" "?l \<le> of_int cap" using lk_leak_bounds[OF v assms(2)] by auto
  have "0 < lk_ttl r ?l" by (simp add: lk_ttl_def)
  moreover have "0 \<le> ladd ?l 1 \<and> ladd ?l 1 \<le> of_int cap" if "?l \<le> of_int (cap - 1)"
    using lk_add_bounds(1,2)[OF l(1) that v(1,2)] by simp
  ultimately show ?thesis
    using l lk_covers_step[OF v(1,2) _ l, of r now]
    by (auto simp: lk_step_state Let_def lk_inv_def)
qed

lemma lk_step_reply:
  assumes "bucket_valid (cap, r)" "pred_option (lk_inv cap r now) st"
  shows "reply_ok cap now (fst (lk_step cap r now st))"
proof -
  let ?l = "lk_leak r now st"
  have v: "0 < cap" "cap \<le> 2 ^ 51" "0 < r" using assms(1) by (auto simp: bucket_valid_def)
  have l: "0 \<le> ?l" "?l \<le> of_int cap" using lk_leak_bounds[OF v assms(2)] by auto
  show ?thesis
  proof (cases "?l \<le> of_int (cap - 1)")
    case True
    have q: "of_int 1 \<le> ladd ?l 1" "ladd ?l 1 \<le> of_int cap"
      using lk_add_bounds(1,2)[OF l(1) True v(1,2)] by auto
    have "0 \<le> lsub (of_int cap) (ladd ?l 1)" "lsub (of_int cap) (ladd ?l 1) \<le> of_int (cap - 1)"
      unfolding lsub_def using q v by (intro dbl.fl_nonneg dbl.fl_le_int; simp)+
    then have "0 \<le> \<lfloor>lsub (of_int cap) (ladd ?l 1)\<rfloor>" "\<lfloor>lsub (of_int cap) (ladd ?l 1)\<rfloor> < cap" by linarith+
    moreover have "0 \<le> bucket_wait r (ladd ?l 1)" using q v by (intro bucket_wait_nonneg) auto
    ultimately show ?thesis using True by (simp add: lk_step_def Let_def reply_ok_def)
  next
    case False
    then have "0 \<le> bucket_wait r (lk_excess cap ?l)"
      using v by (intro bucket_wait_nonneg lk_excess_nonneg) auto
    with False show ?thesis by (simp add: lk_step_def Let_def reply_ok_def)
  qed
qed

interpretation lk: limiter_algorithm bucket_valid "\<lambda>c. lk_step (fst c) (snd c)" lk_deadline
    "\<lambda>c. lk_inv (fst c) (snd c)" fst
  by unfold_locales (auto intro: lk_step_inv lk_step_reply simp: lk_inv_def)

subsection \<open>Credit: how much a bucket admits in the long run\<close>

definition lk_gain :: "int \<times> rat \<Rightarrow> rat" where
  "lk_gain c = snd c / 1000 * (1 + 1 / 2 ^ 53) ^ 2"

definition lk_credit :: "int \<times> rat \<Rightarrow> int \<Rightarrow> lbucket option \<Rightarrow> rat" where
  "lk_credit c t st = (case st of
       None \<Rightarrow> of_int (fst c)
     | Some x \<Rightarrow> of_int (fst c) - lk_level x + lk_gain c * of_int (t - lk_last x))"

definition lk_slack :: "int \<times> rat \<Rightarrow> rat" where
  "lk_slack c = 4 * of_int (fst c) / 2 ^ 53"

lemma lk_leak_gain:
  assumes "0 < r" "0 \<le> l" "l \<le> of_int cap" "0 \<le> e" "0 < cap"
  shows "l - lk_gain (cap, r) * of_int e - of_int cap / 2 ^ 53 \<le> max 0 (lsub l (lmul (ldiv (of_int e) 1000) r))"
proof -
  let ?g = "lmul (ldiv (of_int e) 1000) r" and ?u = "1 / 2 ^ 53 :: rat"
  have g: "0 \<le> ?g" unfolding lmul_def ldiv_def using assms by (intro dbl.fl_nonneg mult_nonneg_nonneg) auto
  have "?g \<le> of_int e / 1000 * r * (1 + ?u) ^ 2"
    unfolding lmul_def ldiv_def using assms by (intro dbl.fl_div_mul_upper) auto
  then have 1: "?g \<le> lk_gain (cap, r) * of_int e" by (simp add: lk_gain_def mult.commute mult.left_commute)
  show ?thesis
  proof (cases "?g \<le> l")
    case True
    have "\<bar>l - ?g\<bar> / 2 ^ 53 \<le> of_int cap / 2 ^ 53" using True assms g by (intro divide_right_mono) auto
    with dbl_err[of "l - ?g"] 1 show ?thesis unfolding lsub_def by linarith
  next
    case False
    have "0 \<le> (of_int cap :: rat) / 2 ^ 53" using assms by simp
    with False 1 show ?thesis by linarith
  qed
qed

lemma lk_leak_credit:
  assumes "bucket_valid (cap, r)" "1 \<le> r" "pred_option (lk_inv cap r t0) st" "t0 \<le> t"
  shows "of_int cap - lk_leak r t (lim_expire lk_deadline t st) \<le> lk_credit (cap, r) t st + 3 * of_int cap / 2 ^ 53"
proof (cases st)
  case None
  then show ?thesis using assms(1) by (simp add: lk_leak_def lk_credit_def bucket_valid_def)
next
  case (Some x)
  have v: "0 < cap" "0 < r" using assms(1) by (auto simp: bucket_valid_def)
  have x: "0 \<le> lk_level x" "lk_level x \<le> of_int cap" "lk_last x \<le> t" "lk_covers cap r x"
    using assms Some by (auto simp: lk_inv_def)
  have g: "r / 1000 \<le> lk_gain (cap, r)" using v by (simp add: lk_gain_def)
  have c: "(of_int cap :: rat) / 2 ^ 53 \<le> 3 * of_int cap / 2 ^ 53" using v by simp
  show ?thesis
  proof (cases "lk_deadline x < t")
    case True
    then have "of_int (lk_deadline x + 1 - lk_last x) / 1000 * r \<le> of_int (t - lk_last x) / 1000 * r"
      using v by (intro mult_right_mono divide_right_mono) auto
    also have "\<dots> = r / 1000 * of_int (t - lk_last x)" by simp
    also have "\<dots> \<le> lk_gain (cap, r) * of_int (t - lk_last x)"
      using g x(3) by (intro mult_right_mono) auto
    finally show ?thesis using True x(4) by (simp add: Some lk_leak_def lk_credit_def lk_covers_def)
  next
    case False
    show ?thesis
    proof (cases "lk_last x < t")
      case True
      with False lk_leak_gain[OF v(2) x(1,2) _ v(1), of "t - lk_last x"] c show ?thesis
        by (simp add: Some lk_leak_def lk_credit_def)
    next
      case F: False
      with False x(3) v show ?thesis by (simp add: Some lk_leak_def lk_credit_def)
    qed
  qed
qed

interpretation lkc: credit_limiter "\<lambda>c. bucket_valid c \<and> 1 \<le> snd c" "\<lambda>c. lk_step (fst c) (snd c)" lk_deadline
    "\<lambda>c. lk_inv (fst c) (snd c)" fst lk_credit lk_gain lk_slack
proof unfold_locales
  fix c :: "int \<times> rat" and t t' :: int and st :: "lbucket option"
  assume v: "bucket_valid c \<and> 1 \<le> snd c"
  then show g: "0 \<le> lk_gain c" by (simp add: lk_gain_def)
  show "pred_option (lk_inv (fst c) (snd c) t) st \<Longrightarrow> 0 \<le> lk_credit c t st"
    using v g by (cases st) (auto simp: lk_credit_def lk_inv_def bucket_valid_def simp del: of_int_diff)
  show "t \<le> t' \<Longrightarrow> lk_credit c t' st \<le> lk_credit c t st + lk_gain c * of_int (t' - t)"
    using g by (cases st) (auto simp: lk_credit_def algebra_simps mult_right_mono)
next
  fix c :: "int \<times> rat" and t0 t :: int and st :: "lbucket option"
  assume v: "bucket_valid c \<and> 1 \<le> snd c" and i: "pred_option (lk_inv (fst c) (snd c) t0) st" and t: "t0 \<le> t"
  let ?st = "lim_expire lk_deadline t st"
  let ?l = "lk_leak (snd c) t ?st"
  have c: "0 < fst c" "fst c \<le> 2 ^ 51" "0 < snd c" using v by (auto simp: bucket_valid_def)
  have l: "0 \<le> ?l" "?l \<le> of_int (fst c)"
    using lk_leak_bounds[OF c lk.inv_expire[OF i t]] by auto
  have "lk_credit c t (snd (lk_step (fst c) (snd c) t ?st)) + (if ?l \<le> of_int (fst c - 1) then 1 else 0)
      \<le> of_int (fst c) - ?l + of_int (fst c) / 2 ^ 53"
    using lk_add_bounds(3)[OF l(1) _ c(1,2)] c(1) by (auto simp: lk_step_state Let_def lk_credit_def)
  moreover have "of_int (fst c) - ?l \<le> lk_credit c t st + 3 * of_int (fst c) / 2 ^ 53"
    using lk_leak_credit[of "fst c" "snd c" t0 st t] v i t by simp
  ultimately show "lk_credit c t (snd (lk_step (fst c) (snd c) t ?st))
      + (if lr_allowed (fst (lk_step (fst c) (snd c) t ?st)) = 1 then 1 else 0) \<le> lk_credit c t st + lk_slack c"
    unfolding lk_step_allowed lk_slack_def by (auto split: if_splits)
qed (auto intro: lk_step_inv lk_step_reply simp: lk_inv_def)

subsection \<open>The script refines the automaton\<close>

definition lk_hash :: "lbucket \<Rightarrow> string \<Rightarrow> rat option" where
  "lk_hash x = (\<lambda>_. None)(''level'' := Some (lk_level x), ''last_leak_ms'' := Some (of_int (lk_last x)))"

definition lk_holds :: "string \<Rightarrow> keyspace \<Rightarrow> lbucket option \<Rightarrow> bool" where
  "lk_holds k K st \<longleftrightarrow> ks_live k K = map_option (\<lambda>x. (HashV (lk_hash x), Some (lk_deadline x))) st"

definition lk_nonneg :: "lbucket option \<Rightarrow> bool" where
  "lk_nonneg st \<longleftrightarrow> pred_option (\<lambda>x. 0 \<le> lk_last x) st"

definition lk_fields :: "lbucket \<Rightarrow> (string \<times> rat) list" where
  "lk_fields x = [(''level'', lk_level x), (''last_leak_ms'', of_int (lk_last x))]"

lemma lk_hash_put: "hash_put (lk_fields x) (\<lambda>_. None) = lk_hash x" "hash_put (lk_fields x) (lk_hash y) = lk_hash x"
  by (auto simp: lk_fields_def lk_hash_def)

lemma lk_excess_le:
  assumes "0 \<le> l" "l \<le> of_int cap" "0 < cap" "cap \<le> 2 ^ 51"
  shows "lk_excess cap l \<le> of_int cap"
proof -
  have "lsub l (of_int cap) \<le> of_int 0" unfolding lsub_def using assms by (intro dbl.fl_le_int) auto
  then have "lk_excess cap l \<le> of_int 1" unfolding lk_excess_def ladd_def by (intro dbl.fl_le_int) auto
  moreover have "(of_int 1 :: rat) \<le> of_int cap" using assms(3) by (simp only: of_int_le_iff)
  ultimately show ?thesis by linarith
qed

context redis_server
begin

lemma lk_write:
  assumes "lk_holds k (ks s) st" "1 \<le> ttl" "ttl \<le> ttl_limit" "lk_deadline x = ks_now (ks s) + ttl"
  shows "\<exists>s1 s2. r_hset R k (lk_fields x) s = Some s1 \<and> r_pexpire R k (of_int ttl) False s1 = Some s2
     \<and> lk_holds k (ks s2) (Some x) \<and> same_elsewhere k (ks s) (ks s2)"
proof (cases st)
  case None
  then have "ks_live k (ks s) = None" using assms(1) by (simp add: lk_holds_def)
  from hash_write_fresh[OF this assms(2,3), of "lk_fields x" False] show ?thesis
    unfolding lk_hash_put lk_holds_def by (simp add: assms(4))
next
  case (Some y)
  then have "ks_live k (ks s) = Some (HashV (lk_hash y), Some (lk_deadline y))"
    using assms(1) by (simp add: lk_holds_def)
  from hash_write_hash[OF this assms(2,3), of "lk_fields x" False] show ?thesis
    unfolding lk_hash_put lk_holds_def by (simp add: assms(4))
qed

lemma leaky_bucket_refines:
  assumes P: "bucket_params cap r" and T: "sane_time (ks_clock (ks s))"
    and H: "lk_holds k (ks s) st" and N: "lk_nonneg st"
    and I: "pred_option (lk_inv cap r (ks_now (ks s))) st"
  shows "\<exists>s'. leaky_bucket_lua R k cap r s = (Inr (fst (lk_step cap r (ks_now (ks s)) st)), s')
     \<and> lk_holds k (ks s') (snd (lk_step cap r (ks_now (ks s)) st)) \<and> same_elsewhere k (ks s) (ks s')"
proof -
  define now where "now = ks_now (ks s)"
  define l where "l = lk_leak r now st"
  have t: "lua_now_ms (r_time R s) = of_int now" and nb: "0 \<le> now" "now \<le> 2 ^ 51"
    using T by (auto simp: time lua_now_ms_exact now_def ks_now_def sane_time_def mstime_def)
  have pb: "0 < cap" "cap \<le> 2 ^ 51" "0 < r" "dbl r = r" using P by (auto simp: bucket_params_def)
  have args: "dbl (of_int cap) = of_int cap" "dbl r = r" using pb by (auto intro!: dbl_of_int)
  have room: "lsub (of_int cap) 1 = of_int (cap - 1)" using lsub_int[of cap 1] pb by simp
  have l: "0 \<le> l" "l \<le> of_int cap" using lk_leak_bounds[OF pb(1-3) I] by (simp_all add: l_def now_def)
  obtain data last0 lev0 where data: "r_hmget R k s = Some data"
    and read: "(case data ''level'' of None \<Rightarrow> (0, Some (of_int now))
        | Some x \<Rightarrow> (x, data ''last_leak_ms'')) = (lev0, Some (of_int last0))"
    and leak: "(if 0 < lsub (of_int now) (of_int last0)
        then max 0 (lsub lev0 (lmul (ldiv (lsub (of_int now) (of_int last0)) 1000) r)) else lev0) = l"
  proof (cases st)
    case None
    then have "r_hmget R k s = Some (\<lambda>_. None)" using H by (simp add: hmget ks_hmget_def lk_holds_def)
    then show ?thesis using that[of "\<lambda>_. None" 0 now] None
      by (simp add: l_def lk_leak_def lsub_def)
  next
    case (Some y)
    then have "r_hmget R k s = Some (lk_hash y)" using H by (simp add: hmget ks_hmget_def lk_holds_def)
    moreover have "lsub (of_int now) (of_int (lk_last y)) = of_int (now - lk_last y)"
      using N I Some nb by (intro lsub_int) (auto simp: lk_nonneg_def lk_inv_def now_def)
    ultimately show ?thesis
      using that[of "lk_hash y" "lk_level y" "lk_last y"] Some
      by (auto simp: l_def lk_leak_def lk_hash_def simp del: of_int_diff)
  qed
  have wait: "of_int \<lceil>lmul (ldiv x r) 1000\<rceil> = of_int (bucket_wait r x)" for x by (simp add: bucket_wait_def)
  have ttl: "max 1 (ladd (of_int (bucket_wait r l)) 1000) = of_int (lk_ttl r l)"
    using ladd_int[of "bucket_wait r l" 1000] bucket_wait_bound[OF P l]
    by (simp add: lk_ttl_def max_def)
  have tb: "1 \<le> lk_ttl r l" "lk_ttl r l \<le> ttl_limit"
    using bucket_wait_bound[OF P l] by (auto simp: lk_ttl_def ttl_limit_def)
  note facts = data read leak wait ttl lk_step_def Let_def lua_return_def
  show ?thesis
  proof (cases "l \<le> of_int (cap - 1)")
    case True
    have q: "0 \<le> ladd l 1" "ladd l 1 \<le> of_int cap" using lk_add_bounds(1,2)[OF l(1) True pb(1,2)] by auto
    have reset: "ladd (of_int now) (of_int (bucket_wait r (ladd l 1))) = of_int (now + bucket_wait r (ladd l 1))"
      using bucket_wait_bound[OF P q] nb by (intro ladd_int) auto
    let ?x = "\<lparr>lk_level = ladd l 1, lk_last = now, lk_deadline = now + lk_ttl r l\<rparr>"
    have f: "[(''level'', ladd l 1), (''last_leak_ms'', of_int now)] = lk_fields ?x" by (simp add: lk_fields_def)
    obtain s1 s2 where w: "r_hset R k (lk_fields ?x) s = Some s1" "r_pexpire R k (of_int (lk_ttl r l)) False s1 = Some s2"
        "lk_holds k (ks s2) (Some ?x)" "same_elsewhere k (ks s) (ks s2)"
      using lk_write[OF H tb, of ?x] by (auto simp: now_def)
    show ?thesis using True w unfolding leaky_bucket_lua_def Let_def t args room
      by (simp add: facts reset f l_def[symmetric] now_def[symmetric] del: of_int_add of_int_diff)
  next
    case False
    have q: "0 \<le> lk_excess cap l" "lk_excess cap l \<le> of_int cap"
      using False lk_excess_nonneg[OF _ pb(1,2), of l] lk_excess_le[OF l pb(1,2)] by auto
    have reset: "ladd (of_int now) (of_int (bucket_wait r (lk_excess cap l))) = of_int (now + bucket_wait r (lk_excess cap l))"
      using bucket_wait_bound[OF P q] nb by (intro ladd_int) auto
    have e: "ladd (lsub l (of_int cap)) 1 = lk_excess cap l" by (simp add: lk_excess_def)
    let ?x = "\<lparr>lk_level = l, lk_last = now, lk_deadline = now + lk_ttl r l\<rparr>"
    have f: "[(''level'', l), (''last_leak_ms'', of_int now)] = lk_fields ?x" by (simp add: lk_fields_def)
    obtain s1 s2 where w: "r_hset R k (lk_fields ?x) s = Some s1" "r_pexpire R k (of_int (lk_ttl r l)) False s1 = Some s2"
        "lk_holds k (ks s2) (Some ?x)" "same_elsewhere k (ks s) (ks s2)"
      using lk_write[OF H tb, of ?x] by (auto simp: now_def)
    show ?thesis using False w unfolding leaky_bucket_lua_def Let_def t args room
      by (simp add: facts e reset f l_def[symmetric] now_def[symmetric] del: of_int_add of_int_diff)
  qed
qed

end

subsection \<open>Waiting\<close>

lemma lk_excess_lower:
  assumes "of_int (cap - 1) < l" "l \<le> of_int cap"
  shows "l - of_int (cap - 1) - 2 / 2 ^ 53 - 1 / 2 ^ 106 \<le> lk_excess cap l"
proof -
  let ?a = "lsub l (of_int cap)"
  have "\<bar>l - of_int cap\<bar> / 2 ^ 53 \<le> 1 / 2 ^ 53" using assms by (intro divide_right_mono) auto
  with dbl_err[of "l - of_int cap"] have a: "\<bar>?a - (l - of_int cap)\<bar> \<le> 1 / 2 ^ 53"
    unfolding lsub_def by linarith
  have "\<bar>?a + 1\<bar> \<le> 1 + 1 / 2 ^ 53" using a assms by (simp only: abs_le_iff of_int_diff of_int_1) linarith
  then have "\<bar>?a + 1\<bar> / 2 ^ 53 \<le> (1 + 1 / 2 ^ 53) / 2 ^ 53" by (intro divide_right_mono) auto
  moreover have "(1 + 1 / 2 ^ 53) / 2 ^ 53 = 1 / 2 ^ 53 + (1 / 2 ^ 106 :: rat)" by simp
  ultimately have "\<bar>lk_excess cap l - (?a + 1)\<bar> \<le> 1 / 2 ^ 53 + 1 / 2 ^ 106"
    using dbl_err[of "?a + 1"] unfolding lk_excess_def ladd_def by linarith
  moreover have "l - of_int (cap - 1) = l - of_int cap + 1" by simp
  moreover have "2 / 2 ^ 53 = 1 / 2 ^ 53 + (1 / 2 ^ 53 :: rat)" by simp
  ultimately show ?thesis using a by linarith
qed

lemma lk_leak_after_wait:
  assumes "0 < cap" "cap \<le> 2 ^ 51" "1 / 2 ^ 40 \<le> r" "of_int (cap - 1) < l" "l \<le> of_int cap"
    "bucket_wait r (lk_excess cap l) < e"
  shows "lsub l (lmul (ldiv (of_int e) 1000) r) \<le> of_int (cap - 1)"
proof -
  let ?u = "1 / 2 ^ 53 :: rat" and ?g = "lmul (ldiv (of_int e) 1000) r" and ?x = "lk_excess cap l"
  have r: "0 < r" using assms(3) by (rule less_le_trans[rotated]) simp
  have x: "0 \<le> ?x" using assms by (intro lk_excess_nonneg)
  have "?x / r * 1000 * (1 - ?u) ^ 2 \<le> lmul (ldiv ?x r) 1000"
    unfolding lmul_def ldiv_def using x r by (intro dbl.fl_div_mul_lower) auto
  also have "\<dots> \<le> of_int (bucket_wait r ?x)" unfolding bucket_wait_def by linarith
  finally have e: "?x / r * 1000 * (1 - ?u) ^ 2 + 1 \<le> of_int e" using assms(6) by linarith
  moreover have "0 \<le> ?x / r * 1000 * (1 - ?u) ^ 2" using x r by simp
  ultimately have e0: "0 \<le> e" by linarith
  have "(?x / r * 1000 * (1 - ?u) ^ 2 + 1) / 1000 * r \<le> of_int e / 1000 * r"
    using e r by (intro mult_right_mono divide_right_mono) auto
  moreover have "(?x / r * 1000 * (1 - ?u) ^ 2 + 1) / 1000 * r = ?x * (1 - ?u) ^ 2 + r / 1000"
    using r by (simp add: field_simps)
  moreover have "8 * ?u \<le> r / 1000" using assms(3) by simp
  ultimately have y: "?x * (1 - ?u) ^ 2 + 8 * ?u \<le> of_int e / 1000 * r" by linarith
  have "(?x * (1 - ?u) ^ 2 + 8 * ?u) * (1 - ?u) ^ 2 \<le> of_int e / 1000 * r * (1 - ?u) ^ 2"
    using y by (intro mult_right_mono) auto
  also have "\<dots> \<le> ?g"
    unfolding lmul_def ldiv_def using e0 r by (intro dbl.fl_div_mul_lower) auto
  finally have g: "(?x * (1 - ?u) ^ 2 + 8 * ?u) * (1 - ?u) ^ 2 \<le> ?g" .
  have x1: "?x \<le> 1"
  proof -
    have "lsub l (of_int cap) \<le> of_int 0" unfolding lsub_def using assms by (intro dbl.fl_le_int) auto
    then have "lk_excess cap l \<le> of_int 1" unfolding lk_excess_def ladd_def by (intro dbl.fl_le_int) auto
    then show ?thesis by simp
  qed
  have "?x - 4 * ?u + 8 * ?u * (1 - ?u) ^ 2 \<le> (?x * (1 - ?u) ^ 2 + 8 * ?u) * (1 - ?u) ^ 2"
    using x x1 by (simp add: power2_eq_square field_simps)
  with g lk_excess_lower[OF assms(4,5)] have "l - of_int (cap - 1) \<le> ?g"
    by (simp add: power2_eq_square)
  then have "l - ?g \<le> of_int (cap - 1)" by linarith
  then show ?thesis unfolding lsub_def using assms(1,2) by (intro dbl.fl_le_int) auto
qed

lemma lk_fresh_step:
  assumes "0 < cap"
  shows "lr_allowed (fst (lk_step cap r now None)) = 1"
    "snd (lk_step cap r now None) = Some \<lparr>lk_level = 1, lk_last = now, lk_deadline = now + 1000\<rparr>"
proof -
  have "bucket_wait r 0 = 0" by (simp add: bucket_wait_def ldiv_def lmul_def)
  then show "lr_allowed (fst (lk_step cap r now None)) = 1"
    "snd (lk_step cap r now None) = Some \<lparr>lk_level = 1, lk_last = now, lk_deadline = now + 1000\<rparr>"
    using assms by (simp_all add: lk_step_def lk_leak_def lk_ttl_def Let_def ladd_def)
qed

lemma lk_spaced_run:
  assumes "0 < cap" "sorted_wrt (\<lambda>a b. a + 1000 < b) ts" "\<forall>t \<in> set ts. pred_option (\<lambda>x. lk_deadline x < t) st"
  shows "admitted (lim_run (lk_step cap r) lk_deadline ts st) = ts"
  using assms(2,3)
proof (induction ts arbitrary: st)
  case (Cons t ts)
  have "lim_expire lk_deadline t st = None" using Cons.prems(2) by (cases st) auto
  with Cons lk_fresh_step[OF assms(1), of r t] show ?case by simp
qed simp

subsection \<open>Properties\<close>

text \<open>
  C9.  One run of \<^verbatim>\<open>leaky_bucket.lua\<close> is one step of \<open>lk_step\<close>: the same reply, the automaton's
  next state in the key, and no other key touched.
\<close>

theorem leaky_bucket_script_refines:
  assumes "redis_server R ks" "bucket_params cap r" "sane_time (ks_clock (ks s))"
    and "lk_holds k (ks s) st" "lk_nonneg st" "pred_option (lk_inv cap r (ks_now (ks s))) st"
  shows "\<exists>s'. leaky_bucket_lua R k cap r s = (Inr (fst (lk_step cap r (ks_now (ks s)) st)), s')
     \<and> lk_holds k (ks s') (snd (lk_step cap r (ks_now (ks s)) st)) \<and> same_elsewhere k (ks s) (ks s')"
  using assms by (rule redis_server.leaky_bucket_refines)

definition lk_keyspace :: keyspace where
  "lk_keyspace = \<lparr>ks_clock = (1700000000, 250000), ks_data = (\<lambda>_. None)\<rparr>"

theorem leaky_bucket_script_refines_witness:
  "\<exists>s'. leaky_bucket_lua mem_redis ''k'' 10 5 lk_keyspace =
      (Inr (fst (lk_step 10 5 1700000000250 None)), s')
    \<and> lk_holds ''k'' s' (Some \<lparr>lk_level = 1, lk_last = 1700000000250, lk_deadline = 1700000001250\<rparr>)"
proof -
  have h: "bucket_params 10 5" "sane_time (ks_clock (id lk_keyspace))"
      "lk_holds ''k'' (id lk_keyspace) None" "lk_nonneg None"
      "pred_option (lk_inv 10 5 (ks_now (id lk_keyspace))) None"
    by (simp_all add: bucket_params_def sane_time_def lk_keyspace_def lk_holds_def ks_live_def lk_nonneg_def)
  have "ks_now lk_keyspace = 1700000000250" by (simp add: ks_now_def mstime_def lk_keyspace_def)
  then show ?thesis
    using leaky_bucket_script_refines[OF mem.redis_server_axioms h] lk_fresh_step(2)[of 10 5 1700000000250] by auto
qed

text \<open>
  C10.  With a leak rate of at least one per second, every run of requests is admitted at most the
  capacity plus what leaks over the duration of the run, up to two roundings of the leak and four
  roundings of the capacity per request, key expiry included.
\<close>

theorem leaky_bucket_rate_bound:
  assumes "0 < cap" "cap \<le> 2 ^ 51" "1 \<le> r" "sorted ts" "ts \<noteq> []"
  shows "of_nat (length (admitted (lim_run (lk_step cap r) lk_deadline ts None)))
    \<le> of_int cap + r / 1000 * (1 + 1 / 2 ^ 53) ^ 2 * of_int (last ts - hd ts)
      + of_nat (length ts) * (4 * of_int cap / 2 ^ 53)"
proof -
  have v: "bucket_valid (cap, r) \<and> 1 \<le> snd (cap, r)" "sorted (hd ts # ts)" "last (hd ts # ts) = last ts"
    using assms by (cases ts; force simp: bucket_valid_def)+
  show ?thesis
    using lkc.run_bound[OF v(1), of "hd ts" None ts] v(2,3)
    by (simp add: lk_credit_def lk_gain_def lk_slack_def del: last.simps)
qed

theorem leaky_bucket_rate_bound_witness:
  "of_nat (length (admitted (lim_run (lk_step 2 4) lk_deadline [0, 0, 0, 300, 2000] None)))
    \<le> of_int 2 + 4 / 1000 * (1 + 1 / 2 ^ 53) ^ 2 * of_int (2000 - 0) + (of_nat 5 * (4 * of_int 2 / 2 ^ 53) :: rat)"
  using leaky_bucket_rate_bound[of 2 4 "[0, 0, 0, 300, 2000]"] by simp

text \<open>
  Requests more than a second apart are always admitted, whatever the leak rate: the key of a
  bucket that was empty expires one second after the first request, with the level of one it holds.
  With a leak rate below one per second the configured rate is exceeded without bound.
\<close>

theorem leaky_bucket_slow_rate_unlimited:
  assumes "0 < cap" "sorted_wrt (\<lambda>a b. a + 1000 < b) ts"
  shows "admitted (lim_run (lk_step cap r) lk_deadline ts None) = ts"
  using assms by (intro lk_spaced_run) auto

theorem leaky_bucket_slow_rate_unlimited_witness:
  "admitted (lim_run (lk_step 1 (1 / 3600)) lk_deadline [0, 1001, 2002, 3003, 4004] None) = [0, 1001, 2002, 3003, 4004]"
  by (rule leaky_bucket_slow_rate_unlimited) simp_all

text \<open>
  A denied caller that waits longer than the \<^verbatim>\<open>retry_after_ms\<close> it was given, with no other
  request in between, is admitted.
\<close>

theorem leaky_bucket_retry_admits:
  assumes "bucket_valid (cap, r)" "1 / 2 ^ 40 \<le> r" "pred_option (lk_inv cap r now) st"
    and "lr_allowed (fst (lk_step cap r now st)) = 0" "now + lr_retry (fst (lk_step cap r now st)) < now'"
  shows "lr_allowed (fst (lk_step cap r now' (lim_expire lk_deadline now' (snd (lk_step cap r now st))))) = 1"
proof -
  let ?l = "lk_leak r now st"
  have v: "0 < cap" "cap \<le> 2 ^ 51" "0 < r" using assms(1) by (auto simp: bucket_valid_def)
  have l: "of_int (cap - 1) < ?l" "?l \<le> of_int cap"
    using lk_leak_bounds[OF v assms(3)] assms(4) by (auto simp: lk_step_allowed split: if_splits)
  have w: "lr_retry (fst (lk_step cap r now st)) = bucket_wait r (lk_excess cap ?l)"
    using l by (simp add: lk_step_def Let_def)
  have "0 \<le> bucket_wait r (lk_excess cap ?l)" using l v by (intro bucket_wait_nonneg lk_excess_nonneg) auto
  then have n: "now < now'" "bucket_wait r (lk_excess cap ?l) < now' - now" using assms(5) w by auto
  have c: "(0::rat) \<le> of_int (cap - 1)" using v(1) by (simp only: of_int_0_le_iff)
  have "lk_leak r now' (lim_expire lk_deadline now' (snd (lk_step cap r now st))) \<le> of_int (cap - 1)"
    using lk_leak_after_wait[OF v(1,2) assms(2) l n(2)] n(1) l v c
    by (simp add: lk_step_state Let_def lk_leak_def[of r now'])
  then show ?thesis by (simp add: lk_step_allowed)
qed

theorem leaky_bucket_retry_admits_witness:
  "lr_allowed (fst (lk_step 2 1 1501 (lim_expire lk_deadline 1501 (snd (lk_step 2 1 500
      (Some \<lparr>lk_level = 2, lk_last = 500, lk_deadline = 3500\<rparr>)))))) = 1"
proof -
  let ?st = "Some \<lparr>lk_level = 2, lk_last = 500, lk_deadline = 3500\<rparr>"
  have r: "lk_leak 1 500 ?st = 2" by (simp add: lk_leak_def)
  have w: "bucket_wait 1 (lk_excess 2 2) = 1000"
    by (simp add: bucket_wait_def lk_excess_def lsub_def ladd_def ldiv_def lmul_def)
  have h: "bucket_valid (2, 1)" "(1::rat) / 2 ^ 40 \<le> 1" "pred_option (lk_inv 2 1 500) ?st"
      "lr_allowed (fst (lk_step 2 1 500 ?st)) = 0" "500 + lr_retry (fst (lk_step 2 1 500 ?st)) < 1501"
    by (simp_all add: bucket_valid_def lk_inv_def lk_covers_def lk_step_def r w)
  show ?thesis by (rule leaky_bucket_retry_admits[OF h])
qed

end
