(* ===== verification/Ip_Address.thy ===== *)
theory Ip_Address
  imports RL_Prelude
begin

text \<open>
  What \<^verbatim>\<open>model/identifier_validation.py\<close> uses of Python's \<^verbatim>\<open>ipaddress\<close> module (Python 3.14, the
  version of the Dockerfile): \<^verbatim>\<open>ip_address\<close>, \<^verbatim>\<open>ip_network(..., strict=False)\<close>, \<^verbatim>\<open>ipv4_mapped\<close>
  and \<^verbatim>\<open>str\<close> of both.  Addresses are their integers; texts are lists of code points.
\<close>

datatype ip = IPv4 int | IPv6 int

subsection \<open>Numbers in text\<close>

definition ascii_digit :: "int \<Rightarrow> bool" where
  "ascii_digit c \<longleftrightarrow> 48 \<le> c \<and> c \<le> 57"

fun digits_value :: "int \<Rightarrow> int list \<Rightarrow> int" where
  "digits_value b ds = foldl (\<lambda>acc d. acc * b + d) 0 ds"

definition hex_digit :: "int \<Rightarrow> int option" where
  "hex_digit c = (if 48 \<le> c \<and> c \<le> 57 then Some (c - 48)
     else if 97 \<le> c \<and> c \<le> 102 then Some (c - 87)
     else if 65 \<le> c \<and> c \<le> 70 then Some (c - 55) else None)"

definition digit_code :: "int \<Rightarrow> int" where
  "digit_code d = (if d < 10 then 48 + d else 87 + d)"

function base_digits :: "int \<Rightarrow> int \<Rightarrow> int list" where
  "base_digits b n = (if b < 2 \<or> n < b then [n] else base_digits b (n div b) @ [n mod b])"
  by auto
termination by (relation "measure (nat \<circ> snd)") (auto intro: int_div_less_self)

declare base_digits.simps [simp del]

definition dec :: "int \<Rightarrow> ustring" where
  "dec n = map digit_code (base_digits 10 n)"

definition hex :: "int \<Rightarrow> ustring" where
  "hex n = map digit_code (base_digits 16 n)"

subsection \<open>IPv4\<close>

definition parse_octet :: "ustring \<Rightarrow> int option" where
  "parse_octet s = (if s = [] \<or> \<not> list_all ascii_digit s \<or> 3 < length s \<or> (s \<noteq> [48] \<and> hd s = 48) then None
     else let v = digits_value 10 (map (\<lambda>c. c - 48) s) in if 255 < v then None else Some v)"

fun sequence :: "'a option list \<Rightarrow> 'a list option" where
  "sequence [] = Some []"
| "sequence (None # xs) = None"
| "sequence (Some x # xs) = map_option ((#) x) (sequence xs)"

definition ipv4_parse :: "ustring \<Rightarrow> int option" where
  "ipv4_parse s = (let octets = split_on 46 s in
     if length octets \<noteq> 4 then None
     else map_option (digits_value 256) (sequence (map parse_octet octets)))"

definition ipv4_str :: "int \<Rightarrow> ustring" where
  "ipv4_str n = join [46] (map dec [n div 2 ^ 24, n div 2 ^ 16 mod 256, n div 2 ^ 8 mod 256, n mod 256])"

subsection \<open>IPv6\<close>

definition parse_hextet :: "ustring \<Rightarrow> int option" where
  "parse_hextet s = (if s = [] \<or> 4 < length s then None
     else map_option (digits_value 16) (sequence (map hex_digit s)))"

text \<open>The positions of the empty inner parts: one of them is the \<^verbatim>\<open>::\<close>, more are an error.\<close>

definition skip_indices :: "ustring list \<Rightarrow> nat list" where
  "skip_indices parts = filter (\<lambda>i. parts ! i = []) [1..<length parts - 1]"

definition ipv6_hextets :: "ustring list \<Rightarrow> int list option" where
  "ipv6_hextets parts = (case skip_indices parts of
       [] \<Rightarrow> if length parts \<noteq> 8 then None else sequence (map parse_hextet parts)
     | [i] \<Rightarrow>
         let hi = take i parts; lo = drop (i + 1) parts;
             hi_bad = (hd parts = [] \<and> i \<noteq> 1); lo_bad = (last parts = [] \<and> length lo \<noteq> 1);
             hi = (if hd parts = [] then [] else hi); lo = (if last parts = [] then [] else lo) in
         if hi_bad \<or> lo_bad \<or> 8 \<le> length hi + length lo then None
         else (case (sequence (map parse_hextet hi), sequence (map parse_hextet lo)) of
             (Some h, Some l) \<Rightarrow> Some (h @ replicate (8 - (length h + length l)) 0 @ l)
           | _ \<Rightarrow> None)
     | _ \<Rightarrow> None)"

definition ipv6_parse :: "ustring \<Rightarrow> int option" where
  "ipv6_parse s = (let parts = split_on 58 s in
     if length parts < 3 then None
     else
       case (if 46 \<in> set (last parts)
             then map_option (\<lambda>v. butlast parts @ [hex (v div 2 ^ 16), hex (v mod 2 ^ 16)]) (ipv4_parse (last parts))
             else Some parts) of
         None \<Rightarrow> None
       | Some parts \<Rightarrow> if 9 < length parts then None
           else map_option (digits_value (2 ^ 16)) (ipv6_hextets parts))"

definition ipv4_mapped :: "int \<Rightarrow> int option" where
  "ipv4_mapped n = (if n div 2 ^ 32 = 65535 then Some (n mod 2 ^ 32) else None)"

text \<open>The first longest run of zero hextets: its start and length.\<close>

fun zero_run :: "int list \<Rightarrow> nat" where
  "zero_run [] = 0"
| "zero_run (x # xs) = (if x = 0 then Suc (zero_run xs) else 0)"

fun best_run :: "nat \<Rightarrow> int list \<Rightarrow> nat \<times> nat" where
  "best_run i [] = (0, 0)"
| "best_run i (x # xs) = (let n = zero_run (x # xs); (j, m) = best_run (Suc i) xs in
     if 0 < n \<and> m \<le> n then (i, n) else (j, m))"

definition hextets_of :: "int \<Rightarrow> int list" where
  "hextets_of n = map (\<lambda>i. n div 2 ^ (16 * (7 - i)) mod 2 ^ 16) [0..<8]"

definition compress_hextets :: "int list \<Rightarrow> ustring list" where
  "compress_hextets hs = (let (i, n) = best_run 0 hs in
     if 1 < n then
       (if i = 0 then [[]] else []) @ map hex (take i hs) @ [[]] @ map hex (drop (i + n) hs)
         @ (if i + n = length hs then [[]] else [])
     else map hex hs)"

definition ipv6_str :: "int \<Rightarrow> ustring" where
  "ipv6_str n = (case ipv4_mapped n of
       Some v \<Rightarrow> codes ''::ffff:'' @ ipv4_str v
     | None \<Rightarrow> join [58] (compress_hextets (hextets_of n)))"

subsection \<open>\<^verbatim>\<open>ip_address\<close>, \<^verbatim>\<open>ip_network\<close> and \<^verbatim>\<open>str\<close>\<close>

definition ip_address :: "ustring \<Rightarrow> ip option" where
  "ip_address s = (if 47 \<in> set s then None else
     case ipv4_parse s of Some n \<Rightarrow> Some (IPv4 n) | None \<Rightarrow> map_option IPv6 (ipv6_parse s))"

definition ip_str :: "ip \<Rightarrow> ustring" where
  "ip_str a = (case a of IPv4 n \<Rightarrow> ipv4_str n | IPv6 n \<Rightarrow> ipv6_str n)"

definition parse_prefix :: "int \<Rightarrow> ustring \<Rightarrow> int option" where
  "parse_prefix width s = (if s = [] \<or> \<not> list_all ascii_digit s then None
     else let v = digits_value 10 (map (\<lambda>c. c - 48) s) in if v \<le> width then Some v else None)"

text \<open>A netmask in address form: ones, then zeros; or its complement.\<close>

definition mask_prefix :: "int \<Rightarrow> int option" where
  "mask_prefix m = map_option int (List.find (\<lambda>p. m = (2 ^ p - 1) * 2 ^ (32 - p)) [0..<33])"

definition parse_netmask :: "ustring \<Rightarrow> int option" where
  "parse_netmask s = (case ipv4_parse s of
       None \<Rightarrow> None
     | Some m \<Rightarrow> (case mask_prefix m of Some p \<Rightarrow> Some p | None \<Rightarrow> mask_prefix (2 ^ 32 - 1 - m)))"

definition ip_network :: "ustring \<Rightarrow> (ip \<times> int) option" where
  "ip_network s = (
     let network = (\<lambda>parse width netmask mk. (case split_on 47 s of
           [a] \<Rightarrow> map_option (\<lambda>n. (mk n, width)) (parse a)
         | [a, m] \<Rightarrow> (case (parse a, netmask m) of
               (Some n, Some p) \<Rightarrow> Some (mk (n div 2 ^ nat (width - p) * 2 ^ nat (width - p)), p)
             | _ \<Rightarrow> None)
         | _ \<Rightarrow> None)) in
     case network ipv4_parse 32 (\<lambda>m. case parse_prefix 32 m of Some p \<Rightarrow> Some p | None \<Rightarrow> parse_netmask m) IPv4 of
       Some x \<Rightarrow> Some x
     | None \<Rightarrow> network ipv6_parse 128 (parse_prefix 128) IPv6)"

definition network_str :: "ip \<times> int \<Rightarrow> ustring" where
  "network_str x = ip_str (fst x) @ [47] @ dec (snd x)"

lemma example_mapped: "ip_address (codes ''::ffff:1.2.3.4'') = Some (IPv6 281470698652420)"
  by code_simp

lemma example_ip6: "map_option ip_str (ip_address (codes ''2001:DB8:0:0:1::1'')) = Some (codes ''2001:db8::1:0:0:1'')"
  by code_simp

lemma example_net: "map_option network_str (ip_network (codes ''10.1.2.3/255.255.0.0'')) = Some (codes ''10.1.0.0/16'')"
  by code_simp

lemma example_net6: "map_option network_str (ip_network (codes ''fe80::/10'')) = Some (codes ''fe80::/10'')"
  by code_simp

end
