(* ===== verification/Identifier.thy ===== *)
theory Identifier
  imports Ip_Address
begin

text \<open>
  \<^verbatim>\<open>model/identifier.py\<close>, \<^verbatim>\<open>model/identifier_validation.py\<close> and \<^verbatim>\<open>core/key_hasher.py\<close>: how a caller's
  raw identifier values become the part of a Redis key that names the caller.

  Values are lists of code points.  \<^verbatim>\<open>str.lower\<close> is a parameter (its tables are Unicode's), as is
  HMAC-SHA256; \<^verbatim>\<open>json.dumps\<close> with \<^verbatim>\<open>ensure_ascii\<close> is defined in full.
\<close>

subsection \<open>Identifier types\<close>

datatype identifier_type = CLIENT_ID | API_KEY | IP_ADDRESS | USER_ID | TENANT_ID | SESSION_ID
  | DEVICE_ID | ORGANIZATION_ID | ACCOUNT_ID | REGION | USER_AGENT | REQUEST_SOURCE
  | SUBSCRIPTION_TIER | WEBHOOK_ID | IP_RANGE | ENDPOINT

fun identifier_type_value :: "identifier_type \<Rightarrow> string" where
  "identifier_type_value CLIENT_ID = ''client_id''"
| "identifier_type_value API_KEY = ''api_key''"
| "identifier_type_value IP_ADDRESS = ''ip_address''"
| "identifier_type_value USER_ID = ''user_id''"
| "identifier_type_value TENANT_ID = ''tenant_id''"
| "identifier_type_value SESSION_ID = ''session_id''"
| "identifier_type_value DEVICE_ID = ''device_id''"
| "identifier_type_value ORGANIZATION_ID = ''organization_id''"
| "identifier_type_value ACCOUNT_ID = ''account_id''"
| "identifier_type_value REGION = ''region''"
| "identifier_type_value USER_AGENT = ''user_agent''"
| "identifier_type_value REQUEST_SOURCE = ''request_source''"
| "identifier_type_value SUBSCRIPTION_TIER = ''subscription_tier''"
| "identifier_type_value WEBHOOK_ID = ''webhook_id''"
| "identifier_type_value IP_RANGE = ''ip_range''"
| "identifier_type_value ENDPOINT = ''endpoint''"

lemma identifier_type_value_inject [simp]: "identifier_type_value a = identifier_type_value b \<longleftrightarrow> a = b"
  by (cases a; cases b; simp)

lemma identifier_type_value_no_colon [simp]: "CHR '':'' \<notin> set (identifier_type_value t)"
  by (cases t; simp)

lemma identifier_type_value_nonempty [simp]: "identifier_type_value t \<noteq> []"
  by (cases t; simp)

subsection \<open>Validation and normalization\<close>

datatype invalid_reason = BadLength int int | NotPrintableAscii | BadApiKey | ScopedAddress
  | NotAnAddress | NotANetwork | BadSlug | ControlCharacters

record invalid_identifier_value =
  iv_type :: identifier_type
  iv_reason :: invalid_reason
  iv_index :: "nat option"

definition invalid :: "identifier_type \<Rightarrow> invalid_reason \<Rightarrow> invalid_identifier_value + 'a" where
  "invalid t r = Inl \<lparr>iv_type = t, iv_reason = r, iv_index = None\<rparr>"

definition length_in :: "int \<Rightarrow> int \<Rightarrow> ustring \<Rightarrow> bool" where
  "length_in lo hi raw \<longleftrightarrow> lo \<le> int (length raw) \<and> int (length raw) \<le> hi"

text \<open>
  \<^verbatim>\<open>re.compile("^C+$").match\<close> for a character class \<open>C\<close>: \<^verbatim>\<open>$\<close> also matches just before a newline
  that ends the string.
\<close>

definition match_class :: "(int \<Rightarrow> bool) \<Rightarrow> ustring \<Rightarrow> bool" where
  "match_class C s \<longleftrightarrow> s \<noteq> [] \<and> (list_all C s \<or> (last s = 10 \<and> butlast s \<noteq> [] \<and> list_all C (butlast s)))"

definition is_lower where "is_lower c \<longleftrightarrow> 97 \<le> c \<and> c \<le> (122::int)"
definition is_upper where "is_upper c \<longleftrightarrow> 65 \<le> c \<and> c \<le> (90::int)"

definition api_key_char :: "int \<Rightarrow> bool" where
  "api_key_char c \<longleftrightarrow> is_lower c \<or> is_upper c \<or> ascii_digit c \<or> c = 95 \<or> c = 45"

definition slug_char :: "int \<Rightarrow> bool" where
  "slug_char c \<longleftrightarrow> is_lower c \<or> ascii_digit c \<or> c = 95 \<or> c = 45"

definition printable_no_whitespace :: "int \<Rightarrow> bool" where
  "printable_no_whitespace c \<longleftrightarrow> 33 \<le> c \<and> c \<le> 126"

definition control_char :: "int \<Rightarrow> bool" where
  "control_char c \<longleftrightarrow> 0 \<le> c \<and> c < 32 \<or> c = 127"

definition validate_opaque_id :: "identifier_type \<Rightarrow> ustring \<Rightarrow> invalid_identifier_value + ustring" where
  "validate_opaque_id t raw =
     (if \<not> length_in 1 256 raw then invalid t (BadLength 1 256)
      else if \<not> list_all printable_no_whitespace raw then invalid t NotPrintableAscii
      else Inr raw)"

definition validate_api_key :: "ustring \<Rightarrow> invalid_identifier_value + ustring" where
  "validate_api_key raw =
     (if \<not> length_in 8 128 raw then invalid API_KEY (BadLength 8 128)
      else if \<not> match_class api_key_char raw then invalid API_KEY BadApiKey
      else Inr raw)"

definition validate_ip_address :: "ustring \<Rightarrow> invalid_identifier_value + ustring" where
  "validate_ip_address raw =
     (if \<not> length_in 1 45 raw then invalid IP_ADDRESS (BadLength 1 45)
      else if 37 \<in> set raw then invalid IP_ADDRESS ScopedAddress
      else case ip_address raw of
          None \<Rightarrow> invalid IP_ADDRESS NotAnAddress
        | Some a \<Rightarrow> Inr (ip_str (case a of
              IPv4 n \<Rightarrow> IPv4 n
            | IPv6 n \<Rightarrow> (case ipv4_mapped n of Some v \<Rightarrow> IPv4 v | None \<Rightarrow> IPv6 n))))"

definition validate_ip_range :: "ustring \<Rightarrow> invalid_identifier_value + ustring" where
  "validate_ip_range raw =
     (if \<not> length_in 1 49 raw then invalid IP_RANGE (BadLength 1 49)
      else if 37 \<in> set raw then invalid IP_RANGE ScopedAddress
      else case ip_network raw of
          None \<Rightarrow> invalid IP_RANGE NotANetwork
        | Some x \<Rightarrow> Inr (network_str x))"

definition validate_slug :: "(ustring \<Rightarrow> ustring) \<Rightarrow> identifier_type \<Rightarrow> ustring \<Rightarrow> invalid_identifier_value + ustring" where
  "validate_slug str_lower t raw =
     (if \<not> length_in 1 64 raw then invalid t (BadLength 1 64)
      else let normalized = str_lower raw in
        if \<not> (match_class slug_char normalized \<and> length (filter slug_char normalized) \<le> 64) then invalid t BadSlug
        else Inr normalized)"

definition validate_user_agent :: "ustring \<Rightarrow> invalid_identifier_value + ustring" where
  "validate_user_agent raw =
     (if \<not> length_in 1 512 raw then invalid USER_AGENT (BadLength 1 512)
      else if list_ex control_char raw then invalid USER_AGENT ControlCharacters
      else Inr raw)"

text \<open>The registry is total: every type has a validator.\<close>

definition validate_and_normalize ::
  "(ustring \<Rightarrow> ustring) \<Rightarrow> identifier_type \<Rightarrow> ustring \<Rightarrow> invalid_identifier_value + ustring" where
  "validate_and_normalize str_lower t raw = (case t of
       API_KEY \<Rightarrow> validate_api_key raw
     | IP_ADDRESS \<Rightarrow> validate_ip_address raw
     | IP_RANGE \<Rightarrow> validate_ip_range raw
     | REGION \<Rightarrow> validate_slug str_lower REGION raw
     | SUBSCRIPTION_TIER \<Rightarrow> validate_slug str_lower SUBSCRIPTION_TIER raw
     | USER_AGENT \<Rightarrow> validate_user_agent raw
     | _ \<Rightarrow> validate_opaque_id t raw)"

subsection \<open>The digest of a set of identifiers\<close>

text \<open>\<^verbatim>\<open>json.dumps(pairs, separators=(",", ":"), ensure_ascii=True)\<close> on a list of string pairs.\<close>

definition hex4 :: "int \<Rightarrow> ustring" where
  "hex4 n = map digit_code [n div 4096 mod 16, n div 256 mod 16, n div 16 mod 16, n mod 16]"

definition json_escape :: "int \<Rightarrow> ustring" where
  "json_escape c =
     (if c = 34 then [92, 34] else if c = 92 then [92, 92]
      else if c = 10 then [92, 110] else if c = 13 then [92, 114] else if c = 9 then [92, 116]
      else if c = 8 then [92, 98] else if c = 12 then [92, 102]
      else if 32 \<le> c \<and> c \<le> 126 then [c]
      else if c < 65536 then [92, 117] @ hex4 c
      else [92, 117] @ hex4 (55296 + (c - 65536) div 1024) @ [92, 117] @ hex4 (56320 + (c - 65536) mod 1024))"

definition json_string :: "ustring \<Rightarrow> ustring" where
  "json_string s = [34] @ concat (map json_escape s) @ [34]"

definition json_pairs :: "(ustring \<times> ustring) list \<Rightarrow> ustring" where
  "json_pairs ps = [91] @ join [44] (map (\<lambda>(t, v). [91] @ json_string t @ [44] @ json_string v @ [93]) ps) @ [93]"

definition digest_payload :: "(string \<times> ustring) list \<Rightarrow> ustring" where
  "digest_payload pairs = json_pairs (map (\<lambda>(t, v). (codes t, v)) (sort_key fst pairs))"

text \<open>\<open>hmac_hex\<close> is HMAC-SHA256 under the service's secret, as 64 hexadecimal digits.\<close>

definition key_digest :: "(ustring \<Rightarrow> string) \<Rightarrow> (string \<times> ustring) list \<Rightarrow> string" where
  "key_digest hmac_hex pairs = take 32 (hmac_hex (digest_payload pairs))"

record client_identifier =
  key_signature :: string
  id_digest :: string

definition identifier_key :: "client_identifier \<Rightarrow> string" where
  "identifier_key c = key_signature c @ '':'' @ id_digest c"

definition build_client_identifier ::
  "(ustring \<Rightarrow> string) \<Rightarrow> (identifier_type \<times> ustring) list \<Rightarrow> client_identifier" where
  "build_client_identifier hmac_hex pairs =
     (let sorted_pairs = sort_key (\<lambda>p. identifier_type_value (fst p)) pairs in
      \<lparr>key_signature = join ''+'' (map (\<lambda>p. identifier_type_value (fst p)) sorted_pairs),
       id_digest = key_digest hmac_hex (map (\<lambda>(t, v). (identifier_type_value t, v)) sorted_pairs)\<rparr>)"

subsection \<open>The payload determines the identifiers\<close>

definition scalar :: "int \<Rightarrow> bool" where
  "scalar c \<longleftrightarrow> 0 \<le> c \<and> c < 1114112 \<and> \<not> (55296 \<le> c \<and> c \<le> 57343)"

lemma digit_code_inject: "0 \<le> a \<Longrightarrow> 0 \<le> b \<Longrightarrow> a < 16 \<Longrightarrow> b < 16 \<Longrightarrow> digit_code a = digit_code b \<longleftrightarrow> a = b"
  by (auto simp: digit_code_def)

lemma digits4:
  assumes "0 \<le> k" "k < (65536::int)"
  shows "k div 4096 mod 16 * 4096 + k div 256 mod 16 * 256 + k div 16 mod 16 * 16 + k mod 16 = k"
proof -
  have sum: "C * 4096 + d * 256 + e * 16 + f = k" if "k = A * 16 + f" "A = B * 16 + e" "B = C * 16 + d"
    for A B C d e f :: int using that by simp
  have 1: "k div 256 = k div 16 div 16" "k div 4096 = k div 256 div 16"
    using zdiv_zmult2_eq[of 16 k 16] zdiv_zmult2_eq[of 16 k 256] by simp_all
  have 2: "k div 4096 mod 16 = k div 4096" using assms by (intro mod_pos_pos_trivial) auto
  show ?thesis unfolding 2
    by (rule sum[of "k div 16" _ "k div 256"]) (simp_all only: 1 div_mult_mod_eq)
qed

lemma hex4_inject:
  assumes "0 \<le> m" "m < 65536" "0 \<le> n" "n < 65536"
  shows "hex4 m @ r = hex4 n @ s \<longleftrightarrow> m = n \<and> r = s"
proof
  have dig: "0 \<le> k mod 16" "k mod 16 < 16" for k :: int by simp_all
  assume "hex4 m @ r = hex4 n @ s"
  then have d: "m div 4096 mod 16 = n div 4096 mod 16" "m div 256 mod 16 = n div 256 mod 16"
      "m div 16 mod 16 = n div 16 mod 16" "m mod 16 = n mod 16" and "r = s"
    unfolding hex4_def list.map append.simps list.inject digit_code_inject[OF dig(1,1,2,2)] by blast+
  have "m = n" by (rule trans[OF digits4[OF assms(1,2), unfolded d, symmetric] digits4[OF assms(3,4)]])
  with \<open>r = s\<close> show "m = n \<and> r = s" by simp
qed simp

lemma json_escape_cases:
  assumes "scalar c"
  obtains (plain) "json_escape c = [c]" "c \<noteq> 92" "c \<noteq> 34"
  | (short) k where "json_escape c = [92, k]" "k \<noteq> 117" "(c, k) \<in> {(34, 34), (92, 92), (10, 110), (13, 114), (9, 116), (8, 98), (12, 102)}"
  | (bmp) "json_escape c = [92, 117] @ hex4 c" "c < 65536"
  | (astral) "json_escape c = [92, 117] @ hex4 (55296 + (c - 65536) div 1024) @ [92, 117] @ hex4 (56320 + (c - 65536) mod 1024)"
      "65536 \<le> c"
proof -
  consider "c \<in> {34, 92, 10, 13, 9, 8, 12}" | "c \<notin> {34, 92, 10, 13, 9, 8, 12}" "32 \<le> c" "c \<le> 126"
    | "c \<notin> {34, 92, 10, 13, 9, 8, 12}" "\<not> (32 \<le> c \<and> c \<le> 126)" "c < 65536"
    | "65536 \<le> c" by linarith
  then show thesis
  proof cases
    case 1
    then show ?thesis by (intro short[of "json_escape c ! 1"]) (auto simp: json_escape_def)
  next
    case 2
    then show ?thesis by (intro plain) (auto simp: json_escape_def)
  next
    case 3
    then show ?thesis by (intro bmp) (auto simp: json_escape_def)
  next
    case 4
    then show ?thesis by (intro astral) (auto simp: json_escape_def)
  qed
qed

lemma astral_parts:
  assumes "scalar c" "65536 \<le> c"
  shows "0 \<le> 55296 + (c - 65536) div 1024" "55296 + (c - 65536) div 1024 < 56320"
    "55296 \<le> 55296 + (c - 65536) div 1024"
    "0 \<le> 56320 + (c - 65536) mod 1024" "56320 + (c - 65536) mod 1024 < 65536"
  using assms by (auto simp: scalar_def)

lemma json_escape_prefix_free:
  assumes "scalar a" "scalar b" "json_escape a @ r = json_escape b @ s"
  shows "a = b \<and> r = s"
proof -
  have bmp_bounds: "0 \<le> c" "c < 65536 \<Longrightarrow> \<not> (55296 \<le> c \<and> c \<le> 57343)" if "scalar c" for c
    using that by (auto simp: scalar_def)
  note a = bmp_bounds[OF assms(1)] and b = bmp_bounds[OF assms(2)]
  show ?thesis
  proof (rule json_escape_cases[OF assms(1)])
    assume "json_escape a = [a]" "a \<noteq> 92" "a \<noteq> 34"
    then show ?thesis using assms(3) by (cases rule: json_escape_cases[OF assms(2)]) auto
  next
    fix k assume "json_escape a = [92, k]" "k \<noteq> 117"
      "(a, k) \<in> {(34, 34), (92, 92), (10, 110), (13, 114), (9, 116), (8, 98), (12, 102)}"
    then show ?thesis using assms(3) by (cases rule: json_escape_cases[OF assms(2)]) auto
  next
    assume "json_escape a = [92, 117] @ hex4 a" "a < 65536"
    note e = this
    show ?thesis
    proof (rule json_escape_cases[OF assms(2)])
      assume f: "json_escape b = [92, 117] @ hex4 (55296 + (b - 65536) div 1024) @ [92, 117] @ hex4 (56320 + (b - 65536) mod 1024)"
        "65536 \<le> b"
      note p = astral_parts[OF assms(2) f(2)]
      have "a = 55296 + (b - 65536) div 1024"
        using assms(3) e f a p by (simp add: hex4_inject)
      then show ?thesis using a(2)[OF e(2)] p by auto
    qed (use assms(3) e a b in \<open>auto simp: hex4_inject\<close>)
  next
    assume e: "json_escape a = [92, 117] @ hex4 (55296 + (a - 65536) div 1024) @ [92, 117] @ hex4 (56320 + (a - 65536) mod 1024)"
      "65536 \<le> a"
    show ?thesis
    proof (rule json_escape_cases[OF assms(2)])
      assume f: "json_escape b = [92, 117] @ hex4 (55296 + (b - 65536) div 1024) @ [92, 117] @ hex4 (56320 + (b - 65536) mod 1024)"
        "65536 \<le> b"
      have "(a - 65536) div 1024 = (b - 65536) div 1024 \<and> (a - 65536) mod 1024 = (b - 65536) mod 1024 \<and> r = s"
        using assms(3) e f astral_parts[OF assms(1) e(2)] astral_parts[OF assms(2) f(2)]
        by (auto simp: hex4_inject)
      then show ?thesis by (metis add_diff_cancel_left' diff_add_cancel div_mult_mod_eq)
    qed (use assms(3) e a b astral_parts[OF assms(1) e(2)] in \<open>auto simp: hex4_inject\<close>)
  qed
qed

lemma json_escape_head: "scalar c \<Longrightarrow> json_escape c \<noteq> [] \<and> hd (json_escape c) \<noteq> 34"
  by (cases rule: json_escape_cases) auto

lemma json_escapes_inject:
  assumes "list_all scalar xs" "list_all scalar ys"
    "concat (map json_escape xs) @ 34 # r = concat (map json_escape ys) @ 34 # s"
  shows "xs = ys \<and> r = s"
  using assms
proof (induction xs arbitrary: ys)
  case Nil
  then show ?case using json_escape_head by (cases ys) (fastforce simp: hd_append dest: arg_cong[of _ _ hd])+
next
  case (Cons x xs)
  show ?case
  proof (cases ys)
    case Nil
    with Cons.prems json_escape_head[of x] show ?thesis by (cases "json_escape x") auto
  next
    case (Cons y ys')
    with Cons.prems json_escape_prefix_free[of x y] have
      "x = y \<and> concat (map json_escape xs) @ 34 # r = concat (map json_escape ys') @ 34 # s" by auto
    with Cons.IH[of ys'] Cons.prems Cons show ?thesis by simp
  qed
qed

lemma json_string_inject:
  "list_all scalar xs \<Longrightarrow> list_all scalar ys \<Longrightarrow> json_string xs @ r = json_string ys @ s \<longleftrightarrow> xs = ys \<and> r = s"
  using json_escapes_inject[of xs ys r s] by (auto simp: json_string_def)

definition json_pair :: "ustring \<times> ustring \<Rightarrow> ustring" where
  "json_pair p = [91] @ json_string (fst p) @ [44] @ json_string (snd p) @ [93]"

definition scalar_pair :: "ustring \<times> ustring \<Rightarrow> bool" where
  "scalar_pair p \<longleftrightarrow> list_all scalar (fst p) \<and> list_all scalar (snd p)"

lemma json_pair_inject:
  "scalar_pair p \<Longrightarrow> scalar_pair q \<Longrightarrow> json_pair p @ r = json_pair q @ s \<longleftrightarrow> p = q \<and> r = s"
  by (auto simp: json_pair_def scalar_pair_def json_string_inject prod_eq_iff)

lemma json_join_cons:
  "join [44] (map json_pair (x # xs)) @ [93] =
     json_pair x @ (if xs = [] then [93] else 44 # join [44] (map json_pair xs) @ [93])"
  by (cases xs) simp_all

lemma json_pair_head: "json_pair p @ r \<noteq> 93 # s"
  by (simp add: json_pair_def)

lemma json_join_inject:
  "list_all scalar_pair ps \<Longrightarrow> list_all scalar_pair qs \<Longrightarrow>
     join [44] (map json_pair ps) @ [93] = join [44] (map json_pair qs) @ [93] \<Longrightarrow> ps = qs"
proof (induction ps arbitrary: qs)
  case Nil
  show ?case
  proof (cases qs)
    case (Cons q qs')
    then show ?thesis using Nil.prems(3) json_pair_head[of q _ "[]"] unfolding Cons json_join_cons by simp metis
  qed simp
next
  case IH: (Cons p ps)
  show ?case
  proof (cases qs)
    case Nil
    then show ?thesis using IH.prems(3) json_pair_head[of p _ "[]"] unfolding json_join_cons by simp
  next
    case (Cons q qs')
    have "scalar_pair p" "scalar_pair q" using IH.prems Cons by auto
    from json_pair_inject[OF this] have "p = q" and
      "(if ps = [] then [93] else 44 # join [44] (map json_pair ps) @ [93]) =
       (if qs' = [] then [93] else 44 # join [44] (map json_pair qs') @ [93])"
      using IH.prems(3) unfolding Cons json_join_cons by auto
    then show ?thesis using IH.IH[of qs'] IH.prems Cons by (auto split: if_splits)
  qed
qed

lemma json_pairs_inject:
  "list_all scalar_pair ps \<Longrightarrow> list_all scalar_pair qs \<Longrightarrow> json_pairs ps = json_pairs qs \<longleftrightarrow> ps = qs"
proof -
  have "json_pairs xs = 91 # join [44] (map json_pair xs) @ [93]" for xs
    by (simp add: json_pairs_def json_pair_def[abs_def] case_prod_beta')
  then show "list_all scalar_pair ps \<Longrightarrow> list_all scalar_pair qs \<Longrightarrow> ?thesis"
    using json_join_inject[of ps qs] by auto
qed

lemma codes_inject: "codes a = codes b \<longleftrightarrow> a = b"
  unfolding codes_def by (rule inj_map_eq_map) (simp add: inj_def)

lemma codes_scalar: "list_all scalar (codes s)"
proof -
  have "0 \<le> (of_char c :: int)" "(of_char c :: int) < 256" for c
    using of_char_mod_256[of c] by (metis pos_mod_bound pos_mod_sign zero_less_numeral)+
  then have "scalar (of_char c)" for c :: char unfolding scalar_def by (smt (verit))
  then show ?thesis by (simp add: codes_def list_all_iff)
qed

lemma scalar_pairs:
  "\<forall>p \<in> set xs. list_all scalar (snd p) \<Longrightarrow> list_all scalar_pair (map (\<lambda>(t, v). (codes t, v)) xs)"
  by (induction xs) (auto simp: scalar_pair_def codes_scalar)

lemma payload_pairs_inject:
  assumes "\<forall>p \<in> set xs \<union> set ys. list_all scalar (snd p)"
  shows "json_pairs (map (\<lambda>(t, v). (codes t, v)) xs) = json_pairs (map (\<lambda>(t, v). (codes t, v)) ys) \<longleftrightarrow> xs = ys"
proof -
  have "list_all scalar_pair (map (\<lambda>(t, v). (codes t, v)) xs)" "list_all scalar_pair (map (\<lambda>(t, v). (codes t, v)) ys)"
    using assms by (auto intro!: scalar_pairs)
  moreover have "map (\<lambda>(t, v). (codes t, v)) xs = map (\<lambda>(t, v). (codes t, v)) ys \<longleftrightarrow> xs = ys"
    by (rule inj_map_eq_map) (auto simp: inj_def codes_inject)
  ultimately show ?thesis by (simp only: json_pairs_inject)
qed

lemma inj_on_fst_distinct: "distinct (map fst xs) \<Longrightarrow> inj_on fst (set xs)"
  by (simp add: distinct_map)

lemma sort_fst_permute: "mset xs = mset ys \<Longrightarrow> distinct (map fst xs) \<Longrightarrow> sort_key fst xs = sort_key fst ys"
  by (intro sort_key_permute inj_on_fst_distinct)

lemma key_digest_permute:
  "mset xs = mset ys \<Longrightarrow> distinct (map fst xs) \<Longrightarrow> key_digest h xs = key_digest h ys"
  by (simp add: key_digest_def digest_payload_def sort_fst_permute)

lemma build_client_identifier_permute:
  assumes "mset xs = mset ys" "distinct (map fst xs)"
  shows "build_client_identifier h xs = build_client_identifier h ys"
proof -
  have "inj_on (\<lambda>p. identifier_type_value (fst p)) (set xs)"
    using assms(2) by (auto simp: distinct_map inj_on_def)
  from sort_key_permute[OF assms(1) this] show ?thesis by (simp add: build_client_identifier_def)
qed

lemma match_class_mono: "match_class C s \<Longrightarrow> (\<And>c. C c \<Longrightarrow> D c) \<Longrightarrow> match_class D s"
  by (auto simp: match_class_def list_all_iff)

lemma validate_slug_idem:
  assumes "\<And>s. match_class slug_char s \<Longrightarrow> str_lower s = s" "validate_slug str_lower t raw = Inr v"
  shows "int (length v) \<le> 64 \<Longrightarrow> validate_slug str_lower t v = Inr v"
  using assms by (auto simp: validate_slug_def Let_def invalid_def length_in_def match_class_def neq_Nil_conv split: if_splits)

subsection \<open>Properties\<close>

text \<open>
  C11.  The payload that is hashed into a Redis key determines the identifiers: for requests with at
  most one value per type (the DTO rejects others) and values that are well-formed text, two
  payloads are equal exactly when the two requests name the same types with the same values, in
  whatever order.
\<close>

theorem digest_payload_injective:
  assumes "distinct (map fst xs)" "distinct (map fst ys)" "\<forall>p \<in> set xs \<union> set ys. list_all scalar (snd p)"
  shows "digest_payload xs = digest_payload ys \<longleftrightarrow> mset xs = mset ys"
proof -
  have "digest_payload xs = digest_payload ys \<longleftrightarrow> sort_key fst xs = sort_key fst ys"
    unfolding digest_payload_def using assms(3) by (intro payload_pairs_inject) auto
  also have "\<dots> \<longleftrightarrow> mset xs = mset ys"
    using sort_fst_permute[of xs ys] assms(1) by (metis mset_sort)
  finally show ?thesis .
qed

theorem digest_payload_injective_witness:
  "digest_payload [(''api_key'', codes ''a'' @ [34, 44, 34]), (''region'', codes ''b'')] \<noteq>
   digest_payload [(''api_key'', codes ''a''), (''region'', [34, 44, 34] @ codes ''b'')]"
proof -
  have "list_all scalar [34, 44, 34]" by (simp add: scalar_def)
  then have "digest_payload [(''api_key'', codes ''a'' @ [34, 44, 34]), (''region'', codes ''b'')] =
      digest_payload [(''api_key'', codes ''a''), (''region'', [34, 44, 34] @ codes ''b'')] \<longleftrightarrow>
      mset [(''api_key'', codes ''a'' @ [34, 44, 34]), (''region'', codes ''b'')] =
      mset [(''api_key'', codes ''a''), (''region'', [34, 44, 34] @ codes ''b'')]"
    by (intro digest_payload_injective) (auto simp: codes_scalar)
  then show ?thesis by (simp add: add_eq_conv_ex codes_def)
qed

text \<open>
  The identifier a caller is keyed by does not depend on the order in which the request lists
  its identifiers.
\<close>

theorem client_identifier_order_independent:
  assumes "mset xs = mset ys" "distinct (map fst xs)"
  shows "build_client_identifier h xs = build_client_identifier h ys"
  using assms by (rule build_client_identifier_permute)

theorem client_identifier_order_independent_witness:
  "build_client_identifier (\<lambda>_. ''0'') [(API_KEY, codes ''k''), (REGION, codes ''eu'')]
   = build_client_identifier (\<lambda>_. ''0'') [(REGION, codes ''eu''), (API_KEY, codes ''k'')]"
  by (rule client_identifier_order_independent) simp_all

text \<open>
  Normalization is stable: a normalized value of a type other than the IP types validates
  again, to itself, so a value that has been normalized once names the same caller ever after.
  \<open>str_lower\<close> is only required to leave text that is already in the slug alphabet alone, and to keep
  the length of a text it turns into such a text.
\<close>

theorem validate_and_normalize_idempotent:
  assumes "\<And>s. match_class slug_char s \<Longrightarrow> str_lower s = s" "\<And>s. match_class slug_char (str_lower s) \<Longrightarrow> length (str_lower s) = length s"
    and "t \<notin> {IP_ADDRESS, IP_RANGE}" "validate_and_normalize str_lower t raw = Inr v"
  shows "validate_and_normalize str_lower t v = Inr v"
proof -
  have "t \<in> {REGION, SUBSCRIPTION_TIER} \<Longrightarrow> int (length v) \<le> 64"
    using assms(2,4) by (auto simp: validate_and_normalize_def validate_slug_def Let_def invalid_def length_in_def
        split: if_splits)
  then show ?thesis using assms(3,4) validate_slug_idem[OF assms(1), of _ raw v]
    by (cases t) (auto simp: validate_and_normalize_def validate_opaque_id_def validate_api_key_def
        validate_user_agent_def invalid_def split: if_splits)
qed

definition ascii_lower :: "ustring \<Rightarrow> ustring" where
  "ascii_lower = map (\<lambda>c. if is_upper c then c + 32 else c)"

theorem validate_and_normalize_idempotent_witness:
  "validate_and_normalize ascii_lower REGION (codes ''EU-1'') = Inr (codes ''eu-1'')
   \<and> validate_and_normalize ascii_lower REGION (codes ''eu-1'') = Inr (codes ''eu-1'')"
proof -
  have id: "ascii_lower s = s" if "match_class slug_char s" for s
  proof -
    have "\<not> is_upper c" if "c \<in> set s" for c
    proof (cases "list_all slug_char s")
      case True
      with that show ?thesis by (auto simp: list_all_iff slug_char_def is_lower_def is_upper_def ascii_digit_def)
    next
      case False
      then have m: "s \<noteq> []" "last s = 10" and s2: "list_all slug_char (butlast s)"
        using \<open>match_class slug_char s\<close> by (auto simp: match_class_def)
      have s: "s = butlast s @ [10]" "list_all slug_char (butlast s)"
        using append_butlast_last_id[OF m(1)] m(2) s2 by simp_all
      have "c \<in> set (butlast s @ [10])" using that by (subst (asm) s(1))
      then have "c = 10 \<or> slug_char c" using s(2) by (auto simp: list_all_iff)
      then show ?thesis by (auto simp: slug_char_def is_lower_def is_upper_def ascii_digit_def)
    qed
    then show ?thesis by (auto simp: ascii_lower_def intro: map_idI)
  qed
  have 1: "validate_and_normalize ascii_lower REGION (codes ''EU-1'') = Inr (codes ''eu-1'')" by code_simp
  with validate_and_normalize_idempotent[of ascii_lower REGION "codes ''EU-1''", OF id _ _ 1] show ?thesis
    by (simp add: ascii_lower_def)
qed

text \<open>
  The API-key format is weaker than its error message says: \<^verbatim>\<open>$\<close> accepts a final newline, so
  a key of the alphabet with a newline appended is valid, and is a different caller.
\<close>

theorem api_key_trailing_newline_accepted:
  assumes "7 \<le> length k" "length k \<le> 127" "list_all api_key_char k"
  shows "validate_and_normalize str_lower API_KEY (k @ [10]) = Inr (k @ [10])"
  using assms by (auto simp: validate_and_normalize_def validate_api_key_def length_in_def match_class_def)

theorem api_key_trailing_newline_accepted_witness:
  "validate_and_normalize id API_KEY (codes ''sk_live_12'' @ [10]) = Inr (codes ''sk_live_12'' @ [10])"
  by (rule api_key_trailing_newline_accepted) code_simp+

end
