(* ===== verification/Rule_Identifier_Type.thy ===== *)
theory Rule_Identifier_Type
  imports Identifier
begin

text \<open>
  \<^verbatim>\<open>model/rule_identifier_type.py\<close>: the identifier types a rule can be scoped to, their bridge to the
  runtime types, and \<^verbatim>\<open>normalize_identifier_types\<close>, the one place that derives the signature under
  which a rule is unique.
\<close>

datatype rule_identifier_type = R_GLOBAL | R_USER_ID | R_API_KEY | R_CLIENT_ID | R_IP | R_TENANT_ID
  | R_SESSION_ID | R_DEVICE_ID | R_ORGANIZATION_ID | R_ACCOUNT_ID | R_REGION | R_USER_AGENT
  | R_REQUEST_SOURCE | R_SUBSCRIPTION_TIER | R_WEBHOOK_ID | R_IP_RANGE | R_ENDPOINT

fun rule_identifier_value :: "rule_identifier_type \<Rightarrow> string" where
  "rule_identifier_value R_GLOBAL = ''global''"
| "rule_identifier_value R_USER_ID = ''user_id''"
| "rule_identifier_value R_API_KEY = ''api_key''"
| "rule_identifier_value R_CLIENT_ID = ''client_id''"
| "rule_identifier_value R_IP = ''ip''"
| "rule_identifier_value R_TENANT_ID = ''tenant_id''"
| "rule_identifier_value R_SESSION_ID = ''session_id''"
| "rule_identifier_value R_DEVICE_ID = ''device_id''"
| "rule_identifier_value R_ORGANIZATION_ID = ''organization_id''"
| "rule_identifier_value R_ACCOUNT_ID = ''account_id''"
| "rule_identifier_value R_REGION = ''region''"
| "rule_identifier_value R_USER_AGENT = ''user_agent''"
| "rule_identifier_value R_REQUEST_SOURCE = ''request_source''"
| "rule_identifier_value R_SUBSCRIPTION_TIER = ''subscription_tier''"
| "rule_identifier_value R_WEBHOOK_ID = ''webhook_id''"
| "rule_identifier_value R_IP_RANGE = ''ip_range''"
| "rule_identifier_value R_ENDPOINT = ''endpoint''"

definition rule_identifier_types :: "rule_identifier_type list" where
  "rule_identifier_types = [R_GLOBAL, R_USER_ID, R_API_KEY, R_CLIENT_ID, R_IP, R_TENANT_ID, R_SESSION_ID,
     R_DEVICE_ID, R_ORGANIZATION_ID, R_ACCOUNT_ID, R_REGION, R_USER_AGENT, R_REQUEST_SOURCE,
     R_SUBSCRIPTION_TIER, R_WEBHOOK_ID, R_IP_RANGE, R_ENDPOINT]"

definition rule_identifier_values :: "string list" where
  "rule_identifier_values = map rule_identifier_value rule_identifier_types"

fun engine_type_of :: "rule_identifier_type \<Rightarrow> identifier_type" where
  "engine_type_of R_GLOBAL = ENDPOINT"
| "engine_type_of R_USER_ID = USER_ID"
| "engine_type_of R_API_KEY = API_KEY"
| "engine_type_of R_CLIENT_ID = CLIENT_ID"
| "engine_type_of R_IP = IP_ADDRESS"
| "engine_type_of R_TENANT_ID = TENANT_ID"
| "engine_type_of R_SESSION_ID = SESSION_ID"
| "engine_type_of R_DEVICE_ID = DEVICE_ID"
| "engine_type_of R_ORGANIZATION_ID = ORGANIZATION_ID"
| "engine_type_of R_ACCOUNT_ID = ACCOUNT_ID"
| "engine_type_of R_REGION = REGION"
| "engine_type_of R_USER_AGENT = USER_AGENT"
| "engine_type_of R_REQUEST_SOURCE = REQUEST_SOURCE"
| "engine_type_of R_SUBSCRIPTION_TIER = SUBSCRIPTION_TIER"
| "engine_type_of R_WEBHOOK_ID = WEBHOOK_ID"
| "engine_type_of R_IP_RANGE = IP_RANGE"
| "engine_type_of R_ENDPOINT = ENDPOINT"

text \<open>\<^verbatim>\<open>RULE_TO_ENGINE_IDENTIFIER_TYPE\<close>, keyed by the type's value.\<close>

definition rule_to_engine_identifier_type :: "identifier_type dict" where
  "rule_to_engine_identifier_type = map (\<lambda>t. (rule_identifier_value t, engine_type_of t)) rule_identifier_types"

definition max_identifiers_per_rule :: nat where
  "max_identifiers_per_rule = 3"

datatype invalid_identifier_types = UnknownIdentifierType string | NoIdentifierTypes
  | TooManyIdentifierTypes nat | GlobalNotAlone

primrec collect_types :: "string list \<Rightarrow> string list \<Rightarrow> invalid_identifier_types + string list" where
  "collect_types [] values = Inr values"
| "collect_types (value # raw) values =
     (if value \<notin> set rule_identifier_values then Inl (UnknownIdentifierType value)
      else collect_types raw (if value \<in> set values then values else values @ [value]))"

definition normalize_identifier_types :: "string list \<Rightarrow> invalid_identifier_types + string list \<times> string" where
  "normalize_identifier_types raw = (case collect_types raw [] of
       Inl e \<Rightarrow> Inl e
     | Inr values \<Rightarrow>
         if values = [] then Inl NoIdentifierTypes
         else if max_identifiers_per_rule < length values then Inl (TooManyIdentifierTypes (length values))
         else if ''global'' \<in> set values \<and> 1 < length values then Inl GlobalNotAlone
         else let sorted_types = sort values in Inr (sorted_types, join ''+'' sorted_types))"

subsection \<open>Canonical form\<close>

lemma collect_types_Inr:
  "collect_types raw acc = Inr vs \<Longrightarrow> distinct acc \<Longrightarrow>
     distinct vs \<and> set vs = set acc \<union> set raw \<and> set raw \<subseteq> set rule_identifier_values"
  by (induction raw arbitrary: acc) (fastforce split: if_splits)+

lemma collect_types_total: "set raw \<subseteq> set rule_identifier_values \<Longrightarrow> \<exists>vs. collect_types raw acc = Inr vs"
  by (induction raw arbitrary: acc) auto

definition types_ok :: "string list \<Rightarrow> bool" where
  "types_ok ts \<longleftrightarrow> sorted ts \<and> distinct ts \<and> ts \<noteq> [] \<and> length ts \<le> max_identifiers_per_rule
     \<and> set ts \<subseteq> set rule_identifier_values \<and> (''global'' \<in> set ts \<longrightarrow> ts = [''global''])"

lemma singleton_of_member: "x \<in> set xs \<Longrightarrow> length xs \<le> 1 \<Longrightarrow> xs = [x]"
  by (cases xs) auto

lemma normalize_Inr:
  assumes "normalize_identifier_types raw = Inr (ts, sig)"
  shows "types_ok ts" "set ts = set raw" "sig = join ''+'' ts"
proof -
  obtain vs where c: "collect_types raw [] = Inr vs" and vs: "vs \<noteq> []" "length vs \<le> max_identifiers_per_rule"
      "\<not> (''global'' \<in> set vs \<and> 1 < length vs)" and ts: "ts = sort vs" "sig = join ''+'' ts"
    using assms by (auto simp: normalize_identifier_types_def Let_def split: sum.splits if_splits)
  have v: "distinct vs" "set vs = set raw" "set raw \<subseteq> set rule_identifier_values"
    using collect_types_Inr[OF c] by auto
  have "''global'' \<in> set ts \<Longrightarrow> ts = [''global'']"
    using vs(3) ts(1) by (intro singleton_of_member) auto
  moreover have "ts \<noteq> []" using vs(1) ts(1) by (metis length_0_conv length_sort)
  ultimately show "types_ok ts" "set ts = set raw" "sig = join ''+'' ts"
    using v vs ts by (auto simp: types_ok_def)
qed

lemma rule_values_plain: "v \<in> set rule_identifier_values \<Longrightarrow> CHR ''+'' \<notin> set v \<and> CHR '':'' \<notin> set v \<and> v \<noteq> []"
  by (auto simp: rule_identifier_values_def rule_identifier_types_def)

lemma signature_inject:
  assumes "types_ok ts" "types_ok us"
  shows "join ''+'' ts = join ''+'' us \<longleftrightarrow> ts = us"
  using join_inject[of ts us "CHR ''+''"] assms rule_values_plain by (auto simp: types_ok_def)

lemma types_ok_set_inject: "types_ok ts \<Longrightarrow> types_ok us \<Longrightarrow> set ts = set us \<Longrightarrow> ts = us"
  by (simp add: types_ok_def sorted_distinct_set_unique)

text \<open>
  C12.  \<^verbatim>\<open>normalize_identifier_types\<close> yields a canonical form: sorted, without duplicates, one to three
  known types, \<^verbatim>\<open>global\<close> only alone, with exactly the requested types; and two requests get the same
  signature exactly when they ask for the same set of types.
\<close>

theorem normalize_identifier_types_canonical:
  assumes "normalize_identifier_types raw = Inr (ts, sig)" "normalize_identifier_types raw' = Inr (ts', sig')"
  shows "types_ok ts \<and> set ts = set raw \<and> (sig = sig' \<longleftrightarrow> set raw = set raw')"
  using normalize_Inr[OF assms(1)] normalize_Inr[OF assms(2)] signature_inject types_ok_set_inject by metis

theorem normalize_identifier_types_canonical_witness:
  "types_ok [''api_key'', ''ip''] \<and> set [''api_key'', ''ip''] = set [''ip'', ''api_key'', ''ip''] \<and>
    (''api_key+ip'' = ''region'' \<longleftrightarrow> set [''ip'', ''api_key'', ''ip''] = set [''region''])"
proof -
  have "normalize_identifier_types [''ip'', ''api_key'', ''ip''] = Inr ([''api_key'', ''ip''], ''api_key+ip'')"
    "normalize_identifier_types [''region''] = Inr ([''region''], ''region'')" by code_simp+
  from normalize_identifier_types_canonical[OF this] show ?thesis .
qed

end
