(* ===== verification/Algorithm_Config.thy ===== *)
theory Algorithm_Config
  imports Rule_Identifier_Type Lua_Numbers
begin

text \<open>
  \<^verbatim>\<open>model/rate_limiter_config.py\<close>, \<^verbatim>\<open>services/rule_algorithm_mapper.py\<close> and
  \<^verbatim>\<open>services/group_params.py\<close>: from the JSON parameters stored with a rule to the configuration of
  an algorithm.

  Pydantic is not part of the repository: its conversion of a JSON value to a number is the
  parameter \<open>coercions\<close>, with CPython's \<^verbatim>\<open>int(str)\<close>.  The \<^verbatim>\<open>gt=0\<close> constraints, the order in which
  keys are read, and the arithmetic on \<^verbatim>\<open>window_seconds\<close> are the repository's and are spelled out:
  \<^verbatim>\<open>* 1000\<close> repeats a string, multiplies an int exactly and a float with rounding and overflow.
\<close>

subsection \<open>Values\<close>

datatype json = JNull | JBool bool | JInt int | JFloat rat | JString ustring | JArray "json list"
  | JObject "(string \<times> json) list"

type_synonym params = "json dict"

record coercions =
  c_int :: "json \<Rightarrow> int option"
  c_float :: "json \<Rightarrow> rat option"
  c_int_str :: "ustring \<Rightarrow> int option"

datatype algorithm_config =
    TokenBucketParams (capacity: int) (refill_rate_per_second: rat)
  | FixedWindowParams (window_size_ms: int) (max_requests: int)
  | SlidingWindowLogParams (window_size_ms: int) (max_requests: int)
  | SlidingWindowCounterParams (window_size_ms: int) (max_requests: int)
  | LeakyBucketParams (capacity: int) (leak_rate_per_second: rat)

fun algorithm_name :: "algorithm_config \<Rightarrow> string" where
  "algorithm_name (TokenBucketParams _ _) = ''TokenBucket''"
| "algorithm_name (FixedWindowParams _ _) = ''FixedWindow''"
| "algorithm_name (SlidingWindowLogParams _ _) = ''SlidingWindowLog''"
| "algorithm_name (SlidingWindowCounterParams _ _) = ''SlidingWindowCounter''"
| "algorithm_name (LeakyBucketParams _ _) = ''LeakyBucket''"

text \<open>What the \<^verbatim>\<open>Field(gt=0)\<close> constraints of the five models guarantee.\<close>

fun config_ok :: "algorithm_config \<Rightarrow> bool" where
  "config_ok (TokenBucketParams c r) \<longleftrightarrow> 0 < c \<and> 0 < r"
| "config_ok (FixedWindowParams w m) \<longleftrightarrow> 0 < w \<and> 0 < m"
| "config_ok (SlidingWindowLogParams w m) \<longleftrightarrow> 0 < w \<and> 0 < m"
| "config_ok (SlidingWindowCounterParams w m) \<longleftrightarrow> 0 < w \<and> 0 < m"
| "config_ok (LeakyBucketParams c r) \<longleftrightarrow> 0 < c \<and> 0 < r"

subsection \<open>Building a configuration\<close>

datatype build_error = UnsupportedRuleAlgorithm string | KeyErr string | TypeErr | ValueErr | OverflowErr

definition get_key :: "params \<Rightarrow> string \<Rightarrow> build_error + json" where
  "get_key ps k = (case map_of ps k of None \<Rightarrow> Inl (KeyErr k) | Some v \<Rightarrow> Inr v)"

definition bind_sum :: "'e + 'a \<Rightarrow> ('a \<Rightarrow> 'e + 'b) \<Rightarrow> 'e + 'b" where
  "bind_sum x f = (case x of Inl e \<Rightarrow> Inl e | Inr a \<Rightarrow> f a)"

lemma bind_sum_simps [simp]: "bind_sum (Inl e) f = Inl e" "bind_sum (Inr a) f = f a"
  by (simp_all add: bind_sum_def)

lemma bind_sum_Inr: "bind_sum x f = Inr b \<longleftrightarrow> (\<exists>a. x = Inr a \<and> f a = Inr b)"
  by (cases x) auto

lemma map_sum_Inr: "map_sum f g x = Inr b \<longleftrightarrow> (\<exists>a. x = Inr a \<and> b = g a)"
  by (cases x) auto

text \<open>\<^verbatim>\<open>int(value * 1000)\<close>.\<close>

definition trunc :: "rat \<Rightarrow> int" where
  "trunc x = (if 0 \<le> x then \<lfloor>x\<rfloor> else \<lceil>x\<rceil>)"

definition window_ms :: "coercions \<Rightarrow> json \<Rightarrow> build_error + int" where
  "window_ms c v = (case v of
       JInt n \<Rightarrow> Inr (n * 1000)
     | JBool b \<Rightarrow> Inr (if b then 1000 else 0)
     | JFloat x \<Rightarrow> (let y = dbl (x * 1000) in if 2 ^ 1024 \<le> \<bar>y\<bar> then Inl OverflowErr else Inr (trunc y))
     | JString s \<Rightarrow> (case c_int_str c (concat (replicate 1000 s)) of None \<Rightarrow> Inl ValueErr | Some n \<Rightarrow> Inr n)
     | JNull \<Rightarrow> Inl TypeErr
     | JArray _ \<Rightarrow> Inl TypeErr
     | JObject _ \<Rightarrow> Inl TypeErr)"

definition gt0_int :: "coercions \<Rightarrow> json \<Rightarrow> build_error + int" where
  "gt0_int c v = (case c_int c v of None \<Rightarrow> Inl ValueErr | Some n \<Rightarrow> if 0 < n then Inr n else Inl ValueErr)"

definition gt0_float :: "coercions \<Rightarrow> json \<Rightarrow> build_error + rat" where
  "gt0_float c v = (case c_float c v of None \<Rightarrow> Inl ValueErr | Some x \<Rightarrow> if 0 < x then Inr x else Inl ValueErr)"

definition windowed_class :: "string \<Rightarrow> (int \<Rightarrow> int \<Rightarrow> algorithm_config) option" where
  "windowed_class name = map_of [(''FixedWindow'', FixedWindowParams),
     (''SlidingWindowLog'', SlidingWindowLogParams), (''SlidingWindowCounter'', SlidingWindowCounterParams)] name"

definition build_algorithm_config ::
  "coercions \<Rightarrow> string \<Rightarrow> params \<Rightarrow> build_error + algorithm_config" where
  "build_algorithm_config c name ps = (case windowed_class name of
       Some mk \<Rightarrow>
         bind_sum (get_key ps ''limit'') (\<lambda>limit.
         bind_sum (get_key ps ''window_seconds'') (\<lambda>ws.
         bind_sum (window_ms c ws) (\<lambda>w.
         bind_sum (gt0_int c limit) (\<lambda>m.
         if 0 < w then Inr (mk w m) else Inl ValueErr))))
     | None \<Rightarrow>
         if name = ''TokenBucket'' then
           bind_sum (get_key ps ''capacity'') (\<lambda>cap.
           bind_sum (get_key ps ''refill_rate'') (\<lambda>r.
           bind_sum (gt0_int c cap) (\<lambda>cap.
           bind_sum (gt0_float c r) (\<lambda>r. Inr (TokenBucketParams cap r)))))
         else if name = ''LeakyBucket'' then
           bind_sum (get_key ps ''capacity'') (\<lambda>cap.
           bind_sum (get_key ps ''leak_rate'') (\<lambda>r.
           bind_sum (gt0_int c cap) (\<lambda>cap.
           bind_sum (gt0_float c r) (\<lambda>r. Inr (LeakyBucketParams cap r)))))
         else Inl (UnsupportedRuleAlgorithm name))"

text \<open>The exceptions every caller of \<^verbatim>\<open>build_algorithm_config\<close> catches; \<^verbatim>\<open>OverflowError\<close> is not one.\<close>

definition caught_build_error :: "build_error \<Rightarrow> bool" where
  "caught_build_error e \<longleftrightarrow> e \<noteq> OverflowErr"

subsection \<open>Group parameters\<close>

definition compute_effective_params :: "params \<Rightarrow> params \<Rightarrow> params" where
  "compute_effective_params base overrides = fold (\<lambda>(k, v). AList.update k v) overrides base"

datatype params_error = InvalidOverrideKeys "string list" | InvalidRuleParams string build_error
  | ParamsRaised build_error

definition unknown_keys :: "params \<Rightarrow> params \<Rightarrow> string list" where
  "unknown_keys base overrides = sort (remdups (filter (\<lambda>k. k \<notin> set (map fst base)) (map fst overrides)))"

definition check_params :: "coercions \<Rightarrow> string \<Rightarrow> params \<Rightarrow> params_error + params" where
  "check_params c name ps = (case build_algorithm_config c name ps of
       Inr _ \<Rightarrow> Inr ps
     | Inl e \<Rightarrow> if caught_build_error e then Inl (InvalidRuleParams name e) else Inl (ParamsRaised e))"

definition validate_overrides_or_raise ::
  "coercions \<Rightarrow> string \<Rightarrow> params \<Rightarrow> params \<Rightarrow> params_error + params" where
  "validate_overrides_or_raise c name base overrides =
     (let unknown = unknown_keys base overrides in
      if unknown \<noteq> [] then Inl (InvalidOverrideKeys unknown)
      else check_params c name (compute_effective_params base overrides))"

subsection \<open>Facts\<close>

lemma gt0_int_pos: "gt0_int c v = Inr n \<Longrightarrow> 0 < n"
  by (auto simp: gt0_int_def split: option.splits if_splits)

lemma gt0_float_pos: "gt0_float c v = Inr x \<Longrightarrow> 0 < x"
  by (auto simp: gt0_float_def split: option.splits if_splits)

lemma windowed_class_ok:
  "windowed_class name = Some mk \<Longrightarrow> algorithm_name (mk w m) = name \<and> (config_ok (mk w m) \<longleftrightarrow> 0 < w \<and> 0 < m)"
  by (auto simp: windowed_class_def split: if_splits)

lemma build_config_ok:
  assumes "build_algorithm_config c name ps = Inr cfg"
  shows "config_ok cfg \<and> algorithm_name cfg = name"
proof (cases "windowed_class name")
  case None
  with assms show ?thesis
    by (auto simp: build_algorithm_config_def bind_sum_Inr split: if_splits dest: gt0_int_pos gt0_float_pos)
next
  case (Some mk)
  with assms windowed_class_ok[OF Some] show ?thesis
    by (auto simp: build_algorithm_config_def bind_sum_Inr split: if_splits dest!: gt0_int_pos)
qed

lemma map_of_effective:
  "map_of (compute_effective_params base overrides) = map_of base ++ map_of (rev overrides)"
proof (induction overrides arbitrary: base)
  case (Cons p ov)
  then show ?case
    by (cases p) (auto simp: compute_effective_params_def update_conv' map_add_def fun_eq_iff split: option.splits)
qed (simp add: compute_effective_params_def)

lemma effective_keys:
  "unknown_keys base overrides = [] \<Longrightarrow> set (map fst (compute_effective_params base overrides)) = set (map fst base)"
proof (induction overrides arbitrary: base)
  case (Cons p ov)
  obtain k v where p: "p = (k, v)" by (cases p)
  have "\<forall>k' \<in> set (map fst (p # ov)). k' \<in> set (map fst base)"
  proof -
    have "set (unknown_keys base (p # ov)) = {}" using Cons.prems by simp
    then show ?thesis unfolding unknown_keys_def set_sort set_remdups set_filter by blast
  qed
  then have k: "k \<in> set (map fst base)" and ov: "\<forall>k' \<in> set (map fst ov). k' \<in> set (map fst base)"
    by (simp_all add: p)
  have keys: "set (map fst (AList.update k v base)) = set (map fst base)"
    using k by (simp add: dom_update insert_absorb)
  have "filter (\<lambda>k'. k' \<notin> set (map fst (AList.update k v base))) (map fst ov) = []"
    unfolding keys using ov by (auto simp: filter_empty_conv)
  then have "unknown_keys (AList.update k v base) ov = []" by (simp only: unknown_keys_def remdups.simps sort_key_simps)
  from Cons.IH[OF this] keys show ?case by (simp add: compute_effective_params_def p)
qed (simp add: compute_effective_params_def)

lemma validate_overrides_Inr:
  assumes "validate_overrides_or_raise c name base overrides = Inr ps"
  shows "ps = compute_effective_params base overrides" "unknown_keys base overrides = []"
    "\<exists>cfg. build_algorithm_config c name ps = Inr cfg"
  using assms by (auto simp: validate_overrides_or_raise_def check_params_def Let_def split: if_splits sum.splits)

text \<open>
  Whatever parameters a rule carries, a configuration that \<^verbatim>\<open>build_algorithm_config\<close> returns is
  for the named algorithm and has positive limits, capacities, windows and rates; merging overrides
  into the parameters of a group that validated keeps the group's keys, takes the overridden values
  and yields parameters from which the configuration can be built.
\<close>

theorem validated_params_build:
  assumes "validate_overrides_or_raise c name base overrides = Inr ps"
  shows "\<exists>cfg. build_algorithm_config c name ps = Inr cfg \<and> config_ok cfg \<and> algorithm_name cfg = name
    \<and> map_of ps = map_of base ++ map_of (rev overrides) \<and> set (map fst ps) = set (map fst base)"
  using validate_overrides_Inr[OF assms] build_config_ok effective_keys map_of_effective by metis

definition demo_coercions :: coercions where
  "demo_coercions = \<lparr>c_int = (\<lambda>v. case v of JInt n \<Rightarrow> Some n | _ \<Rightarrow> None),
     c_float = (\<lambda>v. case v of JInt n \<Rightarrow> Some (of_int n) | JFloat x \<Rightarrow> Some x | _ \<Rightarrow> None), c_int_str = (\<lambda>_. None)\<rparr>"

theorem validated_params_build_witness:
  "\<exists>cfg. build_algorithm_config demo_coercions ''FixedWindow'' [(''limit'', JInt 5), (''window_seconds'', JInt 60)] = Inr cfg
    \<and> config_ok cfg \<and> algorithm_name cfg = ''FixedWindow''"
proof -
  have "validate_overrides_or_raise demo_coercions ''FixedWindow''
      [(''limit'', JInt 100), (''window_seconds'', JInt 60)] [(''limit'', JInt 5)]
      = Inr [(''limit'', JInt 5), (''window_seconds'', JInt 60)]"
    by (simp add: validate_overrides_or_raise_def unknown_keys_def compute_effective_params_def check_params_def
        build_algorithm_config_def windowed_class_def get_key_def window_ms_def gt0_int_def demo_coercions_def)
  from validated_params_build[OF this] show ?thesis by blast
qed

text \<open>
  A window of \<open>10 ^ 306\<close> seconds, a number JSON can carry, overflows the multiplication by 1000:
  \<^verbatim>\<open>int()\<close> raises \<^verbatim>\<open>OverflowError\<close>, which the callers do not catch, so the request ends in an
  internal error instead of the 422 that malformed parameters get.
\<close>

theorem window_overflow_uncaught:
  "check_params demo_coercions ''FixedWindow'' [(''limit'', JInt 1), (''window_seconds'', JFloat (10 ^ 306))]
     = Inl (ParamsRaised OverflowErr)"
proof -
  define X :: rat where "X = 10 ^ 306 * 1000"
  define Y :: rat where "Y = 2 ^ 1024"
  have "(2::int) * 2 ^ 1024 \<le> 10 ^ 306 * 1000" by simp
  then have "(of_int (2 * 2 ^ 1024) :: rat) \<le> of_int (10 ^ 306 * 1000)" by (simp only: of_int_le_iff)
  then have XY: "2 * Y \<le> X" unfolding X_def Y_def by (simp only: of_int_mult of_int_power of_int_numeral)
  have "0 < Y" unfolding Y_def by (rule zero_less_power) simp
  have "X * (1 - 1 / 2 ^ 53) \<le> dbl X" using XY \<open>0 < Y\<close> by (intro dbl.fl_lower) linarith
  then have "Y \<le> \<bar>dbl X\<bar>" using XY \<open>0 < Y\<close> by (simp add: field_simps)
  then have "window_ms demo_coercions (JFloat (10 ^ 306)) = Inl OverflowErr"
    unfolding window_ms_def X_def Y_def Let_def by (simp only: json.case if_True)
  then show ?thesis
    by (simp only: check_params_def caught_build_error_def build_algorithm_config_def windowed_class_def get_key_def
        map_of.simps fst_conv snd_conv option.case bind_sum_simps sum.case fun_upd_apply) simp
qed

end
