(* ===== verification/Limiter_Factory.thy ===== *)
theory Limiter_Factory
  imports Fixed_Window Sliding_Window_Log Sliding_Window_Counter Token_Bucket Leaky_Bucket Algorithm_Config
begin

text \<open>
  \<^verbatim>\<open>services/factory.py\<close> and \<^verbatim>\<open>services/rate_limiter/script_loader.py\<close>: the registry of scripts and the
  construction of a limiter for a configuration and a scope.  A limiter is its configuration and
  its scope; \<open>limiter_check\<close> dispatches to the algorithm's \<^verbatim>\<open>check\<close>.
\<close>

subsection \<open>The script registry\<close>

text \<open>
  \<^verbatim>\<open>_script_cache\<close> as the list of registered names; \<open>loads name\<close> tells whether Redis accepts the
  upload of that file and \<open>flush_ok\<close> whether \<^verbatim>\<open>SCRIPT FLUSH\<close> succeeds.
\<close>

datatype script_loader_error = ScriptRegistrationError string | ScriptFlushError | ScriptNotRegistered string

primrec register_scripts :: "(string \<Rightarrow> bool) \<Rightarrow> string list \<Rightarrow> string list \<Rightarrow> string list \<Rightarrow>
    (script_loader_error + string list) \<times> string list" where
  "register_scripts loads [] names cache = (Inr names, cache)"
| "register_scripts loads (f # files) names cache =
     (if loads f then register_scripts loads files (names @ [f]) (List.insert f cache)
      else (Inl (ScriptRegistrationError f), cache))"

definition register_all_scripts :: "(string \<Rightarrow> bool) \<Rightarrow> string list \<Rightarrow> string list \<Rightarrow>
    (script_loader_error + string list) \<times> string list" where
  "register_all_scripts loads files cache = register_scripts loads (sort files) [] cache"

definition flush_and_reregister_scripts :: "bool \<Rightarrow> (string \<Rightarrow> bool) \<Rightarrow> string list \<Rightarrow> string list \<Rightarrow>
    (script_loader_error + string list) \<times> string list" where
  "flush_and_reregister_scripts flush_ok loads files cache =
     (if flush_ok then register_all_scripts loads files [] else (Inl ScriptFlushError, cache))"

definition get_script :: "string list \<Rightarrow> string \<Rightarrow> script_loader_error + string" where
  "get_script cache name = (if name \<in> set cache then Inr name else Inl (ScriptNotRegistered name))"

subsection \<open>Limiters\<close>

record limiter =
  lm_config :: algorithm_config
  lm_scope :: string

fun script_name :: "algorithm_config \<Rightarrow> string" where
  "script_name (TokenBucketParams _ _) = ''token_bucket''"
| "script_name (FixedWindowParams _ _) = ''fixed_window''"
| "script_name (SlidingWindowLogParams _ _) = ''sliding_window_log''"
| "script_name (SlidingWindowCounterParams _ _) = ''sliding_window_counter''"
| "script_name (LeakyBucketParams _ _) = ''leaky_bucket''"

definition create_limiter :: "string list \<Rightarrow> algorithm_config \<Rightarrow> string \<Rightarrow> script_loader_error + limiter" where
  "create_limiter cache cfg scope =
     (case get_script cache (script_name cfg) of Inl e \<Rightarrow> Inl e | Inr _ \<Rightarrow> Inr \<lparr>lm_config = cfg, lm_scope = scope\<rparr>)"

definition limiter_check :: "'s redis_api \<Rightarrow> link \<Rightarrow> string \<Rightarrow> limiter \<Rightarrow> client_identifier \<Rightarrow> 's \<Rightarrow>
    (check_error + rate_limit_result) \<times> 's" where
  "limiter_check R l request_id lm ident s = (case lm_config lm of
       TokenBucketParams c r \<Rightarrow> token_bucket_check R l c r (lm_scope lm) (identifier_key ident) s
     | FixedWindowParams w m \<Rightarrow> fixed_window_check R l w m (lm_scope lm) (identifier_key ident) s
     | SlidingWindowLogParams w m \<Rightarrow> sliding_window_log_check R l request_id w m (lm_scope lm) (identifier_key ident) s
     | SlidingWindowCounterParams w m \<Rightarrow> sliding_window_counter_check R l w m (lm_scope lm) (identifier_key ident) s
     | LeakyBucketParams c r \<Rightarrow> leaky_bucket_check R l c r (lm_scope lm) (identifier_key ident) s)"

definition limiter_key :: "algorithm_config \<Rightarrow> string \<Rightarrow> string \<Rightarrow> string" where
  "limiter_key cfg scope ik = ''rl:'' @ script_name cfg @ '':'' @ scope @ '':'' @ ik"

subsection \<open>Frames\<close>

context redis_server
begin

lemmas frame_steps = write_frame branch_frame[where P = "\<lambda>s'. same_elsewhere k (ks s0) (ks s')" for k s0] return_frame

lemma fixed_window_frame: "same_elsewhere k (ks s) (ks (snd (fixed_window_lua R k w m s)))"
  unfolding fixed_window_lua_def Let_def
  by (rule same_elsewhere_refl | rule frame_steps | assumption | rule read_frame)+

lemma sliding_window_log_frame: "same_elsewhere k (ks s) (ks (snd (sliding_window_log_lua R k w m rid s)))"
  unfolding sliding_window_log_lua_def Let_def
  by (rule same_elsewhere_refl | rule frame_steps | assumption | rule read_frame)+

lemma sliding_window_counter_frame: "same_elsewhere k (ks s) (ks (snd (sliding_window_counter_lua R k w m s)))"
  unfolding sliding_window_counter_lua_def Let_def
  by (rule same_elsewhere_refl | rule frame_steps | assumption | rule read_frame)+

lemma token_bucket_frame: "same_elsewhere k (ks s) (ks (snd (token_bucket_lua R k w r s)))"
  unfolding token_bucket_lua_def Let_def
  by (rule same_elsewhere_refl | rule frame_steps | assumption | rule read_frame)+

lemma leaky_bucket_frame: "same_elsewhere k (ks s) (ks (snd (leaky_bucket_lua R k w r s)))"
  unfolding leaky_bucket_lua_def Let_def
  by (rule same_elsewhere_refl | rule frame_steps | assumption | rule read_frame)+

lemma run_script_frame:
  assumes "\<And>s. same_elsewhere k (ks s) (ks (snd (script s)))"
  shows "same_elsewhere k (ks s) (ks (snd (reply_to_result (run_script l script s))))"
  using assms[of s] by (auto simp: reply_to_result_def run_script_def split: link.splits prod.splits sum.splits)

lemma limiter_check_frame:
  "same_elsewhere (limiter_key (lm_config lm) (lm_scope lm) (identifier_key ident)) (ks s)
     (ks (snd (limiter_check R l rid lm ident s)))"
proof (cases "lm_config lm")
  case (TokenBucketParams c r)
  then show ?thesis using run_script_frame[OF token_bucket_frame]
    by (simp add: limiter_check_def token_bucket_check_def token_bucket_key_def limiter_key_def)
next
  case (FixedWindowParams w m)
  then show ?thesis using run_script_frame[OF fixed_window_frame]
    by (simp add: limiter_check_def fixed_window_check_def fixed_window_key_def limiter_key_def)
next
  case (SlidingWindowLogParams w m)
  then show ?thesis using run_script_frame[OF sliding_window_log_frame]
    by (simp add: limiter_check_def sliding_window_log_check_def sliding_window_log_key_def limiter_key_def)
next
  case (SlidingWindowCounterParams w m)
  then show ?thesis using run_script_frame[OF sliding_window_counter_frame]
    by (simp add: limiter_check_def sliding_window_counter_check_def sliding_window_counter_key_def limiter_key_def)
next
  case (LeakyBucketParams c r)
  then show ?thesis using run_script_frame[OF leaky_bucket_frame]
    by (simp add: limiter_check_def leaky_bucket_check_def leaky_bucket_key_def limiter_key_def)
qed

end

subsection \<open>Keys\<close>

text \<open>
  A scope may itself contain colons; a key still determines it, because neither the script's name
  nor the two parts of the caller's key contain one.
\<close>

definition key_part_ok :: "string \<Rightarrow> bool" where
  "key_part_ok ik \<longleftrightarrow> (\<exists>sig dig. ik = sig @ '':'' @ dig \<and> CHR '':'' \<notin> set sig \<and> CHR '':'' \<notin> set dig)"

lemma script_name_plain: "CHR '':'' \<notin> set (script_name cfg)"
  by (cases cfg) auto

lemma script_name_inject_list:
  "script_name c @ CHR '':'' # xs = script_name d @ CHR '':'' # ys \<Longrightarrow> script_name c = script_name d \<and> xs = ys"
proof -
  assume eq: "script_name c @ CHR '':'' # xs = script_name d @ CHR '':'' # ys"
  then have "split_on (CHR '':'') (script_name c @ CHR '':'' # xs) = split_on (CHR '':'') (script_name d @ CHR '':'' # ys)"
    by simp
  then have "script_name c = script_name d" by (simp add: split_on_append script_name_plain)
  with eq show ?thesis by simp
qed

lemma limiter_key_inject:
  assumes "key_part_ok i" "key_part_ok j" "limiter_key c sc i = limiter_key d sd j"
  shows "script_name c = script_name d \<and> sc = sd \<and> i = j"
proof -
  obtain a b where i: "i = a @ CHR '':'' # b" "CHR '':'' \<notin> set a" "CHR '':'' \<notin> set b"
    using assms(1) by (auto simp: key_part_ok_def)
  obtain x y where j: "j = x @ CHR '':'' # y" "CHR '':'' \<notin> set x" "CHR '':'' \<notin> set y"
    using assms(2) by (auto simp: key_part_ok_def)
  have n: "script_name c = script_name d \<and> sc @ CHR '':'' # i = sd @ CHR '':'' # j"
    using assms(3) script_name_inject_list[of c "sc @ CHR '':'' # i" d "sd @ CHR '':'' # j"]
    by (simp add: limiter_key_def)
  then have "(sc @ CHR '':'' # a) @ CHR '':'' # b = (sd @ CHR '':'' # x) @ CHR '':'' # y" by (simp add: i j)
  then have "sc @ CHR '':'' # a = sd @ CHR '':'' # x \<and> b = y"
    unfolding append_sep_inject[OF i(3) j(3)] by simp
  moreover from this have "sc = sd \<and> a = x"
    unfolding append_sep_inject[OF i(2) j(2)] by simp
  ultimately show ?thesis using n by (simp add: i j)
qed

subsection \<open>Registration\<close>

lemma register_scripts_Inr:
  "fst (register_scripts loads files names cache) = Inr ns \<Longrightarrow>
     ns = names @ files \<and> set (snd (register_scripts loads files names cache)) = set cache \<union> set files"
  by (induction files arbitrary: names cache) (fastforce split: if_splits)+

lemma create_limiter_registered:
  "fst (register_all_scripts loads files cache) = Inr ns \<Longrightarrow> script_name cfg \<in> set files \<Longrightarrow>
     create_limiter (snd (register_all_scripts loads files cache)) cfg scope = Inr \<lparr>lm_config = cfg, lm_scope = scope\<rparr>"
  using register_scripts_Inr[of loads "sort files" "[]" cache ns]
  by (simp add: create_limiter_def get_script_def register_all_scripts_def)

end
