(* ===== verification/Exceptions.thy ===== *)
theory Exceptions
  imports Limiter_Factory
begin

text \<open>
  \<^verbatim>\<open>core/exceptions.py\<close>: the domain exceptions and the handlers that turn them into HTTP responses.
  One constructor per exception class, with the fields its \<^verbatim>\<open>__init__\<close> keeps; \<open>exc_message\<close> is
  \<^verbatim>\<open>str(exc)\<close> and \<open>exception_response\<close> the registered handler.  Exceptions without a handler of their
  own end in the last-resort handler of \<^verbatim>\<open>main.py\<close>, a 500 without details.

  The text of exceptions raised by libraries (pydantic, CPython) is a parameter.  \<^verbatim>\<open>repr\<close> of a string is
  spelled out for the characters a \<open>string\<close> can hold.
\<close>

subsection \<open>Text\<close>

definition show_int :: "int \<Rightarrow> string" where
  "show_int n = (if n < 0 then ''-'' @ map char_of (dec (- n)) else map char_of (dec n))"

definition printable_latin1 :: "char \<Rightarrow> bool" where
  "printable_latin1 ch \<longleftrightarrow> (let n = of_char ch :: nat in 32 \<le> n \<and> n < 127 \<or> 161 \<le> n \<and> n \<noteq> 173)"

definition repr_char :: "char \<Rightarrow> char \<Rightarrow> string" where
  "repr_char quote ch = (if ch = quote \<or> ch = CHR 0x5C then [CHR 0x5C, ch]
     else if ch = CHR 0x0A then [CHR 0x5C, CHR ''n''] else if ch = CHR 0x0D then [CHR 0x5C, CHR ''r'']
     else if ch = CHR 0x09 then [CHR 0x5C, CHR ''t'']
     else if printable_latin1 ch then [ch]
     else [CHR 0x5C, CHR ''x''] @ map char_of (map digit_code [of_char ch div 16, of_char ch mod 16]))"

definition py_repr :: "string \<Rightarrow> string" where
  "py_repr s = (let quote = (if CHR 0x27 \<in> set s \<and> CHR 0x22 \<notin> set s then CHR 0x22 else CHR 0x27)
     in [quote] @ concat (map (repr_char quote) s) @ [quote])"

definition py_repr_list :: "string list \<Rightarrow> string" where
  "py_repr_list xs = ''['' @ join '', '' (map py_repr xs) @ '']''"

subsection \<open>Exceptions\<close>

record member_conflict =
  mc_endpoint :: string
  mc_reason :: string
  mc_existing_rule_id :: "string option"
  mc_existing_group_id :: "string option"

datatype app_exception =
    RuleNotFoundError string
  | AlgorithmNotFoundError string
  | AlgorithmNameNotFoundError string
  | VersionConflictError string int int
  | ScopeConflictError string string
  | CrossClientOperationError string string
  | RuleGroupNotFoundError string
  | GroupNameConflictError string
  | RuleManagedByGroupError string
  | OverridesRequireGroupError string
  | RuleNotInGroupError string
  | InvalidOverrideKeysError "string list"
  | DuplicateMemberEndpointError string
  | GroupMemberConflictError "member_conflict list"
  | MembersWriteRaceError
  | InvalidRuleParamsError string build_error
  | InvalidIdentifierTypesError invalid_identifier_types
  | InvalidIdentifierValueError invalid_identifier_value
  | IntegrityErrorExc
  | ScriptRegistrationFailed string
  | ClientNotFoundError string
  | ClientIdConflictError string
  | TooManyActiveSecretsError string
  | LastActiveSecretError string
  | ClientSecretNotFoundError string
  | InvalidRequestError string
  | InvalidClientError
  | InvalidScopeError "string list"
  | AuthenticationError
  | AuthorizationError
  | RequestValidationErrorExc "json dict list"
  | UnhandledError string

subsection \<open>Messages\<close>

fun reason_text :: "invalid_reason \<Rightarrow> string" where
  "reason_text (BadLength lo hi) = ''length must be between '' @ show_int lo @ '' and '' @ show_int hi"
| "reason_text NotPrintableAscii = ''must be printable ASCII with no whitespace''"
| "reason_text BadApiKey = ''must match ^[A-Za-z0-9_-]+$ (case-sensitive)''"
| "reason_text ScopedAddress = ''scoped/zone-id addresses are not supported''"
| "reason_text NotAnAddress = ''not a valid IP address''"
| "reason_text NotANetwork = ''not a valid IP network (CIDR)''"
| "reason_text BadSlug = ''must be 1-64 alphanumeric/hyphen/underscore characters''"
| "reason_text ControlCharacters = ''must not contain control characters''"

fun identifier_types_text :: "invalid_identifier_types \<Rightarrow> string" where
  "identifier_types_text (UnknownIdentifierType v) = ''Unknown identifier type: '' @ py_repr v"
| "identifier_types_text NoIdentifierTypes = ''At least one identifier type is required''"
| "identifier_types_text (TooManyIdentifierTypes n) = ''At most '' @ show_int (int max_identifiers_per_rule)
     @ '' identifier types are allowed per rule, got '' @ show_int (int n)"
| "identifier_types_text GlobalNotAlone = CHR 0x27 # ''global'' @ CHR 0x27 # '' cannot be combined with other identifier types''"

definition identifier_value_text :: "invalid_identifier_value \<Rightarrow> string" where
  "identifier_value_text e = ''Invalid value at ''
     @ (case iv_index e of Some i \<Rightarrow> ''identifiers['' @ show_int (int i) @ '']'' | None \<Rightarrow> identifier_type_value (iv_type e))
     @ '' (type='' @ identifier_type_value (iv_type e) @ ''): '' @ reason_text (iv_reason e)"

fun exc_message :: "(build_error \<Rightarrow> string) \<Rightarrow> app_exception \<Rightarrow> string" where
  "exc_message txt (RuleNotFoundError rid) = ''Rule '' @ rid @ '' not found''"
| "exc_message txt (AlgorithmNotFoundError aid) = ''Algorithm '' @ aid @ '' not found''"
| "exc_message txt (AlgorithmNameNotFoundError n) = ''Algorithm named '' @ py_repr n @ '' not found''"
| "exc_message txt (VersionConflictError rid expected actual) = ''Rule '' @ rid @ '' version mismatch: expected ''
     @ show_int expected @ '', actual '' @ show_int actual"
| "exc_message txt (ScopeConflictError ep sig) = ''An active rule already exists for endpoint='' @ py_repr ep
     @ '', identifier_signature='' @ py_repr sig"
| "exc_message txt (CrossClientOperationError rid gid) = ''Rule '' @ rid @ '' and group '' @ gid @ '' belong to different clients''"
| "exc_message txt (RuleGroupNotFoundError gid) = ''Rule group '' @ gid @ '' not found''"
| "exc_message txt (GroupNameConflictError n) = ''A rule group named '' @ py_repr n @ '' already exists (case-insensitive)''"
| "exc_message txt (RuleManagedByGroupError rid) = ''Rule '' @ rid
     @ '' is managed by a group; use `overrides`, `move-to-group`, or detach''"
| "exc_message txt (OverridesRequireGroupError rid) = ''Rule '' @ rid @ '' is standalone; `overrides` only apply to grouped rules''"
| "exc_message txt (RuleNotInGroupError rid) = ''Rule '' @ rid @ '' is not a member of any group''"
| "exc_message txt (InvalidOverrideKeysError ks) = ''Override key(s) not present in base params: '' @ py_repr_list ks"
| "exc_message txt (DuplicateMemberEndpointError ep) = ''Duplicate endpoint in members payload: '' @ py_repr ep"
| "exc_message txt (GroupMemberConflictError cs) = ''One or more member endpoints conflict with an existing rule''"
| "exc_message txt MembersWriteRaceError = []"
| "exc_message txt (InvalidRuleParamsError n e) = ''params are invalid for algorithm '' @ py_repr n @ '': '' @ txt e"
| "exc_message txt (InvalidIdentifierTypesError e) = identifier_types_text e"
| "exc_message txt (InvalidIdentifierValueError e) = identifier_value_text e"
| "exc_message txt (ScriptRegistrationFailed n) = ''Failed to register script '' @ py_repr n"
| "exc_message txt (ClientNotFoundError cid) = ''Client '' @ py_repr cid @ '' not found''"
| "exc_message txt (ClientIdConflictError cid) = ''A client with client_id '' @ py_repr cid @ '' already exists''"
| "exc_message txt (TooManyActiveSecretsError cid) = ''Client '' @ py_repr cid
     @ '' already has two active secrets; revoke one before adding another''"
| "exc_message txt (LastActiveSecretError cid) = ''Cannot revoke the last active secret of client '' @ py_repr cid
     @ '' while it is active''"
| "exc_message txt (ClientSecretNotFoundError sid) = ''Client secret '' @ sid @ '' not found''"
| "exc_message txt (InvalidRequestError d) = d"
| "exc_message txt (InvalidScopeError us) = ''Requested scope(s) not granted to this client: '' @ py_repr_list us"
| "exc_message txt (UnhandledError m) = m"
| "exc_message txt IntegrityErrorExc = []"
| "exc_message txt InvalidClientError = []"
| "exc_message txt AuthenticationError = []"
| "exc_message txt AuthorizationError = []"
| "exc_message txt (RequestValidationErrorExc es) = []"

subsection \<open>Responses\<close>

datatype error_body = Envelope string string "json dict" | OAuthError string string | Detail string

record error_response =
  er_status :: int
  er_body :: error_body
  er_headers :: "(string \<times> string) list"

definition js :: "string \<Rightarrow> json" where
  "js s = JString (codes s)"

definition js_option :: "string option \<Rightarrow> json" where
  "js_option v = (case v of None \<Rightarrow> JNull | Some s \<Rightarrow> js s)"

definition error_response_of :: "int \<Rightarrow> string \<Rightarrow> string \<Rightarrow> json dict \<Rightarrow> error_response" where
  "error_response_of status code message details =
     \<lparr>er_status = status, er_body = Envelope code message details, er_headers = []\<rparr>"

definition oauth_error_response :: "int \<Rightarrow> string \<Rightarrow> string \<Rightarrow> error_response" where
  "oauth_error_response status err description =
     \<lparr>er_status = status, er_body = OAuthError err description, er_headers = []\<rparr>"

definition conflict_json :: "member_conflict \<Rightarrow> json" where
  "conflict_json c = JObject [(''endpoint'', js (mc_endpoint c)), (''reason'', js (mc_reason c)),
     (''existing_rule_id'', js_option (mc_existing_rule_id c)), (''existing_group_id'', js_option (mc_existing_group_id c))]"

definition strip_input :: "json dict \<Rightarrow> json dict" where
  "strip_input e = filter (\<lambda>(k, _). k \<noteq> ''input'') e"

fun exception_response :: "(build_error \<Rightarrow> string) \<Rightarrow> app_exception \<Rightarrow> error_response" where
  "exception_response txt (RuleNotFoundError rid) = error_response_of 404 ''RULE_NOT_FOUND''
     (exc_message txt (RuleNotFoundError rid)) [(''rule_id'', js rid)]"
| "exception_response txt (AlgorithmNotFoundError aid) = error_response_of 422 ''ALGORITHM_NOT_FOUND''
     (exc_message txt (AlgorithmNotFoundError aid)) [(''algorithm_id'', js aid)]"
| "exception_response txt (AlgorithmNameNotFoundError n) = error_response_of 422 ''ALGORITHM_NOT_FOUND''
     (exc_message txt (AlgorithmNameNotFoundError n)) [(''algorithm_name'', js n)]"
| "exception_response txt (VersionConflictError rid expected actual) = error_response_of 409 ''VERSION_CONFLICT''
     (exc_message txt (VersionConflictError rid expected actual))
     [(''rule_id'', js rid), (''expected_version'', JInt expected), (''actual_version'', JInt actual)]"
| "exception_response txt (ScopeConflictError ep sig) = error_response_of 409 ''SCOPE_CONFLICT''
     ''An active rule already exists for this endpoint/identifier scope''
     [(''endpoint'', js ep), (''identifier_signature'', js sig)]"
| "exception_response txt (InvalidRuleParamsError n e) = error_response_of 422 ''INVALID_RULE_PARAMS''
     (exc_message txt (InvalidRuleParamsError n e)) [(''algorithm_name'', js n)]"
| "exception_response txt (CrossClientOperationError rid gid) = error_response_of 409 ''CROSS_CLIENT_OPERATION''
     (exc_message txt (CrossClientOperationError rid gid)) [(''rule_id'', js rid), (''group_id'', js gid)]"
| "exception_response txt (RuleGroupNotFoundError gid) = error_response_of 404 ''RULE_GROUP_NOT_FOUND''
     (exc_message txt (RuleGroupNotFoundError gid)) [(''group_id'', js gid)]"
| "exception_response txt (GroupNameConflictError n) = error_response_of 409 ''GROUP_NAME_CONFLICT''
     (exc_message txt (GroupNameConflictError n)) [(''name'', js n)]"
| "exception_response txt (RuleManagedByGroupError rid) = error_response_of 409 ''RULE_MANAGED_BY_GROUP''
     (exc_message txt (RuleManagedByGroupError rid)) [(''rule_id'', js rid)]"
| "exception_response txt (OverridesRequireGroupError rid) = error_response_of 422 ''OVERRIDES_REQUIRE_GROUP''
     (exc_message txt (OverridesRequireGroupError rid)) [(''rule_id'', js rid)]"
| "exception_response txt (RuleNotInGroupError rid) = error_response_of 409 ''RULE_NOT_IN_GROUP''
     (exc_message txt (RuleNotInGroupError rid)) [(''rule_id'', js rid)]"
| "exception_response txt (InvalidOverrideKeysError ks) = error_response_of 422 ''INVALID_OVERRIDE_KEYS''
     (exc_message txt (InvalidOverrideKeysError ks)) [(''unknown_keys'', JArray (map js ks))]"
| "exception_response txt (DuplicateMemberEndpointError ep) = error_response_of 422 ''DUPLICATE_MEMBER_ENDPOINT''
     (exc_message txt (DuplicateMemberEndpointError ep)) [(''endpoint'', js ep)]"
| "exception_response txt (GroupMemberConflictError cs) = error_response_of 409 ''GROUP_MEMBER_CONFLICT''
     (exc_message txt (GroupMemberConflictError cs)) [(''conflicts'', JArray (map conflict_json cs))]"
| "exception_response txt MembersWriteRaceError = error_response_of 409 ''GROUP_MEMBER_CONFLICT''
     ''A concurrent write conflicted with this request; retry'' []"
| "exception_response txt (InvalidIdentifierTypesError e) = error_response_of 422 ''INVALID_IDENTIFIER_TYPES''
     (exc_message txt (InvalidIdentifierTypesError e)) []"
| "exception_response txt (InvalidIdentifierValueError e) = error_response_of 422 ''INVALID_IDENTIFIER_VALUE''
     (exc_message txt (InvalidIdentifierValueError e))
     [(''identifier_type'', js (identifier_type_value (iv_type e))), (''reason'', js (reason_text (iv_reason e))),
      (''index'', case iv_index e of None \<Rightarrow> JNull | Some i \<Rightarrow> JInt (int i))]"
| "exception_response txt IntegrityErrorExc = error_response_of 409 ''SCOPE_CONFLICT''
     ''An active rule already exists for this endpoint/identifier scope'' []"
| "exception_response txt (ScriptRegistrationFailed n) = error_response_of 503 ''SCRIPT_REGISTRATION_FAILED''
     (exc_message txt (ScriptRegistrationFailed n)) []"
| "exception_response txt (ClientNotFoundError cid) = error_response_of 404 ''CLIENT_NOT_FOUND''
     (exc_message txt (ClientNotFoundError cid)) [(''client_id'', js cid)]"
| "exception_response txt (ClientIdConflictError cid) = error_response_of 409 ''CLIENT_ID_CONFLICT''
     (exc_message txt (ClientIdConflictError cid)) [(''client_id'', js cid)]"
| "exception_response txt (TooManyActiveSecretsError cid) = error_response_of 409 ''TOO_MANY_ACTIVE_SECRETS''
     (exc_message txt (TooManyActiveSecretsError cid)) [(''client_id'', js cid)]"
| "exception_response txt (LastActiveSecretError cid) = error_response_of 409 ''LAST_ACTIVE_SECRET''
     (exc_message txt (LastActiveSecretError cid)) [(''client_id'', js cid)]"
| "exception_response txt (ClientSecretNotFoundError sid) = error_response_of 404 ''CLIENT_SECRET_NOT_FOUND''
     (exc_message txt (ClientSecretNotFoundError sid)) [(''secret_id'', js sid)]"
| "exception_response txt (InvalidRequestError d) = oauth_error_response 400 ''invalid_request'' d"
| "exception_response txt InvalidClientError = \<lparr>er_status = 401,
     er_body = OAuthError ''invalid_client'' ''Client authentication failed'',
     er_headers = [(''WWW-Authenticate'', ''Basic'')]\<rparr>"
| "exception_response txt (InvalidScopeError us) = oauth_error_response 400 ''invalid_scope''
     (''Scope(s) not granted to this client: '' @ py_repr_list us)"
| "exception_response txt AuthenticationError = \<lparr>er_status = 401,
     er_body = Envelope ''UNAUTHORIZED'' ''Missing or invalid bearer token'' [],
     er_headers = [(''WWW-Authenticate'', ''Bearer'')]\<rparr>"
| "exception_response txt AuthorizationError = error_response_of 403 ''FORBIDDEN''
     ''Insufficient scope, or the client is disabled'' []"
| "exception_response txt (RequestValidationErrorExc es) = error_response_of 422 ''VALIDATION_ERROR''
     ''Request validation failed'' [(''errors'', JArray (map (\<lambda>e. JObject (strip_input e)) es))]"
| "exception_response txt (UnhandledError m) = \<lparr>er_status = 500, er_body = Detail ''Internal server error'', er_headers = []\<rparr>"

text \<open>The exceptions of the parameter checks and of the script registry, as the application sees them.\<close>

fun params_exception :: "params_error \<Rightarrow> app_exception" where
  "params_exception (InvalidOverrideKeys ks) = InvalidOverrideKeysError ks"
| "params_exception (InvalidRuleParams n e) = InvalidRuleParamsError n e"
| "params_exception (ParamsRaised e) = UnhandledError ''OverflowError''"

fun script_exception :: "script_loader_error \<Rightarrow> app_exception" where
  "script_exception (ScriptRegistrationError n) = ScriptRegistrationFailed n"
| "script_exception ScriptFlushError = UnhandledError ''RedisError''"
| "script_exception (ScriptNotRegistered n) = UnhandledError ''RuntimeError''"

subsection \<open>What a response discloses\<close>

lemma exception_status: "er_status (exception_response txt e) \<in> {400, 401, 403, 404, 409, 422, 500, 503}"
  by (cases e) (simp_all add: error_response_of_def oauth_error_response_def)

lemma exception_500: "er_status (exception_response txt e) = 500 \<longleftrightarrow> (\<exists>m. e = UnhandledError m)"
  by (cases e) (simp_all add: error_response_of_def oauth_error_response_def)

lemma params_exception_status:
  "er_status (exception_response txt (params_exception e)) = (if \<exists>b. e = ParamsRaised b then 500 else 422)"
  by (cases e) (simp_all add: error_response_of_def)

lemma strip_input_keys: "''input'' \<notin> set (map fst (strip_input e))"
  by (auto simp: strip_input_def)

end
