(* ===== verification/Database.thy ===== *)
theory Database
  imports Exceptions
begin

text \<open>
  The Postgres tables as the models of \<^verbatim>\<open>model/\<close> and the migrations of \<^verbatim>\<open>alembic/versions/\<close> declare
  them, the queries of \<^verbatim>\<open>repositories/\<close>, and what a flush or commit checks.

  A table is the list of its rows.  The triggers are part of the row operations: \<open>updated_at\<close> is
  touched and \<^verbatim>\<open>rule_history\<close> written by them.  The checks that the database makes are the predicate
  \<open>integrity\<close> and the range of \<^verbatim>\<open>INTEGER\<close> columns.  JSON documents are stored as given (JSONB
  normalizes only their spelling), and a text column compares by its characters; \<^verbatim>\<open>lower\<close> of Postgres
  and \<^verbatim>\<open>str.lower\<close> of Python are two parameters, since they need not agree.  A query that expects at
  most one row (\<^verbatim>\<open>scalar_one_or_none\<close>) takes the first, and the constraints make it the only one.
\<close>

subsection \<open>Rows\<close>

datatype rule_status = ACTIVE | INACTIVE

fun rule_status_value :: "rule_status \<Rightarrow> string" where
  "rule_status_value ACTIVE = ''active''"
| "rule_status_value INACTIVE = ''inactive''"

datatype client_status = CLIENT_ACTIVE | CLIENT_DISABLED

fun client_status_value :: "client_status \<Rightarrow> string" where
  "client_status_value CLIENT_ACTIVE = ''active''"
| "client_status_value CLIENT_DISABLED = ''disabled''"

record algorithm =
  a_id :: string
  a_name :: string
  a_description :: "string option"
  a_params :: json
  a_created_at :: int
  a_updated_at :: int

record client =
  c_id :: string
  c_client_id :: string
  c_name :: string
  c_description :: "string option"
  c_status :: string
  c_scopes :: "string list"
  c_created_at :: int
  c_updated_at :: int

record client_secret =
  s_id :: string
  s_client_pk :: string
  s_secret_hash :: string
  s_secret_hint :: string
  s_created_at :: int
  s_expires_at :: "int option"
  s_revoked_at :: "int option"

record rule_group =
  g_id :: string
  g_client_id :: string
  g_name :: string
  g_description :: "string option"
  g_algorithm_id :: string
  g_identifier_types :: "string list"
  g_identifier_signature :: string
  g_params :: params
  g_priority :: int
  g_created_by :: string
  g_updated_by :: "string option"
  g_created_at :: int
  g_updated_at :: int

record rule =
  r_id :: string
  r_client_id :: string
  r_endpoint :: string
  r_identifier_types :: "string list"
  r_identifier_signature :: string
  r_algorithm_id :: string
  r_params :: params
  r_status :: string
  r_priority :: int
  r_version :: int
  r_created_by :: string
  r_updated_by :: "string option"
  r_created_at :: int
  r_updated_at :: int
  r_group_id :: "string option"
  r_overrides :: "params option"

record rule_history =
  h_rule_id :: string
  h_action :: string
  h_snapshot :: rule
  h_changed_by :: "string option"
  h_changed_at :: int

record db =
  t_algorithms :: "algorithm list"
  t_clients :: "client list"
  t_secrets :: "client_secret list"
  t_groups :: "rule_group list"
  t_rules :: "rule list"
  t_history :: "rule_history list"

subsection \<open>Constraints\<close>

definition is_active :: "rule \<Rightarrow> bool" where
  "is_active r \<longleftrightarrow> r_status r = ''active''"

definition rule_scope_key :: "rule \<Rightarrow> string \<times> string \<times> string" where
  "rule_scope_key r = (r_client_id r, r_endpoint r, r_identifier_signature r)"

definition ux_rules_active_scope :: "rule list \<Rightarrow> bool" where
  "ux_rules_active_scope rs \<longleftrightarrow> distinct (map rule_scope_key (filter is_active rs))"

definition ux_rule_groups_name_ci :: "(string \<Rightarrow> string) \<Rightarrow> rule_group list \<Rightarrow> bool" where
  "ux_rule_groups_name_ci pg_lower gs \<longleftrightarrow> distinct (map (\<lambda>g. (g_client_id g, pg_lower (g_name g))) gs)"

definition ck_identifier_types :: "string list \<Rightarrow> bool" where
  "ck_identifier_types ts \<longleftrightarrow> 1 \<le> length ts \<and> length ts \<le> 3 \<and> \<not> (''global'' \<in> set ts \<and> 1 < length ts)"

definition ck_rules_overrides_requires_group :: "rule \<Rightarrow> bool" where
  "ck_rules_overrides_requires_group r \<longleftrightarrow> r_overrides r = None \<or> r_group_id r \<noteq> None"

definition client_id_char :: "char \<Rightarrow> bool" where
  "client_id_char ch \<longleftrightarrow> (let n = of_char ch :: nat in 97 \<le> n \<and> n \<le> 122 \<or> 48 \<le> n \<and> n \<le> 57)"

definition ck_clients_client_id_format :: "string \<Rightarrow> bool" where
  "ck_clients_client_id_format s \<longleftrightarrow> 3 \<le> length s \<and> length s \<le> 63 \<and> client_id_char (hd s)
     \<and> list_all (\<lambda>ch. client_id_char ch \<or> ch = CHR ''-'') (tl s)"

definition ck_clients :: "client \<Rightarrow> bool" where
  "ck_clients c \<longleftrightarrow> ck_clients_client_id_format (c_client_id c) \<and> c_status c \<in> {''active'', ''disabled''}
     \<and> set (c_scopes c) \<subseteq> {''check'', ''admin''}"

definition clients_integrity :: "db \<Rightarrow> bool" where
  "clients_integrity D \<longleftrightarrow> distinct (map c_id (t_clients D)) \<and> distinct (map c_client_id (t_clients D))
     \<and> list_all ck_clients (t_clients D) \<and> distinct (map s_id (t_secrets D))
     \<and> list_all (\<lambda>s. s_client_pk s \<in> set (map c_id (t_clients D))) (t_secrets D)"

definition groups_integrity :: "(string \<Rightarrow> string) \<Rightarrow> db \<Rightarrow> bool" where
  "groups_integrity pg_lower D \<longleftrightarrow> distinct (map a_id (t_algorithms D)) \<and> distinct (map a_name (t_algorithms D))
     \<and> distinct (map g_id (t_groups D)) \<and> ux_rule_groups_name_ci pg_lower (t_groups D)
     \<and> list_all (\<lambda>g. ck_identifier_types (g_identifier_types g) \<and> g_client_id g \<in> set (map c_id (t_clients D))
         \<and> g_algorithm_id g \<in> set (map a_id (t_algorithms D))) (t_groups D)"

definition rules_integrity :: "db \<Rightarrow> bool" where
  "rules_integrity D \<longleftrightarrow> distinct (map r_id (t_rules D)) \<and> ux_rules_active_scope (t_rules D)
     \<and> list_all (\<lambda>r. ck_identifier_types (r_identifier_types r) \<and> ck_rules_overrides_requires_group r
         \<and> r_client_id r \<in> set (map c_id (t_clients D)) \<and> r_algorithm_id r \<in> set (map a_id (t_algorithms D))
         \<and> (case r_group_id r of None \<Rightarrow> True | Some gid \<Rightarrow> gid \<in> set (map g_id (t_groups D)))) (t_rules D)"

definition integrity :: "(string \<Rightarrow> string) \<Rightarrow> db \<Rightarrow> bool" where
  "integrity pg_lower D \<longleftrightarrow> clients_integrity D \<and> groups_integrity pg_lower D \<and> rules_integrity D"

definition int4 :: "int \<Rightarrow> bool" where
  "int4 n \<longleftrightarrow> - (2 ^ 31) \<le> n \<and> n < 2 ^ 31"

definition int4_columns :: "db \<Rightarrow> bool" where
  "int4_columns D \<longleftrightarrow> list_all (\<lambda>r. int4 (r_priority r) \<and> int4 (r_version r)) (t_rules D)
     \<and> list_all (\<lambda>g. int4 (g_priority g)) (t_groups D)"

datatype db_error = IntegrityErr | DataErr | StaleDataErr

text \<open>A flush or commit: the drivers encode the parameters first, then the constraints are checked.\<close>

definition commit :: "(string \<Rightarrow> string) \<Rightarrow> db \<Rightarrow> db_error + db" where
  "commit pg_lower D = (if \<not> int4_columns D then Inl DataErr else if \<not> integrity pg_lower D then Inl IntegrityErr else Inr D)"

fun db_exception :: "db_error \<Rightarrow> app_exception" where
  "db_exception IntegrityErr = IntegrityErrorExc"
| "db_exception DataErr = UnhandledError ''DBAPIError''"
| "db_exception StaleDataErr = UnhandledError ''StaleDataError''"

text \<open>A commit whose handler, if it has one, turns an \<^verbatim>\<open>IntegrityError\<close> into an exception of its own.\<close>

definition commit_else :: "(string \<Rightarrow> string) \<Rightarrow> app_exception \<Rightarrow> 'a \<Rightarrow> db \<Rightarrow> app_exception + 'a \<times> db" where
  "commit_else pg_lower on_integrity a D = (case commit pg_lower D of
       Inr D' \<Rightarrow> Inr (a, D')
     | Inl e \<Rightarrow> Inl (if e = IntegrityErr then on_integrity else db_exception e))"

text \<open>A request's transaction: an exception that leaves the handler discards the session's changes.\<close>

definition transaction :: "db \<Rightarrow> app_exception + 'a \<times> db \<Rightarrow> (app_exception + 'a) \<times> db" where
  "transaction D x = (case x of Inl e \<Rightarrow> (Inl e, D) | Inr (a, D') \<Rightarrow> (Inr a, D'))"

subsection \<open>Queries\<close>

definition get_algorithm_by_id :: "db \<Rightarrow> string \<Rightarrow> algorithm option" where
  "get_algorithm_by_id D aid = find (\<lambda>a. a_id a = aid) (t_algorithms D)"

definition get_algorithm_by_name :: "db \<Rightarrow> string \<Rightarrow> algorithm option" where
  "get_algorithm_by_name D n = find (\<lambda>a. a_name a = n) (t_algorithms D)"

definition list_algorithms :: "db \<Rightarrow> algorithm list" where
  "list_algorithms D = sort_key a_name (t_algorithms D)"

definition get_client_by_client_id :: "db \<Rightarrow> string \<Rightarrow> client option" where
  "get_client_by_client_id D cid = find (\<lambda>c. c_client_id c = cid) (t_clients D)"

definition get_client_by_pk :: "db \<Rightarrow> string \<Rightarrow> client option" where
  "get_client_by_pk D pk = find (\<lambda>c. c_id c = pk) (t_clients D)"

definition get_group_by_id :: "db \<Rightarrow> string \<Rightarrow> rule_group option" where
  "get_group_by_id D gid = find (\<lambda>g. g_id g = gid) (t_groups D)"

definition get_group_by_name_ci ::
  "(string \<Rightarrow> string) \<Rightarrow> (string \<Rightarrow> string) \<Rightarrow> db \<Rightarrow> string \<Rightarrow> string \<Rightarrow> string option \<Rightarrow> rule_group option" where
  "get_group_by_name_ci pg_lower py_lower D pk name exclude =
     find (\<lambda>g. g_client_id g = pk \<and> pg_lower (g_name g) = py_lower name \<and> Some (g_id g) \<noteq> exclude) (t_groups D)"

definition get_rule_by_id :: "db \<Rightarrow> string \<Rightarrow> rule option" where
  "get_rule_by_id D rid = find (\<lambda>r. r_id r = rid) (t_rules D)"

definition find_active_conflict :: "db \<Rightarrow> string \<Rightarrow> string \<Rightarrow> string \<Rightarrow> string option \<Rightarrow> rule option" where
  "find_active_conflict D pk ep sig exclude =
     find (\<lambda>r. rule_scope_key r = (pk, ep, sig) \<and> is_active r \<and> Some (r_id r) \<noteq> exclude) (t_rules D)"

definition list_by_group :: "db \<Rightarrow> string \<Rightarrow> rule list" where
  "list_by_group D gid = filter (\<lambda>r. r_group_id r = Some gid) (t_rules D)"

definition list_all_rules :: "db \<Rightarrow> rule list" where
  "list_all_rules D = t_rules D"

text \<open>
  \<^verbatim>\<open>.order_by(created_at.desc()).offset((page - 1) * page_size).limit(page_size)\<close>.  The offset is sent
  as a \<^verbatim>\<open>bigint\<close>, and \<^verbatim>\<open>page\<close> has no upper bound.
\<close>

definition page_of :: "('a \<Rightarrow> int) \<Rightarrow> int \<Rightarrow> int \<Rightarrow> 'a list \<Rightarrow> app_exception + 'a list" where
  "page_of created_at page page_size rows =
     (if 2 ^ 63 \<le> (page - 1) * page_size then Inl (UnhandledError ''DBAPIError'')
      else Inr (take (nat page_size) (drop (nat ((page - 1) * page_size)) (sort_key (\<lambda>x. - created_at x) rows))))"

text \<open>\<^verbatim>\<open>LIKE\<close> with its two wildcards and the escape character.\<close>

function sql_like :: "string \<Rightarrow> string \<Rightarrow> bool" where
  "sql_like [] s = (s = [])"
| "sql_like (p # ps) s =
     (if p = CHR 0x5C then (case ps of [] \<Rightarrow> False | q # qs \<Rightarrow> (case s of [] \<Rightarrow> False | ch # cs \<Rightarrow> ch = q \<and> sql_like qs cs))
      else if p = CHR ''%'' then sql_like ps s \<or> (case s of [] \<Rightarrow> False | _ # cs \<Rightarrow> sql_like (p # ps) cs)
      else (case s of [] \<Rightarrow> False | ch # cs \<Rightarrow> (p = CHR ''_'' \<or> p = ch) \<and> sql_like ps cs))"
  by pat_completeness auto
termination by (relation "measure (\<lambda>(p, s). length p + length s)") auto

definition sql_contains :: "string \<Rightarrow> string \<Rightarrow> bool" where
  "sql_contains s part = sql_like ([CHR ''%''] @ part @ [CHR ''%'']) s"

record rule_filter =
  rf_client_pk :: "string option"
  rf_endpoint :: "string option"
  rf_identifier_type :: "rule_identifier_type option"
  rf_identifier_signature :: "string option"
  rf_status :: "rule_status option"
  rf_algorithm_id :: "string option"
  rf_page :: int
  rf_page_size :: int

definition passes :: "'a option \<Rightarrow> 'a \<Rightarrow> bool" where
  "passes f v \<longleftrightarrow> (case f of None \<Rightarrow> True | Some x \<Rightarrow> v = x)"

definition rule_filter_ok :: "rule_filter \<Rightarrow> bool" where
  "rule_filter_ok f \<longleftrightarrow> 1 \<le> rf_page f \<and> 1 \<le> rf_page_size f \<and> rf_page_size f \<le> 100"

definition rule_selected :: "rule_filter \<Rightarrow> rule \<Rightarrow> bool" where
  "rule_selected f r \<longleftrightarrow> passes (rf_client_pk f) (r_client_id r) \<and> passes (rf_endpoint f) (r_endpoint r)
     \<and> passes (map_option rule_identifier_value (rf_identifier_type f)) (r_identifier_signature r)
     \<and> passes (rf_identifier_signature f) (r_identifier_signature r)
     \<and> passes (map_option rule_status_value (rf_status f)) (r_status r) \<and> passes (rf_algorithm_id f) (r_algorithm_id r)"

definition list_rules :: "db \<Rightarrow> rule_filter \<Rightarrow> app_exception + rule list \<times> nat" where
  "list_rules D f = (let rows = filter (rule_selected f) (t_rules D) in
     map_sum id (\<lambda>page. (page, length rows)) (page_of r_created_at (rf_page f) (rf_page_size f) rows))"

definition member_count :: "db \<Rightarrow> rule_group \<Rightarrow> nat" where
  "member_count D g = length (list_by_group D (g_id g))"

definition list_groups ::
  "(string \<Rightarrow> string) \<Rightarrow> (string \<Rightarrow> string) \<Rightarrow> db \<Rightarrow> string option \<Rightarrow> string option \<Rightarrow> int \<Rightarrow> int \<Rightarrow>
     app_exception + (rule_group \<times> nat) list \<times> nat" where
  "list_groups pg_lower py_lower D client_pk name_contains page page_size =
     (let rows = filter (\<lambda>g. passes client_pk (g_client_id g)
           \<and> (case name_contains of None \<Rightarrow> True | Some n \<Rightarrow> sql_contains (pg_lower (g_name g)) (py_lower n))) (t_groups D) in
      map_sum id (\<lambda>gs. (map (\<lambda>g. (g, member_count D g)) gs, length rows)) (page_of g_created_at page page_size rows))"

definition secret_active :: "int \<Rightarrow> client_secret \<Rightarrow> bool" where
  "secret_active now s \<longleftrightarrow> s_revoked_at s = None \<and> (case s_expires_at s of None \<Rightarrow> True | Some t \<Rightarrow> now < t)"

definition list_active_secrets :: "db \<Rightarrow> int \<Rightarrow> string \<Rightarrow> client_secret list" where
  "list_active_secrets D now pk = filter (\<lambda>s. s_client_pk s = pk \<and> secret_active now s) (t_secrets D)"

definition count_active_secrets :: "db \<Rightarrow> int \<Rightarrow> string \<Rightarrow> nat" where
  "count_active_secrets D now pk = length (filter (\<lambda>s. s_client_pk s = pk \<and> secret_active now s) (t_secrets D))"

definition list_secrets_of :: "db \<Rightarrow> string \<Rightarrow> client_secret list" where
  "list_secrets_of D pk = sort_key (\<lambda>s. - s_created_at s) (filter (\<lambda>s. s_client_pk s = pk) (t_secrets D))"

definition get_secret_by_id :: "db \<Rightarrow> string \<Rightarrow> client_secret option" where
  "get_secret_by_id D sid = find (\<lambda>s. s_id s = sid) (t_secrets D)"

definition list_clients_page :: "db \<Rightarrow> int \<Rightarrow> int \<Rightarrow> app_exception + client list \<times> nat" where
  "list_clients_page D page page_size =
     map_sum id (\<lambda>page. (page, length (t_clients D))) (page_of c_created_at page page_size (t_clients D))"

subsection \<open>Row operations and triggers\<close>

definition history_entry :: "int \<Rightarrow> string \<Rightarrow> rule \<Rightarrow> rule_history" where
  "history_entry now action r = \<lparr>h_rule_id = r_id r, h_action = action, h_snapshot = r,
     h_changed_by = r_updated_by r, h_changed_at = now\<rparr>"

definition insert_rule :: "int \<Rightarrow> rule \<Rightarrow> db \<Rightarrow> db" where
  "insert_rule now r D = D\<lparr>t_rules := t_rules D @ [r], t_history := t_history D @ [history_entry now ''insert'' r]\<rparr>"

definition delete_rule_row :: "int \<Rightarrow> string \<Rightarrow> db \<Rightarrow> db" where
  "delete_rule_row now rid D = (case get_rule_by_id D rid of None \<Rightarrow> D | Some r \<Rightarrow>
     D\<lparr>t_rules := filter (\<lambda>x. r_id x \<noteq> rid) (t_rules D), t_history := t_history D @ [history_entry now ''delete'' r]\<rparr>)"

text \<open>
  The unit of work writes the columns whose value differs from the one that was loaded.  \<open>old\<close> is the
  row as loaded, \<open>new\<close> the object at the flush and \<open>cur\<close> the row in the table by then.
\<close>

definition column :: "'a \<Rightarrow> 'a \<Rightarrow> 'a \<Rightarrow> 'a" where
  "column old new cur = (if old = new then cur else new)"

definition rule_delta :: "rule \<Rightarrow> rule \<Rightarrow> rule \<Rightarrow> rule" where
  "rule_delta old new cur = \<lparr>r_id = r_id cur, r_client_id = column (r_client_id old) (r_client_id new) (r_client_id cur),
     r_endpoint = column (r_endpoint old) (r_endpoint new) (r_endpoint cur),
     r_identifier_types = column (r_identifier_types old) (r_identifier_types new) (r_identifier_types cur),
     r_identifier_signature = column (r_identifier_signature old) (r_identifier_signature new) (r_identifier_signature cur),
     r_algorithm_id = column (r_algorithm_id old) (r_algorithm_id new) (r_algorithm_id cur),
     r_params = column (r_params old) (r_params new) (r_params cur),
     r_status = column (r_status old) (r_status new) (r_status cur),
     r_priority = column (r_priority old) (r_priority new) (r_priority cur),
     r_version = column (r_version old) (r_version new) (r_version cur),
     r_created_by = column (r_created_by old) (r_created_by new) (r_created_by cur),
     r_updated_by = column (r_updated_by old) (r_updated_by new) (r_updated_by cur),
     r_created_at = r_created_at cur, r_updated_at = r_updated_at cur,
     r_group_id = column (r_group_id old) (r_group_id new) (r_group_id cur),
     r_overrides = column (r_overrides old) (r_overrides new) (r_overrides cur)\<rparr>"

definition replace_rule :: "int \<Rightarrow> rule \<Rightarrow> db \<Rightarrow> db" where
  "replace_rule now r D = D\<lparr>t_rules := map (\<lambda>x. if r_id x = r_id r then r else x) (t_rules D),
     t_history := t_history D @ [history_entry now ''update'' r]\<rparr>"

definition store_rule :: "int \<Rightarrow> rule \<Rightarrow> rule \<Rightarrow> db \<Rightarrow> db_error + db" where
  "store_rule now old new D = (if old = new then Inr D
     else case get_rule_by_id D (r_id old) of
       None \<Rightarrow> Inl StaleDataErr
     | Some cur \<Rightarrow> Inr (replace_rule now ((rule_delta old new cur)\<lparr>r_updated_at := now\<rparr>) D))"

definition insert_group :: "rule_group \<Rightarrow> db \<Rightarrow> db" where
  "insert_group g D = D\<lparr>t_groups := t_groups D @ [g]\<rparr>"

definition store_group :: "int \<Rightarrow> rule_group \<Rightarrow> rule_group \<Rightarrow> db \<Rightarrow> db" where
  "store_group now old new D = (if old = new then D
     else D\<lparr>t_groups := map (\<lambda>g. if g_id g = g_id old then new\<lparr>g_updated_at := now\<rparr> else g) (t_groups D)\<rparr>)"

definition delete_group_row :: "string \<Rightarrow> db \<Rightarrow> db" where
  "delete_group_row gid D = D\<lparr>t_groups := filter (\<lambda>g. g_id g \<noteq> gid) (t_groups D)\<rparr>"

definition insert_client :: "client \<Rightarrow> db \<Rightarrow> db" where
  "insert_client c D = D\<lparr>t_clients := t_clients D @ [c]\<rparr>"

definition store_client :: "int \<Rightarrow> client \<Rightarrow> client \<Rightarrow> db \<Rightarrow> db" where
  "store_client now old new D = (if old = new then D
     else D\<lparr>t_clients := map (\<lambda>c. if c_id c = c_id old then new\<lparr>c_updated_at := now\<rparr> else c) (t_clients D)\<rparr>)"

definition insert_secret :: "client_secret \<Rightarrow> db \<Rightarrow> db" where
  "insert_secret s D = D\<lparr>t_secrets := t_secrets D @ [s]\<rparr>"

definition store_secret :: "client_secret \<Rightarrow> db \<Rightarrow> db" where
  "store_secret s D = D\<lparr>t_secrets := map (\<lambda>x. if s_id x = s_id s then s else x) (t_secrets D)\<rparr>"

subsection \<open>Facts about rows\<close>

lemma find_unique:
  assumes "distinct (map f xs)" "x \<in> set xs" "f x = k"
  shows "find (\<lambda>y. f y = k) xs = Some x"
  using assms by (induction xs) auto

lemma distinct_map_same: "distinct (map f xs) \<Longrightarrow> x \<in> set xs \<Longrightarrow> y \<in> set xs \<Longrightarrow> f x = f y \<Longrightarrow> x = y"
  by (auto simp: distinct_map dest: inj_onD)

lemma find_SomeD: "find P xs = Some x \<Longrightarrow> x \<in> set xs \<and> P x"
  by (induction xs) (auto split: if_splits)

lemma find_None_iff': "find P xs = None \<longleftrightarrow> (\<forall>x \<in> set xs. \<not> P x)"
  by (induction xs) auto

lemma column_same [simp]: "column old new old = new" "column v v cur = cur"
  by (auto simp: column_def)

lemma rule_delta_same:
  "r_id new = r_id old \<Longrightarrow> r_created_at new = r_created_at old \<Longrightarrow> r_updated_at new = r_updated_at old \<Longrightarrow>
     rule_delta old new old = new"
  by (cases old; cases new) (simp add: rule_delta_def)

lemma commit_Inr: "commit pg_lower D = Inr D' \<longleftrightarrow> D' = D \<and> int4_columns D \<and> integrity pg_lower D"
  by (auto simp: commit_def)

lemma commit_Inl_Integrity: "commit pg_lower D = Inl IntegrityErr \<longleftrightarrow> int4_columns D \<and> \<not> integrity pg_lower D"
  by (auto simp: commit_def)

lemma commit_else_Inr: "commit_else pg_lower h a D = Inr (b, D') \<longleftrightarrow> b = a \<and> commit pg_lower D = Inr D'"
  by (auto simp: commit_else_def split: sum.splits)

lemma commit_else_Inl: "commit_else pg_lower h a D = Inl e \<longleftrightarrow>
    (\<not> int4_columns D \<and> e = UnhandledError ''DBAPIError'') \<or> (int4_columns D \<and> \<not> integrity pg_lower D \<and> e = h)"
  by (auto simp: commit_else_def commit_def)

lemma transaction_Inl: "fst (transaction D x) = Inl e \<Longrightarrow> snd (transaction D x) = D"
  by (auto simp: transaction_def split: sum.splits prod.splits)

lemma transaction_Inr: "transaction D x = (Inr a, D') \<longleftrightarrow> x = Inr (a, D')"
  by (auto simp: transaction_def split: sum.splits prod.splits)

lemma transaction_ok:
  assumes "f = transaction D x" "P D" "\<And>a D'. f = (Inr a, D') \<Longrightarrow> P D'"
  shows "P (snd f)"
  using assms by (cases x) (auto simp: transaction_def split: prod.splits)

lemma ux_conflict:
  assumes "ux_rules_active_scope rs" "r \<in> set rs" "r' \<in> set rs" "is_active r" "is_active r'"
    "rule_scope_key r = rule_scope_key r'"
  shows "r = r'"
  using assms by (auto simp: ux_rules_active_scope_def distinct_map dest: inj_onD)

lemma find_active_conflict_None:
  "find_active_conflict D pk ep sig exclude = None \<longleftrightarrow>
     (\<forall>r \<in> set (t_rules D). rule_scope_key r = (pk, ep, sig) \<and> is_active r \<longrightarrow> Some (r_id r) = exclude)"
  by (auto simp: find_active_conflict_def find_None_iff')

text \<open>The query of \<^verbatim>\<open>find_active_conflict\<close> never meets two rows.\<close>

lemma active_conflict_unique:
  assumes "ux_rules_active_scope (t_rules D)"
    "find_active_conflict D pk ep sig exclude = Some r"
    "r' \<in> set (t_rules D)" "rule_scope_key r' = (pk, ep, sig)" "is_active r'"
  shows "r' = r"
  using assms ux_conflict[OF assms(1)] by (auto simp: find_active_conflict_def dest!: find_SomeD)

subsection \<open>The audit log\<close>

text \<open>Replaying the log from the rows it started with.\<close>

fun replay_entry :: "rule_history \<Rightarrow> rule list \<Rightarrow> rule list" where
  "replay_entry h rs = (if h_action h = ''insert'' then rs @ [h_snapshot h]
     else if h_action h = ''delete'' then filter (\<lambda>x. r_id x \<noteq> h_rule_id h) rs
     else map (\<lambda>x. if r_id x = h_rule_id h then h_snapshot h else x) rs)"

definition replay :: "rule_history list \<Rightarrow> rule list \<Rightarrow> rule list" where
  "replay hs = fold replay_entry hs"

definition logged :: "db \<Rightarrow> db \<Rightarrow> bool" where
  "logged D D' \<longleftrightarrow> (\<exists>hs. t_history D' = t_history D @ hs \<and> t_rules D' = replay hs (t_rules D))"

lemma logged_refl: "logged D D"
  by (auto simp: logged_def replay_def intro: exI[of _ "[]"])

lemma logged_trans: "logged D D' \<Longrightarrow> logged D' D'' \<Longrightarrow> logged D D''"
  by (auto simp: logged_def replay_def)

lemma logged_frame: "t_rules D' = t_rules D \<Longrightarrow> t_history D' = t_history D \<Longrightarrow> logged D D'"
  by (auto simp: logged_def replay_def intro: exI[of _ "[]"])

lemma logged_insert: "logged D (insert_rule now r D)"
  by (auto simp: logged_def replay_def insert_rule_def history_entry_def)

lemma logged_delete: "logged D (delete_rule_row now rid D)"
proof (cases "get_rule_by_id D rid")
  case None
  then show ?thesis by (simp add: delete_rule_row_def logged_refl)
next
  case (Some r)
  then have "r_id r = rid" by (auto simp: get_rule_by_id_def dest: find_SomeD)
  with Some show ?thesis by (auto simp: logged_def replay_def delete_rule_row_def history_entry_def)
qed

lemma logged_replace: "logged D (replace_rule now r D)"
  by (auto simp: logged_def replay_def replace_rule_def history_entry_def)

lemma logged_store: "store_rule now old new D = Inr D' \<Longrightarrow> logged D D'"
  by (auto simp: store_rule_def logged_refl logged_replace split: if_splits option.splits)

lemmas logged_rows = logged_refl logged_insert logged_delete logged_replace

end
