(* ===== verification/Rule_Store.thy ===== *)
theory Rule_Store
  imports Database
begin

text \<open>
  What the services keep true of the stored rules and groups: types and signature are canonical, the
  parameters build a configuration for the rule's algorithm, and a member of a group mirrors its
  group (\<^verbatim>\<open>services/group_params.py\<close>: \<^verbatim>\<open>rule.params == {**group.params, **rule.overrides}\<close>).  With the
  constraints of the database this is the invariant \<open>store_ok\<close>, which every operation of the admin
  interface keeps.

  \<open>db_env\<close> is what a request meets: the libraries' conversions, the two \<^verbatim>\<open>lower\<close> functions, the
  transaction's clock, the identifiers that \<^verbatim>\<open>gen_random_uuid()\<close> yields, the secret that
  \<^verbatim>\<open>token_urlsafe(32)\<close> yields, and SHA-256 (of a text's UTF-8, in hexadecimal).
\<close>

record db_env =
  d_coercions :: coercions
  d_py_lower :: "string \<Rightarrow> string"
  d_pg_lower :: "string \<Rightarrow> string"
  d_now :: int
  d_ids :: "nat \<Rightarrow> string"
  d_secret :: string
  d_sha256 :: "ustring \<Rightarrow> string"

definition builds :: "coercions \<Rightarrow> string \<Rightarrow> params \<Rightarrow> bool" where
  "builds c name ps \<longleftrightarrow> (case build_algorithm_config c name ps of Inr _ \<Rightarrow> True | Inl _ \<Rightarrow> False)"

lemma builds_iff: "builds c name ps \<longleftrightarrow> (\<exists>cfg. build_algorithm_config c name ps = Inr cfg)"
  by (auto simp: builds_def split: sum.splits)

lemma check_params_Inr: "check_params c name ps = Inr ps' \<longleftrightarrow> ps' = ps \<and> builds c name ps"
  by (auto simp: check_params_def builds_iff split: sum.splits if_splits)

definition algorithm_builds :: "coercions \<Rightarrow> algorithm list \<Rightarrow> string \<Rightarrow> params \<Rightarrow> bool" where
  "algorithm_builds c algs aid ps \<longleftrightarrow> list_ex (\<lambda>a. a_id a = aid \<and> builds c (a_name a) ps) algs"

definition canonical_types :: "string list \<Rightarrow> string \<Rightarrow> bool" where
  "canonical_types ts sig \<longleftrightarrow> types_ok ts \<and> sig = join ''+'' ts"

definition mirrors :: "rule_group \<Rightarrow> rule \<Rightarrow> bool" where
  "mirrors g r \<longleftrightarrow> r_client_id r = g_client_id g \<and> r_algorithm_id r = g_algorithm_id g
     \<and> r_identifier_types r = g_identifier_types g \<and> r_identifier_signature r = g_identifier_signature g
     \<and> r_priority r = g_priority g
     \<and> (case r_overrides r of None \<Rightarrow> False | Some ov \<Rightarrow>
          unknown_keys (g_params g) ov = [] \<and> r_params r = compute_effective_params (g_params g) ov)"

definition rule_ok :: "coercions \<Rightarrow> algorithm list \<Rightarrow> rule \<Rightarrow> bool" where
  "rule_ok c algs r \<longleftrightarrow> canonical_types (r_identifier_types r) (r_identifier_signature r)
     \<and> r_status r \<in> {''active'', ''inactive''} \<and> algorithm_builds c algs (r_algorithm_id r) (r_params r)"

definition membership_ok :: "rule_group list \<Rightarrow> rule \<Rightarrow> bool" where
  "membership_ok gs r \<longleftrightarrow> (case r_group_id r of None \<Rightarrow> r_overrides r = None
     | Some gid \<Rightarrow> list_ex (\<lambda>g. g_id g = gid \<and> mirrors g r) gs)"

definition groups_ok :: "rule_group list \<Rightarrow> bool" where
  "groups_ok gs \<longleftrightarrow> list_all (\<lambda>g. canonical_types (g_identifier_types g) (g_identifier_signature g)) gs"

definition rules_ok :: "coercions \<Rightarrow> db \<Rightarrow> bool" where
  "rules_ok c D \<longleftrightarrow> groups_ok (t_groups D)
     \<and> list_all (\<lambda>r. rule_ok c (t_algorithms D) r \<and> membership_ok (t_groups D) r) (t_rules D)"

definition store_ok :: "db_env \<Rightarrow> db \<Rightarrow> bool" where
  "store_ok E D \<longleftrightarrow> int4_columns D \<and> integrity (d_pg_lower E) D \<and> rules_ok (d_coercions E) D"

lemma store_ok_commit:
  "commit (d_pg_lower E) D = Inr D' \<Longrightarrow> rules_ok (d_coercions E) D \<Longrightarrow> store_ok E D'"
  by (auto simp: store_ok_def commit_Inr)

lemma rules_okD:
  assumes "rules_ok c D" "r \<in> set (t_rules D)"
  shows "rule_ok c (t_algorithms D) r" "membership_ok (t_groups D) r"
  using assms by (auto simp: rules_ok_def list_all_iff)

lemma store_ok_ids:
  assumes "store_ok E D"
  shows "distinct (map r_id (t_rules D))" "distinct (map g_id (t_groups D))" "distinct (map a_id (t_algorithms D))"
    "distinct (map a_name (t_algorithms D))" "distinct (map c_id (t_clients D))" "distinct (map c_client_id (t_clients D))"
    "ux_rules_active_scope (t_rules D)"
  using assms by (auto simp: store_ok_def integrity_def rules_integrity_def groups_integrity_def clients_integrity_def)

lemma get_rule_by_id_in: "get_rule_by_id D rid = Some r \<Longrightarrow> r \<in> set (t_rules D) \<and> r_id r = rid"
  by (auto simp: get_rule_by_id_def dest: find_SomeD)

lemma get_group_by_id_in: "get_group_by_id D gid = Some g \<Longrightarrow> g \<in> set (t_groups D) \<and> g_id g = gid"
  by (auto simp: get_group_by_id_def dest: find_SomeD)

lemma get_algorithm_in: "get_algorithm_by_id D aid = Some a \<Longrightarrow> a \<in> set (t_algorithms D) \<and> a_id a = aid"
  by (auto simp: get_algorithm_by_id_def dest: find_SomeD)

lemma get_client_in: "get_client_by_client_id D cid = Some c \<Longrightarrow> c \<in> set (t_clients D) \<and> c_client_id c = cid"
  by (auto simp: get_client_by_client_id_def dest: find_SomeD)

lemma algorithm_buildsI:
  "a \<in> set algs \<Longrightarrow> a_id a = aid \<Longrightarrow> builds c (a_name a) ps \<Longrightarrow> algorithm_builds c algs aid ps"
  by (auto simp: algorithm_builds_def list_ex_iff)

lemma normalize_canonical:
  "normalize_identifier_types raw = Inr (ts, sig) \<Longrightarrow> canonical_types ts sig"
  by (simp add: canonical_types_def normalize_Inr)

lemma canonical_ck: "canonical_types ts sig \<Longrightarrow> ck_identifier_types ts"
  by (cases ts) (auto simp: canonical_types_def types_ok_def ck_identifier_types_def max_identifiers_per_rule_def)

lemma group_of_member:
  assumes "store_ok E D" "r \<in> set (t_rules D)" "r_group_id r = Some gid"
  obtains g where "get_group_by_id D gid = Some g" "mirrors g r"
proof -
  have "membership_ok (t_groups D) r" using assms rules_okD by (auto simp: store_ok_def)
  then obtain g where g: "g \<in> set (t_groups D)" "g_id g = gid" "mirrors g r"
    using assms(3) by (auto simp: membership_ok_def list_ex_iff)
  then have "get_group_by_id D gid = Some g"
    unfolding get_group_by_id_def using store_ok_ids(2)[OF assms(1)] by (intro find_unique)
  from this g(3) show ?thesis by (rule that)
qed

text \<open>Replacing one row.\<close>

lemma rules_ok_insert:
  "rules_ok c D \<Longrightarrow> rule_ok c (t_algorithms D) r \<Longrightarrow> membership_ok (t_groups D) r \<Longrightarrow> rules_ok c (insert_rule now r D)"
  by (auto simp: rules_ok_def insert_rule_def)

lemma rules_ok_replace:
  "rules_ok c D \<Longrightarrow> rule_ok c (t_algorithms D) r \<Longrightarrow> membership_ok (t_groups D) r \<Longrightarrow> rules_ok c (replace_rule now r D)"
  by (auto simp: rules_ok_def replace_rule_def list_all_iff)

lemma rules_ok_delete: "rules_ok c D \<Longrightarrow> rules_ok c (delete_rule_row now rid D)"
  by (auto simp: rules_ok_def delete_rule_row_def list_all_iff split: option.splits)

lemma rule_ok_touch: "rule_ok c algs (r\<lparr>r_updated_at := t\<rparr>) = rule_ok c algs r"
  by (simp add: rule_ok_def)

lemma mirrors_touch: "mirrors g (r\<lparr>r_updated_at := t\<rparr>) = mirrors g r"
  by (cases "r_overrides r") (simp_all add: mirrors_def)

lemma membership_ok_touch: "membership_ok gs (r\<lparr>r_updated_at := t\<rparr>) = membership_ok gs r"
  by (cases "r_group_id r") (simp_all add: membership_ok_def mirrors_touch)

text \<open>A row loaded and stored within one transaction.\<close>

lemma store_rule_loaded:
  assumes "get_rule_by_id D (r_id old) = Some old" "r_id new = r_id old" "r_created_at new = r_created_at old"
    "r_updated_at new = r_updated_at old" "old \<noteq> new"
  shows "store_rule now old new D = Inr (replace_rule now (new\<lparr>r_updated_at := now\<rparr>) D)"
  using assms by (simp add: store_rule_def rule_delta_same)

lemma replace_rule_frame [simp]: "t_algorithms (replace_rule now r D) = t_algorithms D"
  "t_groups (replace_rule now r D) = t_groups D" "t_clients (replace_rule now r D) = t_clients D"
  "t_secrets (replace_rule now r D) = t_secrets D"
  by (simp_all add: replace_rule_def)

lemma insert_rule_frame [simp]: "t_algorithms (insert_rule now r D) = t_algorithms D"
  "t_groups (insert_rule now r D) = t_groups D" "t_clients (insert_rule now r D) = t_clients D"
  "t_secrets (insert_rule now r D) = t_secrets D" "t_rules (insert_rule now r D) = t_rules D @ [r]"
  by (simp_all add: insert_rule_def)

lemma delete_rule_frame [simp]: "t_algorithms (delete_rule_row now rid D) = t_algorithms D"
  "t_groups (delete_rule_row now rid D) = t_groups D" "t_clients (delete_rule_row now rid D) = t_clients D"
  "t_secrets (delete_rule_row now rid D) = t_secrets D"
  by (simp_all add: delete_rule_row_def split: option.splits)

lemma delete_rule_rules: "t_rules (delete_rule_row now rid D) = filter (\<lambda>x. r_id x \<noteq> rid) (t_rules D)"
  by (auto simp: delete_rule_row_def get_rule_by_id_def find_None_iff' split: option.splits intro!: filter_True[symmetric])

subsection \<open>A small store\<close>

text \<open>One client with a secret, two algorithms, a group with one member and a standalone rule.\<close>

definition demo_db_env :: db_env where
  "demo_db_env = \<lparr>d_coercions = demo_coercions, d_py_lower = id, d_pg_lower = id, d_now = 100,
     d_ids = (\<lambda>i. ''new'' @ replicate i (CHR ''x'')), d_secret = ''s3cret'', d_sha256 = (\<lambda>u. ''h:'' @ map char_of u)\<rparr>"

definition window_params :: "int \<Rightarrow> int \<Rightarrow> params" where
  "window_params n w = [(''limit'', JInt n), (''window_seconds'', JInt w)]"

definition demo_fixed :: algorithm where
  "demo_fixed = \<lparr>a_id = ''a1'', a_name = ''FixedWindow'', a_description = None, a_params = JObject [], a_created_at = 0, a_updated_at = 0\<rparr>"

definition demo_log :: algorithm where
  "demo_log = \<lparr>a_id = ''a2'', a_name = ''SlidingWindowLog'', a_description = None, a_params = JObject [], a_created_at = 0, a_updated_at = 0\<rparr>"

definition demo_client :: client where
  "demo_client = \<lparr>c_id = ''c1'', c_client_id = ''acme'', c_name = ''Acme'', c_description = None, c_status = ''active'',
     c_scopes = [''check''], c_created_at = 0, c_updated_at = 0\<rparr>"

definition demo_secret :: client_secret where
  "demo_secret = \<lparr>s_id = ''s1'', s_client_pk = ''c1'', s_secret_hash = ''h:pw'', s_secret_hint = ''pw'', s_created_at = 0,
     s_expires_at = None, s_revoked_at = None\<rparr>"

definition demo_group :: rule_group where
  "demo_group = \<lparr>g_id = ''g1'', g_client_id = ''c1'', g_name = ''pay'', g_description = None, g_algorithm_id = ''a1'',
     g_identifier_types = [''api_key''], g_identifier_signature = ''api_key'', g_params = window_params 10 60,
     g_priority = 50, g_created_by = ''ops'', g_updated_by = None, g_created_at = 0, g_updated_at = 0\<rparr>"

definition demo_member :: rule where
  "demo_member = \<lparr>r_id = ''r1'', r_client_id = ''c1'', r_endpoint = ''/pay'', r_identifier_types = [''api_key''],
     r_identifier_signature = ''api_key'', r_algorithm_id = ''a1'', r_params = window_params 5 60, r_status = ''active'',
     r_priority = 50, r_version = 1, r_created_by = ''ops'', r_updated_by = None, r_created_at = 0, r_updated_at = 0,
     r_group_id = Some ''g1'', r_overrides = Some [(''limit'', JInt 5)]\<rparr>"

definition demo_rule_row :: rule where
  "demo_rule_row = \<lparr>r_id = ''r2'', r_client_id = ''c1'', r_endpoint = ''/login'', r_identifier_types = [''ip''],
     r_identifier_signature = ''ip'', r_algorithm_id = ''a2'', r_params = window_params 3 60, r_status = ''active'',
     r_priority = 100, r_version = 1, r_created_by = ''ops'', r_updated_by = None, r_created_at = 0, r_updated_at = 0,
     r_group_id = None, r_overrides = None\<rparr>"

definition demo_store :: db where
  "demo_store = \<lparr>t_algorithms = [demo_fixed, demo_log], t_clients = [demo_client], t_secrets = [demo_secret],
     t_groups = [demo_group], t_rules = [demo_member, demo_rule_row], t_history = []\<rparr>"

lemmas demo_rows = demo_fixed_def demo_log_def demo_client_def demo_secret_def demo_group_def demo_member_def demo_rule_row_def

lemma demo_env_simps [simp]: "d_coercions demo_db_env = demo_coercions" "d_py_lower demo_db_env = id"
  "d_pg_lower demo_db_env = id" "d_now demo_db_env = 100" "d_ids demo_db_env i = ''new'' @ replicate i (CHR ''x'')"
  "d_secret demo_db_env = ''s3cret''" "d_sha256 demo_db_env u = ''h:'' @ map char_of u"
  by (simp_all add: demo_db_env_def)

lemma demo_window_builds:
  "builds demo_coercions ''FixedWindow'' (window_params n w) \<longleftrightarrow> 0 < n \<and> 0 < w"
  "builds demo_coercions ''SlidingWindowLog'' (window_params n w) \<longleftrightarrow> 0 < n \<and> 0 < w"
  by (simp_all add: builds_def build_algorithm_config_def windowed_class_def get_key_def window_params_def window_ms_def
      gt0_int_def demo_coercions_def)

lemma demo_canonical: "canonical_types [''api_key''] ''api_key''" "canonical_types [''ip''] ''ip''"
  by (simp_all add: canonical_types_def types_ok_def max_identifiers_per_rule_def rule_identifier_values_def rule_identifier_types_def)

lemma demo_effective: "unknown_keys (window_params 10 60) [(''limit'', JInt 5)] = []"
  "compute_effective_params (window_params 10 60) [(''limit'', JInt 5)] = window_params 5 60"
  by (simp_all add: unknown_keys_def window_params_def compute_effective_params_def)

lemma demo_store_ok: "store_ok demo_db_env demo_store"
proof -
  have "integrity id demo_store"
    by (simp add: integrity_def clients_integrity_def groups_integrity_def rules_integrity_def demo_store_def demo_rows
        ck_clients_def ck_clients_client_id_format_def client_id_char_def ux_rule_groups_name_ci_def ck_identifier_types_def
        ux_rules_active_scope_def is_active_def rule_scope_key_def ck_rules_overrides_requires_group_def)
  moreover have "int4_columns demo_store" by (simp add: int4_columns_def int4_def demo_store_def demo_rows)
  moreover have "rules_ok demo_coercions demo_store"
    by (simp add: rules_ok_def groups_ok_def rule_ok_def membership_ok_def mirrors_def algorithm_builds_def
        demo_store_def demo_rows demo_window_builds demo_canonical demo_effective)
  ultimately show ?thesis by (simp add: store_ok_def)
qed

end
