(* ===== verification/Rule_Service.thy ===== *)
theory Rule_Service
  imports Rule_Store
begin

text \<open>
  \<^verbatim>\<open>services/rule_service.py\<close> on the requests of \<^verbatim>\<open>dto/rule_dto.py\<close>.

  \<open>update_rule\<close> is split where the code awaits the database: the plan reads and validates, the commit
  writes.  Run together they are the handler; with another transaction in between they show what a
  concurrent request can do.
\<close>

subsection \<open>Requests\<close>

record rule_create =
  nr_client_id :: string
  nr_endpoint :: string
  nr_identifier_types :: "rule_identifier_type list"
  nr_algorithm_id :: string
  nr_params :: params
  nr_priority :: int
  nr_created_by :: string

definition default_priority :: int where
  "default_priority = 100"

record rule_update =
  ur_algorithm_id :: "string option"
  ur_params :: "params option"
  ur_priority :: "int option"
  ur_status :: "rule_status option"
  ur_overrides :: "params option"
  ur_updated_by :: string
  ur_expected_version :: "int option"

definition normalized_types :: "rule_identifier_type list \<Rightarrow> app_exception + string list \<times> string" where
  "normalized_types ts = map_sum InvalidIdentifierTypesError id (normalize_identifier_types (map rule_identifier_value ts))"

subsection \<open>The service\<close>

definition resolve_client_or_raise :: "db \<Rightarrow> string \<Rightarrow> app_exception + client" where
  "resolve_client_or_raise D cid = (case get_client_by_client_id D cid of
     None \<Rightarrow> Inl (ClientNotFoundError cid) | Some c \<Rightarrow> Inr c)"

definition resolve_client_pk :: "db \<Rightarrow> string \<Rightarrow> app_exception + string" where
  "resolve_client_pk D cid = map_sum id c_id (resolve_client_or_raise D cid)"

definition validate_params_or_raise :: "db_env \<Rightarrow> db \<Rightarrow> string \<Rightarrow> params \<Rightarrow> app_exception + unit" where
  "validate_params_or_raise E D aid ps = (case get_algorithm_by_id D aid of
     None \<Rightarrow> Inl (AlgorithmNotFoundError aid)
   | Some a \<Rightarrow> map_sum params_exception (\<lambda>_. ()) (check_params (d_coercions E) (a_name a) ps))"

definition create_rule :: "db_env \<Rightarrow> rule_create \<Rightarrow> db \<Rightarrow> (app_exception + rule) \<times> db" where
  "create_rule E data D = transaction D (
     bind_sum (resolve_client_or_raise D (nr_client_id data)) (\<lambda>client.
     bind_sum (validate_params_or_raise E D (nr_algorithm_id data) (nr_params data)) (\<lambda>_.
     bind_sum (normalized_types (nr_identifier_types data)) (\<lambda>(types, sig).
     let r = \<lparr>r_id = d_ids E 0, r_client_id = c_id client, r_endpoint = nr_endpoint data,
           r_identifier_types = types, r_identifier_signature = sig, r_algorithm_id = nr_algorithm_id data,
           r_params = nr_params data, r_status = rule_status_value ACTIVE, r_priority = nr_priority data, r_version = 1,
           r_created_by = nr_created_by data, r_updated_by = None, r_created_at = d_now E, r_updated_at = d_now E,
           r_group_id = None, r_overrides = None\<rparr> in
     commit_else (d_pg_lower E) (ScopeConflictError (nr_endpoint data) sig) r (insert_rule (d_now E) r D)))))"

definition get_rule_or_raise :: "db \<Rightarrow> string \<Rightarrow> app_exception + rule" where
  "get_rule_or_raise D rid = (case get_rule_by_id D rid of None \<Rightarrow> Inl (RuleNotFoundError rid) | Some r \<Rightarrow> Inr r)"

text \<open>\<^verbatim>\<open>group.algorithm.name\<close>; the foreign keys make the \<^verbatim>\<open>None\<close> cases impossible.\<close>

definition group_algorithm_name :: "db \<Rightarrow> rule_group \<Rightarrow> app_exception + string" where
  "group_algorithm_name D g = (case get_algorithm_by_id D (g_algorithm_id g) of
     None \<Rightarrow> Inl (UnhandledError ''AttributeError'') | Some a \<Rightarrow> Inr (a_name a))"

definition validated_overrides ::
  "db_env \<Rightarrow> db \<Rightarrow> rule_group \<Rightarrow> params \<Rightarrow> params \<Rightarrow> app_exception + params" where
  "validated_overrides E D g base overrides = bind_sum (group_algorithm_name D g) (\<lambda>name.
     map_sum params_exception id (validate_overrides_or_raise (d_coercions E) name base overrides))"

definition updated_params :: "db_env \<Rightarrow> db \<Rightarrow> rule \<Rightarrow> rule_update \<Rightarrow> app_exception + params option" where
  "updated_params E D r data = (case r_group_id r of
     Some gid \<Rightarrow> (case ur_overrides data of
         None \<Rightarrow> Inr None
       | Some ov \<Rightarrow> (case get_group_by_id D gid of
           None \<Rightarrow> Inl (UnhandledError ''AttributeError'')
         | Some g \<Rightarrow> map_sum id Some (validated_overrides E D g (g_params g) ov)))
   | None \<Rightarrow>
       if ur_algorithm_id data \<noteq> None \<or> ur_params data \<noteq> None
       then let aid = (case ur_algorithm_id data of Some a \<Rightarrow> a | None \<Rightarrow> r_algorithm_id r);
                candidate = (case ur_params data of Some p \<Rightarrow> p | None \<Rightarrow> r_params r)
         in map_sum id (\<lambda>_. Some candidate) (validate_params_or_raise E D aid candidate)
       else Inr None)"

definition update_guard :: "rule \<Rightarrow> rule_update \<Rightarrow> app_exception option" where
  "update_guard r data =
     (case ur_expected_version data of
        Some v \<Rightarrow> if v \<noteq> r_version r then Some (VersionConflictError (r_id r) v (r_version r)) else None
      | None \<Rightarrow> None)"

definition update_rule_plan :: "db_env \<Rightarrow> db \<Rightarrow> string \<Rightarrow> rule_update \<Rightarrow> app_exception + rule \<times> rule" where
  "update_rule_plan E D rid data = bind_sum (get_rule_or_raise D rid) (\<lambda>r.
     case update_guard r data of Some e \<Rightarrow> Inl e | None \<Rightarrow>
     let is_grouped = (r_group_id r \<noteq> None) in
     if is_grouped \<and> (ur_algorithm_id data \<noteq> None \<or> ur_params data \<noteq> None \<or> ur_priority data \<noteq> None)
     then Inl (RuleManagedByGroupError rid)
     else if \<not> is_grouped \<and> ur_overrides data \<noteq> None then Inl (OverridesRequireGroupError rid)
     else bind_sum (updated_params E D r data) (\<lambda>new_params.
       let new_status = (case ur_status data of Some s \<Rightarrow> rule_status_value s | None \<Rightarrow> r_status r) in
       if new_status = ''active''
          \<and> find_active_conflict D (r_client_id r) (r_endpoint r) (r_identifier_signature r) (Some (r_id r)) \<noteq> None
       then Inl (ScopeConflictError (r_endpoint r) (r_identifier_signature r))
       else Inr (r, r\<lparr>
         r_algorithm_id := (if is_grouped then r_algorithm_id r else case ur_algorithm_id data of Some a \<Rightarrow> a | None \<Rightarrow> r_algorithm_id r),
         r_priority := (if is_grouped then r_priority r else case ur_priority data of Some p \<Rightarrow> p | None \<Rightarrow> r_priority r),
         r_params := (case new_params of Some p \<Rightarrow> p | None \<Rightarrow> r_params r),
         r_overrides := (if is_grouped \<and> ur_overrides data \<noteq> None then ur_overrides data else r_overrides r),
         r_status := new_status, r_updated_by := Some (ur_updated_by data), r_version := r_version r + 1\<rparr>)))"

text \<open>
  \<^verbatim>\<open>RuleRepository.update\<close> and the handler's \<^verbatim>\<open>except IntegrityError\<close>.  The repository has rolled the
  session back by then, which expires the row: reading \<^verbatim>\<open>rule.endpoint\<close> for the message needs a query
  outside of any awaited call and raises \<^verbatim>\<open>MissingGreenlet\<close> (the comment in \<^verbatim>\<open>move_to_group\<close> says so).
  The returned object is the session's: only its relationships are refreshed.
\<close>

definition commit_rule :: "db_env \<Rightarrow> rule \<Rightarrow> rule \<Rightarrow> db \<Rightarrow> app_exception + rule \<times> db" where
  "commit_rule E old new D = (case store_rule (d_now E) old new D of
     Inl e \<Rightarrow> Inl (db_exception e)
   | Inr D' \<Rightarrow> commit_else (d_pg_lower E) (UnhandledError ''MissingGreenlet'') new D')"

definition update_rule :: "db_env \<Rightarrow> string \<Rightarrow> rule_update \<Rightarrow> db \<Rightarrow> (app_exception + rule) \<times> db" where
  "update_rule E rid data D = transaction D (
     bind_sum (update_rule_plan E D rid data) (\<lambda>(old, new). commit_rule E old new D))"

definition delete_rule :: "db_env \<Rightarrow> string \<Rightarrow> db \<Rightarrow> (app_exception + unit) \<times> db" where
  "delete_rule E rid D = transaction D (
     bind_sum (get_rule_or_raise D rid) (\<lambda>r.
     commit_else (d_pg_lower E) IntegrityErrorExc () (delete_rule_row (d_now E) (r_id r) D)))"

subsection \<open>Facts about the steps\<close>

lemma resolve_client_Inr: "resolve_client_or_raise D cid = Inr c \<longleftrightarrow> get_client_by_client_id D cid = Some c"
  by (simp add: resolve_client_or_raise_def split: option.splits)

lemma get_rule_Inr: "get_rule_or_raise D rid = Inr r \<longleftrightarrow> get_rule_by_id D rid = Some r"
  by (simp add: get_rule_or_raise_def split: option.splits)

lemma normalized_types_Inr: "normalized_types ts = Inr (us, sig) \<Longrightarrow> canonical_types us sig"
  by (auto simp: normalized_types_def map_sum_Inr intro: normalize_canonical)

lemma validate_params_Inr:
  assumes "validate_params_or_raise E D aid ps = Inr u"
  shows "algorithm_builds (d_coercions E) (t_algorithms D) aid ps"
proof -
  obtain a where a: "get_algorithm_by_id D aid = Some a" "check_params (d_coercions E) (a_name a) ps = Inr ps"
    using assms by (auto simp: validate_params_or_raise_def map_sum_Inr check_params_Inr split: option.splits)
  then show ?thesis using get_algorithm_in[OF a(1)] by (auto simp: check_params_Inr intro: algorithm_buildsI)
qed

lemma validated_overrides_Inr:
  assumes "validated_overrides E D g base ov = Inr ps"
  shows "ps = compute_effective_params base ov" "unknown_keys base ov = []"
    "algorithm_builds (d_coercions E) (t_algorithms D) (g_algorithm_id g) ps"
proof -
  obtain a where a: "get_algorithm_by_id D (g_algorithm_id g) = Some a"
      "validate_overrides_or_raise (d_coercions E) (a_name a) base ov = Inr ps"
    using assms by (auto simp: validated_overrides_def group_algorithm_name_def bind_sum_Inr map_sum_Inr split: option.splits)
  from validate_overrides_Inr[OF a(2)] show "ps = compute_effective_params base ov" "unknown_keys base ov = []" by auto
  from validate_overrides_Inr(3)[OF a(2)] get_algorithm_in[OF a(1)]
  show "algorithm_builds (d_coercions E) (t_algorithms D) (g_algorithm_id g) ps"
    by (auto simp: builds_iff intro: algorithm_buildsI)
qed

subsection \<open>Creation\<close>

lemma create_rule_Inr:
  assumes "create_rule E data D = (Inr r, D')"
  shows "\<exists>client. get_client_by_client_id D (nr_client_id data) = Some client \<and> r_client_id r = c_id client"
    "algorithm_builds (d_coercions E) (t_algorithms D) (r_algorithm_id r) (r_params r)"
    "canonical_types (r_identifier_types r) (r_identifier_signature r)"
    "r_status r = ''active''" "r_group_id r = None" "r_overrides r = None"
    "commit (d_pg_lower E) (insert_rule (d_now E) r D) = Inr D'"
proof -
  obtain client u types sig where
    s: "resolve_client_or_raise D (nr_client_id data) = Inr client"
      "validate_params_or_raise E D (nr_algorithm_id data) (nr_params data) = Inr u"
      "normalized_types (nr_identifier_types data) = Inr (types, sig)"
    and r: "r = \<lparr>r_id = d_ids E 0, r_client_id = c_id client, r_endpoint = nr_endpoint data,
           r_identifier_types = types, r_identifier_signature = sig, r_algorithm_id = nr_algorithm_id data,
           r_params = nr_params data, r_status = rule_status_value ACTIVE, r_priority = nr_priority data, r_version = 1,
           r_created_by = nr_created_by data, r_updated_by = None, r_created_at = d_now E, r_updated_at = d_now E,
           r_group_id = None, r_overrides = None\<rparr>"
    and c: "commit (d_pg_lower E) (insert_rule (d_now E) r D) = Inr D'"
    using assms unfolding create_rule_def transaction_Inr bind_sum_Inr Let_def
    by (auto simp only: prod.case commit_else_Inr)
  show "\<exists>client. get_client_by_client_id D (nr_client_id data) = Some client \<and> r_client_id r = c_id client"
    using s(1) by (simp add: r resolve_client_Inr)
  show "algorithm_builds (d_coercions E) (t_algorithms D) (r_algorithm_id r) (r_params r)"
    using validate_params_Inr[OF s(2)] by (simp add: r)
  show "canonical_types (r_identifier_types r) (r_identifier_signature r)"
    using normalized_types_Inr[OF s(3)] by (simp add: r)
  show "r_status r = ''active''" "r_group_id r = None" "r_overrides r = None" by (simp_all add: r)
  show "commit (d_pg_lower E) (insert_rule (d_now E) r D) = Inr D'" by (rule c)
qed

lemma create_rule_ok:
  assumes "store_ok E D"
  shows "store_ok E (snd (create_rule E data D))"
proof (rule transaction_ok[where P = "store_ok E", OF create_rule_def assms])
  fix r D' assume "create_rule E data D = (Inr r, D')"
  note c = create_rule_Inr[OF this]
  have "rules_ok (d_coercions E) (insert_rule (d_now E) r D)"
    using assms c by (intro rules_ok_insert) (auto simp: store_ok_def rule_ok_def membership_ok_def)
  with c(7) show "store_ok E D'" by (rule store_ok_commit)
qed

subsection \<open>Update\<close>

lemma update_rule_plan_Inr:
  assumes "update_rule_plan E D rid data = Inr (old, new)"
  shows "get_rule_by_id D rid = Some old" "update_guard old data = None"
    "r_id new = r_id old" "r_client_id new = r_client_id old" "r_endpoint new = r_endpoint old"
    "r_identifier_types new = r_identifier_types old" "r_identifier_signature new = r_identifier_signature old"
    "r_created_at new = r_created_at old" "r_updated_at new = r_updated_at old" "r_group_id new = r_group_id old"
    "r_version new = r_version old + 1"
    "r_status new = (case ur_status data of Some s \<Rightarrow> rule_status_value s | None \<Rightarrow> r_status old)"
    "r_status new = ''active'' \<Longrightarrow>
       find_active_conflict D (r_client_id old) (r_endpoint old) (r_identifier_signature old) (Some (r_id old)) = None"
    "\<exists>ps. updated_params E D old data = Inr ps \<and> r_params new = (case ps of Some p \<Rightarrow> p | None \<Rightarrow> r_params old)"
    "r_group_id old \<noteq> None \<Longrightarrow> ur_algorithm_id data = None \<and> ur_params data = None \<and> ur_priority data = None"
    "r_group_id old = None \<Longrightarrow> ur_overrides data = None"
    "r_algorithm_id new = (if r_group_id old \<noteq> None then r_algorithm_id old else case ur_algorithm_id data of Some a \<Rightarrow> a | None \<Rightarrow> r_algorithm_id old)"
    "r_priority new = (if r_group_id old \<noteq> None then r_priority old else case ur_priority data of Some p \<Rightarrow> p | None \<Rightarrow> r_priority old)"
    "r_overrides new = (if ur_overrides data \<noteq> None then ur_overrides data else r_overrides old)"
proof -
  obtain r where r: "get_rule_by_id D rid = Some r"
    using assms by (auto simp: update_rule_plan_def bind_sum_Inr get_rule_Inr)
  have g: "update_guard r data = None" using assms r
    by (auto simp: update_rule_plan_def get_rule_or_raise_def split: option.splits)
  have no: "\<not> (r_group_id r \<noteq> None \<and> (ur_algorithm_id data \<noteq> None \<or> ur_params data \<noteq> None \<or> ur_priority data \<noteq> None))"
      "\<not> (r_group_id r = None \<and> ur_overrides data \<noteq> None)"
    using assms r g by (auto simp: update_rule_plan_def get_rule_or_raise_def Let_def simp del: not_None_eq split: if_splits)
  obtain ps where ps: "updated_params E D r data = Inr ps"
    using assms r g no by (auto simp: update_rule_plan_def get_rule_or_raise_def Let_def bind_sum_Inr simp del: not_None_eq split: if_splits)
  define st where "st = (case ur_status data of Some s \<Rightarrow> rule_status_value s | None \<Rightarrow> r_status r)"
  have no': "\<not> (st = ''active'' \<and> find_active_conflict D (r_client_id r) (r_endpoint r) (r_identifier_signature r) (Some (r_id r)) \<noteq> None)"
    and new: "old = r" "new = r\<lparr>
         r_algorithm_id := (if r_group_id r \<noteq> None then r_algorithm_id r else case ur_algorithm_id data of Some a \<Rightarrow> a | None \<Rightarrow> r_algorithm_id r),
         r_priority := (if r_group_id r \<noteq> None then r_priority r else case ur_priority data of Some p \<Rightarrow> p | None \<Rightarrow> r_priority r),
         r_params := (case ps of Some p \<Rightarrow> p | None \<Rightarrow> r_params r),
         r_overrides := (if r_group_id r \<noteq> None \<and> ur_overrides data \<noteq> None then ur_overrides data else r_overrides r),
         r_status := st, r_updated_by := Some (ur_updated_by data), r_version := r_version r + 1\<rparr>"
    using assms r g no ps unfolding update_rule_plan_def get_rule_or_raise_def Let_def st_def
    by (auto simp del: not_None_eq split: if_splits)
  show "get_rule_by_id D rid = Some old" "update_guard old data = None"
    "r_id new = r_id old" "r_client_id new = r_client_id old" "r_endpoint new = r_endpoint old"
    "r_identifier_types new = r_identifier_types old" "r_identifier_signature new = r_identifier_signature old"
    "r_created_at new = r_created_at old" "r_updated_at new = r_updated_at old" "r_group_id new = r_group_id old"
    "r_version new = r_version old + 1"
    "r_status new = (case ur_status data of Some s \<Rightarrow> rule_status_value s | None \<Rightarrow> r_status old)"
    "\<exists>ps. updated_params E D old data = Inr ps \<and> r_params new = (case ps of Some p \<Rightarrow> p | None \<Rightarrow> r_params old)"
    unfolding new(1) using r g ps by (simp_all add: new(2) st_def)
  show "r_algorithm_id new = (if r_group_id old \<noteq> None then r_algorithm_id old else case ur_algorithm_id data of Some a \<Rightarrow> a | None \<Rightarrow> r_algorithm_id old)"
    "r_priority new = (if r_group_id old \<noteq> None then r_priority old else case ur_priority data of Some p \<Rightarrow> p | None \<Rightarrow> r_priority old)"
    unfolding new(1) by (simp_all add: new(2))
  show "r_overrides new = (if ur_overrides data \<noteq> None then ur_overrides data else r_overrides old)"
    using no(2) by (auto simp: new)
  show "r_group_id old \<noteq> None \<Longrightarrow> ur_algorithm_id data = None \<and> ur_params data = None \<and> ur_priority data = None"
    "r_group_id old = None \<Longrightarrow> ur_overrides data = None" using no by (auto simp: new)
  show "find_active_conflict D (r_client_id old) (r_endpoint old) (r_identifier_signature old) (Some (r_id old)) = None"
    if "r_status new = ''active''" using no' that by (auto simp: new)
qed

text \<open>What a plan would store is a well-formed rule again, given the group it was read with.\<close>

lemma update_rule_plan_ok:
  assumes "store_ok E D" "update_rule_plan E D rid data = Inr (old, new)"
  shows "rule_ok (d_coercions E) (t_algorithms D) new \<and> membership_ok (t_groups D) new"
proof -
  note p = update_rule_plan_Inr[OF assms(2)]
  have old: "old \<in> set (t_rules D)" "r_id old = rid" using get_rule_by_id_in[OF p(1)] by auto
  have ok: "rule_ok (d_coercions E) (t_algorithms D) old" "membership_ok (t_groups D) old"
    using assms(1) old(1) rules_okD by (auto simp: store_ok_def)
  obtain ps where ps: "updated_params E D old data = Inr ps"
      and new_ps: "r_params new = (case ps of Some x \<Rightarrow> x | None \<Rightarrow> r_params old)" using p(14) by blast
  have st: "r_status new \<in> {''active'', ''inactive''}"
    using ok(1) p(12) by (auto simp: rule_ok_def split: option.splits intro: rule_status_value.elims)
  show ?thesis
  proof (cases "r_group_id old")
    case None
    have builds: "algorithm_builds (d_coercions E) (t_algorithms D) (r_algorithm_id new) (r_params new)"
      using ps new_ps p(17) ok(1) None
      by (auto simp: updated_params_def Let_def map_sum_Inr rule_ok_def simp del: not_None_eq
          dest!: validate_params_Inr split: if_splits option.splits)
    have "r_overrides new = None" using p(16,19) None ok(2) by (simp add: membership_ok_def)
    then show ?thesis using builds st ok(1) p(6,7,10) None by (simp add: rule_ok_def membership_ok_def)
  next
    case (Some gid)
    obtain g where g: "get_group_by_id D gid = Some g" "mirrors g old" using group_of_member[OF assms(1) old(1) Some] .
    then obtain ov0 where m: "r_client_id old = g_client_id g" "r_algorithm_id old = g_algorithm_id g"
        "r_identifier_types old = g_identifier_types g" "r_identifier_signature old = g_identifier_signature g"
        "r_priority old = g_priority g" "r_overrides old = Some ov0" "unknown_keys (g_params g) ov0 = []"
        "r_params old = compute_effective_params (g_params g) ov0"
      by (auto simp: mirrors_def split: option.splits)
    have new: "r_algorithm_id new = r_algorithm_id old" "r_priority new = r_priority old" using p(17,18) Some by simp_all
    have eff: "mirrors g new \<and> algorithm_builds (d_coercions E) (t_algorithms D) (r_algorithm_id new) (r_params new)"
    proof (cases "ur_overrides data")
      case None
      then have "ps = None" using ps Some by (simp add: updated_params_def)
      with new_ps have "r_params new = r_params old" by simp
      then show ?thesis using ok(1) p(4,6,7,19) new m None by (simp add: mirrors_def rule_ok_def)
    next
      case (Some ov)
      then obtain x where x: "validated_overrides E D g (g_params g) ov = Inr x" "ps = Some x"
        using ps \<open>r_group_id old = Some gid\<close> g(1) by (auto simp: updated_params_def map_sum_Inr)
      from validated_overrides_Inr[OF x(1)] show ?thesis
        using new_ps x(2) p(4,6,7,19) new m Some by (simp add: mirrors_def)
    qed
    moreover have "g \<in> set (t_groups D)" "g_id g = gid" using get_group_by_id_in[OF g(1)] by auto
    ultimately show ?thesis using st ok(1) p(6,7,10) Some
      by (auto simp: rule_ok_def membership_ok_def list_ex_iff)
  qed
qed

lemma update_rule_Inr:
  assumes "update_rule E rid data D = (Inr new, D')"
  obtains old where "update_rule_plan E D rid data = Inr (old, new)"
    "commit (d_pg_lower E) (replace_rule (d_now E) (new\<lparr>r_updated_at := d_now E\<rparr>) D) = Inr D'"
proof -
  obtain old where p: "update_rule_plan E D rid data = Inr (old, new)" and c: "commit_rule E old new D = Inr (new, D')"
  proof -
    obtain x where x: "update_rule_plan E D rid data = Inr x" "(case x of (old, new) \<Rightarrow> commit_rule E old new D) = Inr (new, D')"
      using assms unfolding update_rule_def transaction_Inr bind_sum_Inr by blast
    obtain a b where ab: "x = (a, b)" by (cases x)
    with x(2) have "commit_rule E a b D = Inr (new, D')" by simp
    moreover from this have "b = new" by (auto simp: commit_rule_def commit_else_Inr split: sum.splits)
    ultimately show ?thesis using x(1) ab that by blast
  qed
  note q = update_rule_plan_Inr[OF p]
  have "old \<noteq> new" using q(11) by auto
  then have "store_rule (d_now E) old new D = Inr (replace_rule (d_now E) (new\<lparr>r_updated_at := d_now E\<rparr>) D)"
    using q(1,3,8,9) get_rule_by_id_in[OF q(1)] by (intro store_rule_loaded) auto
  with c that[OF p] show ?thesis by (auto simp: commit_rule_def commit_else_Inr)
qed

lemma update_rule_ok:
  assumes "store_ok E D"
  shows "store_ok E (snd (update_rule E rid data D))"
proof (rule transaction_ok[where P = "store_ok E", OF update_rule_def assms])
  fix new D' assume "update_rule E rid data D = (Inr new, D')"
  then obtain old where p: "update_rule_plan E D rid data = Inr (old, new)"
    and c: "commit (d_pg_lower E) (replace_rule (d_now E) (new\<lparr>r_updated_at := d_now E\<rparr>) D) = Inr D'"
    by (rule update_rule_Inr)
  have "rules_ok (d_coercions E) (replace_rule (d_now E) (new\<lparr>r_updated_at := d_now E\<rparr>) D)"
    using assms update_rule_plan_ok[OF assms p]
    by (intro rules_ok_replace) (auto simp: store_ok_def rule_ok_touch membership_ok_touch)
  with c show "store_ok E D'" by (rule store_ok_commit)
qed

subsection \<open>Deletion\<close>

lemma delete_rule_Inr:
  assumes "delete_rule E rid D = (Inr u, D')"
  obtains r where "get_rule_by_id D rid = Some r" "commit (d_pg_lower E) (delete_rule_row (d_now E) rid D) = Inr D'"
  using assms unfolding delete_rule_def transaction_Inr
  by (auto simp: bind_sum_Inr get_rule_Inr commit_else_Inr dest: get_rule_by_id_in)

lemma delete_rule_ok:
  assumes "store_ok E D"
  shows "store_ok E (snd (delete_rule E rid D))"
proof (rule transaction_ok[where P = "store_ok E", OF delete_rule_def assms])
  fix u D' assume "delete_rule E rid D = (Inr u, D')"
  then obtain r where "commit (d_pg_lower E) (delete_rule_row (d_now E) rid D) = Inr D'" by (rule delete_rule_Inr)
  moreover have "rules_ok (d_coercions E) (delete_rule_row (d_now E) rid D)"
    using assms by (intro rules_ok_delete) (simp add: store_ok_def)
  ultimately show "store_ok E D'" by (rule store_ok_commit)
qed

end
