(* ===== verification/Rule_Group_Service.thy ===== *)
theory Rule_Group_Service
  imports Rule_Service
begin

text \<open>
  \<^verbatim>\<open>services/rule_group_service.py\<close> on the requests of \<^verbatim>\<open>dto/rule_group_dto.py\<close>: a group is one policy
  for many endpoints, its members are rules that mirror it.

  Each public method is one transaction that holds the lock on the group's row, so it reads and
  writes one state; an exception or an explicit rollback leaves the state as it was.
\<close>

subsection \<open>Requests and responses\<close>

record group_member_input =
  mi_endpoint :: string
  mi_overrides :: params

record group_create =
  ng_client_id :: string
  ng_name :: string
  ng_description :: "string option"
  ng_algorithm_id :: string
  ng_identifier_types :: "rule_identifier_type list"
  ng_params :: params
  ng_priority :: int
  ng_created_by :: string
  ng_members :: "group_member_input list option"

record group_update =
  ug_name :: "string option"
  ug_description :: "string option"
  ug_params :: "params option"
  ug_priority :: "int option"
  ug_updated_by :: string

record move_to_group_request =
  mg_group_id :: string
  mg_overrides :: "params option"
  mg_updated_by :: string

record detach_request =
  dr_algorithm :: string
  dr_params :: params

record group_member =
  gm_rule_id :: string
  gm_endpoint :: string
  gm_overrides :: params
  gm_params :: params
  gm_is_active :: bool

record member_diff =
  md_endpoint :: string
  md_rule_id :: string
  md_overrides :: params

record add_members_response =
  am_created :: "member_diff list"
  am_conflicts :: "member_conflict list"

definition or_empty :: "params option \<Rightarrow> params" where
  "or_empty ov = (case ov of None \<Rightarrow> [] | Some x \<Rightarrow> x)"

subsection \<open>Reads\<close>

definition get_group_or_raise :: "db \<Rightarrow> string \<Rightarrow> app_exception + rule_group" where
  "get_group_or_raise D gid = (case get_group_by_id D gid of None \<Rightarrow> Inl (RuleGroupNotFoundError gid) | Some g \<Rightarrow> Inr g)"

definition group_member_of :: "rule \<Rightarrow> group_member" where
  "group_member_of r = \<lparr>gm_rule_id = r_id r, gm_endpoint = r_endpoint r, gm_overrides = or_empty (r_overrides r),
     gm_params = r_params r, gm_is_active = is_active r\<rparr>"

definition get_group_with_members :: "db \<Rightarrow> string \<Rightarrow> app_exception + rule_group \<times> group_member list" where
  "get_group_with_members D gid = bind_sum (get_group_or_raise D gid) (\<lambda>g.
     Inr (g, map group_member_of (list_by_group D gid)))"

subsection \<open>Adding members\<close>

fun duplicate_endpoint :: "string set \<Rightarrow> group_member_input list \<Rightarrow> string option" where
  "duplicate_endpoint seen [] = None"
| "duplicate_endpoint seen (m # ms) =
     (if mi_endpoint m \<in> seen then Some (mi_endpoint m) else duplicate_endpoint (insert (mi_endpoint m) seen) ms)"

definition conflict_entry :: "string \<Rightarrow> rule \<Rightarrow> member_conflict" where
  "conflict_entry ep r = \<lparr>mc_endpoint = ep,
     mc_reason = ''endpoint already has an active rule for '' @ r_identifier_signature r,
     mc_existing_rule_id = Some (r_id r), mc_existing_group_id = r_group_id r\<rparr>"

text \<open>The loop over the requested members: conflicts, and the rows to write with their parameters.\<close>

fun prepare_members :: "(params \<Rightarrow> app_exception + params) \<Rightarrow> (string \<Rightarrow> rule option) \<Rightarrow> group_member_input list \<Rightarrow>
    app_exception + member_conflict list \<times> (string \<times> params \<times> params) list" where
  "prepare_members validate conflict [] = Inr ([], [])"
| "prepare_members validate conflict (m # ms) =
     bind_sum (validate (mi_overrides m)) (\<lambda>merged.
     bind_sum (prepare_members validate conflict ms) (\<lambda>(cs, ps).
     case conflict (mi_endpoint m) of
       Some r \<Rightarrow> Inr (conflict_entry (mi_endpoint m) r # cs, ps)
     | None \<Rightarrow> Inr (cs, (mi_endpoint m, mi_overrides m, merged) # ps)))"

definition member_rule :: "db_env \<Rightarrow> rule_group \<Rightarrow> nat \<Rightarrow> string \<times> params \<times> params \<Rightarrow> rule" where
  "member_rule E g i = (\<lambda>(ep, ov, merged). \<lparr>r_id = d_ids E i, r_client_id = g_client_id g, r_endpoint = ep,
     r_identifier_types = g_identifier_types g, r_identifier_signature = g_identifier_signature g,
     r_algorithm_id = g_algorithm_id g, r_params = merged, r_status = rule_status_value ACTIVE,
     r_priority = g_priority g, r_version = 1, r_created_by = g_created_by g, r_updated_by = None,
     r_created_at = d_now E, r_updated_at = d_now E, r_group_id = Some (g_id g), r_overrides = Some ov\<rparr>)"

fun insert_members :: "db_env \<Rightarrow> rule_group \<Rightarrow> nat \<Rightarrow> (string \<times> params \<times> params) list \<Rightarrow> db \<Rightarrow> db" where
  "insert_members E g i [] D = D"
| "insert_members E g i (p # ps) D = insert_members E g (Suc i) ps (insert_rule (d_now E) (member_rule E g i p) D)"

definition add_members :: "db_env \<Rightarrow> string \<Rightarrow> group_member_input list \<Rightarrow> db \<Rightarrow>
    (app_exception + add_members_response) \<times> db" where
  "add_members E gid members D = transaction D (
     bind_sum (get_group_or_raise D gid) (\<lambda>g.
     case duplicate_endpoint {} members of Some ep \<Rightarrow> Inl (DuplicateMemberEndpointError ep) | None \<Rightarrow>
     bind_sum (prepare_members (validated_overrides E D g (g_params g))
         (\<lambda>ep. find_active_conflict D (g_client_id g) ep (g_identifier_signature g) None) members) (\<lambda>(conflicts, prepared).
     if conflicts \<noteq> [] then Inr (\<lparr>am_created = [], am_conflicts = conflicts\<rparr>, D)
     else commit_else (d_pg_lower E) MembersWriteRaceError
       \<lparr>am_created = map (\<lambda>(i, ep, ov, merged). \<lparr>md_endpoint = ep, md_rule_id = d_ids E i, md_overrides = ov\<rparr>)
            (List.enumerate 0 prepared), am_conflicts = []\<rparr>
       (insert_members E g 0 prepared D))))"

subsection \<open>Creating a group\<close>

definition new_group :: "db_env \<Rightarrow> client \<Rightarrow> string list \<Rightarrow> string \<Rightarrow> group_create \<Rightarrow> rule_group" where
  "new_group E client types sig data = \<lparr>g_id = d_ids E 0, g_client_id = c_id client, g_name = ng_name data,
     g_description = ng_description data, g_algorithm_id = ng_algorithm_id data, g_identifier_types = types,
     g_identifier_signature = sig, g_params = ng_params data, g_priority = ng_priority data,
     g_created_by = ng_created_by data, g_updated_by = None, g_created_at = d_now E, g_updated_at = d_now E\<rparr>"

definition create_group :: "db_env \<Rightarrow> group_create \<Rightarrow> db \<Rightarrow> (app_exception + rule_group) \<times> db" where
  "create_group E data D = transaction D (
     bind_sum (resolve_client_or_raise D (ng_client_id data)) (\<lambda>client.
     case get_algorithm_by_id D (ng_algorithm_id data) of None \<Rightarrow> Inl (AlgorithmNotFoundError (ng_algorithm_id data))
     | Some algo \<Rightarrow>
     bind_sum (normalized_types (ng_identifier_types data)) (\<lambda>(types, sig).
     let validate = (\<lambda>ov. map_sum params_exception id
           (validate_overrides_or_raise (d_coercions E) (a_name algo) (ng_params data) ov)) in
     bind_sum (validate []) (\<lambda>_.
     if get_group_by_name_ci (d_pg_lower E) (d_py_lower E) D (c_id client) (ng_name data) None \<noteq> None
     then Inl (GroupNameConflictError (ng_name data))
     else let g = new_group E client types sig data in
     bind_sum (commit_else (d_pg_lower E) IntegrityErrorExc () (insert_group g D)) (\<lambda>(_, D1).
     let members = (case ng_members data of None \<Rightarrow> [] | Some ms \<Rightarrow> ms) in
     case duplicate_endpoint {} members of Some ep \<Rightarrow> Inl (DuplicateMemberEndpointError ep) | None \<Rightarrow>
     bind_sum (prepare_members validate (\<lambda>ep. find_active_conflict D1 (c_id client) ep sig None) members)
       (\<lambda>(conflicts, prepared).
     if conflicts \<noteq> [] then Inl (GroupMemberConflictError conflicts)
     else commit_else (d_pg_lower E) MembersWriteRaceError g (insert_members E g 1 prepared D1)))))))"

subsection \<open>Updating a group\<close>

text \<open>
  The query for the members flushes what has been assigned to the group by then (\<open>renamed_group\<close>); its
  parameters and the actor follow after the validation.
\<close>

definition renamed_group :: "rule_group \<Rightarrow> group_update \<Rightarrow> rule_group" where
  "renamed_group g data = g\<lparr>
     g_name := (case ug_name data of None \<Rightarrow> g_name g | Some n \<Rightarrow> n),
     g_description := (case ug_description data of None \<Rightarrow> g_description g | Some x \<Rightarrow> Some x),
     g_priority := (case ug_priority data of None \<Rightarrow> g_priority g | Some p \<Rightarrow> p)\<rparr>"

definition updated_group :: "rule_group \<Rightarrow> group_update \<Rightarrow> rule_group" where
  "updated_group g data = (renamed_group g data)\<lparr>
     g_params := (case ug_params data of None \<Rightarrow> g_params g | Some p \<Rightarrow> p),
     g_updated_by := Some (ug_updated_by data)\<rparr>"

fun recompute_members :: "(params \<Rightarrow> app_exception + params) \<Rightarrow> rule list \<Rightarrow> app_exception + params list" where
  "recompute_members validate [] = Inr []"
| "recompute_members validate (m # ms) = bind_sum (validate (or_empty (r_overrides m))) (\<lambda>p.
     map_sum id ((#) p) (recompute_members validate ms))"

definition updated_member :: "rule_group \<Rightarrow> group_update \<Rightarrow> rule \<Rightarrow> params \<Rightarrow> rule" where
  "updated_member g' data m ps = m\<lparr>r_params := ps,
     r_priority := (if ug_priority data \<noteq> None then g_priority g' else r_priority m),
     r_updated_by := Some (ug_updated_by data), r_version := r_version m + 1\<rparr>"

fun store_rules :: "int \<Rightarrow> (rule \<times> rule) list \<Rightarrow> db \<Rightarrow> db_error + db" where
  "store_rules now [] D = Inr D"
| "store_rules now ((old, new) # ps) D = bind_sum (store_rule now old new D) (store_rules now ps)"

definition update_group :: "db_env \<Rightarrow> string \<Rightarrow> group_update \<Rightarrow> db \<Rightarrow> (app_exception + rule_group) \<times> db" where
  "update_group E gid data D = transaction D (
     bind_sum (get_group_or_raise D gid) (\<lambda>g.
     if (case ug_name data of None \<Rightarrow> False | Some n \<Rightarrow> n \<noteq> g_name g
          \<and> get_group_by_name_ci (d_pg_lower E) (d_py_lower E) D (g_client_id g) n (Some gid) \<noteq> None)
     then Inl (GroupNameConflictError (case ug_name data of None \<Rightarrow> [] | Some n \<Rightarrow> n))
     else let g1 = renamed_group g data; g' = updated_group g data in
     bind_sum (commit_else (d_pg_lower E) IntegrityErrorExc () (store_group (d_now E) g g1 D)) (\<lambda>(_, D1).
     let members = list_by_group D1 gid in
     bind_sum (recompute_members (validated_overrides E D1 g' (g_params g')) members) (\<lambda>recomputed.
     bind_sum (map_sum db_exception id (store_rules (d_now E)
         (map2 (\<lambda>m ps. (m, updated_member g' data m ps)) members recomputed) (store_group (d_now E) g1 g' D1))) (\<lambda>D'.
     commit_else (d_pg_lower E) IntegrityErrorExc g' D')))))"

subsection \<open>Deleting a group\<close>

datatype members_mode = DetachMembers | DeleteMembers

definition detached_row :: "rule \<Rightarrow> rule" where
  "detached_row m = m\<lparr>r_group_id := None, r_overrides := None\<rparr>"

definition delete_group :: "db_env \<Rightarrow> string \<Rightarrow> members_mode \<Rightarrow> db \<Rightarrow> (app_exception + unit) \<times> db" where
  "delete_group E gid mode D = transaction D (
     bind_sum (get_group_or_raise D gid) (\<lambda>g.
     let members = list_by_group D gid in
     bind_sum (case mode of
         DeleteMembers \<Rightarrow> Inr (fold (\<lambda>m. delete_rule_row (d_now E) (r_id m)) members D)
       | DetachMembers \<Rightarrow> map_sum db_exception id (store_rules (d_now E) (map (\<lambda>m. (m, detached_row m)) members) D)) (\<lambda>D'.
     commit_else (d_pg_lower E) IntegrityErrorExc () (delete_group_row gid D'))))"

subsection \<open>Detaching and moving a rule\<close>

definition detach_rule :: "db_env \<Rightarrow> string \<Rightarrow> detach_request \<Rightarrow> db \<Rightarrow> (app_exception + rule) \<times> db" where
  "detach_rule E rid data D = transaction D (
     bind_sum (get_rule_or_raise D rid) (\<lambda>r.
     if r_group_id r = None then Inl (RuleNotInGroupError rid)
     else case get_algorithm_by_name D (dr_algorithm data) of
       None \<Rightarrow> Inl (AlgorithmNameNotFoundError (dr_algorithm data))
     | Some a \<Rightarrow>
         bind_sum (map_sum params_exception id (check_params (d_coercions E) (a_name a) (dr_params data))) (\<lambda>_.
         let new = r\<lparr>r_group_id := None, r_overrides := None, r_algorithm_id := a_id a, r_params := dr_params data,
              r_version := r_version r + 1\<rparr> in
         case store_rule (d_now E) r new D of
           Inl e \<Rightarrow> Inl (db_exception e)
         | Inr D' \<Rightarrow> commit_else (d_pg_lower E) IntegrityErrorExc new D')))"

definition moved_rule :: "rule_group \<Rightarrow> params \<Rightarrow> params \<Rightarrow> string \<Rightarrow> rule \<Rightarrow> rule" where
  "moved_rule g ov merged by r = r\<lparr>r_group_id := Some (g_id g), r_algorithm_id := g_algorithm_id g,
     r_identifier_types := g_identifier_types g, r_identifier_signature := g_identifier_signature g,
     r_priority := g_priority g, r_overrides := Some ov, r_params := merged, r_updated_by := Some by,
     r_version := r_version r + 1\<rparr>"

definition move_to_group :: "db_env \<Rightarrow> string \<Rightarrow> move_to_group_request \<Rightarrow> db \<Rightarrow> (app_exception + rule) \<times> db" where
  "move_to_group E rid data D = transaction D (
     bind_sum (get_rule_or_raise D rid) (\<lambda>r.
     bind_sum (get_group_or_raise D (mg_group_id data)) (\<lambda>g.
     if r_client_id r \<noteq> g_client_id g then Inl (CrossClientOperationError rid (mg_group_id data))
     else let ov = or_empty (mg_overrides data) in
     bind_sum (validated_overrides E D g (g_params g) ov) (\<lambda>merged.
     if g_identifier_signature g \<noteq> r_identifier_signature r
        \<and> find_active_conflict D (r_client_id r) (r_endpoint r) (g_identifier_signature g) (Some (r_id r)) \<noteq> None
     then Inl (ScopeConflictError (r_endpoint r) (g_identifier_signature g))
     else commit_rule E r (moved_rule g ov merged (mg_updated_by data) r) D))))"

subsection \<open>Storing several rows\<close>

lemma store_rules_rows:
  assumes "distinct (map r_id (t_rules D))" "set ms \<subseteq> set (t_rules D)" "distinct ms"
    "\<And>m. m \<in> set ms \<Longrightarrow> r_id (f m) = r_id m \<and> r_created_at (f m) = r_created_at m \<and> r_updated_at (f m) = r_updated_at m \<and> f m \<noteq> m"
  shows "\<exists>D'. store_rules now (map (\<lambda>m. (m, f m)) ms) D = Inr D' \<and> logged D D'
     \<and> t_rules D' = map (\<lambda>x. if x \<in> set ms then (f x)\<lparr>r_updated_at := now\<rparr> else x) (t_rules D)
     \<and> t_algorithms D' = t_algorithms D \<and> t_clients D' = t_clients D \<and> t_secrets D' = t_secrets D \<and> t_groups D' = t_groups D"
  using assms
proof (induction ms arbitrary: D)
  case Nil
  show ?case by (simp add: logged_refl)
next
  case (Cons m ms)
  have m: "m \<in> set (t_rules D)" using Cons.prems by simp
  have inj: "x = y" if "x \<in> set (t_rules D)" "y \<in> set (t_rules D)" "r_id x = r_id y" for x y
    using Cons.prems(1) that by (auto simp: distinct_map dest: inj_onD)
  let ?fm = "(f m)\<lparr>r_updated_at := now\<rparr>"
  let ?D = "replace_rule now ?fm D"
  have fm: "r_id (f m) = r_id m" "r_created_at (f m) = r_created_at m" "r_updated_at (f m) = r_updated_at m" "f m \<noteq> m"
    using Cons.prems(4)[of m] by auto
  have step: "store_rule now m (f m) D = Inr ?D"
    using find_unique[OF Cons.prems(1) m] fm by (intro store_rule_loaded) (auto simp: get_rule_by_id_def)
  have rows: "t_rules ?D = map (\<lambda>x. if x = m then ?fm else x) (t_rules D)"
    using inj m fm(1) by (auto simp: replace_rule_def)
  have ids: "map r_id (t_rules ?D) = map r_id (t_rules D)" using fm(1) by (simp add: rows)
  have sub: "set ms \<subseteq> set (t_rules ?D)" using Cons.prems(2,3) by (auto simp: rows image_iff)
  obtain D' where D': "store_rules now (map (\<lambda>m. (m, f m)) ms) ?D = Inr D'" "logged ?D D'"
      "t_rules D' = map (\<lambda>x. if x \<in> set ms then (f x)\<lparr>r_updated_at := now\<rparr> else x) (t_rules ?D)"
      "t_algorithms D' = t_algorithms ?D \<and> t_clients D' = t_clients ?D \<and> t_secrets D' = t_secrets ?D \<and> t_groups D' = t_groups ?D"
    using Cons.IH[of ?D] Cons.prems(1,3,4) sub ids by auto
  have "?fm \<notin> set ms"
  proof
    assume "?fm \<in> set ms"
    then have "?fm \<in> set (t_rules D)" using Cons.prems(2) by auto
    then have "?fm = m" using inj[of ?fm m] m fm(1) by simp
    with \<open>?fm \<in> set ms\<close> Cons.prems(3) show False by simp
  qed
  then have "t_rules D' = map (\<lambda>x. if x \<in> set (m # ms) then (f x)\<lparr>r_updated_at := now\<rparr> else x) (t_rules D)"
    by (auto simp: D'(3) rows)
  moreover have "logged D D'" using D'(2) logged_replace logged_trans by blast
  ultimately show ?case using step D'(1,4) by auto
qed

lemma store_group_members:
  assumes "distinct (map r_id (t_rules D))"
    "\<And>m. m \<in> set (t_rules D) \<Longrightarrow> r_group_id m = Some gid \<Longrightarrow>
       r_id (f m) = r_id m \<and> r_created_at (f m) = r_created_at m \<and> r_updated_at (f m) = r_updated_at m \<and> f m \<noteq> m"
  obtains D' where "store_rules now (map (\<lambda>m. (m, f m)) (list_by_group D gid)) D = Inr D'" "logged D D'"
     "t_rules D' = map (\<lambda>x. if r_group_id x = Some gid then (f x)\<lparr>r_updated_at := now\<rparr> else x) (t_rules D)"
     "t_algorithms D' = t_algorithms D" "t_clients D' = t_clients D" "t_secrets D' = t_secrets D" "t_groups D' = t_groups D"
proof -
  have "distinct (list_by_group D gid)" using assms(1) by (auto simp: list_by_group_def distinct_map)
  then obtain D' where D': "store_rules now (map (\<lambda>m. (m, f m)) (list_by_group D gid)) D = Inr D'" "logged D D'"
     "t_rules D' = map (\<lambda>x. if x \<in> set (list_by_group D gid) then (f x)\<lparr>r_updated_at := now\<rparr> else x) (t_rules D)"
     "t_algorithms D' = t_algorithms D \<and> t_clients D' = t_clients D \<and> t_secrets D' = t_secrets D \<and> t_groups D' = t_groups D"
    using store_rules_rows[of D "list_by_group D gid" f now] assms by (auto simp: list_by_group_def)
  moreover have "t_rules D' = map (\<lambda>x. if r_group_id x = Some gid then (f x)\<lparr>r_updated_at := now\<rparr> else x) (t_rules D)"
    by (simp add: D'(3) list_by_group_def)
  ultimately show ?thesis using that by blast
qed

subsection \<open>Adding members keeps the store well-formed\<close>

lemma prepare_members_Inr:
  "prepare_members validate conflict ms = Inr (cs, ps) \<Longrightarrow>
     (\<forall>(ep, ov, merged) \<in> set ps. validate ov = Inr merged \<and> conflict ep = None)
     \<and> (cs = [] \<longrightarrow> map (\<lambda>(ep, ov, _). (ep, ov)) ps = map (\<lambda>m. (mi_endpoint m, mi_overrides m)) ms)
     \<and> (cs = [] \<longleftrightarrow> (\<forall>m \<in> set ms. conflict (mi_endpoint m) = None))"
  by (induction ms arbitrary: cs ps) (fastforce simp: bind_sum_Inr split: option.splits)+

lemma insert_members_frame:
  "t_algorithms (insert_members E g i ps D) = t_algorithms D \<and> t_groups (insert_members E g i ps D) = t_groups D
   \<and> t_clients (insert_members E g i ps D) = t_clients D \<and> t_secrets (insert_members E g i ps D) = t_secrets D
   \<and> logged D (insert_members E g i ps D)"
proof (induction ps arbitrary: i D)
  case (Cons p ps)
  then show ?case using logged_trans[OF logged_insert] by fastforce
qed (simp add: logged_refl)

lemma insert_members_rules:
  "t_rules (insert_members E g i ps D) = t_rules D @ map (\<lambda>(j, p). member_rule E g j p) (List.enumerate i ps)"
  by (induction ps arbitrary: i D) simp_all

lemma member_rule_ok:
  assumes "canonical_types (g_identifier_types g) (g_identifier_signature g)" "g \<in> set gs"
    "algorithm_builds c algs (g_algorithm_id g) merged" "unknown_keys (g_params g) ov = []"
    "merged = compute_effective_params (g_params g) ov"
  shows "rule_ok c algs (member_rule E g i (ep, ov, merged)) \<and> membership_ok gs (member_rule E g i (ep, ov, merged))"
  using assms by (auto simp: rule_ok_def membership_ok_def member_rule_def mirrors_def list_ex_iff)

lemma rules_ok_insert_members:
  assumes "rules_ok c D" "g \<in> set (t_groups D)"
    "\<And>ep ov merged. (ep, ov, merged) \<in> set ps \<Longrightarrow> algorithm_builds c (t_algorithms D) (g_algorithm_id g) merged
       \<and> unknown_keys (g_params g) ov = [] \<and> merged = compute_effective_params (g_params g) ov"
  shows "rules_ok c (insert_members E g i ps D)"
proof -
  have can: "canonical_types (g_identifier_types g) (g_identifier_signature g)"
    using assms(1,2) by (auto simp: rules_ok_def groups_ok_def list_all_iff)
  have "rule_ok c (t_algorithms D) (member_rule E g j p) \<and> membership_ok (t_groups D) (member_rule E g j p)"
    if "p \<in> set ps" for j p
    using member_rule_ok[OF can assms(2)] assms(3) that by (cases p) blast
  moreover have "p \<in> set ps" if "(j, p) \<in> set (List.enumerate i ps)" for j p
    using that by (auto simp: enumerate_eq_zip dest: set_zip_rightD)
  ultimately show ?thesis
    using assms(1) insert_members_frame[of E g i ps D] unfolding rules_ok_def insert_members_rules list_all_iff by auto
qed

lemma add_members_Inr:
  assumes "add_members E gid members D = (Inr resp, D')"
  obtains g cs ps where "get_group_by_id D gid = Some g" "duplicate_endpoint {} members = None"
    "prepare_members (validated_overrides E D g (g_params g))
       (\<lambda>ep. find_active_conflict D (g_client_id g) ep (g_identifier_signature g) None) members = Inr (cs, ps)"
    "am_conflicts resp = cs" "cs \<noteq> [] \<Longrightarrow> D' = D \<and> am_created resp = []"
    "cs = [] \<Longrightarrow> commit (d_pg_lower E) (insert_members E g 0 ps D) = Inr D'
       \<and> am_created resp = map (\<lambda>(i, ep, ov, merged). \<lparr>md_endpoint = ep, md_rule_id = d_ids E i, md_overrides = ov\<rparr>) (List.enumerate 0 ps)"
proof -
  obtain g where g: "get_group_by_id D gid = Some g"
    using assms by (auto simp: add_members_def transaction_Inr bind_sum_Inr get_group_or_raise_def split: option.splits)
  have d: "duplicate_endpoint {} members = None"
    using assms g by (auto simp: add_members_def transaction_Inr get_group_or_raise_def split: option.splits)
  obtain cs ps where p: "prepare_members (validated_overrides E D g (g_params g))
       (\<lambda>ep. find_active_conflict D (g_client_id g) ep (g_identifier_signature g) None) members = Inr (cs, ps)"
    using assms g d by (auto simp: add_members_def transaction_Inr get_group_or_raise_def bind_sum_Inr)
  show ?thesis
    using that[OF g d p] assms g d p
    by (cases "cs = []") (auto simp: add_members_def transaction_Inr get_group_or_raise_def commit_else_Inr)
qed

lemma add_members_ok:
  assumes "store_ok E D"
  shows "store_ok E (snd (add_members E gid members D))"
proof (rule transaction_ok[where P = "store_ok E", OF add_members_def assms])
  fix resp D' assume a: "add_members E gid members D = (Inr resp, D')"
  obtain g cs ps where g: "get_group_by_id D gid = Some g"
    and p: "prepare_members (validated_overrides E D g (g_params g))
       (\<lambda>ep. find_active_conflict D (g_client_id g) ep (g_identifier_signature g) None) members = Inr (cs, ps)"
    and r: "cs \<noteq> [] \<Longrightarrow> D' = D" "cs = [] \<Longrightarrow> commit (d_pg_lower E) (insert_members E g 0 ps D) = Inr D'"
    using a by (rule add_members_Inr) blast
  show "store_ok E D'"
  proof (cases "cs = []")
    case True
    have "rules_ok (d_coercions E) (insert_members E g 0 ps D)"
    proof (rule rules_ok_insert_members)
      show "rules_ok (d_coercions E) D" using assms by (simp add: store_ok_def)
      show "g \<in> set (t_groups D)" using get_group_by_id_in[OF g] by simp
    next
      fix ep ov merged assume "(ep, ov, merged) \<in> set ps"
      then have "validated_overrides E D g (g_params g) ov = Inr merged" using prepare_members_Inr[OF p] by auto
      then show "algorithm_builds (d_coercions E) (t_algorithms D) (g_algorithm_id g) merged
         \<and> unknown_keys (g_params g) ov = [] \<and> merged = compute_effective_params (g_params g) ov"
        using validated_overrides_Inr by blast
    qed
    with r(2)[OF True] show ?thesis by (rule store_ok_commit)
  qed (simp add: r assms)
qed

subsection \<open>Creating a group keeps the store well-formed\<close>

lemma mirrors_group_touch: "mirrors (g\<lparr>g_updated_at := t\<rparr>) r = mirrors g r"
  by (cases "r_overrides r") (simp_all add: mirrors_def)

lemma rules_ok_insert_group:
  assumes "rules_ok c D" "canonical_types (g_identifier_types g) (g_identifier_signature g)"
  shows "rules_ok c (insert_group g D)"
  using assms by (fastforce simp: rules_ok_def insert_group_def groups_ok_def list_all_iff membership_ok_def
      list_ex_iff split: option.splits)

lemma create_group_Inr:
  assumes "create_group E data D = (Inr g, D')"
  obtains client algo types sig ps where
    "get_client_by_client_id D (ng_client_id data) = Some client"
    "get_algorithm_by_id D (ng_algorithm_id data) = Some algo"
    "normalized_types (ng_identifier_types data) = Inr (types, sig)"
    "builds (d_coercions E) (a_name algo) (ng_params data)"
    "get_group_by_name_ci (d_pg_lower E) (d_py_lower E) D (c_id client) (ng_name data) None = None"
    "g = new_group E client types sig data" "integrity (d_pg_lower E) (insert_group g D)"
    "duplicate_endpoint {} (case ng_members data of None \<Rightarrow> [] | Some ms \<Rightarrow> ms) = None"
    "prepare_members (\<lambda>ov. map_sum params_exception id (validate_overrides_or_raise (d_coercions E) (a_name algo) (ng_params data) ov))
       (\<lambda>ep. find_active_conflict (insert_group g D) (c_id client) ep sig None)
       (case ng_members data of None \<Rightarrow> [] | Some ms \<Rightarrow> ms) = Inr ([], ps)"
    "commit (d_pg_lower E) (insert_members E g 1 ps (insert_group g D)) = Inr D'"
proof -
  note * = assms[unfolded create_group_def transaction_Inr]
  obtain client where c: "get_client_by_client_id D (ng_client_id data) = Some client"
    using * by (auto simp: bind_sum_Inr resolve_client_Inr)
  obtain algo where a: "get_algorithm_by_id D (ng_algorithm_id data) = Some algo"
    using * c by (auto simp: resolve_client_or_raise_def split: option.splits)
  obtain types sig where n: "normalized_types (ng_identifier_types data) = Inr (types, sig)"
    using * c a by (auto simp: resolve_client_or_raise_def bind_sum_Inr)
  let ?validate = "\<lambda>ov. map_sum params_exception id (validate_overrides_or_raise (d_coercions E) (a_name algo) (ng_params data) ov)"
  obtain x where x: "?validate [] = Inr x"
    using * c a n by (auto simp: resolve_client_or_raise_def bind_sum_Inr Let_def)
  have nm: "get_group_by_name_ci (d_pg_lower E) (d_py_lower E) D (c_id client) (ng_name data) None = None"
    using * c a n x by (auto simp: resolve_client_or_raise_def Let_def simp del: not_None_eq split: if_splits)
  let ?g = "new_group E client types sig data"
  have ins: "commit (d_pg_lower E) (insert_group ?g D) = Inr (insert_group ?g D)"
    using * c a n x nm by (auto simp: resolve_client_or_raise_def Let_def bind_sum_Inr commit_else_Inr commit_Inr)
  let ?ms = "case ng_members data of None \<Rightarrow> [] | Some ms \<Rightarrow> ms"
  have rest: "bind_sum (prepare_members ?validate (\<lambda>ep. find_active_conflict (insert_group ?g D) (c_id client) ep sig None) ?ms)
       (\<lambda>(conflicts, prepared). if conflicts \<noteq> [] then Inl (GroupMemberConflictError conflicts)
         else commit_else (d_pg_lower E) MembersWriteRaceError ?g (insert_members E ?g 1 prepared (insert_group ?g D))) = Inr (g, D')
     \<and> duplicate_endpoint {} ?ms = None"
    using * c a n x nm ins by (auto simp: resolve_client_or_raise_def Let_def commit_else_def split: option.splits)
  obtain cs ps where p: "prepare_members ?validate (\<lambda>ep. find_active_conflict (insert_group ?g D) (c_id client) ep sig None) ?ms = Inr (cs, ps)"
    using rest by (auto simp: bind_sum_Inr)
  then have "cs = []" "g = ?g" "commit (d_pg_lower E) (insert_members E ?g 1 ps (insert_group ?g D)) = Inr D'"
    using rest by (auto simp: commit_else_Inr split: if_splits)
  moreover have "builds (d_coercions E) (a_name algo) (ng_params data)"
    using x by (auto simp: map_sum_Inr validate_overrides_or_raise_def unknown_keys_def compute_effective_params_def
        Let_def check_params_Inr split: if_splits)
  ultimately show ?thesis using that[OF c a n] nm ins rest p by (auto simp: commit_Inr)
qed

lemma create_group_ok:
  assumes "store_ok E D"
  shows "store_ok E (snd (create_group E data D))"
proof (rule transaction_ok[where P = "store_ok E", OF create_group_def assms])
  fix g D' assume "create_group E data D = (Inr g, D')"
  then obtain client algo types sig ps where
    a: "get_algorithm_by_id D (ng_algorithm_id data) = Some algo"
    and n: "normalized_types (ng_identifier_types data) = Inr (types, sig)"
    and g: "g = new_group E client types sig data"
    and p: "prepare_members (\<lambda>ov. map_sum params_exception id (validate_overrides_or_raise (d_coercions E) (a_name algo) (ng_params data) ov))
       (\<lambda>ep. find_active_conflict (insert_group g D) (c_id client) ep sig None)
       (case ng_members data of None \<Rightarrow> [] | Some ms \<Rightarrow> ms) = Inr ([], ps)"
    and c: "commit (d_pg_lower E) (insert_members E g 1 ps (insert_group g D)) = Inr D'"
    by (rule create_group_Inr)
  have "rules_ok (d_coercions E) (insert_members E g 1 ps (insert_group g D))"
  proof (rule rules_ok_insert_members)
    show "rules_ok (d_coercions E) (insert_group g D)"
      using assms normalized_types_Inr[OF n] by (intro rules_ok_insert_group) (simp_all add: store_ok_def g new_group_def)
    show "g \<in> set (t_groups (insert_group g D))" by (simp add: insert_group_def)
  next
    fix ep ov merged assume "(ep, ov, merged) \<in> set ps"
    then have v: "validate_overrides_or_raise (d_coercions E) (a_name algo) (ng_params data) ov = Inr merged"
      using prepare_members_Inr[OF p] by (auto simp: map_sum_Inr)
    have "algo \<in> set (t_algorithms D)" "a_id algo = ng_algorithm_id data" using get_algorithm_in[OF a] by auto
    then show "algorithm_builds (d_coercions E) (t_algorithms (insert_group g D)) (g_algorithm_id g) merged
         \<and> unknown_keys (g_params g) ov = [] \<and> merged = compute_effective_params (g_params g) ov"
      using validate_overrides_Inr[OF v]
      by (auto simp: g new_group_def insert_group_def builds_iff intro: algorithm_buildsI)
  qed
  with c show "store_ok E D'" by (rule store_ok_commit)
qed

subsection \<open>Updating a group keeps the store well-formed\<close>

lemma recompute_members_Inr:
  "recompute_members validate ms = Inr ps \<Longrightarrow> length ps = length ms \<and>
     (\<forall>(m, p) \<in> set (zip ms ps). validate (or_empty (r_overrides m)) = Inr p)"
  by (induction ms arbitrary: ps) (auto simp: bind_sum_Inr map_sum_Inr)

lemma recompute_effective:
  assumes "recompute_members (validated_overrides E D g base) ms = Inr ps"
  shows "ps = map (\<lambda>m. compute_effective_params base (or_empty (r_overrides m))) ms"
    "\<And>m. m \<in> set ms \<Longrightarrow> unknown_keys base (or_empty (r_overrides m)) = []
       \<and> algorithm_builds (d_coercions E) (t_algorithms D) (g_algorithm_id g) (compute_effective_params base (or_empty (r_overrides m)))"
proof -
  note r = recompute_members_Inr[OF assms]
  have each: "validated_overrides E D g base (or_empty (r_overrides (ms ! i))) = Inr (ps ! i)" if "i < length ms" for i
  proof -
    have "(ms ! i, ps ! i) \<in> set (zip ms ps)" using r that by (auto simp: set_zip)
    with r show ?thesis by blast
  qed
  show "ps = map (\<lambda>m. compute_effective_params base (or_empty (r_overrides m))) ms"
  proof (rule nth_equalityI)
    show "length ps = length (map (\<lambda>m. compute_effective_params base (or_empty (r_overrides m))) ms)" using r by simp
    show "ps ! i = map (\<lambda>m. compute_effective_params base (or_empty (r_overrides m))) ms ! i" if "i < length ps" for i
      using that r validated_overrides_Inr(1)[OF each[of i]] by simp
  qed
  fix m assume "m \<in> set ms"
  then obtain i where "i < length ms" "m = ms ! i" by (auto simp: in_set_conv_nth)
  then have v: "validated_overrides E D g base (or_empty (r_overrides m)) = Inr (ps ! i)" using each[of i] by simp
  show "unknown_keys base (or_empty (r_overrides m)) = []
       \<and> algorithm_builds (d_coercions E) (t_algorithms D) (g_algorithm_id g) (compute_effective_params base (or_empty (r_overrides m)))"
    using validated_overrides_Inr[OF v] by simp
qed

lemma store_group_frame [simp]: "t_rules (store_group now old new D) = t_rules D"
  "t_algorithms (store_group now old new D) = t_algorithms D" "t_clients (store_group now old new D) = t_clients D"
  "t_secrets (store_group now old new D) = t_secrets D" "t_history (store_group now old new D) = t_history D"
  by (simp_all add: store_group_def)

text \<open>The row of the group after a store is the new object, up to the time of the touch trigger.\<close>

lemma store_group_row:
  assumes "distinct (map g_id (t_groups D))" "old\<lparr>g_updated_at := u\<rparr> \<in> set (t_groups D)" "g_id new = g_id old"
  shows "\<exists>u'. t_groups (store_group now old new D) =
     map (\<lambda>x. if g_id x = g_id old then new\<lparr>g_updated_at := u'\<rparr> else x) (t_groups D)"
proof (cases "old = new")
  case True
  have "x = old\<lparr>g_updated_at := u\<rparr>" if "x \<in> set (t_groups D)" "g_id x = g_id old" for x
    using distinct_map_same[OF assms(1) that(1) assms(2)] that(2) by simp
  then have "map (\<lambda>x. if g_id x = g_id old then new\<lparr>g_updated_at := u\<rparr> else x) (t_groups D) = t_groups D"
    by (intro map_idI) (use True in auto)
  then show ?thesis using True by (auto simp: store_group_def intro!: exI[of _ u])
next
  case False
  then show ?thesis by (auto simp: store_group_def)
qed

lemma store_group_twice:
  assumes "distinct (map g_id (t_groups D))" "g \<in> set (t_groups D)" "g_id g1 = g_id g" "g_id g2 = g_id g"
  shows "\<exists>u. t_groups (store_group now g1 g2 (store_group now g g1 D)) =
     map (\<lambda>x. if g_id x = g_id g then g2\<lparr>g_updated_at := u\<rparr> else x) (t_groups D)"
proof -
  have "g\<lparr>g_updated_at := g_updated_at g\<rparr> = g" by (cases g) simp
  then have g: "g\<lparr>g_updated_at := g_updated_at g\<rparr> \<in> set (t_groups D)" using assms(2) by simp
  obtain u where u: "t_groups (store_group now g g1 D) = map (\<lambda>x. if g_id x = g_id g then g1\<lparr>g_updated_at := u\<rparr> else x) (t_groups D)"
    using store_group_row[OF assms(1) g assms(3)] by blast
  have ids: "map g_id (t_groups (store_group now g g1 D)) = map g_id (t_groups D)" using assms(3) by (simp add: u)
  have "g1\<lparr>g_updated_at := u\<rparr> \<in> set (t_groups (store_group now g g1 D))" using assms(2) by (auto simp: u)
  then obtain u' where u': "t_groups (store_group now g1 g2 (store_group now g g1 D)) =
      map (\<lambda>x. if g_id x = g_id g1 then g2\<lparr>g_updated_at := u'\<rparr> else x) (t_groups (store_group now g g1 D))"
    using store_group_row[of "store_group now g g1 D" u g1 g2 now] ids assms(1,3,4) by auto
  have "t_groups (store_group now g1 g2 (store_group now g g1 D)) =
      map (\<lambda>x. if g_id x = g_id g then g2\<lparr>g_updated_at := u'\<rparr> else x) (t_groups D)"
    using assms(3) by (auto simp: u' u)
  then show ?thesis by blast
qed

lemma updated_group_fields [simp]: "g_id (updated_group g data) = g_id g" "g_client_id (updated_group g data) = g_client_id g"
  "g_algorithm_id (updated_group g data) = g_algorithm_id g" "g_identifier_types (updated_group g data) = g_identifier_types g"
  "g_identifier_signature (updated_group g data) = g_identifier_signature g" "g_id (renamed_group g data) = g_id g"
  "g_priority (updated_group g data) = (case ug_priority data of None \<Rightarrow> g_priority g | Some p \<Rightarrow> p)"
  by (simp_all add: updated_group_def renamed_group_def)

definition member_update :: "rule_group \<Rightarrow> group_update \<Rightarrow> rule \<Rightarrow> rule" where
  "member_update g data m = updated_member (updated_group g data) data m
     (compute_effective_params (g_params (updated_group g data)) (or_empty (r_overrides m)))"

text \<open>The rows after the group and the members read with it have been stored.\<close>

lemma store_recomputed:
  assumes ids: "distinct (map r_id (t_rules D))" "distinct (map g_id (t_groups D))" and gin: "g \<in> set (t_groups D)" "g_id g = gid"
    and D3: "store_rules now (map (\<lambda>m. (m, member_update g data m)) (list_by_group D gid))
       (store_group now (renamed_group g data) (updated_group g data) (store_group now g (renamed_group g data) D)) = Inr D3"
  obtains u where "logged D D3"
    "t_groups D3 = map (\<lambda>x. if g_id x = gid then (updated_group g data)\<lparr>g_updated_at := u\<rparr> else x) (t_groups D)"
    "t_rules D3 = map (\<lambda>x. if r_group_id x = Some gid then (member_update g data x)\<lparr>r_updated_at := now\<rparr> else x) (t_rules D)"
    "t_algorithms D3 = t_algorithms D" "t_clients D3 = t_clients D" "t_secrets D3 = t_secrets D"
proof -
  let ?g1 = "renamed_group g data" and ?g2 = "updated_group g data"
  let ?D2 = "store_group now ?g1 ?g2 (store_group now g ?g1 D)"
  have D3': "store_rules now (map (\<lambda>m. (m, member_update g data m)) (list_by_group ?D2 gid)) ?D2 = Inr D3"
    using D3 by (simp add: list_by_group_def)
  have ids2: "distinct (map r_id (t_rules ?D2))" using ids(1) by simp
  have upd: "r_id (member_update g data m) = r_id m \<and> r_created_at (member_update g data m) = r_created_at m
      \<and> r_updated_at (member_update g data m) = r_updated_at m \<and> member_update g data m \<noteq> m" for m
  proof -
    have "r_version (member_update g data m) \<noteq> r_version m" by (simp add: member_update_def updated_member_def)
    then have "member_update g data m \<noteq> m" by metis
    then show ?thesis by (simp add: member_update_def updated_member_def)
  qed
  obtain D4 where D4: "store_rules now (map (\<lambda>m. (m, member_update g data m)) (list_by_group ?D2 gid)) ?D2 = Inr D4"
      "logged ?D2 D4" "t_rules D4 = map (\<lambda>x. if r_group_id x = Some gid then (member_update g data x)\<lparr>r_updated_at := now\<rparr> else x) (t_rules ?D2)"
      "t_algorithms D4 = t_algorithms ?D2" "t_clients D4 = t_clients ?D2" "t_secrets D4 = t_secrets ?D2" "t_groups D4 = t_groups ?D2"
    using store_group_members[OF ids2, where gid = gid and f = "member_update g data" and now = now] upd by blast
  then have eq: "D4 = D3" using D3' by simp
  obtain u where u: "t_groups ?D2 = map (\<lambda>x. if g_id x = gid then ?g2\<lparr>g_updated_at := u\<rparr> else x) (t_groups D)"
    using store_group_twice[OF ids(2) gin(1), of ?g1 ?g2 now] gin(2) by auto
  have log: "logged D D3" using D4(2) logged_frame[of ?D2 D] logged_trans eq by (metis store_group_frame(1,5))
  show ?thesis by (rule that[OF log, of u]) (use D4 u eq in simp_all)
qed

lemma recomputed_rows:
  assumes "recompute_members (validated_overrides E D (updated_group g data) (g_params (updated_group g data))) ms = Inr ps"
  shows "map2 (\<lambda>m ps. (m, updated_member (updated_group g data) data m ps)) ms ps = map (\<lambda>m. (m, member_update g data m)) ms"
  unfolding recompute_effective(1)[OF assms] by (simp add: zip_map2 map2_map_map member_update_def zip_same_conv_map)

lemma update_group_Inr:
  assumes "store_ok E D" "update_group E gid data D = (Inr g', D')"
  obtains g u where "get_group_by_id D gid = Some g" "g' = updated_group g data"
    "int4_columns D'" "integrity (d_pg_lower E) D'" "logged D D'"
    "t_groups D' = map (\<lambda>x. if g_id x = gid then (updated_group g data)\<lparr>g_updated_at := u\<rparr> else x) (t_groups D)"
    "t_rules D' = map (\<lambda>x. if r_group_id x = Some gid then (member_update g data x)\<lparr>r_updated_at := d_now E\<rparr> else x) (t_rules D)"
    "t_algorithms D' = t_algorithms D" "t_clients D' = t_clients D" "t_secrets D' = t_secrets D"
    "\<forall>m \<in> set (list_by_group D gid). unknown_keys (g_params g') (or_empty (r_overrides m)) = []
       \<and> algorithm_builds (d_coercions E) (t_algorithms D) (g_algorithm_id g)
            (compute_effective_params (g_params g') (or_empty (r_overrides m)))"
proof -
  note * = assms(2)[unfolded update_group_def transaction_Inr]
  obtain g where g: "get_group_by_id D gid = Some g"
    using * by (auto simp: bind_sum_Inr get_group_or_raise_def split: option.splits)
  then have gin: "g \<in> set (t_groups D)" "g_id g = gid" using get_group_by_id_in by auto
  let ?g1 = "renamed_group g data" and ?g2 = "updated_group g data"
  let ?D1 = "store_group (d_now E) g ?g1 D"
  let ?D2 = "store_group (d_now E) ?g1 ?g2 ?D1"
  let ?rest = "bind_sum (recompute_members (validated_overrides E ?D1 ?g2 (g_params ?g2)) (list_by_group ?D1 gid)) (\<lambda>recomputed.
     bind_sum (map_sum db_exception id (store_rules (d_now E)
         (map2 (\<lambda>m ps. (m, updated_member ?g2 data m ps)) (list_by_group ?D1 gid) recomputed) ?D2)) (\<lambda>D'.
     commit_else (d_pg_lower E) IntegrityErrorExc ?g2 D'))"
  have rest: "?rest = Inr (g', D')"
    using * g by (auto simp: get_group_or_raise_def Let_def bind_sum_Inr commit_else_Inr commit_Inr split: if_splits)
  then obtain ps D3 where ps: "recompute_members (validated_overrides E ?D1 ?g2 (g_params ?g2)) (list_by_group ?D1 gid) = Inr ps"
    and D3: "store_rules (d_now E) (map2 (\<lambda>m ps. (m, updated_member ?g2 data m ps)) (list_by_group ?D1 gid) ps) ?D2 = Inr D3"
    and c: "commit (d_pg_lower E) D3 = Inr D'" "g' = ?g2"
    by (auto simp: bind_sum_Inr map_sum_Inr commit_else_Inr)
  have members: "list_by_group ?D1 gid = list_by_group D gid" by (simp add: list_by_group_def)
  have D3': "store_rules (d_now E) (map (\<lambda>m. (m, member_update g data m)) (list_by_group D gid)) ?D2 = Inr D3"
    using D3 recomputed_rows[OF ps] unfolding members by simp
  have eq: "D3 = D'" using c by (simp add: commit_Inr)
  show ?thesis
  proof (rule store_recomputed[OF store_ok_ids(1,2)[OF assms(1)] gin D3'])
    fix u assume "logged D D3"
      "t_groups D3 = map (\<lambda>x. if g_id x = gid then ?g2\<lparr>g_updated_at := u\<rparr> else x) (t_groups D)"
      "t_rules D3 = map (\<lambda>x. if r_group_id x = Some gid then (member_update g data x)\<lparr>r_updated_at := d_now E\<rparr> else x) (t_rules D)"
      "t_algorithms D3 = t_algorithms D" "t_clients D3 = t_clients D" "t_secrets D3 = t_secrets D"
    then show ?thesis
      using that[OF g c(2), of u] c recompute_effective(2)[OF ps] by (simp add: eq members commit_Inr)
  qed
qed

lemma recomputed_group_ok:
  assumes ok0: "store_ok E D" and g: "get_group_by_id D gid = Some g" and c: "int4_columns D'" "integrity (d_pg_lower E) D'"
    and gs: "t_groups D' = map (\<lambda>x. if g_id x = gid then (updated_group g data)\<lparr>g_updated_at := u\<rparr> else x) (t_groups D)"
    and rs: "t_rules D' = map (\<lambda>x. if r_group_id x = Some gid then (member_update g data x)\<lparr>r_updated_at := t\<rparr> else x) (t_rules D)"
    and fr: "t_algorithms D' = t_algorithms D"
    and v: "\<forall>m \<in> set (list_by_group D gid). unknown_keys (g_params (updated_group g data)) (or_empty (r_overrides m)) = []
       \<and> algorithm_builds (d_coercions E) (t_algorithms D) (g_algorithm_id g)
            (compute_effective_params (g_params (updated_group g data)) (or_empty (r_overrides m)))"
  shows "store_ok E D'"
proof -
  have gin: "g \<in> set (t_groups D)" "g_id g = gid" using get_group_by_id_in[OF g] by auto
  have ok: "rules_ok (d_coercions E) D" using ok0 by (simp add: store_ok_def)
  have "groups_ok (t_groups D')"
    using ok gin(1) by (auto simp: rules_ok_def groups_ok_def gs list_all_iff)
  moreover have "rule_ok (d_coercions E) (t_algorithms D') r' \<and> membership_ok (t_groups D') r'" if "r' \<in> set (t_rules D')" for r'
  proof -
    obtain r where r: "r \<in> set (t_rules D)"
        "r' = (if r_group_id r = Some gid then (member_update g data r)\<lparr>r_updated_at := t\<rparr> else r)"
      using \<open>r' \<in> set (t_rules D')\<close> by (auto simp: rs)
    note old = rules_okD[OF ok r(1)]
    show ?thesis
    proof (cases "r_group_id r = Some gid")
      case True
      then obtain h where "get_group_by_id D gid = Some h" "mirrors h r" using group_of_member[OF ok0 r(1)] by blast
      then have m: "mirrors g r" using g by simp
      then obtain ov where ov: "r_overrides r = Some ov" by (auto simp: mirrors_def split: option.splits)
      have vr: "unknown_keys (g_params (updated_group g data)) (or_empty (r_overrides r)) = []"
          "algorithm_builds (d_coercions E) (t_algorithms D) (g_algorithm_id g) (compute_effective_params (g_params (updated_group g data)) (or_empty (r_overrides r)))"
        using v r(1) True by (simp_all add: list_by_group_def)
      have mm: "mirrors (updated_group g data) (member_update g data r)"
        using m vr ov
        by (auto simp: mirrors_def member_update_def updated_member_def or_empty_def split: option.splits)
      have "rule_ok (d_coercions E) (t_algorithms D') (member_update g data r)"
        using old(1) vr m
        by (simp add: rule_ok_def member_update_def updated_member_def fr mirrors_def)
      moreover have "membership_ok (t_groups D') (member_update g data r)"
      proof -
        have "(updated_group g data)\<lparr>g_updated_at := u\<rparr> \<in> set (t_groups D')" using gin by (auto simp: gs)
        moreover have "r_group_id (member_update g data r) = Some gid"
          using True by (simp add: member_update_def updated_member_def)
        ultimately show ?thesis using mm gin(2)
          by (auto simp: membership_ok_def list_ex_iff mirrors_group_touch intro!: bexI[of _ "(updated_group g data)\<lparr>g_updated_at := u\<rparr>"])
      qed
      ultimately show ?thesis using r(2) True by (simp add: rule_ok_touch membership_ok_touch)
    next
      case False
      have "membership_ok (t_groups D') r"
      proof (cases "r_group_id r")
        case (Some gid')
        with False have "gid' \<noteq> gid" by simp
        then show ?thesis using old(2) Some by (auto simp: membership_ok_def gs list_ex_iff)
      qed (use old(2) in \<open>simp add: membership_ok_def\<close>)
      then show ?thesis using old(1) r(2) False by (simp add: fr)
    qed
  qed
  ultimately show ?thesis using c by (simp add: store_ok_def rules_ok_def list_all_iff)
qed

lemma update_group_ok:
  assumes "store_ok E D"
  shows "store_ok E (snd (update_group E gid data D))"
proof (rule transaction_ok[where P = "store_ok E", OF update_group_def assms])
  fix g' D' assume "update_group E gid data D = (Inr g', D')"
  then show "store_ok E D'"
  proof (rule update_group_Inr[OF assms])
    fix g u
    assume "get_group_by_id D gid = Some g" "g' = updated_group g data"
      and rows: "int4_columns D'" "integrity (d_pg_lower E) D'"
        "t_groups D' = map (\<lambda>x. if g_id x = gid then (updated_group g data)\<lparr>g_updated_at := u\<rparr> else x) (t_groups D)"
        "t_rules D' = map (\<lambda>x. if r_group_id x = Some gid then (member_update g data x)\<lparr>r_updated_at := d_now E\<rparr> else x) (t_rules D)"
        "t_algorithms D' = t_algorithms D"
      and "\<forall>m \<in> set (list_by_group D gid). unknown_keys (g_params g') (or_empty (r_overrides m)) = []
         \<and> algorithm_builds (d_coercions E) (t_algorithms D) (g_algorithm_id g)
              (compute_effective_params (g_params g') (or_empty (r_overrides m)))"
    then show ?thesis using recomputed_group_ok[OF assms _ rows] by simp
  qed
qed

subsection \<open>Deleting, detaching and moving keep the store well-formed\<close>

lemma delete_rules_fold:
  "t_rules (fold (\<lambda>m. delete_rule_row now (r_id m)) ms D) = filter (\<lambda>x. r_id x \<notin> r_id ` set ms) (t_rules D)
   \<and> t_algorithms (fold (\<lambda>m. delete_rule_row now (r_id m)) ms D) = t_algorithms D
   \<and> t_groups (fold (\<lambda>m. delete_rule_row now (r_id m)) ms D) = t_groups D
   \<and> t_clients (fold (\<lambda>m. delete_rule_row now (r_id m)) ms D) = t_clients D
   \<and> t_secrets (fold (\<lambda>m. delete_rule_row now (r_id m)) ms D) = t_secrets D
   \<and> logged D (fold (\<lambda>m. delete_rule_row now (r_id m)) ms D)"
proof (induction ms arbitrary: D)
  case (Cons m ms)
  then show ?case using logged_trans[OF logged_delete] by (fastforce simp: delete_rule_rules intro: filter_cong)
qed (simp add: logged_refl)

lemma detached_row_fields: "r_id (detached_row m) = r_id m \<and> r_created_at (detached_row m) = r_created_at m
    \<and> r_updated_at (detached_row m) = r_updated_at m"
  by (simp add: detached_row_def)

lemma delete_group_Inr:
  assumes "store_ok E D" "delete_group E gid mode D = (Inr u, D')"
  shows "\<exists>g. get_group_by_id D gid = Some g" "int4_columns D'" "integrity (d_pg_lower E) D'" "logged D D'"
    "t_groups D' = filter (\<lambda>g. g_id g \<noteq> gid) (t_groups D)" "t_algorithms D' = t_algorithms D"
    "t_clients D' = t_clients D" "t_secrets D' = t_secrets D"
    "mode = DetachMembers \<Longrightarrow>
       t_rules D' = map (\<lambda>x. if r_group_id x = Some gid then (detached_row x)\<lparr>r_updated_at := d_now E\<rparr> else x) (t_rules D)"
    "mode = DeleteMembers \<Longrightarrow> t_rules D' = filter (\<lambda>x. r_group_id x \<noteq> Some gid) (t_rules D)"
proof -
  note * = assms(2)[unfolded delete_group_def transaction_Inr]
  obtain g where g: "get_group_by_id D gid = Some g"
    using * by (auto simp: bind_sum_Inr get_group_or_raise_def split: option.splits)
  then show "\<exists>g. get_group_by_id D gid = Some g" ..
  have d: "detached_row x \<noteq> x" if "r_group_id x = Some gid" for x
    using that by (cases x) (simp add: detached_row_def)
  obtain D1 where det: "store_rules (d_now E) (map (\<lambda>m. (m, detached_row m)) (list_by_group D gid)) D = Inr D1" "logged D D1"
     "t_rules D1 = map (\<lambda>x. if r_group_id x = Some gid then (detached_row x)\<lparr>r_updated_at := d_now E\<rparr> else x) (t_rules D)"
     "t_algorithms D1 = t_algorithms D" "t_clients D1 = t_clients D" "t_secrets D1 = t_secrets D" "t_groups D1 = t_groups D"
  proof (rule store_group_members[OF store_ok_ids(1)[OF assms(1)], where gid = gid and f = detached_row and now = "d_now E"])
    show "r_id (detached_row m) = r_id m \<and> r_created_at (detached_row m) = r_created_at m
        \<and> r_updated_at (detached_row m) = r_updated_at m \<and> detached_row m \<noteq> m" if "r_group_id m = Some gid" for m
      using d[OF that] detached_row_fields by simp
  qed
  let ?D2 = "fold (\<lambda>m. delete_rule_row (d_now E) (r_id m)) (list_by_group D gid) D"
  note del = delete_rules_fold[of "d_now E" "list_by_group D gid" D]
  have gone: "t_rules ?D2 = filter (\<lambda>x. r_group_id x \<noteq> Some gid) (t_rules D)"
  proof -
    have "r_id x \<in> r_id ` set (list_by_group D gid) \<longleftrightarrow> r_group_id x = Some gid" if "x \<in> set (t_rules D)" for x
      using that distinct_map_same[OF store_ok_ids(1)[OF assms(1)] that] by (auto simp: list_by_group_def)
    then have "filter (\<lambda>x. r_id x \<notin> r_id ` set (list_by_group D gid)) (t_rules D) = filter (\<lambda>x. r_group_id x \<noteq> Some gid) (t_rules D)"
      by (intro filter_cong) simp_all
    with del show ?thesis by simp
  qed
  define DM where "DM = (case mode of DetachMembers \<Rightarrow> D1 | DeleteMembers \<Rightarrow> ?D2)"
  have c: "commit (d_pg_lower E) (delete_group_row gid DM) = Inr D'"
  proof (cases mode)
    case DetachMembers
    then show ?thesis using * g det(1) by (simp add: get_group_or_raise_def Let_def DM_def commit_else_Inr)
  next
    case DeleteMembers
    then show ?thesis using * g by (simp add: get_group_or_raise_def Let_def DM_def commit_else_Inr)
  qed
  then have D': "D' = delete_group_row gid DM" "int4_columns D'" "integrity (d_pg_lower E) D'" by (auto simp: commit_Inr)
  then show "int4_columns D'" "integrity (d_pg_lower E) D'" by auto
  have "logged D DM" using det(2) del by (auto simp: DM_def split: members_mode.splits)
  moreover have "logged DM D'" by (rule logged_frame) (simp_all add: D'(1) delete_group_row_def)
  ultimately show "logged D D'" by (rule logged_trans)
  show "t_groups D' = filter (\<lambda>g. g_id g \<noteq> gid) (t_groups D)" "t_algorithms D' = t_algorithms D"
    "t_clients D' = t_clients D" "t_secrets D' = t_secrets D"
    using det del by (auto simp: D'(1) delete_group_row_def DM_def split: members_mode.splits)
  show "t_rules D' = map (\<lambda>x. if r_group_id x = Some gid then (detached_row x)\<lparr>r_updated_at := d_now E\<rparr> else x) (t_rules D)"
    if "mode = DetachMembers" using that det(3) by (simp add: D'(1) delete_group_row_def DM_def)
  show "t_rules D' = filter (\<lambda>x. r_group_id x \<noteq> Some gid) (t_rules D)" if "mode = DeleteMembers"
    using that gone by (simp add: D'(1) delete_group_row_def DM_def)
qed

lemma delete_group_ok:
  assumes "store_ok E D"
  shows "store_ok E (snd (delete_group E gid mode D))"
proof (rule transaction_ok[where P = "store_ok E", OF delete_group_def assms])
  fix u D' assume "delete_group E gid mode D = (Inr u, D')"
  note d = delete_group_Inr[OF assms this]
  have ok: "rules_ok (d_coercions E) D" using assms by (simp add: store_ok_def)
  have rows: "\<exists>r \<in> set (t_rules D). (r_group_id r \<noteq> Some gid \<and> r' = r)
      \<or> (r_group_id r = Some gid \<and> r' = (detached_row r)\<lparr>r_updated_at := d_now E\<rparr>)" if "r' \<in> set (t_rules D')" for r'
    using that d(9,10) by (cases mode) (auto split: if_splits)
  have "rule_ok (d_coercions E) (t_algorithms D') r' \<and> membership_ok (t_groups D') r'" if r': "r' \<in> set (t_rules D')" for r'
  proof -
    obtain r where r: "r \<in> set (t_rules D)" "(r_group_id r \<noteq> Some gid \<and> r' = r)
      \<or> (r_group_id r = Some gid \<and> r' = (detached_row r)\<lparr>r_updated_at := d_now E\<rparr>)" using rows[OF r'] by blast
    note old = rules_okD[OF ok r(1)]
    show ?thesis
    proof (cases "r_group_id r = Some gid")
      case True
      then show ?thesis using r(2) old by (simp add: rule_ok_def membership_ok_def detached_row_def d(6))
    next
      case False
      then show ?thesis using r(2) old by (auto simp: membership_ok_def list_ex_iff d(5,6) split: option.splits)
    qed
  qed
  moreover have "groups_ok (t_groups D')" using ok by (auto simp: rules_ok_def groups_ok_def d(5) list_all_iff)
  ultimately show "store_ok E D'" using d(2,3) by (simp add: store_ok_def rules_ok_def list_all_iff)
qed

lemma store_one_ok:
  assumes "store_ok E D" "get_rule_by_id D rid = Some r" "store_rule (d_now E) r new D = Inr D1" "commit (d_pg_lower E) D1 = Inr D'"
    "r_id new = r_id r" "r_created_at new = r_created_at r" "r_updated_at new = r_updated_at r" "r_version new \<noteq> r_version r"
    "rule_ok (d_coercions E) (t_algorithms D) new" "membership_ok (t_groups D) new"
  shows "store_ok E D'" "D' = replace_rule (d_now E) (new\<lparr>r_updated_at := d_now E\<rparr>) D"
proof -
  have "r \<noteq> new" using assms(8) by auto
  moreover have "get_rule_by_id D (r_id r) = Some r" using assms(2) get_rule_by_id_in[OF assms(2)] by simp
  ultimately have "D1 = replace_rule (d_now E) (new\<lparr>r_updated_at := d_now E\<rparr>) D"
    using store_rule_loaded[of D r new "d_now E"] assms(3,5-7) by simp
  then show "D' = replace_rule (d_now E) (new\<lparr>r_updated_at := d_now E\<rparr>) D" using assms(4) by (simp add: commit_Inr)
  with assms(4) \<open>D1 = _\<close> show "store_ok E D'"
    using assms(1,9,10) by (intro store_ok_commit[of E D1 D']) (auto simp: store_ok_def rule_ok_touch membership_ok_touch intro!: rules_ok_replace)
qed

lemma detach_rule_Inr:
  assumes "detach_rule E rid data D = (Inr new, D')"
  obtains r a D1 where "get_rule_by_id D rid = Some r" "r_group_id r \<noteq> None" "get_algorithm_by_name D (dr_algorithm data) = Some a"
    "builds (d_coercions E) (a_name a) (dr_params data)"
    "new = r\<lparr>r_group_id := None, r_overrides := None, r_algorithm_id := a_id a, r_params := dr_params data,
              r_version := r_version r + 1\<rparr>"
    "store_rule (d_now E) r new D = Inr D1" "commit (d_pg_lower E) D1 = Inr D'"
proof -
  note * = assms[unfolded detach_rule_def transaction_Inr]
  obtain r where r: "get_rule_by_id D rid = Some r" using * by (auto simp: bind_sum_Inr get_rule_Inr)
  have g: "r_group_id r \<noteq> None" using * r by (auto simp: get_rule_or_raise_def split: if_splits)
  obtain a where a: "get_algorithm_by_name D (dr_algorithm data) = Some a"
    using * r g by (auto simp: get_rule_or_raise_def split: option.splits)
  have b: "builds (d_coercions E) (a_name a) (dr_params data)"
    using * r g a by (auto simp: get_rule_or_raise_def bind_sum_Inr map_sum_Inr check_params_Inr)
  show ?thesis using that[OF r g a b] * r g a
    by (auto simp: get_rule_or_raise_def bind_sum_Inr Let_def commit_else_Inr split: sum.splits)
qed

lemma detach_rule_ok:
  assumes "store_ok E D"
  shows "store_ok E (snd (detach_rule E rid data D))"
proof (rule transaction_ok[where P = "store_ok E", OF detach_rule_def assms])
  fix new D' assume "detach_rule E rid data D = (Inr new, D')"
  then obtain r a D1 where r: "get_rule_by_id D rid = Some r" "r_group_id r \<noteq> None"
    and a: "get_algorithm_by_name D (dr_algorithm data) = Some a" and b: "builds (d_coercions E) (a_name a) (dr_params data)"
    and new: "new = r\<lparr>r_group_id := None, r_overrides := None, r_algorithm_id := a_id a, r_params := dr_params data,
              r_version := r_version r + 1\<rparr>"
    and s: "store_rule (d_now E) r new D = Inr D1" "commit (d_pg_lower E) D1 = Inr D'"
    by (rule detach_rule_Inr)
  have "r \<in> set (t_rules D)" using get_rule_by_id_in[OF r(1)] by simp
  then have old: "rule_ok (d_coercions E) (t_algorithms D) r" using assms rules_okD by (auto simp: store_ok_def)
  have "a \<in> set (t_algorithms D)" using a by (auto simp: get_algorithm_by_name_def dest: find_SomeD)
  then have "rule_ok (d_coercions E) (t_algorithms D) new"
    using old b by (auto simp: rule_ok_def new intro: algorithm_buildsI)
  then show "store_ok E D'"
    by (intro store_one_ok(1)[OF assms r(1) s]) (simp_all add: new membership_ok_def)
qed

lemma move_to_group_Inr:
  assumes "move_to_group E rid data D = (Inr new, D')"
  obtains r g merged D1 where "get_rule_by_id D rid = Some r" "get_group_by_id D (mg_group_id data) = Some g"
    "r_client_id r = g_client_id g" "validated_overrides E D g (g_params g) (or_empty (mg_overrides data)) = Inr merged"
    "new = moved_rule g (or_empty (mg_overrides data)) merged (mg_updated_by data) r"
    "store_rule (d_now E) r new D = Inr D1" "commit (d_pg_lower E) D1 = Inr D'"
proof -
  note * = assms[unfolded move_to_group_def transaction_Inr]
  obtain r where r: "get_rule_by_id D rid = Some r" using * by (auto simp: bind_sum_Inr get_rule_Inr)
  obtain g where g: "get_group_by_id D (mg_group_id data) = Some g"
    using * r by (auto simp: get_rule_or_raise_def bind_sum_Inr get_group_or_raise_def split: option.splits)
  have c: "r_client_id r = g_client_id g"
    using * r g by (auto simp: get_rule_or_raise_def get_group_or_raise_def split: if_splits)
  obtain merged where m: "validated_overrides E D g (g_params g) (or_empty (mg_overrides data)) = Inr merged"
    using * r g c by (auto simp: get_rule_or_raise_def get_group_or_raise_def bind_sum_Inr Let_def)
  have "commit_rule E r (moved_rule g (or_empty (mg_overrides data)) merged (mg_updated_by data) r) D = Inr (new, D')"
    using * r g c m by (auto simp: get_rule_or_raise_def get_group_or_raise_def Let_def split: if_splits)
  then show ?thesis using that[OF r g c m] by (auto simp: commit_rule_def commit_else_Inr split: sum.splits)
qed

lemma move_to_group_ok:
  assumes "store_ok E D"
  shows "store_ok E (snd (move_to_group E rid data D))"
proof (rule transaction_ok[where P = "store_ok E", OF move_to_group_def assms])
  fix new D' assume "move_to_group E rid data D = (Inr new, D')"
  then obtain r g merged D1 where r: "get_rule_by_id D rid = Some r" and g: "get_group_by_id D (mg_group_id data) = Some g"
    and c: "r_client_id r = g_client_id g" and m: "validated_overrides E D g (g_params g) (or_empty (mg_overrides data)) = Inr merged"
    and new: "new = moved_rule g (or_empty (mg_overrides data)) merged (mg_updated_by data) r"
    and s: "store_rule (d_now E) r new D = Inr D1" "commit (d_pg_lower E) D1 = Inr D'"
    by (rule move_to_group_Inr)
  have ok: "rules_ok (d_coercions E) D" using assms by (simp add: store_ok_def)
  have gin: "g \<in> set (t_groups D)" using get_group_by_id_in[OF g] by simp
  then have can: "canonical_types (g_identifier_types g) (g_identifier_signature g)"
    using ok by (auto simp: rules_ok_def groups_ok_def list_all_iff)
  have "r \<in> set (t_rules D)" using get_rule_by_id_in[OF r] by simp
  then have old: "rule_ok (d_coercions E) (t_algorithms D) r" using rules_okD[OF ok] by simp
  note v = validated_overrides_Inr[OF m]
  have "rule_ok (d_coercions E) (t_algorithms D) new" using old can v by (simp add: rule_ok_def new moved_rule_def)
  moreover have "mirrors g new" using c v by (simp add: new moved_rule_def mirrors_def)
  then have "membership_ok (t_groups D) new" using gin
    by (auto simp: membership_ok_def list_ex_iff new moved_rule_def)
  ultimately show "store_ok E D'" by (intro store_one_ok(1)[OF assms r s]) (simp_all add: new moved_rule_def)
qed

end
