(* ===== verification/Client_Service.thy ===== *)
theory Client_Service
  imports Rule_Store
begin

text \<open>
  \<^verbatim>\<open>services/client_service.py\<close> on the requests of \<^verbatim>\<open>dto/client_dto.py\<close>, with \<^verbatim>\<open>core/security/secrets.py\<close>:
  registered clients and the issue, rotation and revocation of their secrets.  Creating a client
  commits twice, first the client and then its secret, so it is written with both states.
\<close>

subsection \<open>Secrets\<close>

definition hash_secret :: "db_env \<Rightarrow> ustring \<Rightarrow> string" where
  "hash_secret E secret = d_sha256 E secret"

definition secret_hint :: "string \<Rightarrow> string" where
  "secret_hint secret = drop (length secret - 4) secret"

definition verify_secret :: "db_env \<Rightarrow> ustring \<Rightarrow> string \<Rightarrow> bool" where
  "verify_secret E secret secret_hash \<longleftrightarrow> hash_secret E secret = secret_hash"

subsection \<open>Requests\<close>

record client_create =
  nc_client_id :: string
  nc_name :: string
  nc_description :: "string option"
  nc_scopes :: "string list"

definition client_create_ok :: "client_create \<Rightarrow> bool" where
  "client_create_ok data \<longleftrightarrow> ck_clients_client_id_format (nc_client_id data)"

record client_update =
  uc_name :: "string option"
  uc_description :: "string option"
  uc_scopes :: "string list option"
  uc_status :: "client_status option"

subsection \<open>The service\<close>

definition max_active_secrets_per_client :: nat where
  "max_active_secrets_per_client = 2"

definition new_secret :: "db_env \<Rightarrow> nat \<Rightarrow> string \<Rightarrow> client_secret" where
  "new_secret E i pk = \<lparr>s_id = d_ids E i, s_client_pk = pk, s_secret_hash = hash_secret E (codes (d_secret E)),
     s_secret_hint = secret_hint (d_secret E), s_created_at = d_now E, s_expires_at = None, s_revoked_at = None\<rparr>"

definition new_client :: "db_env \<Rightarrow> client_create \<Rightarrow> client" where
  "new_client E data = \<lparr>c_id = d_ids E 0, c_client_id = nc_client_id data, c_name = nc_name data,
     c_description = nc_description data, c_status = client_status_value CLIENT_ACTIVE, c_scopes = nc_scopes data,
     c_created_at = d_now E, c_updated_at = d_now E\<rparr>"

definition create_client :: "db_env \<Rightarrow> client_create \<Rightarrow> db \<Rightarrow> (app_exception + client \<times> string) \<times> db" where
  "create_client E data D =
     (if get_client_by_client_id D (nc_client_id data) \<noteq> None then (Inl (ClientIdConflictError (nc_client_id data)), D)
      else let c = new_client E data in
      case commit_else (d_pg_lower E) (ClientIdConflictError (nc_client_id data)) () (insert_client c D) of
        Inl e \<Rightarrow> (Inl e, D)
      | Inr (_, D1) \<Rightarrow> transaction D1 (commit_else (d_pg_lower E) IntegrityErrorExc (c, d_secret E)
            (insert_secret (new_secret E 1 (c_id c)) D1)))"

definition get_client_or_raise :: "db \<Rightarrow> string \<Rightarrow> app_exception + client" where
  "get_client_or_raise D cid = (case get_client_by_client_id D cid of
     None \<Rightarrow> Inl (ClientNotFoundError cid) | Some c \<Rightarrow> Inr c)"

definition updated_client :: "client \<Rightarrow> client_update \<Rightarrow> client" where
  "updated_client c data = c\<lparr>
     c_name := (case uc_name data of None \<Rightarrow> c_name c | Some n \<Rightarrow> n),
     c_description := (case uc_description data of None \<Rightarrow> c_description c | Some x \<Rightarrow> Some x),
     c_scopes := (case uc_scopes data of None \<Rightarrow> c_scopes c | Some ss \<Rightarrow> ss),
     c_status := (case uc_status data of None \<Rightarrow> c_status c | Some s \<Rightarrow> client_status_value s)\<rparr>"

definition update_client :: "db_env \<Rightarrow> string \<Rightarrow> client_update \<Rightarrow> db \<Rightarrow> (app_exception + client) \<times> db" where
  "update_client E cid data D = transaction D (
     bind_sum (get_client_or_raise D cid) (\<lambda>c.
     let c' = updated_client c data in
     bind_sum (commit_else (d_pg_lower E) IntegrityErrorExc () (store_client (d_now E) c c' D)) (\<lambda>(_, D').
     Inr (if c = c' then c else c'\<lparr>c_updated_at := d_now E\<rparr>, D'))))"

definition add_secret :: "db_env \<Rightarrow> string \<Rightarrow> db \<Rightarrow> (app_exception + client_secret \<times> string) \<times> db" where
  "add_secret E cid D = transaction D (
     bind_sum (get_client_or_raise D cid) (\<lambda>c.
     if max_active_secrets_per_client \<le> count_active_secrets D (d_now E) (c_id c) then Inl (TooManyActiveSecretsError cid)
     else let s = new_secret E 0 (c_id c) in
       commit_else (d_pg_lower E) IntegrityErrorExc (s, d_secret E) (insert_secret s D)))"

definition list_secrets :: "string \<Rightarrow> db \<Rightarrow> app_exception + client_secret list" where
  "list_secrets cid D = bind_sum (get_client_or_raise D cid) (\<lambda>c. Inr (list_secrets_of D (c_id c)))"

definition revoke_secret :: "db_env \<Rightarrow> string \<Rightarrow> string \<Rightarrow> db \<Rightarrow> (app_exception + unit) \<times> db" where
  "revoke_secret E cid sid D = transaction D (
     bind_sum (get_client_or_raise D cid) (\<lambda>c.
     case get_secret_by_id D sid of
       None \<Rightarrow> Inl (ClientSecretNotFoundError sid)
     | Some s \<Rightarrow>
         if s_client_pk s \<noteq> c_id c then Inl (ClientSecretNotFoundError sid)
         else if s_revoked_at s \<noteq> None then Inr ((), D)
         else if (case s_expires_at s of None \<Rightarrow> True | Some t \<Rightarrow> d_now E < t) \<and> c_status c = ''active''
              \<and> count_active_secrets D (d_now E) (c_id c) \<le> 1
         then Inl (LastActiveSecretError cid)
         else commit_else (d_pg_lower E) IntegrityErrorExc () (store_secret (s\<lparr>s_revoked_at := Some (d_now E)\<rparr>) D)))"

subsection \<open>Rows\<close>

lemma client_rows_frame [simp]:
  "t_rules (insert_client c D) = t_rules D" "t_groups (insert_client c D) = t_groups D"
  "t_algorithms (insert_client c D) = t_algorithms D" "t_history (insert_client c D) = t_history D"
  "t_rules (insert_secret s D) = t_rules D" "t_groups (insert_secret s D) = t_groups D"
  "t_algorithms (insert_secret s D) = t_algorithms D" "t_history (insert_secret s D) = t_history D"
  "t_rules (store_secret s D) = t_rules D" "t_groups (store_secret s D) = t_groups D"
  "t_algorithms (store_secret s D) = t_algorithms D" "t_history (store_secret s D) = t_history D"
  "t_rules (store_client n c c' D) = t_rules D" "t_groups (store_client n c c' D) = t_groups D"
  "t_algorithms (store_client n c c' D) = t_algorithms D" "t_history (store_client n c c' D) = t_history D"
  "t_secrets (store_client n c c' D) = t_secrets D" "t_secrets (insert_client c D) = t_secrets D"
  by (simp_all add: insert_client_def insert_secret_def store_secret_def store_client_def)

lemma rules_ok_frame:
  "rules_ok c D \<Longrightarrow> t_rules D' = t_rules D \<Longrightarrow> t_groups D' = t_groups D \<Longrightarrow> t_algorithms D' = t_algorithms D \<Longrightarrow> rules_ok c D'"
  by (simp add: rules_ok_def)

lemma commit_frame_ok:
  assumes "store_ok E D" "commit (d_pg_lower E) D1 = Inr D'"
    "t_rules D1 = t_rules D" "t_groups D1 = t_groups D" "t_algorithms D1 = t_algorithms D"
  shows "store_ok E D'"
  using assms rules_ok_frame by (intro store_ok_commit[OF assms(2)]) (auto simp: store_ok_def)

lemma create_client_cases:
  obtains (existing) "get_client_by_client_id D (nc_client_id data) \<noteq> None"
      "create_client E data D = (Inl (ClientIdConflictError (nc_client_id data)), D)"
  | (rejected) e where "get_client_by_client_id D (nc_client_id data) = None" "create_client E data D = (Inl e, D)"
      "commit_else (d_pg_lower E) (ClientIdConflictError (nc_client_id data)) () (insert_client (new_client E data) D) = Inl e"
  | (half) e D1 where "commit (d_pg_lower E) (insert_client (new_client E data) D) = Inr D1"
      "create_client E data D = (Inl e, D1)"
  | (created) D1 D2 where "commit (d_pg_lower E) (insert_client (new_client E data) D) = Inr D1"
      "commit (d_pg_lower E) (insert_secret (new_secret E 1 (d_ids E 0)) D1) = Inr D2"
      "create_client E data D = (Inr (new_client E data, d_secret E), D2)"
proof (cases "get_client_by_client_id D (nc_client_id data)")
  case None
  let ?ins = "insert_client (new_client E data) D"
  show ?thesis
  proof (cases "commit (d_pg_lower E) ?ins")
    case (Inl e)
    then show ?thesis using None rejected by (auto simp: create_client_def Let_def commit_else_def)
  next
    case (Inr D1)
    have id: "c_id (new_client E data) = d_ids E 0" by (simp add: new_client_def)
    show ?thesis
    proof (cases "commit (d_pg_lower E) (insert_secret (new_secret E 1 (d_ids E 0)) D1)")
      case (Inl e)
      then show ?thesis using None Inr half id by (auto simp: create_client_def Let_def commit_else_def transaction_def)
    next
      case (Inr D2)
      with \<open>commit _ ?ins = Inr D1\<close> show ?thesis using None created id
        by (auto simp: create_client_def Let_def commit_else_def transaction_def)
    qed
  qed
qed (auto intro: existing simp: create_client_def)

lemma create_client_ok:
  assumes "store_ok E D"
  shows "store_ok E (snd (create_client E data D))"
proof -
  have 1: "store_ok E D1" if "commit (d_pg_lower E) (insert_client (new_client E data) D) = Inr D1" for D1
    using assms that by (rule commit_frame_ok) simp_all
  show ?thesis
  proof (cases rule: create_client_cases[of D data E])
    case (created D1 D2)
    have "store_ok E D2" using 1[OF created(1)] created(2) by (rule commit_frame_ok) simp_all
    then show ?thesis using created(3) by simp
  qed (use assms 1 in auto)
qed

lemma get_client_Inr: "get_client_or_raise D cid = Inr c \<longleftrightarrow> get_client_by_client_id D cid = Some c"
  by (simp add: get_client_or_raise_def split: option.splits)

lemma update_client_Inr:
  assumes "update_client E cid data D = (Inr c', D')"
  obtains c where "get_client_by_client_id D cid = Some c"
    "commit (d_pg_lower E) (store_client (d_now E) c (updated_client c data) D) = Inr D'"
  using assms unfolding update_client_def transaction_Inr
  by (auto simp: bind_sum_Inr get_client_Inr Let_def commit_else_Inr)

lemma update_client_ok:
  assumes "store_ok E D"
  shows "store_ok E (snd (update_client E cid data D))"
proof (rule transaction_ok[where P = "store_ok E", OF update_client_def assms])
  fix c' D' assume "update_client E cid data D = (Inr c', D')"
  then obtain c where "commit (d_pg_lower E) (store_client (d_now E) c (updated_client c data) D) = Inr D'"
    by (rule update_client_Inr)
  with assms show "store_ok E D'" by (rule commit_frame_ok) simp_all
qed

lemma add_secret_Inr:
  assumes "add_secret E cid D = (Inr x, D')"
  obtains c where "get_client_by_client_id D cid = Some c" "x = (new_secret E 0 (c_id c), d_secret E)"
    "count_active_secrets D (d_now E) (c_id c) < max_active_secrets_per_client"
    "commit (d_pg_lower E) (insert_secret (new_secret E 0 (c_id c)) D) = Inr D'"
  using assms unfolding add_secret_def transaction_Inr
  by (auto simp: bind_sum_Inr get_client_Inr Let_def commit_else_Inr split: if_splits)

lemma add_secret_ok:
  assumes "store_ok E D"
  shows "store_ok E (snd (add_secret E cid D))"
proof (rule transaction_ok[where P = "store_ok E", OF add_secret_def assms])
  fix x D' assume "add_secret E cid D = (Inr x, D')"
  then obtain c where "get_client_by_client_id D cid = Some c" "x = (new_secret E 0 (c_id c), d_secret E)"
    "count_active_secrets D (d_now E) (c_id c) < max_active_secrets_per_client"
    and k: "commit (d_pg_lower E) (insert_secret (new_secret E 0 (c_id c)) D) = Inr D'" by (rule add_secret_Inr)
  from assms k show "store_ok E D'" by (rule commit_frame_ok) simp_all
qed

text \<open>What a revocation that returns has done.\<close>

definition revoke_outcome :: "db_env \<Rightarrow> client \<Rightarrow> client_secret \<Rightarrow> db \<Rightarrow> db \<Rightarrow> bool" where
  "revoke_outcome E c s D D' \<longleftrightarrow> (s_revoked_at s \<noteq> None \<and> D' = D) \<or> (s_revoked_at s = None
       \<and> \<not> (secret_active (d_now E) s \<and> c_status c = ''active'' \<and> count_active_secrets D (d_now E) (c_id c) \<le> 1)
       \<and> commit (d_pg_lower E) (store_secret (s\<lparr>s_revoked_at := Some (d_now E)\<rparr>) D) = Inr D')"

lemma revoke_secret_Inr:
  assumes "revoke_secret E cid sid D = (Inr x, D')"
  obtains c s where "get_client_by_client_id D cid = Some c" "get_secret_by_id D sid = Some s" "s_client_pk s = c_id c"
    "revoke_outcome E c s D D'"
proof -
  note * = assms[unfolded revoke_secret_def transaction_Inr]
  obtain c where c: "get_client_by_client_id D cid = Some c" using * by (auto simp: bind_sum_Inr get_client_Inr)
  obtain s where s: "get_secret_by_id D sid = Some s" using * c by (auto simp: get_client_or_raise_def split: option.splits)
  have pk: "s_client_pk s = c_id c" using * c s by (auto simp: get_client_or_raise_def split: if_splits)
  show ?thesis
  proof (rule that[OF c s pk])
    show "revoke_outcome E c s D D'"
      using * c s pk
      by (cases "s_revoked_at s") (auto simp: revoke_outcome_def get_client_or_raise_def secret_active_def commit_else_Inr split: if_splits)
  qed
qed

lemma revoke_secret_ok:
  assumes "store_ok E D"
  shows "store_ok E (snd (revoke_secret E cid sid D))"
proof (rule transaction_ok[where P = "store_ok E", OF revoke_secret_def assms])
  fix x D' assume "revoke_secret E cid sid D = (Inr x, D')"
  then obtain c s where "get_client_by_client_id D cid = Some c" "get_secret_by_id D sid = Some s" "s_client_pk s = c_id c"
    and o: "revoke_outcome E c s D D'" by (rule revoke_secret_Inr)
  show "store_ok E D'"
  proof (cases "s_revoked_at s")
    case None
    then have "commit (d_pg_lower E) (store_secret (s\<lparr>s_revoked_at := Some (d_now E)\<rparr>) D) = Inr D'"
      using o by (simp add: revoke_outcome_def)
    with assms show ?thesis by (rule commit_frame_ok) simp_all
  qed (use o assms in \<open>simp add: revoke_outcome_def\<close>)
qed

subsection \<open>At most two active secrets\<close>

definition secrets_bounded :: "db \<Rightarrow> int \<Rightarrow> bool" where
  "secrets_bounded D now \<longleftrightarrow>
     list_all (\<lambda>s. count_active_secrets D now (s_client_pk s) \<le> max_active_secrets_per_client) (t_secrets D)"

lemma secrets_bounded_iff:
  "secrets_bounded D now \<longleftrightarrow> (\<forall>pk. count_active_secrets D now pk \<le> max_active_secrets_per_client)"
proof
  assume b: "secrets_bounded D now"
  show "\<forall>pk. count_active_secrets D now pk \<le> max_active_secrets_per_client"
  proof
    fix pk
    show "count_active_secrets D now pk \<le> max_active_secrets_per_client"
    proof (cases "\<exists>s \<in> set (t_secrets D). s_client_pk s = pk")
      case True
      then show ?thesis using b by (auto simp: secrets_bounded_def list_all_iff)
    next
      case False
      then have "filter (\<lambda>s. s_client_pk s = pk \<and> secret_active now s) (t_secrets D) = []" by (auto simp: filter_empty_conv)
      then show ?thesis by (simp add: count_active_secrets_def)
    qed
  qed
qed (simp add: secrets_bounded_def list_all_iff)

lemma secret_active_mono: "secret_active t s \<Longrightarrow> t' \<le> t \<Longrightarrow> secret_active t' s"
  by (auto simp: secret_active_def split: option.splits)

lemma length_filter_mono: "(\<And>x. x \<in> set xs \<Longrightarrow> P x \<Longrightarrow> Q x) \<Longrightarrow> length (filter P xs) \<le> length (filter Q xs)"
  by (induction xs) auto

lemma count_active_mono: "t' \<le> t \<Longrightarrow> count_active_secrets D t pk \<le> count_active_secrets D t' pk"
  unfolding count_active_secrets_def by (rule length_filter_mono) (auto intro: secret_active_mono)

lemma secrets_bounded_later: "secrets_bounded D t \<Longrightarrow> t \<le> t' \<Longrightarrow> secrets_bounded D t'"
  using count_active_mono[of t t' D] unfolding secrets_bounded_iff by (meson order_trans)

lemma count_insert_secret: "count_active_secrets (insert_secret s D) now pk =
    count_active_secrets D now pk + (if s_client_pk s = pk \<and> secret_active now s then 1 else 0)"
  by (simp add: count_active_secrets_def insert_secret_def)

lemma length_filter_replace:
  assumes "distinct (map s_id xs)" "s \<in> set xs" "\<not> P s'" 
  shows "length (filter P (map (\<lambda>x. if s_id x = s_id s then s' else x) xs)) = length (filter P xs) - (if P s then 1 else 0)"
  using assms
proof (induction xs)
  case (Cons x xs)
  show ?case
  proof (cases "s_id x = s_id s")
    case True
    then have x: "x = s" using distinct_map_same[OF Cons.prems(1), of x s] Cons.prems(2) by simp
    have "s_id y \<noteq> s_id s" if "y \<in> set xs" for y
    proof
      assume "s_id y = s_id s"
      then have "s_id x = s_id y" using True by simp
      then have "s_id x \<in> s_id ` set xs" using that by simp
      with Cons.prems(1) show False by simp
    qed
    then have rest: "map (\<lambda>y. if s_id y = s_id s then s' else y) xs = xs" by (intro map_idI) simp
    show ?thesis unfolding list.map x rest using Cons.prems(3) by simp
  next
    case False
    then have "s \<in> set xs" using Cons.prems(2) by auto
    have "distinct (map s_id xs)" using Cons.prems(1) by simp
    note IH = Cons.IH[OF this \<open>s \<in> set xs\<close> Cons.prems(3)]
    have pos: "0 < length (filter P xs)" if "P s" using that \<open>s \<in> set xs\<close> by (auto simp: filter_empty_conv)
    have head: "map (\<lambda>x. if s_id x = s_id s then s' else x) (x # xs) = x # map (\<lambda>x. if s_id x = s_id s then s' else x) xs"
      using False by simp
    show ?thesis unfolding head filter.simps using IH pos by (auto simp: Suc_diff_le)
  qed
qed simp

lemma count_revoke:
  assumes "store_ok E D" "get_secret_by_id D sid = Some s"
  shows "count_active_secrets (store_secret (s\<lparr>s_revoked_at := Some t\<rparr>) D) now pk
    = count_active_secrets D now pk - (if s_client_pk s = pk \<and> secret_active now s then 1 else 0)"
proof -
  have s: "s \<in> set (t_secrets D)" using assms(2) by (auto simp: get_secret_by_id_def dest: find_SomeD)
  have d: "distinct (map s_id (t_secrets D))"
    using assms(1) by (simp add: store_ok_def integrity_def clients_integrity_def)
  have "\<not> (s_client_pk (s\<lparr>s_revoked_at := Some t\<rparr>) = pk \<and> secret_active now (s\<lparr>s_revoked_at := Some t\<rparr>))"
    by (simp add: secret_active_def)
  from length_filter_replace[OF d s, of "\<lambda>x. s_client_pk x = pk \<and> secret_active now x", OF this] show ?thesis
    by (simp add: count_active_secrets_def store_secret_def)
qed

lemma count_secrets_frame: "t_secrets D' = t_secrets D \<Longrightarrow> count_active_secrets D' = count_active_secrets D"
  by (intro ext) (simp add: count_active_secrets_def)

lemma add_secret_bounded:
  assumes "secrets_bounded D (d_now E)"
  shows "secrets_bounded (snd (add_secret E cid D)) (d_now E)"
proof (rule transaction_ok[where P = "\<lambda>D. secrets_bounded D (d_now E)", OF add_secret_def assms])
  fix x D' assume "add_secret E cid D = (Inr x, D')"
  then obtain c where "get_client_by_client_id D cid = Some c" "x = (new_secret E 0 (c_id c), d_secret E)"
    and n: "count_active_secrets D (d_now E) (c_id c) < max_active_secrets_per_client"
    and k: "commit (d_pg_lower E) (insert_secret (new_secret E 0 (c_id c)) D) = Inr D'" by (rule add_secret_Inr)
  from k have "D' = insert_secret (new_secret E 0 (c_id c)) D" by (simp add: commit_Inr)
  then show "secrets_bounded D' (d_now E)"
    using assms n by (simp add: secrets_bounded_iff count_insert_secret new_secret_def Suc_le_eq)
qed

lemma revoke_secret_bounded:
  assumes "store_ok E D" "secrets_bounded D (d_now E)"
  shows "secrets_bounded (snd (revoke_secret E cid sid D)) (d_now E)"
proof (rule transaction_ok[where P = "\<lambda>D. secrets_bounded D (d_now E)", OF revoke_secret_def assms(2)])
  fix x D' assume "revoke_secret E cid sid D = (Inr x, D')"
  then obtain c s where "get_client_by_client_id D cid = Some c" and s: "get_secret_by_id D sid = Some s"
    and "s_client_pk s = c_id c" and o: "revoke_outcome E c s D D'" by (rule revoke_secret_Inr)
  have "count_active_secrets D' (d_now E) pk \<le> count_active_secrets D (d_now E) pk" for pk
  proof (cases "s_revoked_at s")
    case None
    then have "D' = store_secret (s\<lparr>s_revoked_at := Some (d_now E)\<rparr>) D" using o by (simp add: revoke_outcome_def commit_Inr)
    then show ?thesis by (simp add: count_revoke[OF assms(1) s])
  qed (use o in \<open>simp add: revoke_outcome_def\<close>)
  then show "secrets_bounded D' (d_now E)" using assms(2) order_trans unfolding secrets_bounded_iff by blast
qed

lemma create_client_bounded:
  assumes "store_ok E D" "secrets_bounded D now"
  shows "secrets_bounded (snd (create_client E data D)) now"
proof (cases rule: create_client_cases[of D data E])
  case (half e D1)
  then show ?thesis using assms(2) count_secrets_frame[of D1 D] by (simp add: secrets_bounded_iff commit_Inr)
next
  case (created D1 D2)
  let ?pk = "d_ids E 0"
  have D1: "D1 = insert_client (new_client E data) D" "clients_integrity D1"
    using created(1) by (auto simp: commit_Inr integrity_def)
  have "?pk \<notin> set (map c_id (t_clients D))"
    using D1(2) by (auto simp: D1(1) clients_integrity_def insert_client_def new_client_def)
  then have "s_client_pk s \<noteq> ?pk" if "s \<in> set (t_secrets D)" for s
  proof -
    have "s_client_pk s \<in> set (map c_id (t_clients D))"
      using assms(1) that by (auto simp: store_ok_def integrity_def clients_integrity_def list_all_iff)
    with \<open>?pk \<notin> _\<close> show ?thesis by metis
  qed
  then have "filter (\<lambda>s. s_client_pk s = ?pk \<and> secret_active now s) (t_secrets D) = []"
    by (auto simp: filter_empty_conv)
  then have "count_active_secrets D now ?pk = 0" by (simp add: count_active_secrets_def)
  moreover have "D2 = insert_secret (new_secret E 1 ?pk) D1" using created(2) by (simp add: commit_Inr)
  moreover have "count_active_secrets D1 = count_active_secrets D" by (rule count_secrets_frame) (simp add: D1(1))
  ultimately show ?thesis using created(3) assms(2)
    by (auto simp: secrets_bounded_iff count_insert_secret new_secret_def max_active_secrets_per_client_def)
qed (use assms(2) in auto)

text \<open>
  C17.  Revoking a secret never locks an active client out: if it has an active secret before the
  request, it still has one afterwards, whatever the outcome of the request.
\<close>

theorem revoke_secret_keeps_one:
  assumes "store_ok E D" "get_client_by_client_id D cid = Some c" "c_status c = ''active''"
    and "1 \<le> count_active_secrets D (d_now E) (c_id c)"
  shows "1 \<le> count_active_secrets (snd (revoke_secret E cid sid D)) (d_now E) (c_id c)"
proof (rule transaction_ok[where P = "\<lambda>D. 1 \<le> count_active_secrets D (d_now E) (c_id c)", OF revoke_secret_def assms(4)])
  fix x D' assume "revoke_secret E cid sid D = (Inr x, D')"
  then obtain c' s where c': "get_client_by_client_id D cid = Some c'" and s: "get_secret_by_id D sid = Some s"
    and "s_client_pk s = c_id c'" and o: "revoke_outcome E c' s D D'" by (rule revoke_secret_Inr)
  show "1 \<le> count_active_secrets D' (d_now E) (c_id c)"
  proof (cases "s_revoked_at s")
    case None
    then have D': "D' = store_secret (s\<lparr>s_revoked_at := Some (d_now E)\<rparr>) D"
        "secret_active (d_now E) s \<Longrightarrow> 1 < count_active_secrets D (d_now E) (c_id c)"
      using o c' assms(2,3) by (auto simp: revoke_outcome_def commit_Inr)
    have "(if s_client_pk s = c_id c \<and> secret_active (d_now E) s then 1 else 0) < count_active_secrets D (d_now E) (c_id c)"
      using D'(2) assms(4) by auto
    then show ?thesis by (simp add: D'(1) count_revoke[OF assms(1) s])
  qed (use o assms(4) in \<open>simp add: revoke_outcome_def\<close>)
qed

theorem revoke_secret_keeps_one_witness:
  "1 \<le> count_active_secrets (snd (revoke_secret demo_db_env ''acme'' ''s1'' demo_store)) 100 ''c1''"
proof -
  have g: "get_client_by_client_id demo_store ''acme'' = Some demo_client"
    by (simp add: get_client_by_client_id_def demo_store_def demo_client_def)
  have s: "c_status demo_client = ''active''" by (simp add: demo_client_def)
  have n: "1 \<le> count_active_secrets demo_store (d_now demo_db_env) (c_id demo_client)"
    by (simp add: count_active_secrets_def demo_store_def demo_rows secret_active_def)
  have i: "c_id demo_client = ''c1''" by (simp add: demo_client_def)
  show ?thesis using revoke_secret_keeps_one[OF demo_store_ok g s n, of "''s1''"] by (simp only: i demo_env_simps)
qed

text \<open>
  The scopes of a client are not validated before the database rejects them, and the rejection is
  misreported: creating a client under a free name with an unknown scope fails with the conflict
  \<^verbatim>\<open>CLIENT_ID_CONFLICT\<close>, and updating one to an unknown scope with \<^verbatim>\<open>SCOPE_CONFLICT\<close>, \<^verbatim>\<open>An active rule
  already exists\<close>; nothing is stored.
\<close>

theorem bad_scopes_misreported:
  assumes "store_ok E D" "get_client_by_client_id D (nc_client_id data) = None" "\<not> set (nc_scopes data) \<subseteq> {''check'', ''admin''}"
    and "get_client_by_client_id D cid = Some c" "uc_scopes upd = Some ss" "\<not> set ss \<subseteq> {''check'', ''admin''}"
  shows "create_client E data D = (Inl (ClientIdConflictError (nc_client_id data)), D)
    \<and> update_client E cid upd D = (Inl IntegrityErrorExc, D)
    \<and> exception_response txt IntegrityErrorExc =
        error_response_of 409 ''SCOPE_CONFLICT'' ''An active rule already exists for this endpoint/identifier scope'' []"
proof -
  have i: "int4_columns D" "clients_integrity D" using assms(1) by (simp_all add: store_ok_def integrity_def)
  have "\<not> integrity (d_pg_lower E) (insert_client (new_client E data) D)"
    using assms(3) by (auto simp: integrity_def clients_integrity_def insert_client_def ck_clients_def new_client_def)
  then have 1: "create_client E data D = (Inl (ClientIdConflictError (nc_client_id data)), D)"
    using assms(2) i(1) by (auto simp: create_client_def Let_def commit_else_def commit_def int4_columns_def)
  have c: "c \<in> set (t_clients D)" using get_client_in[OF assms(4)] by simp
  have "set (c_scopes c) \<subseteq> {''check'', ''admin''}"
    using i(2) c by (auto simp: clients_integrity_def list_all_iff ck_clients_def)
  then have "c_scopes c \<noteq> ss" using assms(6) by auto
  moreover have "c_scopes (updated_client c upd) = ss" using assms(5) by (simp add: updated_client_def)
  ultimately have ne: "c \<noteq> updated_client c upd" by auto
  let ?row = "(updated_client c upd)\<lparr>c_updated_at := d_now E\<rparr>"
  have "?row \<in> set (t_clients (store_client (d_now E) c (updated_client c upd) D))"
    using c ne by (auto simp: store_client_def)
  moreover have "\<not> ck_clients ?row" using assms(5,6) by (simp add: ck_clients_def updated_client_def)
  ultimately have "\<not> integrity (d_pg_lower E) (store_client (d_now E) c (updated_client c upd) D)"
    unfolding integrity_def clients_integrity_def list_all_iff by blast
  then have "update_client E cid upd D = (Inl IntegrityErrorExc, D)"
    using assms(4) i(1) by (auto simp: update_client_def get_client_or_raise_def Let_def commit_else_def commit_def
        int4_columns_def transaction_def)
  with 1 show ?thesis by simp
qed

definition demo_new_client :: "string list \<Rightarrow> client_create" where
  "demo_new_client ss = \<lparr>nc_client_id = ''newco'', nc_name = ''New'', nc_description = None, nc_scopes = ss\<rparr>"

definition demo_scopes_update :: "string list \<Rightarrow> client_update" where
  "demo_scopes_update ss = \<lparr>uc_name = None, uc_description = None, uc_scopes = Some ss, uc_status = None\<rparr>"

theorem bad_scopes_misreported_witness:
  "create_client demo_db_env (demo_new_client [''root'']) demo_store = (Inl (ClientIdConflictError ''newco''), demo_store)
   \<and> update_client demo_db_env ''acme'' (demo_scopes_update [''root'']) demo_store = (Inl IntegrityErrorExc, demo_store)"
proof -
  have n: "get_client_by_client_id demo_store (nc_client_id (demo_new_client [''root''])) = None"
    by (simp add: get_client_by_client_id_def demo_store_def demo_client_def demo_new_client_def)
  have g: "get_client_by_client_id demo_store ''acme'' = Some demo_client"
    by (simp add: get_client_by_client_id_def demo_store_def demo_client_def)
  have b: "\<not> set (nc_scopes (demo_new_client [''root''])) \<subseteq> {''check'', ''admin''}" "\<not> set [''root''] \<subseteq> {''check'', ''admin''}"
    "uc_scopes (demo_scopes_update [''root'']) = Some [''root'']" "nc_client_id (demo_new_client [''root'']) = ''newco''"
    by (simp_all add: demo_new_client_def demo_scopes_update_def)
  show ?thesis using bad_scopes_misreported[OF demo_store_ok n b(1) g b(3) b(2)] by (simp only: b(4) simp_thms)
qed

end
