(* ===== verification/Admin_Api.thy ===== *)
theory Admin_Api
  imports Rule_Group_Service Client_Service
begin

text \<open>
  The admin interface as a state machine on the database: the operations of
  \<^verbatim>\<open>api/v1/endpoints/rules.py\<close>, \<^verbatim>\<open>groups.py\<close> and \<^verbatim>\<open>clients.py\<close> that write, each one transaction, and what
  holds of every store they can reach.
\<close>

datatype admin_op =
    CreateRule rule_create
  | UpdateRule string rule_update
  | DeleteRule string
  | CreateGroup group_create
  | UpdateGroup string group_update
  | AddMembers string "group_member_input list"
  | DeleteGroup string members_mode
  | DetachRule string detach_request
  | MoveToGroup string move_to_group_request
  | CreateClient client_create
  | UpdateClient string client_update
  | AddSecret string
  | RevokeSecret string string

definition outcome :: "(app_exception + 'a) \<times> db \<Rightarrow> app_exception option \<times> db" where
  "outcome x = (case fst x of Inl e \<Rightarrow> Some e | Inr _ \<Rightarrow> None, snd x)"

fun admin_step :: "db_env \<Rightarrow> admin_op \<Rightarrow> db \<Rightarrow> app_exception option \<times> db" where
  "admin_step E (CreateRule data) D = outcome (create_rule E data D)"
| "admin_step E (UpdateRule rid data) D = outcome (update_rule E rid data D)"
| "admin_step E (DeleteRule rid) D = outcome (delete_rule E rid D)"
| "admin_step E (CreateGroup data) D = outcome (create_group E data D)"
| "admin_step E (UpdateGroup gid data) D = outcome (update_group E gid data D)"
| "admin_step E (AddMembers gid members) D = outcome (add_members E gid members D)"
| "admin_step E (DeleteGroup gid mode) D = outcome (delete_group E gid mode D)"
| "admin_step E (DetachRule rid data) D = outcome (detach_rule E rid data D)"
| "admin_step E (MoveToGroup rid data) D = outcome (move_to_group E rid data D)"
| "admin_step E (CreateClient data) D = outcome (create_client E data D)"
| "admin_step E (UpdateClient cid data) D = outcome (update_client E cid data D)"
| "admin_step E (AddSecret cid) D = outcome (add_secret E cid D)"
| "admin_step E (RevokeSecret cid sid) D = outcome (revoke_secret E cid sid D)"

text \<open>Requests differ in their time, their identifiers and their secret, not in the libraries.\<close>

definition same_libraries :: "db_env \<Rightarrow> db_env \<Rightarrow> bool" where
  "same_libraries E E' \<longleftrightarrow> d_coercions E' = d_coercions E \<and> d_pg_lower E' = d_pg_lower E"

inductive reachable :: "db_env \<Rightarrow> db \<Rightarrow> db \<Rightarrow> int \<Rightarrow> bool" for E D0 where
  start: "reachable E D0 D0 (d_now E)"
| step: "reachable E D0 D now \<Longrightarrow> same_libraries E E' \<Longrightarrow> now \<le> d_now E' \<Longrightarrow>
    reachable E D0 (snd (admin_step E' oper D)) (d_now E')"

inductive_cases reachable_cases: "reachable E D0 D now"

lemma snd_outcome [simp]: "snd (outcome x) = snd x"
  by (simp add: outcome_def)

lemma fst_outcome: "fst (outcome x) = Some e \<longleftrightarrow> fst x = Inl e"
  by (cases x) (simp add: outcome_def split: sum.splits)

lemma store_ok_libraries: "same_libraries E E' \<Longrightarrow> store_ok E' D = store_ok E D"
  by (simp add: store_ok_def same_libraries_def)

subsection \<open>One step\<close>

lemma admin_step_ok: "store_ok E D \<Longrightarrow> store_ok E (snd (admin_step E oper D))"
  by (cases oper) (simp_all add: create_rule_ok update_rule_ok delete_rule_ok create_group_ok update_group_ok
      add_members_ok delete_group_ok detach_rule_ok move_to_group_ok create_client_ok update_client_ok add_secret_ok
      revoke_secret_ok)

text \<open>The rule and group operations leave clients and secrets alone.\<close>

lemma rule_ops_secrets:
  "t_secrets (snd (create_rule E nr D)) = t_secrets D"
  "t_secrets (snd (update_rule E rid ur D)) = t_secrets D"
  "t_secrets (snd (delete_rule E rid D)) = t_secrets D"
proof -
  note P = transaction_ok[where P = "\<lambda>D'. t_secrets D' = t_secrets D"]
  show "t_secrets (snd (create_rule E nr D)) = t_secrets D"
    by (rule P[OF create_rule_def refl]) (auto dest!: create_rule_Inr(7) simp: commit_Inr)
  show "t_secrets (snd (update_rule E rid ur D)) = t_secrets D"
    by (rule P[OF update_rule_def refl]) (auto elim!: update_rule_Inr simp: commit_Inr)
  show "t_secrets (snd (delete_rule E rid D)) = t_secrets D"
    by (rule P[OF delete_rule_def refl]) (auto elim!: delete_rule_Inr simp: commit_Inr)
qed

lemma store_rule_frame:
  "store_rule now old new D = Inr D' \<Longrightarrow> t_secrets D' = t_secrets D \<and> t_groups D' = t_groups D \<and> t_clients D' = t_clients D
     \<and> t_algorithms D' = t_algorithms D"
  by (auto simp: store_rule_def split: if_splits option.splits)

lemma insert_group_frame [simp]: "t_secrets (insert_group g D) = t_secrets D" "t_rules (insert_group g D) = t_rules D"
  "t_history (insert_group g D) = t_history D" "t_clients (insert_group g D) = t_clients D"
  by (simp_all add: insert_group_def)

lemma group_ops_secrets:
  assumes "store_ok E D"
  shows "t_secrets (snd (create_group E ng D)) = t_secrets D"
    "t_secrets (snd (update_group E gid ug D)) = t_secrets D"
    "t_secrets (snd (add_members E gid ms D)) = t_secrets D"
    "t_secrets (snd (delete_group E gid mode D)) = t_secrets D"
    "t_secrets (snd (detach_rule E rid dr D)) = t_secrets D"
    "t_secrets (snd (move_to_group E rid mg D)) = t_secrets D"
proof -
  note P = transaction_ok[where P = "\<lambda>D'. t_secrets D' = t_secrets D"]
  show "t_secrets (snd (create_group E ng D)) = t_secrets D"
    by (rule P[OF create_group_def refl]) (auto elim!: create_group_Inr simp: commit_Inr insert_members_frame)
  show "t_secrets (snd (update_group E gid ug D)) = t_secrets D"
    by (rule P[OF update_group_def refl]) (auto elim!: update_group_Inr[OF assms])
  show "t_secrets (snd (delete_group E gid mode D)) = t_secrets D"
    by (rule P[OF delete_group_def refl]) (simp add: delete_group_Inr(8)[OF assms])
  show "t_secrets (snd (detach_rule E rid dr D)) = t_secrets D"
    by (rule P[OF detach_rule_def refl]) (auto elim!: detach_rule_Inr dest!: store_rule_frame simp: commit_Inr)
  show "t_secrets (snd (move_to_group E rid mg D)) = t_secrets D"
    by (rule P[OF move_to_group_def refl]) (auto elim!: move_to_group_Inr dest!: store_rule_frame simp: commit_Inr)
  show "t_secrets (snd (add_members E gid ms D)) = t_secrets D"
  proof (rule P[OF add_members_def refl])
    fix resp D' assume "add_members E gid ms D = (Inr resp, D')"
    then show "t_secrets D' = t_secrets D"
    proof (rule add_members_Inr)
      fix g cs ps assume "cs \<noteq> [] \<Longrightarrow> D' = D \<and> am_created resp = []"
        "cs = [] \<Longrightarrow> commit (d_pg_lower E) (insert_members E g 0 ps D) = Inr D' \<and>
           am_created resp = map (\<lambda>(i, ep, ov, merged). \<lparr>md_endpoint = ep, md_rule_id = d_ids E i, md_overrides = ov\<rparr>) (List.enumerate 0 ps)"
      then show "t_secrets D' = t_secrets D" by (cases "cs = []") (auto simp: commit_Inr insert_members_frame)
    qed
  qed
qed

lemma update_client_secrets: "t_secrets (snd (update_client E cid uc D)) = t_secrets D"
  by (rule transaction_ok[where P = "\<lambda>D'. t_secrets D' = t_secrets D", OF update_client_def refl])
    (auto elim!: update_client_Inr simp: commit_Inr)

lemma secrets_bounded_frame: "secrets_bounded D now \<Longrightarrow> t_secrets D' = t_secrets D \<Longrightarrow> secrets_bounded D' now"
  using count_secrets_frame[of D' D] by (simp add: secrets_bounded_iff)

lemma admin_step_bounded:
  "store_ok E D \<Longrightarrow> secrets_bounded D (d_now E) \<Longrightarrow> secrets_bounded (snd (admin_step E oper D)) (d_now E)"
  by (cases oper) (simp_all add: create_client_bounded add_secret_bounded revoke_secret_bounded
      secrets_bounded_frame[OF _ rule_ops_secrets(1)] secrets_bounded_frame[OF _ rule_ops_secrets(2)]
      secrets_bounded_frame[OF _ rule_ops_secrets(3)] secrets_bounded_frame[OF _ group_ops_secrets(1)]
      secrets_bounded_frame[OF _ group_ops_secrets(2)] secrets_bounded_frame[OF _ group_ops_secrets(3)]
      secrets_bounded_frame[OF _ group_ops_secrets(4)] secrets_bounded_frame[OF _ group_ops_secrets(5)]
      secrets_bounded_frame[OF _ group_ops_secrets(6)] secrets_bounded_frame[OF _ update_client_secrets])

text \<open>The audit log.\<close>

lemma client_ops_logged:
  "logged D (snd (create_client E nc D))" "logged D (snd (update_client E cid uc D))"
  "logged D (snd (add_secret E cid D))" "logged D (snd (revoke_secret E cid sid D))"
proof -
  note P = transaction_ok[where P = "logged D"]
  show "logged D (snd (create_client E nc D))"
    by (cases rule: create_client_cases[of D nc E]) (auto simp: commit_Inr intro: logged_refl logged_frame)
  show "logged D (snd (update_client E cid uc D))"
    by (rule P[OF update_client_def logged_refl]) (auto elim!: update_client_Inr simp: commit_Inr intro: logged_frame)
  show "logged D (snd (add_secret E cid D))"
    by (rule P[OF add_secret_def logged_refl]) (auto elim!: add_secret_Inr simp: commit_Inr intro: logged_frame)
  show "logged D (snd (revoke_secret E cid sid D))"
    by (rule P[OF revoke_secret_def logged_refl])
      (auto elim!: revoke_secret_Inr simp: revoke_outcome_def commit_Inr logged_refl logged_frame[of "store_secret s D" D for s])
qed

lemma rule_ops_logged:
  "logged D (snd (create_rule E nr D))" "logged D (snd (update_rule E rid ur D))" "logged D (snd (delete_rule E rid D))"
proof -
  note P = transaction_ok[where P = "logged D"]
  show "logged D (snd (create_rule E nr D))"
    by (rule P[OF create_rule_def logged_refl]) (auto dest!: create_rule_Inr(7) simp: commit_Inr intro: logged_insert)
  show "logged D (snd (update_rule E rid ur D))"
    by (rule P[OF update_rule_def logged_refl]) (auto elim!: update_rule_Inr simp: commit_Inr intro: logged_replace)
  show "logged D (snd (delete_rule E rid D))"
    by (rule P[OF delete_rule_def logged_refl]) (auto elim!: delete_rule_Inr simp: commit_Inr intro: logged_delete)
qed

lemma group_ops_logged:
  assumes "store_ok E D"
  shows "logged D (snd (create_group E ng D))" "logged D (snd (update_group E gid ug D))"
    "logged D (snd (add_members E gid ms D))" "logged D (snd (delete_group E gid mode D))"
    "logged D (snd (detach_rule E rid dr D))" "logged D (snd (move_to_group E rid mg D))"
proof -
  note P = transaction_ok[where P = "logged D"]
  have ins: "logged D (insert_group g D)" for g by (rule logged_frame) simp_all
  have insm: "logged D (insert_members E g i ps (insert_group g D))" for g i ps
    using logged_trans[OF ins] insert_members_frame by blast
  show "logged D (snd (create_group E ng D))"
    by (rule P[OF create_group_def logged_refl]) (auto elim!: create_group_Inr simp: commit_Inr insm)
  show "logged D (snd (update_group E gid ug D))"
    by (rule P[OF update_group_def logged_refl]) (auto elim!: update_group_Inr[OF assms])
  show "logged D (snd (delete_group E gid mode D))"
    by (rule P[OF delete_group_def logged_refl]) (rule delete_group_Inr(4)[OF assms])
  show "logged D (snd (detach_rule E rid dr D))"
    by (rule P[OF detach_rule_def logged_refl]) (auto elim!: detach_rule_Inr dest!: logged_store simp: commit_Inr)
  show "logged D (snd (move_to_group E rid mg D))"
    by (rule P[OF move_to_group_def logged_refl]) (auto elim!: move_to_group_Inr dest!: logged_store simp: commit_Inr)
  show "logged D (snd (add_members E gid ms D))"
  proof (rule P[OF add_members_def logged_refl])
    fix resp D' assume "add_members E gid ms D = (Inr resp, D')"
    then show "logged D D'"
    proof (rule add_members_Inr)
      fix g cs ps assume "cs \<noteq> [] \<Longrightarrow> D' = D \<and> am_created resp = []"
        "cs = [] \<Longrightarrow> commit (d_pg_lower E) (insert_members E g 0 ps D) = Inr D' \<and>
           am_created resp = map (\<lambda>(i, ep, ov, merged). \<lparr>md_endpoint = ep, md_rule_id = d_ids E i, md_overrides = ov\<rparr>) (List.enumerate 0 ps)"
      then show "logged D D'" by (cases "cs = []") (auto simp: commit_Inr insert_members_frame logged_refl)
    qed
  qed
qed

lemma admin_step_logged: "store_ok E D \<Longrightarrow> logged D (snd (admin_step E oper D))"
  by (cases oper) (simp_all add: client_ops_logged rule_ops_logged group_ops_logged)

lemma reachable_ok:
  assumes "reachable E D0 D now" "store_ok E D0" "secrets_bounded D0 (d_now E)"
  shows "store_ok E D \<and> secrets_bounded D now \<and> logged D0 D"
  using assms
proof (induction rule: reachable.induct)
  case start
  then show ?case by (simp add: logged_refl)
next
  case (step D now E' oper)
  then have "store_ok E' D" "secrets_bounded D (d_now E')" "logged D0 D"
    using secrets_bounded_later by (auto simp: store_ok_libraries)
  then show ?case
    using admin_step_ok[of E' D oper] admin_step_bounded[of E' D oper] admin_step_logged[of E' D oper] step.hyps(2)
      logged_trans store_ok_libraries by blast
qed

lemma demo_reachable: "reachable demo_db_env demo_store (snd (admin_step demo_db_env oper demo_store)) 100"
  using reachable.step[OF reachable.start, of demo_db_env demo_db_env demo_store oper] by (simp add: same_libraries_def)

lemma demo_bounded: "secrets_bounded demo_store 100"
  by (simp add: secrets_bounded_def count_active_secrets_def demo_store_def demo_rows secret_active_def
      max_active_secrets_per_client_def)

text \<open>What a request that fails leaves behind.\<close>

lemma failed_write_frame:
  assumes "fst (admin_step E oper D) = Some e"
  shows "(snd (admin_step E oper D) = D \<or> (\<exists>data. oper = CreateClient data))
    \<and> t_rules (snd (admin_step E oper D)) = t_rules D \<and> t_groups (snd (admin_step E oper D)) = t_groups D
    \<and> t_history (snd (admin_step E oper D)) = t_history D"
proof (cases "\<exists>data. oper = CreateClient data")
  case True
  then obtain data where o: "oper = CreateClient data" by blast
  show ?thesis using assms o
    by (cases rule: create_client_cases[of D data E]) (auto simp: commit_Inr fst_outcome)
next
  case False
  have "snd (admin_step E oper D) = D"
  proof (cases oper)
    case (CreateRule data)
    then show ?thesis using assms transaction_Inl by (auto simp: fst_outcome create_rule_def)
  next
    case (UpdateRule rid data)
    then show ?thesis using assms transaction_Inl by (auto simp: fst_outcome update_rule_def)
  next
    case (DeleteRule rid)
    then show ?thesis using assms transaction_Inl by (auto simp: fst_outcome delete_rule_def)
  next
    case (CreateGroup data)
    then show ?thesis using assms transaction_Inl by (auto simp: fst_outcome create_group_def)
  next
    case (UpdateGroup gid data)
    then show ?thesis using assms transaction_Inl by (auto simp: fst_outcome update_group_def)
  next
    case (AddMembers gid members)
    then show ?thesis using assms transaction_Inl by (auto simp: fst_outcome add_members_def)
  next
    case (DeleteGroup gid mode)
    then show ?thesis using assms transaction_Inl by (auto simp: fst_outcome delete_group_def)
  next
    case (DetachRule rid data)
    then show ?thesis using assms transaction_Inl by (auto simp: fst_outcome detach_rule_def)
  next
    case (MoveToGroup rid data)
    then show ?thesis using assms transaction_Inl by (auto simp: fst_outcome move_to_group_def)
  next
    case (UpdateClient cid data)
    then show ?thesis using assms transaction_Inl by (auto simp: fst_outcome update_client_def)
  next
    case (AddSecret cid)
    then show ?thesis using assms transaction_Inl by (auto simp: fst_outcome add_secret_def)
  next
    case (RevokeSecret cid sid)
    then show ?thesis using assms transaction_Inl by (auto simp: fst_outcome revoke_secret_def)
  qed (use False in auto)
  then show ?thesis by simp
qed

subsection \<open>Properties\<close>

text \<open>
  C15.  Every store the admin interface reaches is well-formed: the constraints of the database hold,
  no two active rules share client, endpoint and signature, every rule has canonical types and
  parameters that build a configuration for its algorithm, every member of a group mirrors its group
  with its overrides merged into the group's parameters, and no client has more than two active
  secrets.
\<close>

theorem reachable_store_ok:
  assumes "store_ok E D0" "secrets_bounded D0 (d_now E)" "reachable E D0 D now"
  shows "store_ok E D \<and> ux_rules_active_scope (t_rules D) \<and> secrets_bounded D now
    \<and> list_all (\<lambda>r. rule_ok (d_coercions E) (t_algorithms D) r \<and> membership_ok (t_groups D) r) (t_rules D)"
  using reachable_ok[OF assms(3,1,2)] store_ok_ids(7) by (auto simp: store_ok_def rules_ok_def)

theorem reachable_store_ok_witness:
  "store_ok demo_db_env (snd (admin_step demo_db_env (DeleteGroup ''g1'' DetachMembers) demo_store))
   \<and> secrets_bounded (snd (admin_step demo_db_env (DeleteGroup ''g1'' DetachMembers) demo_store)) 100"
  using reachable_store_ok[OF demo_store_ok _ demo_reachable[of "DeleteGroup ''g1'' DetachMembers"]] demo_bounded
  by (simp del: admin_step.simps)

text \<open>
  C16.  The audit log is complete: in every reachable store the log extends the log of the start, and
  replaying the new entries on the starting rules yields exactly the rules of the store.
\<close>

theorem audit_log_replays:
  assumes "store_ok E D0" "secrets_bounded D0 (d_now E)" "reachable E D0 D now"
  shows "take (length (t_history D0)) (t_history D) = t_history D0
    \<and> replay (drop (length (t_history D0)) (t_history D)) (t_rules D0) = t_rules D"
  using reachable_ok[OF assms(3,1,2)] by (auto simp: logged_def)

theorem audit_log_replays_witness:
  "replay (t_history (snd (admin_step demo_db_env (DeleteGroup ''g1'' DetachMembers) demo_store))) [demo_member, demo_rule_row]
   = t_rules (snd (admin_step demo_db_env (DeleteGroup ''g1'' DetachMembers) demo_store))"
proof -
  have "t_history demo_store = []" "t_rules demo_store = [demo_member, demo_rule_row]" by (simp_all add: demo_store_def)
  then show ?thesis
    using audit_log_replays[OF demo_store_ok _ demo_reachable[of "DeleteGroup ''g1'' DetachMembers"]] demo_bounded
    by (simp del: admin_step.simps)
qed

end
