(* ===== verification/Rules_Cache.thy ===== *)
theory Rules_Cache
  imports Algorithm_Config
begin

text \<open>
  \<^verbatim>\<open>services/rules_cache.py\<close> and the serialization of \<^verbatim>\<open>services/rules_loader.py\<close>: the in-memory copy of
  the rules that \<^verbatim>\<open>/check\<close> resolves against.  The two indexes are functions from
  \<open>(client_pk, endpoint)\<close>; the lock of the Python code makes each \<open>load_all\<close> one step.
\<close>

subsection \<open>Cached rules\<close>

text \<open>A row of \<^verbatim>\<open>rules\<close> as the loader reads it, with the name of its algorithm.\<close>

record rule_row =
  rr_id :: string
  rr_client_id :: string
  rr_endpoint :: string
  rr_identifier_types :: "string list"
  rr_identifier_signature :: string
  rr_algorithm_id :: string
  rr_algorithm_name :: string
  rr_params :: params
  rr_status :: string
  rr_priority :: int
  rr_version :: int

record cached_rule =
  cr_id :: string
  cr_client_pk :: string
  cr_endpoint :: string
  cr_identifier_types :: "string list"
  cr_identifier_signature :: string
  cr_is_global :: bool
  cr_engine_types :: "identifier_type set option"
  cr_algorithm_id :: string
  cr_algorithm_name :: string
  cr_params :: params
  cr_status :: string
  cr_priority :: int
  cr_version :: int

definition engine_types_of :: "string list \<Rightarrow> identifier_type set option" where
  "engine_types_of ts = (if \<forall>t \<in> set ts. map_of rule_to_engine_identifier_type t \<noteq> None
     then Some ((\<lambda>t. the (map_of rule_to_engine_identifier_type t)) ` set ts) else None)"

definition serialize_rule :: "rule_row \<Rightarrow> cached_rule" where
  "serialize_rule r = \<lparr>cr_id = rr_id r, cr_client_pk = rr_client_id r, cr_endpoint = rr_endpoint r,
     cr_identifier_types = rr_identifier_types r, cr_identifier_signature = rr_identifier_signature r,
     cr_is_global = (rr_identifier_signature r = ''global''),
     cr_engine_types = engine_types_of (rr_identifier_types r),
     cr_algorithm_id = rr_algorithm_id r, cr_algorithm_name = rr_algorithm_name r, cr_params = rr_params r,
     cr_status = rr_status r, cr_priority = rr_priority r, cr_version = rr_version r\<rparr>"

subsection \<open>The cache\<close>

record rules_cache =
  rc_by_id :: "cached_rule dict"
  rc_candidates :: "string \<times> string \<Rightarrow> cached_rule list"
  rc_global :: "string \<times> string \<Rightarrow> cached_rule option"
  rc_ready :: bool
  rc_last_loaded_at :: "int option"
  rc_generation :: nat

definition empty_rules_cache :: rules_cache where
  "empty_rules_cache = \<lparr>rc_by_id = [], rc_candidates = (\<lambda>_. []), rc_global = (\<lambda>_. None),
     rc_ready = False, rc_last_loaded_at = None, rc_generation = 0\<rparr>"

definition specificity :: "cached_rule \<Rightarrow> int" where
  "specificity r = (case cr_engine_types r of None \<Rightarrow> 0 | Some ts \<Rightarrow> int (card ts))"

definition sort_key_of :: "cached_rule \<Rightarrow> int \<times> int \<times> string" where
  "sort_key_of r = (- specificity r, - cr_priority r, cr_identifier_signature r)"

definition rule_scope :: "cached_rule \<Rightarrow> string \<times> string" where
  "rule_scope r = (cr_client_pk r, cr_endpoint r)"

definition active_usable :: "cached_rule \<Rightarrow> bool" where
  "active_usable r \<longleftrightarrow> cr_status r = ''active'' \<and> cr_engine_types r \<noteq> None"

definition index_global :: "cached_rule list \<Rightarrow> string \<times> string \<Rightarrow> cached_rule option" where
  "index_global rules = fold (\<lambda>r g. if cr_is_global r then g(rule_scope r := Some r) else g) rules (\<lambda>_. None)"

definition index_candidates :: "cached_rule list \<Rightarrow> string \<times> string \<Rightarrow> cached_rule list" where
  "index_candidates rules = fold (\<lambda>r c. if cr_is_global r then c else c(rule_scope r := c (rule_scope r) @ [r])) rules (\<lambda>_. [])"

definition load_all :: "int \<Rightarrow> cached_rule list \<Rightarrow> rules_cache \<Rightarrow> rules_cache" where
  "load_all now rules C =
     (let usable = filter active_usable rules; cands = index_candidates usable in
      \<lparr>rc_by_id = fold (\<lambda>r. AList.update (cr_id r) r) rules [],
       rc_candidates = (\<lambda>sc. sort_key sort_key_of (cands sc)),
       rc_global = index_global usable,
       rc_ready = True, rc_last_loaded_at = Some now, rc_generation = rc_generation C + 1\<rparr>)"

definition upsert :: "int \<Rightarrow> cached_rule \<Rightarrow> rules_cache \<Rightarrow> rules_cache" where
  "upsert now r C = load_all now (map snd (AList.update (cr_id r) r (rc_by_id C))) C"

definition remove :: "int \<Rightarrow> string \<Rightarrow> rules_cache \<Rightarrow> rules_cache" where
  "remove now rule_id C = load_all now (map snd (AList.delete rule_id (rc_by_id C))) C"

definition get_rule :: "rules_cache \<Rightarrow> string \<Rightarrow> cached_rule option" where
  "get_rule C rule_id = map_of (rc_by_id C) rule_id"

definition get_candidates :: "rules_cache \<Rightarrow> string \<Rightarrow> string \<Rightarrow> cached_rule list" where
  "get_candidates C client_pk endpoint = rc_candidates C (client_pk, endpoint)"

definition get_global :: "rules_cache \<Rightarrow> string \<Rightarrow> string \<Rightarrow> cached_rule option" where
  "get_global C client_pk endpoint = rc_global C (client_pk, endpoint)"

text \<open>The pairs of rules \<^verbatim>\<open>_log_ambiguous_ties\<close> warns about: neighbours of equal rank.\<close>

fun ambiguous_ties :: "cached_rule list \<Rightarrow> (string \<times> string) list" where
  "ambiguous_ties (a # b # rs) =
     (if specificity a = specificity b \<and> cr_priority a = cr_priority b then [(cr_id a, cr_id b)] else [])
       @ ambiguous_ties (b # rs)"
| "ambiguous_ties _ = []"

text \<open>A poll: on failure the cache is left as it was.\<close>

definition poll_rules :: "int \<Rightarrow> rule_row list option \<Rightarrow> rules_cache \<Rightarrow> rules_cache" where
  "poll_rules now fetched C = (case fetched of None \<Rightarrow> C | Some rows \<Rightarrow> load_all now (map serialize_rule rows) C)"

subsection \<open>What the indexes hold\<close>

lemma index_candidates_eq:
  "index_candidates rules sc = filter (\<lambda>r. \<not> cr_is_global r \<and> rule_scope r = sc) rules"
proof -
  have "fold (\<lambda>r c. if cr_is_global r then c else c(rule_scope r := c (rule_scope r) @ [r])) rules c0 sc
      = c0 sc @ filter (\<lambda>r. \<not> cr_is_global r \<and> rule_scope r = sc) rules" for c0
    by (induction rules arbitrary: c0) auto
  then show ?thesis by (simp add: index_candidates_def)
qed

lemma index_global_eq:
  "index_global rules sc = (case filter (\<lambda>r. cr_is_global r \<and> rule_scope r = sc) rules of
     [] \<Rightarrow> None | r # rs \<Rightarrow> Some (last (r # rs)))"
proof -
  have "fold (\<lambda>r g. if cr_is_global r then g(rule_scope r := Some r) else g) rules g0 sc
      = (case filter (\<lambda>r. cr_is_global r \<and> rule_scope r = sc) rules of [] \<Rightarrow> g0 sc | r # rs \<Rightarrow> Some (last (r # rs)))" for g0
    by (induction rules arbitrary: g0) (auto split: list.splits)
  then show ?thesis by (simp add: index_global_def)
qed

lemma set_candidates:
  "set (get_candidates (load_all now rules C) pk ep) =
     {r \<in> set rules. active_usable r \<and> \<not> cr_is_global r \<and> cr_client_pk r = pk \<and> cr_endpoint r = ep}"
  by (auto simp: get_candidates_def load_all_def Let_def index_candidates_eq rule_scope_def)

lemma candidates_sorted: "sorted (map sort_key_of (get_candidates (load_all now rules C) pk ep))"
  by (simp add: get_candidates_def load_all_def Let_def)

lemma global_in:
  assumes "get_global (load_all now rules C) pk ep = Some r"
  shows "r \<in> set rules" "active_usable r" "cr_is_global r" "cr_client_pk r = pk" "cr_endpoint r = ep"
proof -
  obtain x xs where f: "filter (\<lambda>r. cr_is_global r \<and> rule_scope r = (pk, ep)) (filter active_usable rules) = x # xs"
      and r: "r = last (x # xs)"
    using assms by (auto simp: get_global_def load_all_def Let_def index_global_eq split: list.splits)
  have "r \<in> set (x # xs)" using r last_in_set[of "x # xs"] by simp
  then have "r \<in> set (filter (\<lambda>r. cr_is_global r \<and> rule_scope r = (pk, ep)) (filter active_usable rules))"
    unfolding f .
  then show "r \<in> set rules" "active_usable r" "cr_is_global r" "cr_client_pk r = pk" "cr_endpoint r = ep"
    by (auto simp: rule_scope_def)
qed

lemma global_None:
  "get_global (load_all now rules C) pk ep = None \<longleftrightarrow>
     (\<forall>r \<in> set rules. \<not> (active_usable r \<and> cr_is_global r \<and> cr_client_pk r = pk \<and> cr_endpoint r = ep))"
proof -
  have "get_global (load_all now rules C) pk ep = None \<longleftrightarrow>
      filter (\<lambda>r. cr_is_global r \<and> rule_scope r = (pk, ep)) (filter active_usable rules) = []"
    by (simp add: get_global_def load_all_def Let_def index_global_eq split: list.splits)
  then show ?thesis by (auto simp: filter_empty_conv rule_scope_def)
qed

lemma update_append: "k \<notin> set (map fst al) \<Longrightarrow> AList.update k v al = al @ [(k, v)]"
  by (induction al) auto

lemma fold_update_values:
  "distinct (map f rs) \<Longrightarrow> set (map f rs) \<inter> set (map fst al) = {} \<Longrightarrow>
     fold (\<lambda>r. AList.update (f r) r) rs al = al @ map (\<lambda>r. (f r, r)) rs"
proof (induction rs arbitrary: al)
  case (Cons r rs)
  have "AList.update (f r) r al = al @ [(f r, r)]" using Cons.prems by (intro update_append) auto
  then show ?case using Cons.IH[of "al @ [(f r, r)]"] Cons.prems by auto
qed simp

lemma load_all_by_id:
  "distinct (map cr_id rules) \<Longrightarrow> rc_by_id (load_all now rules C) = map (\<lambda>r. (cr_id r, r)) rules"
  by (simp add: load_all_def Let_def fold_update_values)

end
