(* ===== verification/Clients_Cache.thy ===== *)
theory Clients_Cache
  imports Rule_Store Rules_Cache
begin

text \<open>
  \<^verbatim>\<open>services/clients_cache.py\<close> and \<^verbatim>\<open>services/clients_loader.py\<close>: the in-memory copy of the registered
  clients that authentication consults, by public identifier and by primary key.  The lock makes a
  \<open>load_clients\<close> one step.
\<close>

record client_record =
  k_pk :: string
  k_client_id :: string
  k_status :: string
  k_scopes :: "string list"

definition record_is_active :: "client_record \<Rightarrow> bool" where
  "record_is_active k \<longleftrightarrow> k_status k = ''active''"

record clients_cache =
  cc_by_client_id :: "client_record dict"
  cc_by_pk :: "client_record dict"
  cc_ready :: bool
  cc_last_loaded_at :: "int option"

definition empty_clients_cache :: clients_cache where
  "empty_clients_cache = \<lparr>cc_by_client_id = [], cc_by_pk = [], cc_ready = False, cc_last_loaded_at = None\<rparr>"

definition serialize_client :: "client \<Rightarrow> client_record" where
  "serialize_client c = \<lparr>k_pk = c_id c, k_client_id = c_client_id c, k_status = c_status c, k_scopes = c_scopes c\<rparr>"

definition load_clients :: "int \<Rightarrow> client_record list \<Rightarrow> clients_cache \<Rightarrow> clients_cache" where
  "load_clients now cs C = (let by_client_id = fold (\<lambda>k. AList.update (k_client_id k) k) cs [] in
     \<lparr>cc_by_client_id = by_client_id, cc_by_pk = fold (\<lambda>k. AList.update (k_pk k) k) (map snd by_client_id) [],
      cc_ready = True, cc_last_loaded_at = Some now\<rparr>)"

definition get_by_client_id :: "clients_cache \<Rightarrow> string \<Rightarrow> client_record option" where
  "get_by_client_id C cid = map_of (cc_by_client_id C) cid"

definition get_by_pk :: "clients_cache \<Rightarrow> string \<Rightarrow> client_record option" where
  "get_by_pk C pk = map_of (cc_by_pk C) pk"

definition clients_stats :: "clients_cache \<Rightarrow> nat \<times> bool \<times> int option" where
  "clients_stats C = (length (cc_by_client_id C), cc_ready C, cc_last_loaded_at C)"

text \<open>The loader; \<open>None\<close> is a failed fetch, which leaves the cache as it was.\<close>

definition fetch_all_clients :: "db \<Rightarrow> client_record list" where
  "fetch_all_clients D = map serialize_client (t_clients D)"

definition load_clients_into_cache :: "int \<Rightarrow> db \<Rightarrow> clients_cache \<Rightarrow> clients_cache" where
  "load_clients_into_cache now D C = load_clients now (fetch_all_clients D) C"

definition poll_clients :: "int \<Rightarrow> db option \<Rightarrow> clients_cache \<Rightarrow> clients_cache" where
  "poll_clients now fetched C = (case fetched of None \<Rightarrow> C | Some D \<Rightarrow> load_clients_into_cache now D C)"

subsection \<open>What the cache holds\<close>

lemma map_of_keyed: "map_of (map (\<lambda>x. (f x, g x)) xs) k = map_option g (find (\<lambda>x. f x = k) xs)"
  by (induction xs) auto

lemma serialize_keys [simp]: "k_client_id (serialize_client c) = c_client_id c" "k_pk (serialize_client c) = c_id c"
  "k_status (serialize_client c) = c_status c" "k_scopes (serialize_client c) = c_scopes c"
  by (simp_all add: serialize_client_def)

text \<open>After a load the cache agrees with the table, whatever it held before.\<close>

lemma loaded_by_client_id:
  assumes "store_ok E D"
  shows "cc_by_client_id (load_clients_into_cache now D C) = map (\<lambda>c. (c_client_id c, serialize_client c)) (t_clients D)"
proof -
  have "distinct (map k_client_id (fetch_all_clients D))"
    using store_ok_ids(6)[OF assms] by (simp add: fetch_all_clients_def o_def)
  from fold_update_values[OF this, of "[]"] show ?thesis
    by (simp add: load_clients_into_cache_def load_clients_def Let_def fetch_all_clients_def o_def)
qed

lemma get_by_client_id_loaded:
  assumes "store_ok E D"
  shows "get_by_client_id (load_clients_into_cache now D C) cid = map_option serialize_client (get_client_by_client_id D cid)"
  by (simp add: get_by_client_id_def loaded_by_client_id[OF assms] get_client_by_client_id_def map_of_keyed)

lemma get_by_pk_loaded:
  assumes "store_ok E D"
  shows "get_by_pk (load_clients_into_cache now D C) pk = map_option serialize_client (get_client_by_pk D pk)"
proof -
  have v: "map snd (cc_by_client_id (load_clients_into_cache now D C)) = map serialize_client (t_clients D)"
    by (simp add: loaded_by_client_id[OF assms])
  have "distinct (map k_pk (map serialize_client (t_clients D)))" using store_ok_ids(5)[OF assms] by (simp add: o_def)
  from fold_update_values[OF this, of "[]"] v
  have "cc_by_pk (load_clients_into_cache now D C) = map (\<lambda>c. (c_id c, serialize_client c)) (t_clients D)"
    by (simp add: load_clients_into_cache_def load_clients_def Let_def)
  then show ?thesis unfolding get_by_pk_def get_client_by_pk_def by (simp add: map_of_keyed)
qed

end
