(* ===== verification/Tokens.thy ===== *)
theory Tokens
  imports Exceptions
begin

text \<open>
  \<^verbatim>\<open>core/security/tokens.py\<close>: the service that issues and verifies the bearer tokens.  PyJWT is not part
  of the repository: it is the record \<open>jwt_api\<close>, on an abstract type of tokens, and what the service
  relies on is the locale \<open>jwt_library\<close>: the header carries the key identifier, decoding with the key
  of the encoding returns the claims exactly when the documented checks pass (issuer, audience, no
  expiry and no issue in the future, each with the leeway), and whatever decodes has every required
  claim.  \<open>ref_jwt\<close> satisfies these laws.

  The clock is \<^verbatim>\<open>time.time()\<close> as a rational number of seconds.
\<close>

subsection \<open>PyJWT\<close>

type_synonym claims = "json dict"

record jwt_options =
  jo_issuer :: string
  jo_audience :: string
  jo_leeway :: int
  jo_require :: "string list"

record 't jwt_api =
  jwt_encode :: "claims \<Rightarrow> string \<Rightarrow> string \<Rightarrow> 't"
  jwt_header_kid :: "'t \<Rightarrow> string option option"
  jwt_decode :: "'t \<Rightarrow> string \<Rightarrow> jwt_options \<Rightarrow> rat \<Rightarrow> claims option"

definition has_claim :: "claims \<Rightarrow> string \<Rightarrow> bool" where
  "has_claim c k \<longleftrightarrow> (case map_of c k of None \<Rightarrow> False | Some v \<Rightarrow> v \<noteq> JNull)"

text \<open>Claims whose values have the types the registered claims are documented with.\<close>

definition regular_claims :: "claims \<Rightarrow> bool" where
  "regular_claims c \<longleftrightarrow>
     list_all (\<lambda>k. case map_of c k of Some (JString _) \<Rightarrow> True | _ \<Rightarrow> False) [''iss'', ''aud'', ''sub'', ''jti'']
     \<and> list_all (\<lambda>k. case map_of c k of Some (JInt _) \<Rightarrow> True | _ \<Rightarrow> False) [''iat'', ''exp'']"

definition int_claim :: "claims \<Rightarrow> string \<Rightarrow> int" where
  "int_claim c k = (case map_of c k of Some (JInt n) \<Rightarrow> n | _ \<Rightarrow> 0)"

definition claims_accepted :: "jwt_options \<Rightarrow> rat \<Rightarrow> claims \<Rightarrow> bool" where
  "claims_accepted opts now c \<longleftrightarrow> list_all (has_claim c) (jo_require opts)
     \<and> map_of c ''iss'' = Some (js (jo_issuer opts)) \<and> map_of c ''aud'' = Some (js (jo_audience opts))
     \<and> of_int (int_claim c ''iat'') \<le> now + of_int (jo_leeway opts)
     \<and> now - of_int (jo_leeway opts) < of_int (int_claim c ''exp'')"

locale jwt_library =
  fixes J :: "'t jwt_api"
  assumes header_encode: "jwt_header_kid J (jwt_encode J c key kid) = Some (Some kid)"
    and decode_encode: "regular_claims c \<Longrightarrow>
      jwt_decode J (jwt_encode J c key kid) key opts now = (if claims_accepted opts now c then Some c else None)"
    and decode_required: "jwt_decode J t key opts now = Some c \<Longrightarrow> list_all (has_claim c) (jo_require opts)"

subsection \<open>The token service\<close>

record token_service =
  ts_signing_keys :: "string dict"
  ts_active_kid :: string
  ts_issuer :: string
  ts_audience :: string
  ts_ttl_seconds :: int

definition clock_skew_leeway_seconds :: int where
  "clock_skew_leeway_seconds = 30"

definition required_claims :: "string list" where
  "required_claims = [''exp'', ''iat'', ''iss'', ''aud'', ''sub'', ''jti'', ''scope'']"

definition token_claims_of :: "token_service \<Rightarrow> int \<Rightarrow> string \<Rightarrow> string \<Rightarrow> string list \<Rightarrow> claims" where
  "token_claims_of T now jti client_id scopes =
     [(''iss'', js (ts_issuer T)), (''aud'', js (ts_audience T)), (''sub'', js client_id),
      (''scope'', js (join '' '' scopes)), (''iat'', JInt now), (''exp'', JInt (now + ts_ttl_seconds T)), (''jti'', js jti)]"

definition issue :: "'t jwt_api \<Rightarrow> token_service \<Rightarrow> rat \<Rightarrow> string \<Rightarrow> string \<Rightarrow> string list \<Rightarrow> app_exception + 't \<times> int" where
  "issue J T time jti client_id scopes = (case map_of (ts_signing_keys T) (ts_active_kid T) of
       None \<Rightarrow> Inl (UnhandledError ''KeyError'')
     | Some key \<Rightarrow>
         Inr (jwt_encode J (token_claims_of T \<lfloor>time\<rfloor> jti client_id scopes) key (ts_active_kid T), ts_ttl_seconds T))"

record token_claims =
  tc_client_id :: json
  tc_scopes :: "ustring list"
  tc_jti :: json

datatype token_error = MalformedHeader | UnknownKid "string option" | VerificationFailed

text \<open>A \<^verbatim>\<open>TokenError\<close>, or an exception of another class that leaves \<^verbatim>\<open>verify\<close>.\<close>

datatype verify_error = TokenError token_error | VerifyRaised string

fun truthy :: "json \<Rightarrow> bool" where
  "truthy JNull = False"
| "truthy (JBool b) = b"
| "truthy (JInt n) = (n \<noteq> 0)"
| "truthy (JFloat x) = (x \<noteq> 0)"
| "truthy (JString s) = (s \<noteq> [])"
| "truthy (JArray xs) = (xs \<noteq> [])"
| "truthy (JObject kvs) = (kvs \<noteq> [])"

definition claimed_scopes :: "json \<Rightarrow> verify_error + ustring list" where
  "claimed_scopes v = (if \<not> truthy v then Inr []
     else case v of JString s \<Rightarrow> Inr (split_on 32 s) | _ \<Rightarrow> Inl (VerifyRaised ''AttributeError''))"

definition claim :: "claims \<Rightarrow> string \<Rightarrow> verify_error + json" where
  "claim c k = (case map_of c k of None \<Rightarrow> Inl (VerifyRaised ''KeyError'') | Some v \<Rightarrow> Inr v)"

definition verify_options :: "token_service \<Rightarrow> jwt_options" where
  "verify_options T = \<lparr>jo_issuer = ts_issuer T, jo_audience = ts_audience T, jo_leeway = clock_skew_leeway_seconds,
     jo_require = required_claims\<rparr>"

definition verify :: "'t jwt_api \<Rightarrow> token_service \<Rightarrow> rat \<Rightarrow> 't \<Rightarrow> verify_error + token_claims" where
  "verify J T time token = (case jwt_header_kid J token of
       None \<Rightarrow> Inl (TokenError MalformedHeader)
     | Some kid \<Rightarrow> (case Option.bind kid (map_of (ts_signing_keys T)) of
           None \<Rightarrow> Inl (TokenError (UnknownKid kid))
         | Some key \<Rightarrow> (case jwt_decode J token key (verify_options T) time of
               None \<Rightarrow> Inl (TokenError VerificationFailed)
             | Some c \<Rightarrow>
                 bind_sum (claim c ''scope'') (\<lambda>scope.
                 bind_sum (claimed_scopes scope) (\<lambda>scopes.
                 bind_sum (claim c ''sub'') (\<lambda>sub.
                 bind_sum (claim c ''jti'') (\<lambda>jti.
                 Inr \<lparr>tc_client_id = sub, tc_scopes = scopes, tc_jti = jti\<rparr>)))))))"

subsection \<open>A reference library\<close>

definition ref_jwt :: "(claims \<times> string \<times> string) jwt_api" where
  "ref_jwt = \<lparr>jwt_encode = (\<lambda>c key kid. (c, key, kid)), jwt_header_kid = (\<lambda>(c, key, kid). Some (Some kid)),
     jwt_decode = (\<lambda>(c, key, kid) key' opts now.
       if key' = key \<and> regular_claims c \<and> claims_accepted opts now c then Some c else None)\<rparr>"

interpretation ref_jwt: jwt_library ref_jwt
  by unfold_locales (auto simp: ref_jwt_def claims_accepted_def split: prod.splits if_splits)

subsection \<open>Issued tokens\<close>

lemma codes_append: "codes (xs @ ys) = codes xs @ codes ys"
  by (simp add: codes_def)

lemma codes_join: "codes (join [c] xs) = join [of_char c] (map codes xs)"
  by (induction "[c]" xs rule: join.induct) (simp_all add: codes_append, simp_all add: codes_def)

lemma codes_member: "of_char c \<in> set (codes s) \<longleftrightarrow> (c \<in> set s)"
  by (auto simp: codes_def)

definition scope_word :: "string \<Rightarrow> bool" where
  "scope_word s \<longleftrightarrow> s \<noteq> [] \<and> CHR '' '' \<notin> set s"

lemma claimed_scopes_join:
  assumes "list_all scope_word scopes"
  shows "claimed_scopes (js (join '' '' scopes)) = Inr (map codes scopes)"
proof (cases scopes)
  case Nil
  then show ?thesis by (simp add: claimed_scopes_def js_def codes_def)
next
  case (Cons s ss)
  have w: "\<forall>x \<in> set (map codes scopes). 32 \<notin> set x"
    using assms codes_member[of "CHR '' ''"] by (auto simp: list_all_iff scope_word_def)
  have j: "codes (join '' '' scopes) = join [32] (map codes scopes)" using codes_join[of "CHR '' ''" scopes] by simp
  have "join '' '' scopes \<noteq> []" using assms Cons by (cases ss) (auto simp: scope_word_def)
  then have "truthy (js (join '' '' scopes))" by (simp add: js_def codes_def)
  moreover have "split_on 32 (codes (join '' '' scopes)) = map codes scopes"
    unfolding j using Cons by (intro split_on_join w) simp
  ultimately show ?thesis by (simp add: claimed_scopes_def js_def)
qed

lemma issued_regular: "regular_claims (token_claims_of T now jti client_id scopes)"
  by (simp add: regular_claims_def token_claims_of_def js_def)

lemma issued_required: "list_all (has_claim (token_claims_of T now jti client_id scopes)) required_claims"
  by (simp add: required_claims_def has_claim_def token_claims_of_def js_def)

text \<open>The service that verifies a token need only share the key under the token's identifier, the issuer
  and the audience with the service that issued it: the keyring may have been rotated.\<close>

definition same_realm :: "token_service \<Rightarrow> token_service \<Rightarrow> bool" where
  "same_realm T T' \<longleftrightarrow> map_of (ts_signing_keys T') (ts_active_kid T) = map_of (ts_signing_keys T) (ts_active_kid T)
     \<and> ts_issuer T' = ts_issuer T \<and> ts_audience T' = ts_audience T"

definition token_live :: "token_service \<Rightarrow> rat \<Rightarrow> rat \<Rightarrow> bool" where
  "token_live T time time' \<longleftrightarrow> of_int \<lfloor>time\<rfloor> \<le> time' + 30 \<and> time' < of_int (\<lfloor>time\<rfloor> + ts_ttl_seconds T) + 30"

context jwt_library
begin

lemma verify_issued:
  assumes "issue J T time jti client_id scopes = Inr (token, ttl)" "same_realm T T'" "list_all scope_word scopes"
  shows "verify J T' time' token = (if token_live T time time'
    then Inr \<lparr>tc_client_id = js client_id, tc_scopes = map codes scopes, tc_jti = js jti\<rparr>
    else Inl (TokenError VerificationFailed))"
proof -
  let ?c = "token_claims_of T \<lfloor>time\<rfloor> jti client_id scopes"
  obtain key where key: "map_of (ts_signing_keys T) (ts_active_kid T) = Some key"
    and t: "token = jwt_encode J ?c key (ts_active_kid T)"
    using assms(1) by (auto simp: issue_def split: option.splits)
  have live: "claims_accepted (verify_options T') time' ?c \<longleftrightarrow> token_live T time time'"
    using issued_required[of T "\<lfloor>time\<rfloor>" jti client_id scopes] assms(2)
    by (auto simp: claims_accepted_def verify_options_def clock_skew_leeway_seconds_def token_live_def same_realm_def
        int_claim_def token_claims_of_def)
  have d: "jwt_decode J token key (verify_options T') time' = (if token_live T time time' then Some ?c else None)"
    unfolding t decode_encode[OF issued_regular] live ..
  have "claim ?c ''scope'' = Inr (js (join '' '' scopes))" "claim ?c ''sub'' = Inr (js client_id)" "claim ?c ''jti'' = Inr (js jti)"
    by (simp_all add: claim_def token_claims_of_def)
  then show ?thesis
    using assms(2) key d claimed_scopes_join[OF assms(3)] by (simp add: verify_def t header_encode same_realm_def)
qed

text \<open>Only the text of the scope claim can make \<^verbatim>\<open>verify\<close> raise anything but a \<^verbatim>\<open>TokenError\<close>.\<close>

lemma verify_raises:
  assumes "verify J T time token = Inl (VerifyRaised e)"
  shows "e = ''AttributeError''"
proof -
  have "claim c k \<noteq> Inl e'" if "jwt_decode J token key (verify_options T) time = Some c" "k \<in> {''scope'', ''sub'', ''jti''}" for c k e' key
    using decode_required[OF that(1)] that(2)
    by (auto simp: verify_options_def required_claims_def has_claim_def claim_def split: option.splits)
  then show ?thesis
    using assms by (auto simp: verify_def bind_sum_def claimed_scopes_def split: option.splits sum.splits if_splits json.splits)
qed

end

end
