(* ===== verification/Basic_Auth.thy ===== *)
theory Basic_Auth
  imports Exceptions
begin

text \<open>
  \<^verbatim>\<open>_parse_basic_auth\<close> of \<^verbatim>\<open>api/v1/endpoints/auth.py\<close> with the standard library it uses: the lenient
  \<^verbatim>\<open>base64.b64decode\<close>, which skips characters outside the alphabet, the strict UTF-8 decoder and
  \<^verbatim>\<open>str.partition\<close>.  The encoders are the client's side, for the round trip.
\<close>

subsection \<open>Base 64\<close>

definition b64_alphabet :: string where
  "b64_alphabet = ''ABCDEFGHIJKLMNOPQRSTUVWXYZabcdefghijklmnopqrstuvwxyz0123456789+/''"

definition b64_value :: "char \<Rightarrow> int option" where
  "b64_value ch = map_of (zip b64_alphabet (map int [0..<64])) ch"

text \<open>\<^verbatim>\<open>binascii.a2b_base64\<close>: the position in the quad, the bits left over and the pads seen.\<close>

fun b64_scan :: "nat \<Rightarrow> int \<Rightarrow> nat \<Rightarrow> string \<Rightarrow> int list option" where
  "b64_scan q left pads [] = (if q = 0 then Some [] else None)"
| "b64_scan q left pads (ch # cs) =
     (if ch = CHR ''='' then
        (if 2 \<le> q \<and> 4 \<le> q + Suc pads then Some [] else b64_scan q left (if 2 \<le> q then Suc pads else pads) cs)
      else (case b64_value ch of
          None \<Rightarrow> b64_scan q left pads cs
        | Some v \<Rightarrow>
            if q = 0 then b64_scan 1 v 0 cs
            else if q = 1 then map_option ((#) (left * 4 + v div 16)) (b64_scan 2 (v mod 16) 0 cs)
            else if q = 2 then map_option ((#) (left * 16 + v div 4)) (b64_scan 3 (v mod 4) 0 cs)
            else map_option ((#) (left * 64 + v)) (b64_scan 0 0 0 cs)))"

text \<open>A \<^verbatim>\<open>str\<close> argument must be ASCII; otherwise \<^verbatim>\<open>ValueError\<close>.\<close>

definition b64decode :: "string \<Rightarrow> int list option" where
  "b64decode s = (if \<forall>ch \<in> set s. of_char ch < (128 :: int) then b64_scan 0 0 0 s else None)"

subsection \<open>UTF-8\<close>

definition continuation :: "int \<Rightarrow> bool" where
  "continuation b \<longleftrightarrow> 128 \<le> b \<and> b \<le> 191"

fun utf8_decode :: "int list \<Rightarrow> ustring option" where
  "utf8_decode [] = Some []"
| "utf8_decode (a # bs) =
     (if a < 128 then map_option ((#) a) (utf8_decode bs)
      else if a < 194 then None
      else if a < 224 then (case bs of
          b # r \<Rightarrow> if continuation b then map_option ((#) ((a - 192) * 64 + (b - 128))) (utf8_decode r) else None
        | _ \<Rightarrow> None)
      else if a < 240 then (case bs of
          b # c # r \<Rightarrow>
            if continuation b \<and> continuation c \<and> (a = 224 \<longrightarrow> 160 \<le> b) \<and> (a = 237 \<longrightarrow> b < 160)
            then map_option ((#) ((a - 224) * 4096 + (b - 128) * 64 + (c - 128))) (utf8_decode r) else None
        | _ \<Rightarrow> None)
      else if a < 245 then (case bs of
          b # c # d # r \<Rightarrow>
            if continuation b \<and> continuation c \<and> continuation d \<and> (a = 240 \<longrightarrow> 144 \<le> b) \<and> (a = 244 \<longrightarrow> b < 144)
            then map_option ((#) ((a - 240) * 262144 + (b - 128) * 4096 + (c - 128) * 64 + (d - 128))) (utf8_decode r)
            else None
        | _ \<Rightarrow> None)
      else None)"

subsection \<open>The header\<close>

definition partition_colon :: "ustring \<Rightarrow> ustring \<times> ustring" where
  "partition_colon s = (takeWhile (\<lambda>c. c \<noteq> 58) s, drop 1 (dropWhile (\<lambda>c. c \<noteq> 58) s))"

definition malformed_basic :: app_exception where
  "malformed_basic = InvalidRequestError ''Malformed HTTP Basic Authorization header''"

definition parse_basic_auth :: "string option \<Rightarrow> app_exception + (ustring \<times> ustring) option" where
  "parse_basic_auth authorization = (case authorization of
     None \<Rightarrow> Inr None
   | Some h \<Rightarrow>
       if take 6 h \<noteq> ''Basic '' then Inr None
       else (case Option.bind (b64decode (drop 6 h)) utf8_decode of
           None \<Rightarrow> Inl malformed_basic
         | Some decoded \<Rightarrow>
             let (client_id, client_secret) = partition_colon decoded in
             if client_id = [] \<or> client_secret = [] then Inl malformed_basic else Inr (Some (client_id, client_secret))))"

subsection \<open>What a client sends\<close>

definition b64_char :: "int \<Rightarrow> char" where
  "b64_char v = b64_alphabet ! nat v"

fun b64_encode :: "int list \<Rightarrow> string" where
  "b64_encode [] = []"
| "b64_encode [a] = [b64_char (a div 4), b64_char (a mod 4 * 16), CHR ''='', CHR ''='']"
| "b64_encode [a, b] = [b64_char (a div 4), b64_char (a mod 4 * 16 + b div 16), b64_char (b mod 16 * 4), CHR ''='']"
| "b64_encode (a # b # c # r) = [b64_char (a div 4), b64_char (a mod 4 * 16 + b div 16),
     b64_char (b mod 16 * 4 + c div 64), b64_char (c mod 64)] @ b64_encode r"

definition utf8_char :: "int \<Rightarrow> int list" where
  "utf8_char u = (if u < 128 then [u]
     else if u < 2048 then [192 + u div 64, 128 + u mod 64]
     else if u < 65536 then [224 + u div 4096, 128 + u div 64 mod 64, 128 + u mod 64]
     else [240 + u div 262144, 128 + u div 4096 mod 64, 128 + u div 64 mod 64, 128 + u mod 64])"

definition utf8_encode :: "ustring \<Rightarrow> int list" where
  "utf8_encode s = concat (map utf8_char s)"

definition basic_header :: "ustring \<Rightarrow> ustring \<Rightarrow> string" where
  "basic_header client_id client_secret = ''Basic '' @ b64_encode (utf8_encode (client_id @ [58] @ client_secret))"

subsection \<open>Round trips\<close>

lemma b64_alphabet_facts: "length b64_alphabet = 64" "distinct b64_alphabet" "CHR ''='' \<notin> set b64_alphabet"
  "\<forall>ch \<in> set b64_alphabet. of_char ch < (128 :: int)"
  by (simp_all add: b64_alphabet_def)

lemma b64_char_in: "0 \<le> v \<Longrightarrow> v < 64 \<Longrightarrow> b64_char v \<in> set b64_alphabet"
  by (simp add: b64_char_def b64_alphabet_facts(1))

lemma b64_value_char [simp]:
  assumes "0 \<le> v" "v < 64"
  shows "b64_value (b64_char v) = Some v"
proof -
  have i: "nat v < length b64_alphabet" using assms by (simp add: b64_alphabet_facts(1))
  have "map_of (zip b64_alphabet (map int [0..<64])) (b64_alphabet ! nat v) = Some (map int [0..<64] ! nat v)"
    by (rule map_of_zip_nth) (use i in \<open>simp_all add: b64_alphabet_facts(1,2)\<close>)
  moreover have "map int [0..<64] ! nat v = v" using assms by (subst nth_map) auto
  ultimately show ?thesis by (simp add: b64_value_def b64_char_def)
qed

lemma b64_char_not_pad [simp]: "0 \<le> v \<Longrightarrow> v < 64 \<Longrightarrow> b64_char v \<noteq> CHR ''=''"
  using b64_char_in b64_alphabet_facts(3) by metis

definition bytes_ok :: "int list \<Rightarrow> bool" where
  "bytes_ok bs \<longleftrightarrow> list_all (\<lambda>b. 0 \<le> b \<and> b < 256) bs"

lemma b64_scan_step:
  assumes "0 \<le> v" "v < 64"
  shows "b64_scan 0 left pads (b64_char v # cs) = b64_scan 1 v 0 cs"
    "b64_scan 1 left pads (b64_char v # cs) = map_option ((#) (left * 4 + v div 16)) (b64_scan 2 (v mod 16) 0 cs)"
    "b64_scan 2 left pads (b64_char v # cs) = map_option ((#) (left * 16 + v div 4)) (b64_scan 3 (v mod 4) 0 cs)"
    "b64_scan 3 left pads (b64_char v # cs) = map_option ((#) (left * 64 + v)) (b64_scan 0 0 0 cs)"
  unfolding b64_scan.simps(2) b64_value_char[OF assms] using b64_char_not_pad[OF assms] by simp_all

lemma b64_scan_pads:
  "b64_scan 2 left 0 [CHR ''='', CHR ''=''] = Some []" "b64_scan 3 left 0 [CHR ''=''] = Some []"
  by simp_all

lemma b64_scan_encode_1:
  assumes "0 \<le> p" "p < 64" "0 \<le> q" "q < 4"
  shows "b64_scan 0 0 0 [b64_char p, b64_char (q * 16), CHR ''='', CHR ''=''] = Some [p * 4 + q]"
proof -
  have q: "0 \<le> q * 16" "q * 16 < 64" using assms by linarith+
  show ?thesis unfolding b64_scan_step(1)[OF assms(1,2)] b64_scan_step(2)[OF q] b64_scan_pads by simp
qed

lemma b64_scan_encode_2:
  assumes "0 \<le> p" "p < 64" "0 \<le> q" "q < 4" "0 \<le> r" "r < 16" "0 \<le> s" "s < 16"
  shows "b64_scan 0 0 0 [b64_char p, b64_char (q * 16 + r), b64_char (s * 4), CHR ''=''] = Some [p * 4 + q, r * 16 + s]"
proof -
  have b: "0 \<le> q * 16 + r" "q * 16 + r < 64" "0 \<le> s * 4" "s * 4 < 64" using assms by linarith+
  have "(q * 16 + r) div 16 = q" "(q * 16 + r) mod 16 = r" using assms(5,6) by simp_all
  then show ?thesis
    unfolding b64_scan_step(1)[OF assms(1,2)] b64_scan_step(2)[OF b(1,2)] b64_scan_step(3)[OF b(3,4)] b64_scan_pads by simp
qed

lemma b64_scan_encode_3:
  assumes "0 \<le> p" "p < 64" "0 \<le> q" "q < 4" "0 \<le> r" "r < 16" "0 \<le> s" "s < 16" "0 \<le> t" "t < 4" "0 \<le> u" "u < 64"
  shows "b64_scan 0 0 0 (b64_char p # b64_char (q * 16 + r) # b64_char (s * 4 + t) # b64_char u # cs) =
    map_option (\<lambda>bs. (p * 4 + q) # (r * 16 + s) # (t * 64 + u) # bs) (b64_scan 0 0 0 cs)"
proof -
  have b: "0 \<le> q * 16 + r" "q * 16 + r < 64" "0 \<le> s * 4 + t" "s * 4 + t < 64" using assms by linarith+
  have "(q * 16 + r) div 16 = q" "(q * 16 + r) mod 16 = r" "(s * 4 + t) div 4 = s" "(s * 4 + t) mod 4 = t"
    using assms(5,6,9,10) by simp_all
  then show ?thesis
    unfolding b64_scan_step(1)[OF assms(1,2)] b64_scan_step(2)[OF b(1,2)] b64_scan_step(3)[OF b(3,4)]
      b64_scan_step(4)[OF assms(11,12)]
    by (simp add: option.map_comp o_def)
qed

lemma byte_bits:
  fixes a :: int
  assumes "0 \<le> a \<and> a < 256"
  shows "0 \<le> a div 4" "a div 4 < 64" "0 \<le> a mod 4" "a mod 4 < 4" "0 \<le> a div 16" "a div 16 < 16" "0 \<le> a mod 16"
    "a mod 16 < 16" "0 \<le> a div 64" "a div 64 < 4" "0 \<le> a mod 64" "a mod 64 < 64"
    "a div 4 * 4 + a mod 4 = a" "a div 16 * 16 + a mod 16 = a" "a div 64 * 64 + a mod 64 = a"
  using assms by presburger+

lemma b64_scan_encode: "bytes_ok bs \<Longrightarrow> b64_scan 0 0 0 (b64_encode bs) = Some bs"
proof (induction bs rule: b64_encode.induct)
  case (2 a)
  then have "0 \<le> a \<and> a < 256" by (simp add: bytes_ok_def)
  note a = byte_bits[OF this]
  show ?case using b64_scan_encode_1[OF a(1-4)] a(13) by (simp only: b64_encode.simps)
next
  case (3 a b)
  then have "0 \<le> a \<and> a < 256" and "0 \<le> b \<and> b < 256" by (simp_all add: bytes_ok_def)
  note a = byte_bits[OF this(1)] and b = byte_bits[OF this(2)]
  show ?case using b64_scan_encode_2[OF a(1-4) b(5-8)] a(13) b(14) by (simp only: b64_encode.simps)
next
  case (4 a b c r)
  then have "0 \<le> a \<and> a < 256" and "0 \<le> b \<and> b < 256" and "0 \<le> c \<and> c < 256" and r: "bytes_ok r"
    by (simp_all add: bytes_ok_def)
  note a = byte_bits[OF this(1)] and b = byte_bits[OF this(2)] and c = byte_bits[OF this(3)]
  show ?case
    using b64_scan_encode_3[OF a(1-4) b(5-8) c(9-12), of "b64_encode r"] a(13) b(14) c(15) "4.IH"[OF r]
    by (simp only: b64_encode.simps append_Cons append_Nil option.map)
qed simp

lemma b64_char_ascii: "0 \<le> v \<Longrightarrow> v < 64 \<Longrightarrow> of_char (b64_char v) < (128 :: int)"
  using b64_char_in b64_alphabet_facts(4) by blast

lemma pad_ascii: "of_char (CHR ''='') < (128 :: int)"
  by simp

lemma b64_encode_ascii: "bytes_ok bs \<Longrightarrow> list_all (\<lambda>ch. of_char ch < (128 :: int)) (b64_encode bs)"
proof (induction bs rule: b64_encode.induct)
  case (2 a)
  then have "0 \<le> a \<and> a < 256" by (simp add: bytes_ok_def)
  note a = byte_bits[OF this]
  have "0 \<le> a mod 4 * 16" "a mod 4 * 16 < 64" using a by linarith+
  note b64_char_ascii[OF a(1,2)] b64_char_ascii[OF this] pad_ascii
  then show ?case by (simp only: b64_encode.simps list.pred_inject simp_thms)
next
  case (3 a b)
  then have "0 \<le> a \<and> a < 256" and "0 \<le> b \<and> b < 256" by (simp_all add: bytes_ok_def)
  note a = byte_bits[OF this(1)] and b = byte_bits[OF this(2)]
  have "0 \<le> a mod 4 * 16 + b div 16" "a mod 4 * 16 + b div 16 < 64" "0 \<le> b mod 16 * 4" "b mod 16 * 4 < 64"
    using a b by linarith+
  note b64_char_ascii[OF a(1,2)] b64_char_ascii[OF this(1,2)] b64_char_ascii[OF this(3,4)] pad_ascii
  then show ?case by (simp only: b64_encode.simps list.pred_inject simp_thms)
next
  case (4 a b c r)
  then have "0 \<le> a \<and> a < 256" and "0 \<le> b \<and> b < 256" and "0 \<le> c \<and> c < 256" and r: "bytes_ok r"
    by (simp_all add: bytes_ok_def)
  note a = byte_bits[OF this(1)] and b = byte_bits[OF this(2)] and c = byte_bits[OF this(3)]
  have "0 \<le> a mod 4 * 16 + b div 16" "a mod 4 * 16 + b div 16 < 64" "0 \<le> b mod 16 * 4 + c div 64"
    "b mod 16 * 4 + c div 64 < 64" using a b c by linarith+
  note b64_char_ascii[OF a(1,2)] b64_char_ascii[OF this(1,2)] b64_char_ascii[OF this(3,4)] b64_char_ascii[OF c(11,12)]
  then show ?case using "4.IH"[OF r] by (simp only: b64_encode.simps list.pred_inject simp_thms append_Cons append_Nil)
qed simp

lemma sextets:
  fixes u :: int
  assumes "0 \<le> u"
  shows "u div 4096 = u div 64 div 64" "u div 262144 = u div 64 div 64 div 64"
    "u = u div 64 div 64 div 64 * 262144 + u div 64 div 64 mod 64 * 4096 + u div 64 mod 64 * 64 + u mod 64"
    "0 \<le> u div 64 div 64 div 64" "0 \<le> u div 64 div 64 mod 64" "u div 64 div 64 mod 64 < 64"
    "0 \<le> u div 64 mod 64" "u div 64 mod 64 < 64" "0 \<le> u mod 64" "u mod 64 < 64"
proof -
  show 1: "u div 4096 = u div 64 div 64" using zdiv_zmult2_eq[of 64 u 64] by simp
  have "u div 262144 = u div 4096 div 64" using zdiv_zmult2_eq[of 64 u 4096] by simp
  then show "u div 262144 = u div 64 div 64 div 64" by (simp add: 1)
  have "u = u div 64 * 64 + u mod 64" "u div 64 = u div 64 div 64 * 64 + u div 64 mod 64"
    "u div 64 div 64 = u div 64 div 64 div 64 * 64 + u div 64 div 64 mod 64" by (simp_all only: div_mult_mod_eq)
  then show "u = u div 64 div 64 div 64 * 262144 + u div 64 div 64 mod 64 * 4096 + u div 64 mod 64 * 64 + u mod 64"
    by linarith
qed (use assms in \<open>simp_all add: pos_imp_zdiv_nonneg_iff\<close>)

text \<open>The sequences of two, three and four bytes, by their digits to the base 64.\<close>

lemma utf8_two:
  assumes "2 \<le> y" "y < 32" "0 \<le> z" "z < 64"
  shows "utf8_decode ([192 + y, 128 + z] @ r) = map_option ((#) (y * 64 + z)) (utf8_decode r)"
  using assms by (simp add: continuation_def)

lemma utf8_three:
  assumes "0 \<le> x" "x < 16" "0 \<le> y" "y < 64" "0 \<le> z" "z < 64" "x = 0 \<longrightarrow> 32 \<le> y" "x = 13 \<longrightarrow> y < 32"
  shows "utf8_decode ([224 + x, 128 + y, 128 + z] @ r) = map_option ((#) (x * 4096 + y * 64 + z)) (utf8_decode r)"
  using assms by (auto simp: continuation_def)

lemma utf8_four:
  assumes "0 \<le> w" "w < 5" "0 \<le> x" "x < 64" "0 \<le> y" "y < 64" "0 \<le> z" "z < 64" "w = 0 \<longrightarrow> 16 \<le> x" "w = 4 \<longrightarrow> x < 16"
  shows "utf8_decode ([240 + w, 128 + x, 128 + y, 128 + z] @ r) =
    map_option ((#) (w * 262144 + x * 4096 + y * 64 + z)) (utf8_decode r)"
  using assms by (auto simp: continuation_def)

text \<open>The encoding by the number of bytes.\<close>

lemma utf8_char_cases:
  assumes "0 \<le> u"
  shows "u < 128 \<Longrightarrow> utf8_char u = [u]"
    "128 \<le> u \<Longrightarrow> u < 2048 \<Longrightarrow> utf8_char u = [192 + u div 64, 128 + u mod 64]"
    "2048 \<le> u \<Longrightarrow> u < 65536 \<Longrightarrow> utf8_char u = [224 + u div 64 div 64, 128 + u div 64 mod 64, 128 + u mod 64]"
    "65536 \<le> u \<Longrightarrow> utf8_char u =
       [240 + u div 64 div 64 div 64, 128 + u div 64 div 64 mod 64, 128 + u div 64 mod 64, 128 + u mod 64]"
  unfolding utf8_char_def sextets(1)[OF assms] sextets(2)[OF assms] by auto

text \<open>The digits of a code point to the base 64, as numbers of their own.\<close>

lemma sextet_digits:
  assumes "0 \<le> (u :: int)"
  obtains w x y z where "u = w * 262144 + x * 4096 + y * 64 + z" "0 \<le> w" "0 \<le> x" "x < 64" "0 \<le> y" "y < 64" "0 \<le> z" "z < 64"
    "u div 64 = w * 4096 + x * 64 + y" "u div 64 div 64 = w * 64 + x" "u div 64 div 64 div 64 = w"
    "u div 64 div 64 mod 64 = x" "u div 64 mod 64 = y" "u mod 64 = z"
proof (rule that)
  note s = sextets[OF assms]
  show "u = u div 64 div 64 div 64 * 262144 + u div 64 div 64 mod 64 * 4096 + u div 64 mod 64 * 64 + u mod 64" by (rule s(3))
  show "u div 64 div 64 = u div 64 div 64 div 64 * 64 + u div 64 div 64 mod 64" by (simp only: div_mult_mod_eq)
  then have "u div 64 div 64 * 64 = u div 64 div 64 div 64 * 4096 + u div 64 div 64 mod 64 * 64" by linarith
  moreover have "u div 64 = u div 64 div 64 * 64 + u div 64 mod 64" by (simp only: div_mult_mod_eq)
  ultimately show "u div 64 = u div 64 div 64 div 64 * 4096 + u div 64 div 64 mod 64 * 64 + u div 64 mod 64" by linarith
qed (rule sextets[OF assms] refl)+

lemma bytes_ok_intros: "bytes_ok []" "0 \<le> b \<Longrightarrow> b < 256 \<Longrightarrow> bytes_ok bs \<Longrightarrow> bytes_ok (b # bs)"
  by (simp_all add: bytes_ok_def)

lemma utf8_char_bytes:
  assumes "scalar u"
  shows "bytes_ok (utf8_char u)"
proof -
  have u: "0 \<le> u" "u < 1114112" using assms by (auto simp: scalar_def)
  obtain w x y z where d: "u = w * 262144 + x * 4096 + y * 64 + z" "0 \<le> w" "0 \<le> x" "x < 64" "0 \<le> y" "y < 64" "0 \<le> z" "z < 64"
    "u div 64 = w * 4096 + x * 64 + y" "u div 64 div 64 = w * 64 + x" "u div 64 div 64 div 64 = w"
    "u div 64 div 64 mod 64 = x" "u div 64 mod 64 = y" "u mod 64 = z"
    by (rule sextet_digits[OF u(1)])
  note e = utf8_char_cases[OF u(1), unfolded d(11,12,14), unfolded d(10,13), unfolded d(9)] and b = d(1-8)
  consider "u < 128" | "128 \<le> u" "u < 2048" | "2048 \<le> u" "u < 65536" | "65536 \<le> u" by linarith
  then show ?thesis
  proof cases
    case 1
    show ?thesis unfolding e(1)[OF 1] by (intro bytes_ok_intros) (use 1 u in linarith)+
  next
    case 2
    show ?thesis unfolding e(2)[OF 2] by (intro bytes_ok_intros) (use 2 b in linarith)+
  next
    case 3
    show ?thesis unfolding e(3)[OF 3] by (intro bytes_ok_intros) (use 3 b in linarith)+
  next
    case 4
    show ?thesis unfolding e(4)[OF 4] by (intro bytes_ok_intros) (use u b in linarith)+
  qed
qed

lemma utf8_encode_bytes: "list_all scalar s \<Longrightarrow> bytes_ok (utf8_encode s)"
  using utf8_char_bytes by (induction s) (auto simp: utf8_encode_def bytes_ok_def)

lemma utf8_decode_char:
  assumes "scalar u"
  shows "utf8_decode (utf8_char u @ r) = map_option ((#) u) (utf8_decode r)"
proof -
  have u: "0 \<le> u" "u < 1114112" "u < 55296 \<or> 57344 \<le> u" using assms by (auto simp: scalar_def)
  obtain w x y z where d: "u = w * 262144 + x * 4096 + y * 64 + z" "0 \<le> w" "0 \<le> x" "x < 64" "0 \<le> y" "y < 64" "0 \<le> z" "z < 64"
    "u div 64 = w * 4096 + x * 64 + y" "u div 64 div 64 = w * 64 + x" "u div 64 div 64 div 64 = w"
    "u div 64 div 64 mod 64 = x" "u div 64 mod 64 = y" "u mod 64 = z"
    by (rule sextet_digits[OF u(1)])
  note e = utf8_char_cases[OF u(1), unfolded d(11,12,14), unfolded d(10,13), unfolded d(9)] and b = d(1-8)
  consider "u < 128" | "128 \<le> u" "u < 2048" | "2048 \<le> u" "u < 65536" | "65536 \<le> u" by linarith
  then show ?thesis
  proof cases
    case 1
    then show ?thesis by (simp add: utf8_char_def)
  next
    case 2
    have w: "w = 0" "x = 0" using 2 b by linarith+
    then have y: "2 \<le> y" "y < 32" using 2 b by linarith+
    have "w * 4096 + x * 64 + y = y" "u = y * 64 + z" using w b(1) by simp_all
    then show ?thesis using utf8_two[OF y b(7,8), of r] unfolding e(2)[OF 2] by (simp only:)
  next
    case 3
    have "w = 0" using 3 b by linarith
    then have w: "w = 0" "x < 16" "x = 0 \<longrightarrow> 32 \<le> y" "x = 13 \<longrightarrow> y < 32" using 3 u(3) b by linarith+
    have "w * 64 + x = x" "u = x * 4096 + y * 64 + z" using w(1) b(1) by simp_all
    then show ?thesis using utf8_three[OF b(3) w(2) b(5-8) w(3,4), of r] unfolding e(3)[OF 3] by (simp only:)
  next
    case 4
    have w: "w < 5" "w = 0 \<longrightarrow> 16 \<le> x" "w = 4 \<longrightarrow> x < 16" using 4 u(2) b by linarith+
    show ?thesis using utf8_four[OF b(2) w(1) b(3-8) w(2,3), of r] unfolding e(4)[OF 4] by (simp only: b(1)[symmetric])
  qed
qed

lemma utf8_decode_encode: "list_all scalar s \<Longrightarrow> utf8_decode (utf8_encode s) = Some s"
  by (induction s) (simp_all add: utf8_encode_def utf8_decode_char del: utf8_decode.simps(2))

lemma partition_colon_append:
  "58 \<notin> set client_id \<Longrightarrow> partition_colon (client_id @ [58] @ client_secret) = (client_id, client_secret)"
  by (induction client_id) (auto simp: partition_colon_def)

text \<open>
  C18.  The credentials a client puts into an HTTP Basic header are the credentials the token endpoint
  reads, for every Unicode text: the lenient base 64 decoder and the strict UTF-8 decoder undo the
  encoders, and the first colon separates the two parts, so a colon in the secret is harmless.
\<close>

theorem basic_auth_roundtrip:
  assumes "list_all scalar client_id" "list_all scalar client_secret"
    and "client_id \<noteq> []" "client_secret \<noteq> []" "58 \<notin> set client_id"
  shows "parse_basic_auth (Some (basic_header client_id client_secret)) = Inr (Some (client_id, client_secret))"
proof -
  let ?text = "client_id @ [58] @ client_secret"
  have ok: "list_all scalar ?text" using assms(1,2) by (simp add: scalar_def)
  have "b64decode (b64_encode (utf8_encode ?text)) = b64_scan 0 0 0 (b64_encode (utf8_encode ?text))"
    using b64_encode_ascii[OF utf8_encode_bytes[OF ok]] unfolding b64decode_def list_all_iff by (rule if_P)
  then have "b64decode (b64_encode (utf8_encode ?text)) = Some (utf8_encode ?text)"
    unfolding b64_scan_encode[OF utf8_encode_bytes[OF ok]] .
  then show ?thesis
    using utf8_decode_encode[OF ok] partition_colon_append[OF assms(5), of client_secret] assms(3,4)
    by (simp add: parse_basic_auth_def basic_header_def)
qed

theorem basic_auth_roundtrip_witness:
  "parse_basic_auth (Some (basic_header [97, 8364] [58, 128512])) = Inr (Some ([97, 8364], [58, 128512]))"
  by (rule basic_auth_roundtrip) (simp_all add: scalar_def)

end
