(* ===== verification/Auth.thy ===== *)
theory Auth
  imports Client_Service Clients_Cache Tokens Basic_Auth
begin

text \<open>
  Authentication: the client-credentials grant (\<^verbatim>\<open>services/auth_service.py\<close> behind
  \<^verbatim>\<open>api/v1/endpoints/auth.py\<close>) and the bearer check of every protected endpoint
  (\<^verbatim>\<open>core/security/auth_dependency.py\<close>).

  Form fields and headers are as FastAPI hands them over, an absent or empty form field as \<open>None\<close>.
  Client identifiers and secrets of a request may hold any character; Postgres takes no NUL in a text
  parameter, so a lookup with one fails in the driver.
\<close>

subsection \<open>The token service behind the endpoint\<close>

definition find_client :: "db \<Rightarrow> ustring \<Rightarrow> app_exception + client option" where
  "find_client D cid = (if 0 \<in> set cid then Inl (UnhandledError ''DBAPIError'')
     else Inr (find (\<lambda>c. codes (c_client_id c) = cid) (t_clients D)))"

definition resolve_scopes :: "client \<Rightarrow> string list option \<Rightarrow> app_exception + string list" where
  "resolve_scopes c requested = (case requested of
     None \<Rightarrow> Inr (sort (remdups (c_scopes c)))
   | Some rs \<Rightarrow>
       let unknown = sort (remdups (filter (\<lambda>s. s \<notin> set (c_scopes c)) rs)) in
       if unknown = [] then Inr (sort (remdups rs)) else Inl (InvalidScopeError unknown))"

definition issue_token :: "db_env \<Rightarrow> 't jwt_api \<Rightarrow> token_service \<Rightarrow> rat \<Rightarrow> string \<Rightarrow> db \<Rightarrow> ustring \<Rightarrow> ustring \<Rightarrow>
    string list option \<Rightarrow> app_exception + 't \<times> int \<times> string list" where
  "issue_token E J T time jti D client_id client_secret requested =
     bind_sum (find_client D client_id) (\<lambda>found. case found of
         None \<Rightarrow> Inl InvalidClientError
       | Some c \<Rightarrow>
           if c_status c \<noteq> client_status_value CLIENT_ACTIVE then Inl InvalidClientError
           else if \<not> list_ex (\<lambda>s. verify_secret E client_secret (s_secret_hash s)) (list_active_secrets D (d_now E) (c_id c))
           then Inl InvalidClientError
           else bind_sum (resolve_scopes c requested) (\<lambda>granted.
             map_sum id (\<lambda>(token, expires_in). (token, expires_in, granted)) (issue J T time jti (c_client_id c) granted)))"

subsection \<open>The endpoint\<close>

record token_request =
  tq_grant_type :: "string option"
  tq_client_id :: "ustring option"
  tq_client_secret :: "ustring option"
  tq_scope :: "string option"
  tq_authorization :: "string option"

record 't token_response =
  tk_access_token :: 't
  tk_token_type :: string
  tk_expires_in :: int
  tk_scope :: string

definition token_credentials :: "token_request \<Rightarrow> app_exception + ustring \<times> ustring" where
  "token_credentials q = bind_sum (parse_basic_auth (tq_authorization q)) (\<lambda>basic. case basic of
       Some p \<Rightarrow>
         if tq_client_id q \<noteq> None \<or> tq_client_secret q \<noteq> None
         then Inl (InvalidRequestError ''Supply credentials via either HTTP Basic or form fields, not both'') else Inr p
     | None \<Rightarrow> (case (tq_client_id q, tq_client_secret q) of
           (Some i, Some s) \<Rightarrow> Inr (i, s)
         | _ \<Rightarrow> Inl (InvalidRequestError ''client_id and client_secret are required (form fields or HTTP Basic)'')))"

definition requested_scopes :: "token_request \<Rightarrow> string list option" where
  "requested_scopes q = (case tq_scope q of None \<Rightarrow> None | Some s \<Rightarrow> if s = [] then None else Some (split_on (CHR '' '') s))"

text \<open>\<open>missing\<close> is what FastAPI reports for a required field that is absent.\<close>

definition token_endpoint :: "json dict list \<Rightarrow> db_env \<Rightarrow> 't jwt_api \<Rightarrow> token_service \<Rightarrow> rat \<Rightarrow> string \<Rightarrow> db \<Rightarrow> token_request \<Rightarrow>
    app_exception + 't token_response" where
  "token_endpoint missing E J T time jti D q = (case tq_grant_type q of
       None \<Rightarrow> Inl (RequestValidationErrorExc missing)
     | Some grant_type \<Rightarrow>
         if grant_type \<noteq> ''client_credentials'' then Inl (InvalidRequestError (''Unsupported grant_type: '' @ py_repr grant_type))
         else bind_sum (token_credentials q) (\<lambda>(i, s).
           map_sum id (\<lambda>(token, expires_in, granted). \<lparr>tk_access_token = token, tk_token_type = ''Bearer'',
               tk_expires_in = expires_in, tk_scope = join '' '' granted\<rparr>)
             (issue_token E J T time jti D i s (requested_scopes q))))"

subsection \<open>Bearer authentication\<close>

record 't bearer =
  b_scheme :: string
  b_credentials :: 't

record authenticated_client =
  ac_pk :: string
  ac_client_id :: string
  ac_scopes :: "string set"

text \<open>A subject that is no string finds no client, or cannot be looked up in a dict.\<close>

definition subject_record :: "clients_cache \<Rightarrow> json \<Rightarrow> app_exception + client_record option" where
  "subject_record C v = (case v of
       JString s \<Rightarrow> Inr (map_option snd (find (\<lambda>p. codes (fst p) = s) (cc_by_client_id C)))
     | JArray _ \<Rightarrow> Inl (UnhandledError ''TypeError'')
     | JObject _ \<Rightarrow> Inl (UnhandledError ''TypeError'')
     | _ \<Rightarrow> Inr None)"

definition require_scope :: "(string \<Rightarrow> string) \<Rightarrow> 't jwt_api \<Rightarrow> token_service \<Rightarrow> rat \<Rightarrow> clients_cache \<Rightarrow> string \<Rightarrow>
    't bearer option \<Rightarrow> app_exception + authenticated_client" where
  "require_scope lower J T time C scope credentials = (case credentials of
       None \<Rightarrow> Inl AuthenticationError
     | Some b \<Rightarrow>
         if lower (b_scheme b) \<noteq> ''bearer'' then Inl AuthenticationError
         else (case verify J T time (b_credentials b) of
             Inl (TokenError _) \<Rightarrow> Inl AuthenticationError
           | Inl (VerifyRaised e) \<Rightarrow> Inl (UnhandledError e)
           | Inr tc \<Rightarrow> bind_sum (subject_record C (tc_client_id tc)) (\<lambda>found. case found of
                 None \<Rightarrow> Inl AuthorizationError
               | Some k \<Rightarrow>
                   if \<not> record_is_active k then Inl AuthorizationError
                   else let effective = {s \<in> set (k_scopes k). codes s \<in> set (tc_scopes tc)} in
                     if scope \<notin> effective then Inl AuthorizationError
                     else Inr \<lparr>ac_pk = k_pk k, ac_client_id = k_client_id k, ac_scopes = effective\<rparr>)))"

subsection \<open>Lookups\<close>

lemma find_codes: "find (\<lambda>c. codes (c_client_id c) = codes s) cs = find (\<lambda>c. c_client_id c = s) cs"
  by (induction cs) (auto simp: codes_inject)

lemma subject_record_loaded:
  assumes "store_ok E D"
  shows "subject_record (load_clients_into_cache now D C) (js s) =
    Inr (map_option serialize_client (get_client_by_client_id D s))"
proof -
  have "map_option snd (find (\<lambda>p. codes (fst p) = codes s) (map (\<lambda>c. (c_client_id c, serialize_client c)) cs)) =
      map_option serialize_client (find (\<lambda>c. c_client_id c = s) cs)" for cs :: "client list"
    by (induction cs) (auto simp: codes_inject)
  then show ?thesis by (simp add: subject_record_def js_def loaded_by_client_id[OF assms] get_client_by_client_id_def)
qed

lemma find_client_of:
  assumes "store_ok E D" "c \<in> set (t_clients D)" "codes (c_client_id c) = cid" "0 \<notin> set cid"
  shows "find_client D cid = Inr (Some c)"
proof -
  have "find (\<lambda>x. c_client_id x = c_client_id c) (t_clients D) = Some c"
    using store_ok_ids(6)[OF assms(1)] assms(2) by (intro find_unique) auto
  then show ?thesis using assms(4) by (simp add: find_client_def assms(3)[symmetric] find_codes)
qed

lemma find_client_Some: "find_client D cid = Inr (Some c) \<Longrightarrow> c \<in> set (t_clients D) \<and> codes (c_client_id c) = cid"
  by (auto simp: find_client_def dest: find_SomeD split: if_splits)

text \<open>The credentials of a client: the specification of the grant.\<close>

definition authenticates :: "db_env \<Rightarrow> db \<Rightarrow> ustring \<Rightarrow> ustring \<Rightarrow> client \<Rightarrow> bool" where
  "authenticates E D cid secret c \<longleftrightarrow> c \<in> set (t_clients D) \<and> codes (c_client_id c) = cid \<and> c_status c = ''active''
     \<and> (\<exists>s \<in> set (t_secrets D). s_client_pk s = c_id c \<and> secret_active (d_now E) s \<and> s_secret_hash s = d_sha256 E secret)"

lemma active_secret_matches:
  "list_ex (\<lambda>s. verify_secret E secret (s_secret_hash s)) (list_active_secrets D now pk) \<longleftrightarrow>
     (\<exists>s \<in> set (t_secrets D). s_client_pk s = pk \<and> secret_active now s \<and> s_secret_hash s = d_sha256 E secret)"
  by (auto simp: list_ex_iff list_active_secrets_def verify_secret_def hash_secret_def)

lemma issue_token_authenticated:
  assumes "store_ok E D" "0 \<notin> set cid" "authenticates E D cid secret c"
  shows "issue_token E J T time jti D cid secret requested = bind_sum (resolve_scopes c requested) (\<lambda>granted.
    map_sum id (\<lambda>(token, expires_in). (token, expires_in, granted)) (issue J T time jti (c_client_id c) granted))"
  using assms find_client_of[OF assms(1)] active_secret_matches[of E secret D "d_now E" "c_id c"]
  by (auto simp: issue_token_def authenticates_def)

lemma issue_token_rejected:
  assumes "0 \<notin> set cid" "\<nexists>c. authenticates E D cid secret c"
  shows "issue_token E J T time jti D cid secret requested = Inl InvalidClientError"
proof (cases "find (\<lambda>c. codes (c_client_id c) = cid) (t_clients D)")
  case None
  then show ?thesis using assms(1) by (simp add: issue_token_def find_client_def)
next
  case (Some c)
  then have f: "find_client D cid = Inr (Some c)" using assms(1) by (simp add: find_client_def)
  have "\<not> authenticates E D cid secret c" using assms(2) by blast
  then have "c_status c \<noteq> ''active'' \<or>
      \<not> list_ex (\<lambda>s. verify_secret E secret (s_secret_hash s)) (list_active_secrets D (d_now E) (c_id c))"
    unfolding authenticates_def active_secret_matches using find_client_Some[OF f] by blast
  then show ?thesis by (auto simp: issue_token_def f)
qed

lemma resolve_scopes_Inr:
  "resolve_scopes c requested = Inr granted \<Longrightarrow> set granted \<subseteq> set (c_scopes c) \<and>
     set granted = (case requested of None \<Rightarrow> set (c_scopes c) | Some rs \<Rightarrow> set rs)"
proof (cases requested)
  case (Some rs)
  assume r: "resolve_scopes c requested = Inr granted"
  let ?unknown = "sort (remdups (filter (\<lambda>s. s \<notin> set (c_scopes c)) rs))"
  have "?unknown = []" "granted = sort (remdups rs)" using r Some by (auto simp: resolve_scopes_def Let_def split: if_splits)
  moreover have "set ?unknown = {s \<in> set rs. s \<notin> set (c_scopes c)}" by simp
  ultimately show ?thesis using Some by auto
qed (auto simp: resolve_scopes_def)

text \<open>The scopes a request asks for.\<close>

definition asked_scopes :: "client \<Rightarrow> string list option \<Rightarrow> string list" where
  "asked_scopes c requested = (case requested of None \<Rightarrow> c_scopes c | Some rs \<Rightarrow> rs)"

lemma resolve_scopes_asked:
  "set (asked_scopes c requested) \<subseteq> set (c_scopes c) \<Longrightarrow>
     \<exists>granted. resolve_scopes c requested = Inr granted \<and> set granted = set (asked_scopes c requested)"
  "\<not> set (asked_scopes c requested) \<subseteq> set (c_scopes c) \<Longrightarrow>
     \<exists>unknown. unknown \<noteq> [] \<and> resolve_scopes c requested = Inl (InvalidScopeError unknown)
       \<and> set unknown = set (asked_scopes c requested) - set (c_scopes c)"
proof -
  let ?unknown = "sort (remdups (filter (\<lambda>s. s \<notin> set (c_scopes c)) (asked_scopes c requested)))"
  have u: "set ?unknown = set (asked_scopes c requested) - set (c_scopes c)" by auto
  then have e: "?unknown = [] \<longleftrightarrow> set (asked_scopes c requested) \<subseteq> set (c_scopes c)" by (metis Diff_eq_empty_iff set_empty)
  show "set (asked_scopes c requested) \<subseteq> set (c_scopes c) \<Longrightarrow>
     \<exists>granted. resolve_scopes c requested = Inr granted \<and> set granted = set (asked_scopes c requested)"
    using e by (cases requested) (simp_all add: resolve_scopes_def asked_scopes_def)
  show "\<not> set (asked_scopes c requested) \<subseteq> set (c_scopes c) \<Longrightarrow>
     \<exists>unknown. unknown \<noteq> [] \<and> resolve_scopes c requested = Inl (InvalidScopeError unknown)
       \<and> set unknown = set (asked_scopes c requested) - set (c_scopes c)"
  proof (cases requested)
    case (Some rs)
    assume "\<not> set (asked_scopes c requested) \<subseteq> set (c_scopes c)"
    with e have "?unknown \<noteq> []" by blast
    moreover from this have "resolve_scopes c requested = Inl (InvalidScopeError ?unknown)"
      using Some by (simp only: resolve_scopes_def asked_scopes_def option.case Let_def if_False)
    ultimately show ?thesis using u by blast
  qed (simp add: asked_scopes_def)
qed

lemma client_scope_words:
  assumes "store_ok E D" "c \<in> set (t_clients D)" "set ss \<subseteq> set (c_scopes c)"
  shows "list_all scope_word ss"
proof -
  have "set (c_scopes c) \<subseteq> {''check'', ''admin''}"
    using assms(1,2) by (auto simp: store_ok_def integrity_def clients_integrity_def list_all_iff ck_clients_def)
  with assms(3) have "set ss \<subseteq> {''check'', ''admin''}" by blast
  moreover have "scope_word ''check''" "scope_word ''admin''" by (simp_all add: scope_word_def)
  ultimately show ?thesis by (auto simp: list_all_iff)
qed

lemma issued_token_cases:
  assumes "store_ok E D" "issue_token E J T time jti D cid secret requested = Inr (token, ttl, granted)"
  obtains c where "authenticates E D cid secret c" "resolve_scopes c requested = Inr granted"
    "issue J T time jti (c_client_id c) granted = Inr (token, ttl)"
proof -
  have n: "0 \<notin> set cid" using assms(2) by (auto simp: issue_token_def find_client_def)
  obtain c where c: "authenticates E D cid secret c" using issue_token_rejected[OF n, of E D secret J T time jti requested] assms(2) by force
  show ?thesis
    using assms(2) unfolding issue_token_authenticated[OF assms(1) n c]
    by (auto simp: bind_sum_Inr map_sum_Inr intro: that[OF c])
qed

text \<open>What an issued token opens, given what the cache says of its subject.\<close>

lemma require_scope_issued:
  assumes "jwt_library J" "issue J T time jti name granted = Inr (token, ttl)" "same_realm T T'" "list_all scope_word granted"
    and "lower scheme = ''bearer''" "subject_record C (js name) = Inr found"
  shows "require_scope lower J T' time' C scope (Some \<lparr>b_scheme = scheme, b_credentials = token\<rparr>) =
    (if \<not> token_live T time time' then Inl AuthenticationError
     else case found of None \<Rightarrow> Inl AuthorizationError
       | Some k \<Rightarrow> if record_is_active k \<and> scope \<in> set granted \<inter> set (k_scopes k)
           then Inr \<lparr>ac_pk = k_pk k, ac_client_id = k_client_id k, ac_scopes = set granted \<inter> set (k_scopes k)\<rparr>
           else Inl AuthorizationError)"
proof -
  have m: "{s \<in> set ss. codes s \<in> codes ` set granted} = set granted \<inter> set ss" for ss by (auto simp: codes_inject)
  show ?thesis
    using m by (simp add: require_scope_def assms(5,6) jwt_library.verify_issued[OF assms(1-4)] Let_def split: option.splits)
qed

subsection \<open>Properties\<close>

text \<open>The specification of the endpoint: where a request's credentials come from.\<close>

definition basic_scheme :: "token_request \<Rightarrow> bool" where
  "basic_scheme q \<longleftrightarrow> (\<exists>rest. tq_authorization q = Some (''Basic '' @ rest))"

definition supplies :: "token_request \<Rightarrow> ustring \<Rightarrow> ustring \<Rightarrow> bool" where
  "supplies q i s \<longleftrightarrow> (if basic_scheme q
     then parse_basic_auth (tq_authorization q) = Inr (Some (i, s)) \<and> tq_client_id q = None \<and> tq_client_secret q = None
     else tq_client_id q = Some i \<and> tq_client_secret q = Some s)"

lemma basic_scheme_take: "tq_authorization q = Some h \<Longrightarrow> basic_scheme q \<longleftrightarrow> take 6 h = ''Basic ''"
proof
  assume "tq_authorization q = Some h" "take 6 h = ''Basic ''"
  then have "tq_authorization q = Some (''Basic '' @ drop 6 h)" by (metis append_take_drop_id)
  then show "basic_scheme q" unfolding basic_scheme_def by blast
qed (auto simp: basic_scheme_def)

lemma parse_basic_cases:
  "\<not> basic_scheme q \<Longrightarrow> parse_basic_auth (tq_authorization q) = Inr None"
  "basic_scheme q \<Longrightarrow> parse_basic_auth (tq_authorization q) = Inl malformed_basic
     \<or> (\<exists>p. parse_basic_auth (tq_authorization q) = Inr (Some p))"
  by (auto simp: parse_basic_auth_def basic_scheme_take Let_def split: option.splits prod.splits)
    (auto simp: basic_scheme_def)

lemma token_credentials_cases:
  "parse_basic_auth (tq_authorization q) = Inl malformed_basic \<Longrightarrow> token_credentials q = Inl malformed_basic"
  "parse_basic_auth (tq_authorization q) = Inr (Some p) \<Longrightarrow> token_credentials q =
     (if tq_client_id q = None \<and> tq_client_secret q = None then Inr p
      else Inl (InvalidRequestError ''Supply credentials via either HTTP Basic or form fields, not both''))"
  "parse_basic_auth (tq_authorization q) = Inr None \<Longrightarrow> token_credentials q = (case (tq_client_id q, tq_client_secret q) of
     (Some i, Some s) \<Rightarrow> Inr (i, s)
   | _ \<Rightarrow> Inl (InvalidRequestError ''client_id and client_secret are required (form fields or HTTP Basic)''))"
  by (auto simp: token_credentials_def)

lemma token_credentials_supplied: "token_credentials q = Inr (i, s) \<longleftrightarrow> supplies q i s"
proof (cases "basic_scheme q")
  case True
  from parse_basic_cases(2)[OF True] True show ?thesis
    by (elim disjE exE) (simp_all add: token_credentials_cases(1,2) supplies_def)
next
  case False
  from token_credentials_cases(3)[OF parse_basic_cases(1)[OF False]] False show ?thesis
    by (simp add: supplies_def split: option.split)
qed

lemma token_credentials_refused:
  assumes "\<nexists>i s. supplies q i s"
  shows "\<exists>m. token_credentials q = Inl (InvalidRequestError m)"
proof -
  have "token_credentials q \<noteq> Inr p" for p using assms token_credentials_supplied[of q "fst p" "snd p"] by simp
  moreover have "\<exists>m. token_credentials q = Inl (InvalidRequestError m) \<or> (\<exists>p. token_credentials q = Inr p)"
  proof (cases "basic_scheme q")
    case True
    from parse_basic_cases(2)[OF True] show ?thesis
      by (elim disjE exE) (simp_all add: token_credentials_cases(1,2) malformed_basic_def)
  next
    case False
    from token_credentials_cases(3)[OF parse_basic_cases(1)[OF False]] show ?thesis by (simp split: option.split)
  qed
  ultimately show ?thesis by blast
qed

text \<open>What a client that has authenticated is answered.\<close>

definition answers_client :: "'t jwt_api \<Rightarrow> token_service \<Rightarrow> string \<Rightarrow> rat \<Rightarrow> string \<Rightarrow> client \<Rightarrow> string list \<Rightarrow>
    app_exception + 't token_response \<Rightarrow> bool" where
  "answers_client J T key time jti c asked answer \<longleftrightarrow> (let granted = sort (remdups asked) in
     if set asked \<subseteq> set (c_scopes c)
     then answer = Inr \<lparr>tk_access_token =
            jwt_encode J (token_claims_of T \<lfloor>time\<rfloor> jti (c_client_id c) granted) key (ts_active_kid T),
          tk_token_type = ''Bearer'', tk_expires_in = ts_ttl_seconds T, tk_scope = join '' '' granted\<rparr>
     else \<exists>unknown. answer = Inl (InvalidScopeError unknown) \<and> set unknown = set asked - set (c_scopes c))"

lemma issue_token_nul: "0 \<in> set cid \<Longrightarrow> issue_token E J T time jti D cid secret requested = Inl (UnhandledError ''DBAPIError'')"
  by (simp add: issue_token_def find_client_def)

text \<open>What the endpoint answers once the client is known.\<close>

lemma issue_token_scopes:
  assumes "store_ok E D" "0 \<notin> set cid" "authenticates E D cid secret c" "map_of (ts_signing_keys T) (ts_active_kid T) = Some key"
  shows "if set (asked_scopes c requested) \<subseteq> set (c_scopes c)
     then issue_token E J T time jti D cid secret requested =
       (let granted = sort (remdups (asked_scopes c requested)) in
        Inr (jwt_encode J (token_claims_of T \<lfloor>time\<rfloor> jti (c_client_id c) granted) key (ts_active_kid T), ts_ttl_seconds T, granted))
     else \<exists>unknown. issue_token E J T time jti D cid secret requested = Inl (InvalidScopeError unknown)
       \<and> set unknown = set (asked_scopes c requested) - set (c_scopes c)"
proof (cases "set (asked_scopes c requested) \<subseteq> set (c_scopes c)")
  case True
  from resolve_scopes_asked(1)[OF True] have "resolve_scopes c requested = Inr (sort (remdups (asked_scopes c requested)))"
    by (cases requested) (auto simp: resolve_scopes_def asked_scopes_def Let_def split: if_splits)
  then show ?thesis using True by (simp add: issue_token_authenticated[OF assms(1-3)] issue_def assms(4) Let_def)
next
  case False
  then show ?thesis using resolve_scopes_asked(2)[OF False] by (auto simp: issue_token_authenticated[OF assms(1-3)])
qed

text \<open>
  C19.  What \<^verbatim>\<open>POST /auth/token\<close> answers, on every path.  Without a grant type the request is not valid;
  with another one than \<^verbatim>\<open>client_credentials\<close>, or unless it supplies its credentials in exactly one way,
  in a well-formed Basic header or in both form fields, it is an \<^verbatim>\<open>invalid_request\<close>.  A token is granted
  exactly for a registered active client with an active secret of the supplied hash that asks for
  registered scopes only, or for none, which means all; it carries precisely those scopes, is
  signed for this client under the active key, and the response lists them and the lifetime.  Every
  failure of the credentials, an unknown client, a disabled one, a wrong, expired or revoked secret,
  is the same \<^verbatim>\<open>invalid_client\<close>, and only a client that has authenticated learns that a scope is not
  registered.  A NUL in the identifier is an error of the driver.
\<close>

theorem token_grant_conditions:
  assumes "store_ok E D" "map_of (ts_signing_keys T) (ts_active_kid T) = Some key"
  shows "let answer = token_endpoint missing E J T time jti D q in
    if tq_grant_type q = None then answer = Inl (RequestValidationErrorExc missing)
    else if tq_grant_type q \<noteq> Some ''client_credentials'' \<or> (\<nexists>i s. supplies q i s) then \<exists>m. answer = Inl (InvalidRequestError m)
    else \<exists>i s. supplies q i s \<and>
      (if 0 \<in> set i then answer = Inl (UnhandledError ''DBAPIError'')
       else if \<nexists>c. authenticates E D i s c then answer = Inl InvalidClientError
       else \<exists>c. authenticates E D i s c \<and> answers_client J T key time jti c (asked_scopes c (requested_scopes q)) answer)"
proof (cases "tq_grant_type q = Some ''client_credentials'' \<and> (\<exists>i s. supplies q i s)")
  case False
  then show ?thesis
    using token_credentials_refused[of q] by (auto simp: token_endpoint_def Let_def split: option.splits)
next
  case True
  then obtain i s where i: "supplies q i s" and g: "tq_grant_type q = Some ''client_credentials''" by blast
  let ?issued = "issue_token E J T time jti D i s (requested_scopes q)"
  have e: "token_endpoint missing E J T time jti D q = map_sum id (\<lambda>(token, expires_in, granted). \<lparr>tk_access_token = token,
      tk_token_type = ''Bearer'', tk_expires_in = expires_in, tk_scope = join '' '' granted\<rparr>) ?issued"
    using token_credentials_supplied[of q i s] i by (simp add: token_endpoint_def g)
  consider (nul) "0 \<in> set i" | (wrong) "0 \<notin> set i" "\<nexists>c. authenticates E D i s c"
    | (known) c where "0 \<notin> set i" "authenticates E D i s c" by blast
  then show ?thesis
  proof cases
    case nul
    then show ?thesis using g i by (auto simp: Let_def e issue_token_nul)
  next
    case wrong
    then show ?thesis using g i by (auto simp: Let_def e issue_token_rejected)
  next
    case known
    have "answers_client J T key time jti c (asked_scopes c (requested_scopes q)) (token_endpoint missing E J T time jti D q)"
      using issue_token_scopes[OF assms(1) known assms(2), of "requested_scopes q" J time jti]
      unfolding answers_client_def Let_def e by (auto split: if_splits)
    then show ?thesis using g i known by (auto simp: Let_def)
  qed
qed

text \<open>A token service with a rotated keyring, and the demonstration client's credentials.\<close>

definition demo_tokens :: token_service where
  "demo_tokens = \<lparr>ts_signing_keys = [(''k1'', ''first key'')], ts_active_kid = ''k1'', ts_issuer = ''rate-limiter'',
     ts_audience = ''rate-limiter'', ts_ttl_seconds = 600\<rparr>"

definition demo_rotated :: token_service where
  "demo_rotated = \<lparr>ts_signing_keys = [(''k2'', ''second key''), (''k1'', ''first key'')], ts_active_kid = ''k2'',
     ts_issuer = ''rate-limiter'', ts_audience = ''rate-limiter'', ts_ttl_seconds = 600\<rparr>"

lemma demo_keys: "map_of (ts_signing_keys demo_tokens) (ts_active_kid demo_tokens) = Some ''first key''"
  "same_realm demo_tokens demo_rotated" "ts_ttl_seconds demo_tokens = 600"
  by (simp_all add: demo_tokens_def demo_rotated_def same_realm_def)

lemma char_codes [simp]: "map char_of (codes s) = s"
  by (simp add: codes_def o_def)

lemma demo_authenticates: "authenticates demo_db_env demo_store (codes ''acme'') (codes ''pw'') demo_client"
  by (simp add: authenticates_def demo_store_def demo_rows secret_active_def)

lemma demo_authenticates_only: "authenticates demo_db_env demo_store cid secret c \<Longrightarrow> c = demo_client"
  by (simp add: authenticates_def demo_store_def)

lemma codes_no_nul: "0 \<notin> set (codes ''acme'')"
  by (simp add: codes_def)

definition demo_grant :: token_request where
  "demo_grant = \<lparr>tq_grant_type = Some ''client_credentials'', tq_client_id = Some (codes ''acme''),
     tq_client_secret = Some (codes ''pw''), tq_scope = Some ''check'', tq_authorization = None\<rparr>"

theorem token_grant_conditions_witness:
  "token_endpoint [] demo_db_env ref_jwt demo_tokens 1000 ''j1'' demo_store demo_grant =
     Inr \<lparr>tk_access_token = (token_claims_of demo_tokens 1000 ''j1'' ''acme'' [''check''], ''first key'', ''k1''),
       tk_token_type = ''Bearer'', tk_expires_in = 600, tk_scope = ''check''\<rparr>
   \<and> token_endpoint [] demo_db_env ref_jwt demo_tokens 1000 ''j1'' demo_store
       (demo_grant\<lparr>tq_authorization := Some ''Basic YWNtZTpwdw==''\<rparr>) \<in> {Inl (InvalidRequestError m) | m. True}"
proof
  have s: "supplies demo_grant i s \<longleftrightarrow> i = codes ''acme'' \<and> s = codes ''pw''" for i s
    by (auto simp: supplies_def basic_scheme_def demo_grant_def)
  have g: "tq_grant_type demo_grant = Some ''client_credentials''" "requested_scopes demo_grant = Some [''check'']"
    by (simp_all add: demo_grant_def requested_scopes_def)
  have a: "authenticates demo_db_env demo_store (codes ''acme'') (codes ''pw'') c \<longleftrightarrow> c = demo_client" for c
    using demo_authenticates demo_authenticates_only by blast
  have c: "asked_scopes demo_client (Some [''check'']) = [''check'']" "c_scopes demo_client = [''check'']" "c_client_id demo_client = ''acme''"
    by (simp_all add: asked_scopes_def demo_client_def)
  show "token_endpoint [] demo_db_env ref_jwt demo_tokens 1000 ''j1'' demo_store demo_grant =
     Inr \<lparr>tk_access_token = (token_claims_of demo_tokens 1000 ''j1'' ''acme'' [''check''], ''first key'', ''k1''),
       tk_token_type = ''Bearer'', tk_expires_in = 600, tk_scope = ''check''\<rparr>"
    using token_grant_conditions[OF demo_store_ok demo_keys(1), of "[]" ref_jwt 1000 "''j1''" demo_grant]
    by (simp add: Let_def answers_client_def s g a c codes_no_nul demo_keys(3)) (simp add: ref_jwt_def demo_tokens_def)
  let ?q = "demo_grant\<lparr>tq_authorization := Some ''Basic YWNtZTpwdw==''\<rparr>"
  have "basic_scheme ?q" "tq_client_id ?q \<noteq> None" by (simp_all add: basic_scheme_def demo_grant_def)
  then have "\<nexists>i s. supplies ?q i s" by (simp add: supplies_def)
  moreover have "tq_grant_type ?q = Some ''client_credentials''" by (simp add: g(1))
  ultimately show "token_endpoint [] demo_db_env ref_jwt demo_tokens 1000 ''j1'' demo_store ?q \<in> {Inl (InvalidRequestError m) | m. True}"
    using token_grant_conditions[OF demo_store_ok demo_keys(1), of "[]" ref_jwt 1000 "''j1''" ?q]
    by (auto simp: Let_def)
qed

text \<open>
  C20.  What an issued token is worth later, at a service that may have rotated its keys and whose cache
  holds a later state of the clients: nothing before its issue or after its expiry, each by more than
  30 seconds (401); otherwise the scopes that were granted and that the client still has, if it is
  still active; the required scope must be among them (403 otherwise).  So disabling a client or
  taking a scope away is effective with the next poll, for tokens already issued.
\<close>

theorem issued_token_access:
  assumes "jwt_library J" "store_ok E D" "issue_token E J T time jti D cid secret requested = Inr (token, ttl, granted)"
    and "same_realm T T'" "lower scheme = ''bearer''"
    and "store_ok E' D'" "get_client_by_client_id D' name = Some c'" "codes name = cid"
  shows "require_scope lower J T' time' (load_clients_into_cache n D' C) scope (Some \<lparr>b_scheme = scheme, b_credentials = token\<rparr>) =
    (if \<not> token_live T time time' then Inl AuthenticationError
     else if c_status c' = ''active'' \<and> scope \<in> set granted \<inter> set (c_scopes c')
     then Inr \<lparr>ac_pk = c_id c', ac_client_id = name, ac_scopes = set granted \<inter> set (c_scopes c')\<rparr>
     else Inl AuthorizationError)"
proof -
  obtain c where a: "authenticates E D cid secret c" and g: "resolve_scopes c requested = Inr granted"
    and i: "issue J T time jti (c_client_id c) granted = Inr (token, ttl)"
    by (rule issued_token_cases[OF assms(2,3)])
  have c: "c \<in> set (t_clients D)" "c_client_id c = name"
    using a assms(8) by (auto simp: authenticates_def codes_inject[symmetric])
  have "list_all scope_word granted"
    using client_scope_words[OF assms(2) c(1)] resolve_scopes_Inr[OF g] by blast
  note i' = i[unfolded c(2)] and w = this
  have "subject_record (load_clients_into_cache n D' C) (js name) = Inr (Some (serialize_client c'))"
    using subject_record_loaded[OF assms(6)] assms(7) by simp
  from require_scope_issued[OF assms(1) i' assms(4) w, where lower = lower and scheme = scheme, OF assms(5) this]
  show ?thesis using get_client_in[OF assms(7)] by (simp add: record_is_active_def)
qed

theorem issued_token_access_witness:
  "require_scope id ref_jwt demo_rotated 1500 (load_clients_into_cache 0 demo_store empty_clients_cache) ''check''
     (Some \<lparr>b_scheme = ''bearer'', b_credentials = (token_claims_of demo_tokens 1000 ''j1'' ''acme'' [''check''], ''first key'', ''k1'')\<rparr>)
   = Inr \<lparr>ac_pk = ''c1'', ac_client_id = ''acme'', ac_scopes = {''check''}\<rparr>"
proof -
  have i: "issue_token demo_db_env ref_jwt demo_tokens 1000 ''j1'' demo_store (codes ''acme'') (codes ''pw'') None =
    Inr ((token_claims_of demo_tokens 1000 ''j1'' ''acme'' [''check''], ''first key'', ''k1''), 600, [''check''])"
    unfolding issue_token_authenticated[OF demo_store_ok codes_no_nul demo_authenticates]
    by (simp add: resolve_scopes_def demo_client_def issue_def demo_keys ref_jwt_def) (simp add: demo_tokens_def)
  have g: "get_client_by_client_id demo_store ''acme'' = Some demo_client"
    by (simp add: get_client_by_client_id_def demo_store_def demo_client_def)
  have l: "token_live demo_tokens 1000 1500" by (simp add: token_live_def demo_keys)
  have c: "c_status demo_client = ''active''" "c_scopes demo_client = [''check'']" "c_id demo_client = ''c1''"
    by (simp_all add: demo_client_def)
  show ?thesis
    using issued_token_access[OF ref_jwt.jwt_library_axioms demo_store_ok i demo_keys(2) _ demo_store_ok g refl,
        where lower = id and scheme = "''bearer''" and time' = 1500 and n = 0 and C = empty_clients_cache and scope = "''check''"]
    by (simp add: l c)
qed

text \<open>
  Whoever is admitted is a current client: the header names a key of the ring, the token decodes with
  it, and the client is an active row of the table the cache was last loaded from.
\<close>

lemma access_is_current:
  assumes "store_ok E D"
    and "require_scope lower J T time (load_clients_into_cache n D C) scope credentials = Inr ac"
  shows "\<exists>b kid key cs c. credentials = Some b \<and> jwt_header_kid J (b_credentials b) = Some (Some kid)
    \<and> map_of (ts_signing_keys T) kid = Some key
    \<and> jwt_decode J (b_credentials b) key (verify_options T) time = Some cs \<and> map_of cs ''sub'' = Some (js (ac_client_id ac))
    \<and> c \<in> set (t_clients D) \<and> c_client_id c = ac_client_id ac \<and> c_id c = ac_pk ac \<and> c_status c = ''active''
    \<and> scope \<in> ac_scopes ac \<and> ac_scopes ac \<subseteq> set (c_scopes c)"
proof -
  obtain b tc where b: "credentials = Some b" and v: "verify J T time (b_credentials b) = Inr tc"
    using assms(2) by (auto simp: require_scope_def split: option.splits if_splits sum.splits verify_error.splits)
  let ?C = "load_clients_into_cache n D C"
  obtain k where k: "subject_record ?C (tc_client_id tc) = Inr (Some k)" "record_is_active k"
    "ac = \<lparr>ac_pk = k_pk k, ac_client_id = k_client_id k, ac_scopes = {s \<in> set (k_scopes k). codes s \<in> set (tc_scopes tc)}\<rparr>"
    "scope \<in> ac_scopes ac"
    using assms(2) b v by (auto simp: require_scope_def bind_sum_Inr Let_def split: option.splits if_splits)
  obtain kid key cs where j: "jwt_header_kid J (b_credentials b) = Some (Some kid)" "map_of (ts_signing_keys T) kid = Some key"
    "jwt_decode J (b_credentials b) key (verify_options T) time = Some cs" "map_of cs ''sub'' = Some (tc_client_id tc)"
    using v by (auto simp: verify_def bind_sum_Inr claim_def bind_eq_Some_conv split: option.splits)
  obtain s where s: "tc_client_id tc = JString s" using k(1) by (auto simp: subject_record_def split: json.splits)
  obtain c where c: "c \<in> set (t_clients D)" "codes (c_client_id c) = s" "k = serialize_client c"
    using k(1) s loaded_by_client_id[OF assms(1), of n C] find_SomeD
    by (fastforce simp: subject_record_def)
  have "tc_client_id tc = js (ac_client_id ac)" using s c by (simp add: k(3) js_def)
  then show ?thesis using b j c k(2-4) by (auto simp: record_is_active_def)
qed

end
