(* ===== verification/Admin_Http.thy ===== *)
theory Admin_Http
  imports Admin_Api Auth
begin

text \<open>
  The admin endpoints as HTTP: the routers of \<^verbatim>\<open>api/v1/endpoints/rules.py\<close>, \<^verbatim>\<open>groups.py\<close>, \<^verbatim>\<open>clients.py\<close>
  and \<^verbatim>\<open>algorithms.py\<close>, the response models of \<^verbatim>\<open>dto/\<close>, and the error envelope of
  \<^verbatim>\<open>core/exceptions.py\<close>, behind the bearer check of each router.  Requests are past pydantic's
  validation of their fields.
\<close>

subsection \<open>Response models\<close>

record algorithm_summary =
  as_id :: string
  as_name :: string

record rule_response =
  rp_id :: string
  rp_client_id :: string
  rp_endpoint :: string
  rp_identifier_types :: "string list"
  rp_identifier_signature :: string
  rp_algorithm :: algorithm_summary
  rp_params :: params
  rp_status :: string
  rp_priority :: int
  rp_version :: int
  rp_group_id :: "string option"
  rp_overrides :: "params option"
  rp_created_by :: string
  rp_updated_by :: "string option"
  rp_created_at :: int
  rp_updated_at :: int

record group_response =
  gp_id :: string
  gp_client_id :: string
  gp_name :: string
  gp_description :: "string option"
  gp_algorithm :: algorithm_summary
  gp_identifier_types :: "string list"
  gp_identifier_signature :: string
  gp_params :: params
  gp_priority :: int
  gp_created_by :: string
  gp_updated_by :: "string option"
  gp_created_at :: int
  gp_updated_at :: int

record client_response =
  cp_id :: string
  cp_client_id :: string
  cp_name :: string
  cp_description :: "string option"
  cp_status :: string
  cp_scopes :: "string list"
  cp_created_at :: int
  cp_updated_at :: int

record secret_response =
  sp_id :: string
  sp_secret_hint :: string
  sp_created_at :: int
  sp_expires_at :: "int option"
  sp_revoked_at :: "int option"

record algorithm_response =
  ap_id :: string
  ap_name :: string
  ap_description :: "string option"
  ap_param_schema :: json

record 'a listing =
  li_items :: "'a list"
  li_page :: int
  li_page_size :: int
  li_total :: nat

text \<open>The related rows that the repositories load eagerly; a foreign key guarantees each of them.\<close>

definition related :: "'a option \<Rightarrow> app_exception + 'a" where
  "related x = (case x of None \<Rightarrow> Inl (UnhandledError ''AttributeError'') | Some a \<Rightarrow> Inr a)"

definition algorithm_summary_of :: "algorithm \<Rightarrow> algorithm_summary" where
  "algorithm_summary_of a = \<lparr>as_id = a_id a, as_name = a_name a\<rparr>"

definition build_rule_response :: "db \<Rightarrow> rule \<Rightarrow> app_exception + rule_response" where
  "build_rule_response D r =
     bind_sum (related (get_algorithm_by_id D (r_algorithm_id r))) (\<lambda>a.
     bind_sum (related (get_client_by_pk D (r_client_id r))) (\<lambda>c.
     Inr \<lparr>rp_id = r_id r, rp_client_id = c_client_id c, rp_endpoint = r_endpoint r,
       rp_identifier_types = r_identifier_types r, rp_identifier_signature = r_identifier_signature r,
       rp_algorithm = algorithm_summary_of a, rp_params = r_params r, rp_status = r_status r, rp_priority = r_priority r,
       rp_version = r_version r, rp_group_id = r_group_id r, rp_overrides = r_overrides r, rp_created_by = r_created_by r,
       rp_updated_by = r_updated_by r, rp_created_at = r_created_at r, rp_updated_at = r_updated_at r\<rparr>))"

definition build_rule_group_response :: "db \<Rightarrow> rule_group \<Rightarrow> app_exception + group_response" where
  "build_rule_group_response D g =
     bind_sum (related (get_algorithm_by_id D (g_algorithm_id g))) (\<lambda>a.
     bind_sum (related (get_client_by_pk D (g_client_id g))) (\<lambda>c.
     Inr \<lparr>gp_id = g_id g, gp_client_id = c_client_id c, gp_name = g_name g, gp_description = g_description g,
       gp_algorithm = algorithm_summary_of a, gp_identifier_types = g_identifier_types g,
       gp_identifier_signature = g_identifier_signature g, gp_params = g_params g, gp_priority = g_priority g,
       gp_created_by = g_created_by g, gp_updated_by = g_updated_by g, gp_created_at = g_created_at g,
       gp_updated_at = g_updated_at g\<rparr>))"

definition client_response_of :: "client \<Rightarrow> client_response" where
  "client_response_of c = \<lparr>cp_id = c_id c, cp_client_id = c_client_id c, cp_name = c_name c,
     cp_description = c_description c, cp_status = c_status c, cp_scopes = c_scopes c,
     cp_created_at = c_created_at c, cp_updated_at = c_updated_at c\<rparr>"

definition secret_response_of :: "client_secret \<Rightarrow> secret_response" where
  "secret_response_of s = \<lparr>sp_id = s_id s, sp_secret_hint = s_secret_hint s, sp_created_at = s_created_at s,
     sp_expires_at = s_expires_at s, sp_revoked_at = s_revoked_at s\<rparr>"

definition algorithm_response_of :: "algorithm \<Rightarrow> algorithm_response" where
  "algorithm_response_of a = \<lparr>ap_id = a_id a, ap_name = a_name a, ap_description = a_description a, ap_param_schema = a_params a\<rparr>"

fun build_all :: "('a \<Rightarrow> app_exception + 'b) \<Rightarrow> 'a list \<Rightarrow> app_exception + 'b list" where
  "build_all f [] = Inr []"
| "build_all f (x # xs) = bind_sum (f x) (\<lambda>y. map_sum id ((#) y) (build_all f xs))"

subsection \<open>Responses\<close>

datatype body =
    RuleBody rule_response
  | RuleListBody "rule_response listing"
  | GroupBody group_response
  | GroupListBody "(group_response \<times> nat) listing"
  | GroupDetailBody group_response "group_member list"
  | MembersBody add_members_response
  | ClientBody client_response
  | ClientCreatedBody client_response string
  | ClientListBody "client_response listing"
  | SecretsBody "secret_response list"
  | SecretCreatedBody secret_response string
  | AlgorithmsBody "algorithm_response list"
  | IdentifierTypesBody "string list"
  | NoBody
  | ErrorBody error_body

record http_response =
  hr_status :: int
  hr_body :: body
  hr_headers :: "(string \<times> string) list"

definition ok_response :: "int \<Rightarrow> body \<Rightarrow> http_response" where
  "ok_response status b = \<lparr>hr_status = status, hr_body = b, hr_headers = []\<rparr>"

definition error_http :: "(build_error \<Rightarrow> string) \<Rightarrow> app_exception \<Rightarrow> http_response" where
  "error_http txt e = (let r = exception_response txt e in
     \<lparr>hr_status = er_status r, hr_body = ErrorBody (er_body r), hr_headers = er_headers r\<rparr>)"

definition respond :: "(build_error \<Rightarrow> string) \<Rightarrow> (app_exception + http_response) \<Rightarrow> http_response" where
  "respond txt x = (case x of Inl e \<Rightarrow> error_http txt e | Inr r \<Rightarrow> r)"

text \<open>A write: the service's result, then the response built from the committed rows.\<close>

definition write_response :: "(build_error \<Rightarrow> string) \<Rightarrow> (db \<Rightarrow> 'a \<Rightarrow> app_exception + http_response) \<Rightarrow>
    (app_exception + 'a) \<times> db \<Rightarrow> http_response \<times> db" where
  "write_response txt build = (\<lambda>(res, D'). (respond txt (bind_sum res (build D')), D'))"

definition rule_body :: "int \<Rightarrow> db \<Rightarrow> rule \<Rightarrow> app_exception + http_response" where
  "rule_body status D r = map_sum id (\<lambda>p. ok_response status (RuleBody p)) (build_rule_response D r)"

definition group_body :: "int \<Rightarrow> db \<Rightarrow> rule_group \<Rightarrow> app_exception + http_response" where
  "group_body status D g = map_sum id (\<lambda>p. ok_response status (GroupBody p)) (build_rule_group_response D g)"

definition members_body :: "db \<Rightarrow> add_members_response \<Rightarrow> app_exception + http_response" where
  "members_body D am = Inr (ok_response (if am_conflicts am = [] then 201 else 409) (MembersBody am))"

definition no_body :: "db \<Rightarrow> 'a \<Rightarrow> app_exception + http_response" where
  "no_body D a = Inr (ok_response 204 NoBody)"

definition client_created_body :: "db \<Rightarrow> client \<times> string \<Rightarrow> app_exception + http_response" where
  "client_created_body D = (\<lambda>(c, secret). Inr (ok_response 201 (ClientCreatedBody (client_response_of c) secret)))"

definition client_body :: "db \<Rightarrow> client \<Rightarrow> app_exception + http_response" where
  "client_body D c = Inr (ok_response 200 (ClientBody (client_response_of c)))"

definition secret_created_body :: "db \<Rightarrow> client_secret \<times> string \<Rightarrow> app_exception + http_response" where
  "secret_created_body D = (\<lambda>(s, secret). Inr (ok_response 201 (SecretCreatedBody (secret_response_of s) secret)))"

subsection \<open>The write endpoints\<close>

fun handle_write :: "(build_error \<Rightarrow> string) \<Rightarrow> db_env \<Rightarrow> admin_op \<Rightarrow> db \<Rightarrow> http_response \<times> db" where
  "handle_write txt E (CreateRule data) D = write_response txt (rule_body 201) (create_rule E data D)"
| "handle_write txt E (UpdateRule rid data) D = write_response txt (rule_body 200) (update_rule E rid data D)"
| "handle_write txt E (DeleteRule rid) D = write_response txt no_body (delete_rule E rid D)"
| "handle_write txt E (DetachRule rid data) D = write_response txt (rule_body 200) (detach_rule E rid data D)"
| "handle_write txt E (MoveToGroup rid data) D = write_response txt (rule_body 200) (move_to_group E rid data D)"
| "handle_write txt E (CreateGroup data) D = write_response txt (group_body 201) (create_group E data D)"
| "handle_write txt E (UpdateGroup gid data) D = write_response txt (group_body 200) (update_group E gid data D)"
| "handle_write txt E (DeleteGroup gid mode) D = write_response txt no_body (delete_group E gid mode D)"
| "handle_write txt E (AddMembers gid members) D = write_response txt members_body (add_members E gid members D)"
| "handle_write txt E (CreateClient data) D = write_response txt client_created_body (create_client E data D)"
| "handle_write txt E (UpdateClient cid data) D = write_response txt client_body (update_client E cid data D)"
| "handle_write txt E (AddSecret cid) D = write_response txt secret_created_body (add_secret E cid D)"
| "handle_write txt E (RevokeSecret cid sid) D = write_response txt no_body (revoke_secret E cid sid D)"

subsection \<open>The read endpoints\<close>

datatype admin_query =
    ListIdentifierTypes
  | ListRules "string option" rule_filter
  | GetRule string
  | ListGroups "string option" "string option" int int
  | GetGroup string
  | ListClients int int
  | GetClient string
  | ListSecrets string
  | ListAlgorithms

definition optional_pk :: "db \<Rightarrow> string option \<Rightarrow> app_exception + string option" where
  "optional_pk D cid = (case cid of None \<Rightarrow> Inr None | Some s \<Rightarrow> map_sum id Some (resolve_client_pk D s))"

definition rule_list_body :: "db \<Rightarrow> rule_filter \<Rightarrow> app_exception + http_response" where
  "rule_list_body D f = bind_sum (list_rules D f) (\<lambda>(rows, total).
     bind_sum (build_all (build_rule_response D) rows) (\<lambda>items.
     Inr (ok_response 200 (RuleListBody \<lparr>li_items = items, li_page = rf_page f, li_page_size = rf_page_size f, li_total = total\<rparr>))))"

definition group_list_body :: "db_env \<Rightarrow> db \<Rightarrow> string option \<Rightarrow> string option \<Rightarrow> int \<Rightarrow> int \<Rightarrow> app_exception + http_response" where
  "group_list_body E D pk name page page_size =
     bind_sum (list_groups (d_pg_lower E) (d_py_lower E) D pk name page page_size) (\<lambda>(rows, total).
     bind_sum (build_all (\<lambda>(g, n). map_sum id (\<lambda>p. (p, n)) (build_rule_group_response D g)) rows) (\<lambda>items.
     Inr (ok_response 200 (GroupListBody \<lparr>li_items = items, li_page = page, li_page_size = page_size, li_total = total\<rparr>))))"

fun handle_query :: "db_env \<Rightarrow> admin_query \<Rightarrow> db \<Rightarrow> app_exception + http_response" where
  "handle_query E ListIdentifierTypes D = Inr (ok_response 200 (IdentifierTypesBody (map rule_identifier_value rule_identifier_types)))"
| "handle_query E (ListRules cid f) D = bind_sum (optional_pk D cid) (\<lambda>pk. rule_list_body D (f\<lparr>rf_client_pk := pk\<rparr>))"
| "handle_query E (GetRule rid) D = bind_sum (get_rule_or_raise D rid) (rule_body 200 D)"
| "handle_query E (ListGroups cid name page page_size) D =
     bind_sum (optional_pk D cid) (\<lambda>pk. group_list_body E D pk name page page_size)"
| "handle_query E (GetGroup gid) D = bind_sum (get_group_with_members D gid) (\<lambda>(g, members).
     map_sum id (\<lambda>p. ok_response 200 (GroupDetailBody p members)) (build_rule_group_response D g))"
| "handle_query E (ListClients page page_size) D = map_sum id (\<lambda>(rows, total). ok_response 200 (ClientListBody
     \<lparr>li_items = map client_response_of rows, li_page = page, li_page_size = page_size, li_total = total\<rparr>))
     (list_clients_page D page page_size)"
| "handle_query E (GetClient cid) D = bind_sum (get_client_or_raise D cid) (client_body D)"
| "handle_query E (ListSecrets cid) D =
     map_sum id (\<lambda>ss. ok_response 200 (SecretsBody (map secret_response_of ss))) (list_secrets cid D)"
| "handle_query E ListAlgorithms D = Inr (ok_response 200 (AlgorithmsBody (map algorithm_response_of (list_algorithms D))))"

subsection \<open>A request to the admin plane\<close>

datatype admin_request = Write admin_op | Query admin_query

definition admin_request_response ::
  "(build_error \<Rightarrow> string) \<Rightarrow> db_env \<Rightarrow> 't jwt_api \<Rightarrow> token_service \<Rightarrow> rat \<Rightarrow> clients_cache \<Rightarrow> 't bearer option \<Rightarrow>
     admin_request \<Rightarrow> db \<Rightarrow> http_response \<times> db" where
  "admin_request_response txt E J T time C credentials q D =
     (case require_scope (d_py_lower E) J T time C ''admin'' credentials of
        Inl e \<Rightarrow> (error_http txt e, D)
      | Inr _ \<Rightarrow> (case q of Write oper \<Rightarrow> handle_write txt E oper D | Query query \<Rightarrow> (respond txt (handle_query E query D), D)))"

subsection \<open>The rows a response is built from\<close>

lemma related_algorithm:
  assumes "aid \<in> set (map a_id (t_algorithms D))"
  shows "\<exists>a. related (get_algorithm_by_id D aid) = Inr a"
  using assms find_None_iff'[of "\<lambda>a. a_id a = aid" "t_algorithms D"]
  by (cases "get_algorithm_by_id D aid") (auto simp: related_def get_algorithm_by_id_def)

lemma related_client:
  assumes "pk \<in> set (map c_id (t_clients D))"
  shows "\<exists>c. related (get_client_by_pk D pk) = Inr c"
  using assms find_None_iff'[of "\<lambda>c. c_id c = pk" "t_clients D"]
  by (cases "get_client_by_pk D pk") (auto simp: related_def get_client_by_pk_def)

text \<open>A rule or group whose keys are those of a stored row.\<close>

definition rule_backed :: "db \<Rightarrow> rule \<Rightarrow> bool" where
  "rule_backed D r \<longleftrightarrow> (\<exists>x \<in> set (t_rules D). r_algorithm_id x = r_algorithm_id r \<and> r_client_id x = r_client_id r)"

definition group_backed :: "db \<Rightarrow> rule_group \<Rightarrow> bool" where
  "group_backed D g \<longleftrightarrow> (\<exists>x \<in> set (t_groups D). g_algorithm_id x = g_algorithm_id g \<and> g_client_id x = g_client_id g)"

lemma rule_body_ok:
  assumes "integrity lower D" "rule_backed D r"
  shows "\<exists>p. rule_body status D r = Inr (ok_response status (RuleBody p))"
proof -
  have "r_algorithm_id r \<in> set (map a_id (t_algorithms D))" "r_client_id r \<in> set (map c_id (t_clients D))"
    using assms by (force simp: rule_backed_def integrity_def rules_integrity_def list_all_iff)+
  from related_algorithm[OF this(1)] related_client[OF this(2)] show ?thesis
    by (auto simp: rule_body_def build_rule_response_def)
qed

lemma group_body_ok:
  assumes "integrity lower D" "group_backed D g"
  shows "\<exists>p. group_body status D g = Inr (ok_response status (GroupBody p))"
proof -
  have "g_algorithm_id g \<in> set (map a_id (t_algorithms D))" "g_client_id g \<in> set (map c_id (t_clients D))"
    using assms by (force simp: group_backed_def integrity_def groups_integrity_def list_all_iff)+
  from related_algorithm[OF this(1)] related_client[OF this(2)] show ?thesis
    by (auto simp: group_body_def build_rule_group_response_def)
qed

subsection \<open>What a status says\<close>

lemma handle_write_snd: "snd (handle_write txt E oper D) = snd (admin_step E oper D)"
  by (cases oper) (simp_all add: write_response_def case_prod_beta)

lemma write_response_Inl: "fst x = Inl e \<Longrightarrow> fst (write_response txt build x) = error_http txt e"
  by (simp add: write_response_def respond_def case_prod_beta)

lemma handle_write_error: "fst (admin_step E oper D) = Some e \<Longrightarrow> fst (handle_write txt E oper D) = error_http txt e"
  by (cases oper) (simp_all add: fst_outcome write_response_Inl)

lemma error_http_status: "400 \<le> hr_status (error_http txt e)"
  using exception_status[of "txt" e] by (auto simp: error_http_def Let_def)

lemma write_response_Inr:
  assumes "fst x = Inr a" "build (snd x) a = Inr r"
  shows "fst (write_response txt build x) = r"
  using assms by (simp add: write_response_def respond_def case_prod_beta)

definition success :: "int \<Rightarrow> bool" where
  "success status \<longleftrightarrow> status \<in> {200, 201, 204}"

subsection \<open>Properties\<close>

text \<open>
  C22.  The admin plane is closed: whatever token, key ring and cache a request meets, if it changes the
  store or is answered with success, then its token names a key of the ring, decodes under exactly that
  key, and its subject is a client that is active in the table the cache was last loaded from and holds
  the scope \<^verbatim>\<open>admin\<close> there.
\<close>

theorem admin_plane_closed:
  assumes "store_ok E0 D0"
    and "admin_request_response txt E J T time (load_clients_into_cache n D0 C) credentials q D = (resp, D')"
    and "D' \<noteq> D \<or> success (hr_status resp)"
  shows "\<exists>b kid key cs c. credentials = Some b \<and> jwt_header_kid J (b_credentials b) = Some (Some kid)
    \<and> map_of (ts_signing_keys T) kid = Some key
    \<and> jwt_decode J (b_credentials b) key (verify_options T) time = Some cs
    \<and> map_of cs ''sub'' = Some (js (c_client_id c)) \<and> c \<in> set (t_clients D0) \<and> c_status c = ''active''
    \<and> ''admin'' \<in> set (c_scopes c)"
proof (cases "require_scope (d_py_lower E) J T time (load_clients_into_cache n D0 C) ''admin'' credentials")
  case (Inl e)
  then have "D' = D" "resp = error_http txt e" using assms(2) by (simp_all add: admin_request_response_def)
  then show ?thesis using assms(3) error_http_status[of "txt" e] by (auto simp: success_def)
next
  case (Inr ac)
  then obtain b kid key cs c where "credentials = Some b" "jwt_header_kid J (b_credentials b) = Some (Some kid)"
    "map_of (ts_signing_keys T) kid = Some key" "jwt_decode J (b_credentials b) key (verify_options T) time = Some cs"
    "map_of cs ''sub'' = Some (js (ac_client_id ac))" "c \<in> set (t_clients D0)" "c_client_id c = ac_client_id ac"
    "c_status c = ''active''" "''admin'' \<in> ac_scopes ac" "ac_scopes ac \<subseteq> set (c_scopes c)"
    using access_is_current[OF assms(1) Inr] by blast
  then show ?thesis by (intro exI[of _ b] exI[of _ kid] exI[of _ key] exI[of _ cs] exI[of _ c]) auto
qed

definition demo_admin_store :: db where
  "demo_admin_store = demo_store\<lparr>t_clients := [demo_client\<lparr>c_scopes := [''check'', ''admin'']\<rparr>]\<rparr>"

lemma demo_admin_store_ok: "store_ok demo_db_env demo_admin_store"
proof -
  have "integrity id demo_admin_store"
    by (simp add: integrity_def clients_integrity_def groups_integrity_def rules_integrity_def demo_admin_store_def demo_store_def
        demo_rows ck_clients_def ck_clients_client_id_format_def client_id_char_def ux_rule_groups_name_ci_def
        ck_identifier_types_def ux_rules_active_scope_def is_active_def rule_scope_key_def ck_rules_overrides_requires_group_def)
  then show ?thesis
    using demo_store_ok by (simp add: store_ok_def int4_columns_def rules_ok_def demo_admin_store_def)
qed

theorem admin_plane_closed_witness:
  "\<exists>kid key c. map_of (ts_signing_keys demo_rotated) kid = Some key
     \<and> c \<in> set (t_clients demo_admin_store) \<and> c_status c = ''active'' \<and> ''admin'' \<in> set (c_scopes c)"
proof -
  let ?token = "(token_claims_of demo_tokens 1000 ''j1'' ''acme'' [''admin''], ''first key'', ''k1'')"
  let ?c = "demo_client\<lparr>c_scopes := [''check'', ''admin'']\<rparr>"
  let ?C = "load_clients_into_cache 0 demo_admin_store empty_clients_cache"
  have g: "get_client_by_client_id demo_admin_store ''acme'' = Some ?c"
    by (simp add: get_client_by_client_id_def demo_admin_store_def demo_client_def)
  have i: "issue ref_jwt demo_tokens 1000 ''j1'' ''acme'' [''admin''] = Inr (?token, 600)"
    by (simp add: issue_def demo_keys ref_jwt_def) (simp add: demo_tokens_def)
  have w: "list_all scope_word [''admin'']" by (simp add: scope_word_def)
  have l: "token_live demo_tokens 1000 1500" by (simp add: token_live_def demo_keys)
  have v: "verify ref_jwt demo_rotated 1500 ?token =
      Inr \<lparr>tc_client_id = js ''acme'', tc_scopes = map codes [''admin''], tc_jti = js ''j1''\<rparr>"
    using ref_jwt.verify_issued[OF i demo_keys(2) w, of 1500] l by simp
  have s: "subject_record ?C (js ''acme'') = Inr (Some (serialize_client ?c))"
    using subject_record_loaded[OF demo_admin_store_ok] g by simp
  have "\<exists>ac. require_scope id ref_jwt demo_rotated 1500 ?C ''admin'' (Some \<lparr>b_scheme = ''bearer'', b_credentials = ?token\<rparr>) = Inr ac"
    using s by (simp add: require_scope_def v record_is_active_def Let_def demo_client_def)
  then have r: "admin_request_response (\<lambda>_. []) demo_db_env ref_jwt demo_rotated 1500 ?C
      (Some \<lparr>b_scheme = ''bearer'', b_credentials = ?token\<rparr>) (Query ListIdentifierTypes) demo_admin_store =
    (ok_response 200 (IdentifierTypesBody (map rule_identifier_value rule_identifier_types)), demo_admin_store)"
    by (auto simp: admin_request_response_def respond_def)
  have "demo_admin_store \<noteq> demo_admin_store \<or> success (hr_status (ok_response 200 (IdentifierTypesBody (map rule_identifier_value rule_identifier_types))))"
    by (simp add: ok_response_def success_def)
  from admin_plane_closed[OF demo_admin_store_ok r this] show ?thesis by blast
qed

end
