(* ===== verification/Rate_Limiter_Service.thy ===== *)
theory Rate_Limiter_Service
  imports Limiter_Factory Rules_Cache
begin

text \<open>
  \<^verbatim>\<open>services/rate_limiter_service.py\<close> with its request \<^verbatim>\<open>dto/rate_limit_check_request.py\<close>: the path of a
  \<^verbatim>\<open>/check\<close> request of an authenticated client, from validation over rule resolution to the limiter
  and the policy on Redis failures.

  The environment record holds what a request meets: the Redis server, the state of the connection
  to it, the \<^verbatim>\<open>uuid4\<close> of the request, \<^verbatim>\<open>str.lower\<close>, HMAC, pydantic's coercions and the registered
  scripts.  Logging is left out, except that the set of warnings already given is state of the
  service and is kept.
\<close>

subsection \<open>Requests\<close>

record check_request =
  rq_endpoint :: string
  rq_identifiers :: "(identifier_type \<times> ustring) list"

definition max_identifiers_per_check :: nat where
  "max_identifiers_per_check = 3"

definition request_ok :: "check_request \<Rightarrow> bool" where
  "request_ok q \<longleftrightarrow> rq_endpoint q \<noteq> [] \<and> rq_identifiers q \<noteq> []
     \<and> length (rq_identifiers q) \<le> max_identifiers_per_check
     \<and> list_all (\<lambda>p. snd p \<noteq> []) (rq_identifiers q) \<and> distinct (map fst (rq_identifiers q))"

definition as_pairs :: "check_request \<Rightarrow> (identifier_type \<times> ustring) list" where
  "as_pairs q = rq_identifiers q"

subsection \<open>The service\<close>

type_synonym warning = "string \<times> identifier_type set"

record service =
  sv_default :: algorithm_config
  sv_has_cache :: bool
  sv_warned :: "warning set"
  sv_warned_generation :: int

definition init_service :: "algorithm_config \<Rightarrow> bool \<Rightarrow> service" where
  "init_service default_config has_cache =
     \<lparr>sv_default = default_config, sv_has_cache = has_cache, sv_warned = {}, sv_warned_generation = - 1\<rparr>"

record 's env =
  e_redis :: "'s redis_api"
  e_link :: link
  e_request_id :: string
  e_lower :: "ustring \<Rightarrow> ustring"
  e_hmac :: "ustring \<Rightarrow> string"
  e_coercions :: coercions
  e_scripts :: "string list"

datatype service_error = InvalidIdentifier invalid_identifier_value | BuildRaised build_error
  | ScriptMissing script_loader_error | RedisResponseError script_error

definition default_scope :: "string \<Rightarrow> string" where
  "default_scope client_pk = ''client:'' @ client_pk @ '':__default__''"

definition rule_redis_scope :: "cached_rule \<Rightarrow> string" where
  "rule_redis_scope r = ''rule:'' @ cr_id r"

definition build_default_limiter :: "'s env \<Rightarrow> service \<Rightarrow> string \<Rightarrow> service_error + limiter" where
  "build_default_limiter E S client_pk =
     map_sum ScriptMissing id (create_limiter (e_scripts E) (sv_default S) (default_scope client_pk))"

definition reset_warnings :: "rules_cache \<Rightarrow> service \<Rightarrow> service" where
  "reset_warnings C S = (if \<not> sv_has_cache S then S
     else if int (rc_generation C) \<noteq> sv_warned_generation S
     then S\<lparr>sv_warned := {}, sv_warned_generation := int (rc_generation C)\<rparr> else S)"

fun scan_candidates :: "identifier_type set \<Rightarrow> cached_rule list \<Rightarrow> warning set \<Rightarrow> cached_rule option \<times> warning set" where
  "scan_candidates provided [] warned = (None, warned)"
| "scan_candidates provided (r # rs) warned =
     (let engine_types = (case cr_engine_types r of None \<Rightarrow> {} | Some ts \<Rightarrow> ts) in
      if engine_types \<subseteq> provided then (Some r, warned)
      else scan_candidates provided rs (insert (cr_id r, engine_types - provided) warned))"

definition resolve_rule :: "rules_cache \<Rightarrow> service \<Rightarrow> string \<Rightarrow> string \<Rightarrow> identifier_type set \<Rightarrow>
    cached_rule option \<times> service" where
  "resolve_rule C S client_pk endpoint provided =
     (if \<not> sv_has_cache S then (None, S)
      else let S = reset_warnings C S;
               (found, warned) = scan_candidates provided (get_candidates C client_pk endpoint) (sv_warned S) in
        (case found of Some r \<Rightarrow> Some r | None \<Rightarrow> get_global C client_pk endpoint, S\<lparr>sv_warned := warned\<rparr>))"

definition build_limiter_for_rule :: "'s env \<Rightarrow> cached_rule \<Rightarrow> service_error + limiter option" where
  "build_limiter_for_rule E r =
     (case build_algorithm_config (e_coercions E) (cr_algorithm_name r) (cr_params r) of
        Inl e \<Rightarrow> if caught_build_error e then Inr None else Inl (BuildRaised e)
      | Inr cfg \<Rightarrow> map_sum ScriptMissing Some (create_limiter (e_scripts E) cfg (rule_redis_scope r)))"

fun validate_pairs :: "(ustring \<Rightarrow> ustring) \<Rightarrow> nat \<Rightarrow> (identifier_type \<times> ustring) list \<Rightarrow>
    invalid_identifier_value + (identifier_type \<times> ustring) list" where
  "validate_pairs lower i [] = Inr []"
| "validate_pairs lower i ((t, raw) # ps) = (case validate_and_normalize lower t raw of
       Inl e \<Rightarrow> Inl (e\<lparr>iv_index := Some i\<rparr>)
     | Inr v \<Rightarrow> map_sum id ((#) (t, v)) (validate_pairs lower (Suc i) ps))"

text \<open>The limiter and the identifiers a request is checked with.\<close>

definition select_limiter :: "'s env \<Rightarrow> service \<Rightarrow> string \<Rightarrow> cached_rule option \<Rightarrow>
    (identifier_type \<times> ustring) list \<Rightarrow> service_error + limiter \<times> (identifier_type \<times> ustring) list" where
  "select_limiter E S client_pk matched validated =
     bind_sum (case matched of None \<Rightarrow> Inr None | Some r \<Rightarrow> build_limiter_for_rule E r) (\<lambda>limiter.
       let projected = (case (matched, limiter) of
             (Some r, Some _) \<Rightarrow> if \<not> cr_is_global r
               then filter (\<lambda>p. fst p \<in> (case cr_engine_types r of None \<Rightarrow> {} | Some ts \<Rightarrow> ts)) validated
               else validated
           | _ \<Rightarrow> validated) in
       case limiter of
         Some lm \<Rightarrow> Inr (lm, projected)
       | None \<Rightarrow> bind_sum (build_default_limiter E S client_pk) (\<lambda>lm. Inr (lm, projected)))"

definition degraded_result :: rate_limit_result where
  "degraded_result = \<lparr>allowed = True, limit = - 1, remaining = - 1, retry_after_ms = None, reset_at_ms = None,
     degraded = True\<rparr>"

definition check_rate_limit :: "'s env \<Rightarrow> rules_cache \<Rightarrow> service \<Rightarrow> string \<Rightarrow> check_request \<Rightarrow> 's \<Rightarrow>
    (service_error + rate_limit_result) \<times> service \<times> 's" where
  "check_rate_limit E C S client_pk q s = (case validate_pairs (e_lower E) 0 (as_pairs q) of
       Inl e \<Rightarrow> (Inl (InvalidIdentifier e), S, s)
     | Inr validated \<Rightarrow>
         let (matched, S') = resolve_rule C S client_pk (rq_endpoint q) (fst ` set validated) in
         case select_limiter E S' client_pk matched validated of
           Inl e \<Rightarrow> (Inl e, S', s)
         | Inr (lm, projected) \<Rightarrow>
             let ident = build_client_identifier (e_hmac E) projected in
             case limiter_check (e_redis E) (e_link E) (e_request_id E) lm ident s of
               (Inl (LinkFailure _), s') \<Rightarrow> (Inr degraded_result, S', s')
             | (Inl (ResponseError e), s') \<Rightarrow> (Inl (RedisResponseError e), S', s')
             | (Inr r, s') \<Rightarrow> (Inr r, S', s'))"

subsection \<open>Resolution\<close>

definition rule_matches :: "identifier_type set \<Rightarrow> cached_rule \<Rightarrow> bool" where
  "rule_matches provided r \<longleftrightarrow> (case cr_engine_types r of None \<Rightarrow> False | Some ts \<Rightarrow> ts \<subseteq> provided)"

definition eligible :: "cached_rule list \<Rightarrow> string \<Rightarrow> string \<Rightarrow> cached_rule \<Rightarrow> bool" where
  "eligible rules client_pk endpoint r \<longleftrightarrow>
     r \<in> set rules \<and> active_usable r \<and> cr_client_pk r = client_pk \<and> cr_endpoint r = endpoint"

lemma scan_None:
  assumes "\<forall>r \<in> set rs. cr_engine_types r \<noteq> None"
  shows "fst (scan_candidates provided rs warned) = None \<longleftrightarrow> (\<forall>r \<in> set rs. \<not> rule_matches provided r)"
  using assms by (induction provided rs warned rule: scan_candidates.induct) (auto simp: Let_def rule_matches_def)

lemma scan_Some:
  assumes "\<forall>r \<in> set rs. cr_engine_types r \<noteq> None" "fst (scan_candidates provided rs warned) = Some r"
    "sorted (map sort_key_of rs)"
  shows "r \<in> set rs \<and> rule_matches provided r \<and> (\<forall>r' \<in> set rs. rule_matches provided r' \<longrightarrow> sort_key_of r \<le> sort_key_of r')"
  using assms
  by (induction provided rs warned rule: scan_candidates.induct)
    (auto simp: Let_def rule_matches_def split: if_splits)

lemma candidates_usable: "r \<in> set (get_candidates (load_all now rules old) pk ep) \<Longrightarrow> cr_engine_types r \<noteq> None"
  by (simp add: set_candidates active_usable_def)

lemma resolve_rule_fst:
  "sv_has_cache S \<Longrightarrow> fst (resolve_rule C S pk ep provided) =
     (case fst (scan_candidates provided (get_candidates C pk ep) (sv_warned (reset_warnings C S))) of
        Some r \<Rightarrow> Some r | None \<Rightarrow> get_global C pk ep)"
  by (simp add: resolve_rule_def Let_def case_prod_beta)

lemma resolve_rule_eligible:
  assumes "fst (resolve_rule (load_all now rules old) S pk ep provided) = Some r"
  shows "eligible rules pk ep r"
proof (cases "sv_has_cache S")
  case True
  let ?C = "load_all now rules old"
  let ?scan = "fst (scan_candidates provided (get_candidates ?C pk ep) (sv_warned (reset_warnings ?C S)))"
  show ?thesis
  proof (cases ?scan)
    case None
    then have "get_global ?C pk ep = Some r" using assms True by (simp add: resolve_rule_fst)
    from global_in[OF this] show ?thesis by (simp add: eligible_def)
  next
    case (Some r')
    then have "r' = r" using assms True by (simp add: resolve_rule_fst)
    moreover have "r' \<in> set (get_candidates ?C pk ep)"
      using scan_Some[OF _ Some candidates_sorted] candidates_usable by blast
    ultimately show ?thesis by (simp add: set_candidates eligible_def)
  qed
qed (use assms in \<open>simp add: resolve_rule_def\<close>)

subsection \<open>Which key a check can touch\<close>

lemma create_limiter_scope: "create_limiter cache cfg scope = Inr lm \<Longrightarrow> lm_scope lm = scope \<and> lm_config lm = cfg"
  by (auto simp: create_limiter_def split: sum.splits)

lemma select_limiter_scope:
  assumes "select_limiter E S pk matched validated = Inr (lm, ps)"
  shows "lm_scope lm = default_scope pk \<or> (\<exists>r. matched = Some r \<and> lm_scope lm = rule_redis_scope r)"
proof -
  obtain mb where m: "(case matched of None \<Rightarrow> Inr None | Some r \<Rightarrow> build_limiter_for_rule E r) = Inr mb"
    using assms by (auto simp: select_limiter_def bind_sum_Inr)
  show ?thesis
  proof (cases mb)
    case None
    then show ?thesis using assms m create_limiter_scope
      by (fastforce simp: select_limiter_def bind_sum_Inr build_default_limiter_def Let_def map_sum_Inr)
  next
    case (Some lm')
    then obtain r cfg where "matched = Some r" "create_limiter (e_scripts E) cfg (rule_redis_scope r) = Inr lm'"
      using m by (auto simp: build_limiter_for_rule_def map_sum_Inr split: option.splits sum.splits if_splits)
    moreover have "lm' = lm" using assms m Some by (simp add: select_limiter_def Let_def)
    ultimately show ?thesis using create_limiter_scope by blast
  qed
qed

lemma check_state_cases:
  obtains (untouched) "snd (snd (check_rate_limit E C S pk q s)) = s"
  | (checked) validated lm ps where
      "select_limiter E (snd (resolve_rule C S pk (rq_endpoint q) (fst ` set validated))) pk
         (fst (resolve_rule C S pk (rq_endpoint q) (fst ` set validated))) validated = Inr (lm, ps)"
      "snd (snd (check_rate_limit E C S pk q s)) =
         snd (limiter_check (e_redis E) (e_link E) (e_request_id E) lm (build_client_identifier (e_hmac E) ps) s)"
proof (cases "validate_pairs (e_lower E) 0 (as_pairs q)")
  case (Inl e)
  then show ?thesis by (intro untouched) (simp add: check_rate_limit_def)
next
  case V: (Inr validated)
  let ?res = "resolve_rule C S pk (rq_endpoint q) (fst ` set validated)"
  show ?thesis
  proof (cases "select_limiter E (snd ?res) pk (fst ?res) validated")
    case (Inl e)
    then show ?thesis using V by (intro untouched) (simp add: check_rate_limit_def case_prod_beta)
  next
    case (Inr x)
    obtain lm ps where x: "x = (lm, ps)" by (cases x)
    show ?thesis
    proof (rule checked)
      show "select_limiter E (snd ?res) pk (fst ?res) validated = Inr (lm, ps)" using Inr x by simp
      show "snd (snd (check_rate_limit E C S pk q s)) =
         snd (limiter_check (e_redis E) (e_link E) (e_request_id E) lm (build_client_identifier (e_hmac E) ps) s)"
        using V Inr x by (auto simp: check_rate_limit_def case_prod_beta Let_def split: prod.splits sum.splits check_error.splits)
    qed
  qed
qed

definition owned_scope :: "cached_rule list \<Rightarrow> string \<Rightarrow> string \<Rightarrow> bool" where
  "owned_scope rules pk scope \<longleftrightarrow> scope = default_scope pk
     \<or> (\<exists>r \<in> set rules. cr_client_pk r = pk \<and> scope = rule_redis_scope r)"

lemma owned_scope_disjoint:
  assumes "distinct (map cr_id rules)" "owned_scope rules a scope" "owned_scope rules b scope"
  shows "a = b"
proof -
  have "cr_id r = cr_id r' \<Longrightarrow> r \<in> set rules \<Longrightarrow> r' \<in> set rules \<Longrightarrow> r = r'" for r r'
    using assms(1) by (auto simp: distinct_map dest: inj_onD)
  with assms(2,3) show ?thesis by (auto simp: owned_scope_def default_scope_def rule_redis_scope_def)
qed

lemma client_key_ok:
  assumes "\<And>x. CHR '':'' \<notin> set (h x)"
  shows "key_part_ok (identifier_key (build_client_identifier h ps))"
proof -
  have j: "set (join ''+'' xs) \<subseteq> insert (CHR ''+'') (\<Union> (set ` set xs))" for xs :: "string list"
    by (induction "''+''" xs rule: join.induct) auto
  have "CHR '':'' \<notin> set (key_signature (build_client_identifier h ps))"
    using j[of "map (\<lambda>p. identifier_type_value (fst p)) (sort_key (\<lambda>p. identifier_type_value (fst p)) ps)"]
    by (auto simp: build_client_identifier_def Let_def)
  moreover have "CHR '':'' \<notin> set (id_digest (build_client_identifier h ps))"
    using assms by (auto simp: build_client_identifier_def key_digest_def Let_def dest: in_set_takeD)
  ultimately show ?thesis unfolding key_part_ok_def identifier_key_def by blast
qed

definition touches :: "('s \<Rightarrow> keyspace) \<Rightarrow> 's \<Rightarrow> 's \<Rightarrow> string \<Rightarrow> bool" where
  "touches ks s s' k \<longleftrightarrow> ks_data (ks s') k \<noteq> ks_data (ks s) k"

lemma check_touches:
  assumes "redis_server (e_redis E) ks" "touches ks s (snd (snd (check_rate_limit E (load_all now rules old) S pk q s))) k"
  shows "\<exists>cfg scope ps. owned_scope rules pk scope \<and>
     k = limiter_key cfg scope (identifier_key (build_client_identifier (e_hmac E) ps))"
proof (rule check_state_cases[of E "load_all now rules old" S pk q s])
  assume "snd (snd (check_rate_limit E (load_all now rules old) S pk q s)) = s"
  with assms(2) show ?thesis by (simp add: touches_def)
next
  fix validated ps :: "(identifier_type \<times> ustring) list" and lm
  let ?res = "resolve_rule (load_all now rules old) S pk (rq_endpoint q) (fst ` set validated)"
  assume sel: "select_limiter E (snd ?res) pk (fst ?res) validated = Inr (lm, ps)"
    and st: "snd (snd (check_rate_limit E (load_all now rules old) S pk q s)) =
       snd (limiter_check (e_redis E) (e_link E) (e_request_id E) lm (build_client_identifier (e_hmac E) ps) s)"
  have "k = limiter_key (lm_config lm) (lm_scope lm) (identifier_key (build_client_identifier (e_hmac E) ps))"
    using assms(2) redis_server.limiter_check_frame[OF assms(1), of lm "build_client_identifier (e_hmac E) ps" s
        "e_link E" "e_request_id E"]
    unfolding st by (auto simp: touches_def same_elsewhere_def)
  moreover have "owned_scope rules pk (lm_scope lm)"
    using select_limiter_scope[OF sel] resolve_rule_eligible[of now rules old S pk "rq_endpoint q" "fst ` set validated"]
    by (auto simp: owned_scope_def eligible_def)
  ultimately show ?thesis by blast
qed

subsection \<open>Properties\<close>

text \<open>
  C13.  Resolution picks the rule the documentation promises, for every set of loaded rules.  A rule
  that is returned belongs to the asking client and endpoint, is active and usable.  If it is not a
  global rule, the request provides all its identifier types, and no other such rule the request
  matches ranks before it (more identifier types, then higher priority, then signature order).  A
  global rule is returned only when no other rule matches, and nothing only when there is no global
  rule either.
\<close>

theorem resolve_rule_most_specific:
  assumes "sv_has_cache S"
  shows "case fst (resolve_rule (load_all now rules old) S pk ep provided) of
      Some r \<Rightarrow> eligible rules pk ep r \<and>
        (if cr_is_global r then \<forall>r'. eligible rules pk ep r' \<and> \<not> cr_is_global r' \<longrightarrow> \<not> rule_matches provided r'
         else rule_matches provided r \<and>
           (\<forall>r'. eligible rules pk ep r' \<and> \<not> cr_is_global r' \<and> rule_matches provided r' \<longrightarrow> sort_key_of r \<le> sort_key_of r'))
    | None \<Rightarrow> \<forall>r. eligible rules pk ep r \<longrightarrow> \<not> cr_is_global r \<and> \<not> rule_matches provided r"
proof -
  let ?C = "load_all now rules old"
  define cs where "cs = get_candidates ?C pk ep"
  have cs: "set cs = {r. eligible rules pk ep r \<and> \<not> cr_is_global r}"
    by (auto simp: cs_def set_candidates eligible_def)
  have u: "\<forall>r \<in> set cs. cr_engine_types r \<noteq> None" using candidates_usable by (auto simp: cs_def)
  define scan where "scan = fst (scan_candidates provided cs (sv_warned (reset_warnings ?C S)))"
  have res: "fst (resolve_rule ?C S pk ep provided) = (case scan of Some r \<Rightarrow> Some r | None \<Rightarrow> get_global ?C pk ep)"
    using assms by (simp add: resolve_rule_fst scan_def cs_def)
  show ?thesis
  proof (cases scan)
    case None
    then have nm: "\<forall>r. eligible rules pk ep r \<and> \<not> cr_is_global r \<longrightarrow> \<not> rule_matches provided r"
      using scan_None[OF u] cs by (auto simp: scan_def)
    show ?thesis
    proof (cases "get_global ?C pk ep")
      case N: None
      then show ?thesis using nm None res global_None[of now rules old pk ep] by (auto simp: eligible_def)
    next
      case (Some r)
      then show ?thesis using nm None res global_in[OF Some] by (auto simp: eligible_def)
    qed
  next
    case (Some r)
    then show ?thesis using scan_Some[OF u _ candidates_sorted[of now rules old pk ep, folded cs_def]] cs res
      by (auto simp: scan_def)
  qed
qed

definition demo_rule :: cached_rule where
  "demo_rule = \<lparr>cr_id = ''r1'', cr_client_pk = ''c1'', cr_endpoint = ''/pay'', cr_identifier_types = [''api_key''],
     cr_identifier_signature = ''api_key'', cr_is_global = False, cr_engine_types = Some {API_KEY},
     cr_algorithm_id = ''a1'', cr_algorithm_name = ''FixedWindow'',
     cr_params = [(''limit'', JInt 5), (''window_seconds'', JInt 60)], cr_status = ''active'', cr_priority = 100,
     cr_version = 1\<rparr>"

definition demo_service :: service where
  "demo_service = init_service (FixedWindowParams 60000 100) True"

theorem resolve_rule_most_specific_witness:
  "fst (resolve_rule (load_all 0 [demo_rule] empty_rules_cache) demo_service ''c1'' ''/pay'' {API_KEY, REGION}) = Some demo_rule
   \<and> eligible [demo_rule] ''c1'' ''/pay'' demo_rule"
proof -
  have cache: "sv_has_cache demo_service" by (simp add: demo_service_def init_service_def)
  have r: "fst (resolve_rule (load_all 0 [demo_rule] empty_rules_cache) demo_service ''c1'' ''/pay'' {API_KEY, REGION}) = Some demo_rule"
    by (simp add: resolve_rule_fst[OF cache] get_candidates_def load_all_def index_candidates_eq active_usable_def
        rule_scope_def demo_rule_def Let_def)
  with resolve_rule_most_specific[OF cache, where now = 0 and rules = "[demo_rule]" and old = empty_rules_cache
      and pk = "''c1''" and ep = "''/pay''" and provided = "{API_KEY, REGION}"]
  show ?thesis by simp
qed

text \<open>
  C14.  Clients never share Redis state.  Against the same set of rules (with distinct ids), a key that
  a check of one client can change is never changed by a check of another client, whatever the two
  requests, the algorithms, the states of the server and the outcomes.  HMAC digests are required
  not to contain a colon (they are hexadecimal).
\<close>

theorem check_client_isolation:
  assumes "redis_server (e_redis E) ks" "redis_server (e_redis E') ks'" "distinct (map cr_id rules)" "a \<noteq> b"
    and "\<And>x. CHR '':'' \<notin> set (e_hmac E x)" "\<And>x. CHR '':'' \<notin> set (e_hmac E' x)"
    and "touches ks s (snd (snd (check_rate_limit E (load_all now rules old) S a q s))) k"
  shows "\<not> touches ks' s' (snd (snd (check_rate_limit E' (load_all now' rules old') S' b q' s'))) k"
proof
  assume t: "touches ks' s' (snd (snd (check_rate_limit E' (load_all now' rules old') S' b q' s'))) k"
  obtain c sc ps where 1: "owned_scope rules a sc" "k = limiter_key c sc (identifier_key (build_client_identifier (e_hmac E) ps))"
    using check_touches[OF assms(1,7)] by blast
  obtain d sd qs where 2: "owned_scope rules b sd" "k = limiter_key d sd (identifier_key (build_client_identifier (e_hmac E') qs))"
    using check_touches[OF assms(2) t] by blast
  have "sc = sd"
    using limiter_key_inject[OF client_key_ok[OF assms(5)] client_key_ok[OF assms(6)] trans[OF 1(2)[symmetric] 2(2)]] by simp
  then show False using owned_scope_disjoint[OF assms(3) 1(1)] 2(1) assms(4) by simp
qed

definition demo_env :: "keyspace env" where
  "demo_env = \<lparr>e_redis = mem_redis, e_link = LinkUp, e_request_id = ''u'', e_lower = id, e_hmac = (\<lambda>_. ''0''),
     e_coercions = demo_coercions, e_scripts = [''fixed_window'']\<rparr>"

definition demo_request :: check_request where
  "demo_request = \<lparr>rq_endpoint = ''/pay'', rq_identifiers = [(USER_ID, codes ''u1'')]\<rparr>"

lemma demo_check:
  "snd (snd (check_rate_limit demo_env (load_all 0 [] empty_rules_cache) demo_service ''c1'' demo_request demo_keyspace)) =
     snd (fixed_window_lua mem_redis ''rl:fixed_window:client:c1:__default__:user_id:0'' 60000 100 demo_keyspace)"
proof -
  have v: "validate_and_normalize id USER_ID (codes ''u1'') = Inr (codes ''u1'')" by code_simp
  have g: "get_global (load_all 0 [] empty_rules_cache) pk ep = None" for pk ep by (simp add: global_None)
  show ?thesis
    by (simp add: check_rate_limit_def demo_env_def demo_request_def as_pairs_def v demo_service_def init_service_def
        resolve_rule_def reset_warnings_def get_candidates_def load_all_def index_candidates_eq get_global_def index_global_eq
        select_limiter_def build_default_limiter_def create_limiter_def get_script_def limiter_check_def default_scope_def
        fixed_window_check_def fixed_window_key_def identifier_key_def build_client_identifier_def key_digest_def
        reply_to_result_def run_script_def empty_rules_cache_def split: prod.splits sum.splits)
qed

theorem check_client_isolation_witness:
  "\<not> touches id demo_keyspace
     (snd (snd (check_rate_limit demo_env (load_all 0 [] empty_rules_cache) demo_service ''c2'' demo_request demo_keyspace)))
     ''rl:fixed_window:client:c1:__default__:user_id:0''"
proof -
  let ?k = "''rl:fixed_window:client:c1:__default__:user_id:0''"
  let ?s = "snd (fixed_window_lua mem_redis ?k 60000 100 demo_keyspace)"
  have h: "fw_params 60000 100" "sane_time (ks_clock (id demo_keyspace))"
      "fw_holds ?k (id demo_keyspace) None" "fw_nonneg None"
      "pred_option (fw_inv 60000 100 (ks_now (id demo_keyspace))) None"
    by (simp_all add: fw_params_def sane_time_def demo_keyspace_def fw_holds_def ks_live_def fw_nonneg_def)
  have "ks_live ?k ?s \<noteq> None"
    using mem.fixed_window_refines[OF h] by (auto simp: fw_holds_def fw_step_def fw_roll_def)
  then have "ks_data ?s ?k \<noteq> None" by (cases "ks_data ?s ?k") (auto simp: ks_live_def)
  then have t: "touches id demo_keyspace (snd (snd (check_rate_limit demo_env (load_all 0 [] empty_rules_cache)
      demo_service ''c1'' demo_request demo_keyspace))) ?k"
    unfolding demo_check touches_def by (simp add: demo_keyspace_def)
  have r: "redis_server (e_redis demo_env) id" using mem.redis_server_axioms by (simp add: demo_env_def)
  show ?thesis
    by (rule check_client_isolation[OF r r _ _ _ _ t]) (simp_all add: demo_env_def)
qed

text \<open>
  Redis outages fail open, and only they do.  When a check returns a result, it is marked
  degraded exactly when the connection to Redis failed (the request or its reply was lost), and
  then it is the allowing result with no limits; a script error never turns into a result.
\<close>

theorem check_fail_open:
  assumes "fst (check_rate_limit E C S pk q s) = Inr r"
  shows "(degraded r \<longleftrightarrow> e_link E \<noteq> LinkUp) \<and> (degraded r \<longrightarrow> r = degraded_result)"
proof -
  have lc: "fst (limiter_check (e_redis E) (e_link E) rid lm ident s) = Inr x \<Longrightarrow> e_link E = LinkUp \<and> \<not> degraded x"
    "fst (limiter_check (e_redis E) (e_link E) rid lm ident s) = Inl (LinkFailure f) \<Longrightarrow> e_link E \<noteq> LinkUp"
    for rid lm ident s x f
    by (auto simp: limiter_check_def token_bucket_check_def fixed_window_check_def sliding_window_log_check_def
        sliding_window_counter_check_def leaky_bucket_check_def reply_to_result_def run_script_def result_of_reply_def
        map_sum_Inr split: algorithm_config.splits link.splits prod.splits sum.splits)
  have d: "degraded degraded_result" by (simp add: degraded_result_def)
  from assms lc d show ?thesis
    by (auto simp: check_rate_limit_def case_prod_beta Let_def split: sum.splits prod.splits check_error.splits)
qed

theorem check_fail_open_witness:
  "degraded degraded_result \<and>
   fst (check_rate_limit (demo_env\<lparr>e_link := RequestLost RedisTimeoutError\<rparr>) (load_all 0 [] empty_rules_cache) demo_service ''c1''
      demo_request demo_keyspace) = Inr degraded_result"
proof -
  have v: "validate_and_normalize id USER_ID (codes ''u1'') = Inr (codes ''u1'')" by code_simp
  have c: "fst (check_rate_limit (demo_env\<lparr>e_link := RequestLost RedisTimeoutError\<rparr>) (load_all 0 [] empty_rules_cache) demo_service ''c1''
      demo_request demo_keyspace) = Inr degraded_result"
    by (simp add: check_rate_limit_def demo_env_def demo_request_def as_pairs_def v demo_service_def init_service_def
        resolve_rule_def reset_warnings_def get_candidates_def load_all_def index_candidates_eq get_global_def index_global_eq
        select_limiter_def build_default_limiter_def create_limiter_def get_script_def limiter_check_def default_scope_def
        fixed_window_check_def reply_to_result_def run_script_def empty_rules_cache_def)
  from check_fail_open[OF c] c show ?thesis by (simp add: demo_env_def)
qed

text \<open>
  The key follows the matched rule, not the request.  Two requests of a client to an endpoint
  that are matched by the same rule (not a global one, with usable parameters), and that agree on
  the values of the rule's own identifier types, get the same answer and leave the same state, no
  matter which other identifiers they carry and in which order.
\<close>

theorem check_projects_identifiers:
  assumes "validate_pairs (e_lower E) 0 (as_pairs p) = Inr vp" "validate_pairs (e_lower E) 0 (as_pairs q) = Inr vq"
    and "rq_endpoint p = rq_endpoint q"
    and "fst (resolve_rule C S pk (rq_endpoint q) (fst ` set vp)) = Some r"
        "fst (resolve_rule C S pk (rq_endpoint q) (fst ` set vq)) = Some r"
    and "\<not> cr_is_global r" "cr_engine_types r = Some ts"
        "build_algorithm_config (e_coercions E) (cr_algorithm_name r) (cr_params r) = Inr cfg"
    and "distinct (map fst vp)" "mset (filter (\<lambda>x. fst x \<in> ts) vp) = mset (filter (\<lambda>x. fst x \<in> ts) vq)"
  shows "fst (check_rate_limit E C S pk p s) = fst (check_rate_limit E C S pk q s)
    \<and> snd (snd (check_rate_limit E C S pk p s)) = snd (snd (check_rate_limit E C S pk q s))"
proof -
  have sel: "select_limiter E S' pk (Some r) v = (case create_limiter (e_scripts E) cfg (rule_redis_scope r) of
      Inl e \<Rightarrow> Inl (ScriptMissing e) | Inr lm \<Rightarrow> Inr (lm, filter (\<lambda>x. fst x \<in> ts) v))" for S' v
    using assms(6-8) by (auto simp: select_limiter_def build_limiter_for_rule_def Let_def split: sum.splits)
  have "distinct (map fst (filter (\<lambda>x. fst x \<in> ts) vp))" using assms(9) by (simp add: distinct_map_filter)
  then have "build_client_identifier (e_hmac E) (filter (\<lambda>x. fst x \<in> ts) vp)
      = build_client_identifier (e_hmac E) (filter (\<lambda>x. fst x \<in> ts) vq)"
    using assms(10) by (intro build_client_identifier_permute)
  then show ?thesis using assms(1-5)
    by (auto simp: check_rate_limit_def case_prod_beta Let_def sel split: sum.splits prod.splits check_error.splits)
qed

definition demo_two :: check_request where
  "demo_two = \<lparr>rq_endpoint = ''/pay'', rq_identifiers = [(USER_ID, codes ''u1''), (API_KEY, codes ''key-1234'')]\<rparr>"

definition demo_one :: check_request where
  "demo_one = \<lparr>rq_endpoint = ''/pay'', rq_identifiers = [(API_KEY, codes ''key-1234'')]\<rparr>"

theorem check_projects_identifiers_witness:
  "fst (check_rate_limit demo_env (load_all 0 [demo_rule] empty_rules_cache) demo_service ''c1'' demo_two demo_keyspace)
   = fst (check_rate_limit demo_env (load_all 0 [demo_rule] empty_rules_cache) demo_service ''c1'' demo_one demo_keyspace)"
proof -
  let ?C = "load_all 0 [demo_rule] empty_rules_cache"
  have v: "validate_and_normalize id USER_ID (codes ''u1'') = Inr (codes ''u1'')"
    "validate_and_normalize id API_KEY (codes ''key-1234'') = Inr (codes ''key-1234'')" by code_simp+
  have vp: "validate_pairs (e_lower demo_env) 0 (as_pairs demo_two) = Inr [(USER_ID, codes ''u1''), (API_KEY, codes ''key-1234'')]"
    and vq: "validate_pairs (e_lower demo_env) 0 (as_pairs demo_one) = Inr [(API_KEY, codes ''key-1234'')]"
    by (simp_all add: demo_env_def as_pairs_def demo_two_def demo_one_def v)
  have cache: "sv_has_cache demo_service" by (simp add: demo_service_def init_service_def)
  have r: "API_KEY \<in> provided \<Longrightarrow> fst (resolve_rule ?C demo_service ''c1'' ''/pay'' provided) = Some demo_rule" for provided
    by (simp add: resolve_rule_fst[OF cache] get_candidates_def load_all_def index_candidates_eq active_usable_def
        rule_scope_def demo_rule_def Let_def)
  have b: "build_algorithm_config (e_coercions demo_env) (cr_algorithm_name demo_rule) (cr_params demo_rule)
      = Inr (FixedWindowParams 60000 5)"
    by (simp add: demo_env_def demo_rule_def build_algorithm_config_def windowed_class_def get_key_def window_ms_def
        gt0_int_def demo_coercions_def)
  have e: "rq_endpoint demo_two = rq_endpoint demo_one" "rq_endpoint demo_one = ''/pay''"
    by (simp_all add: demo_two_def demo_one_def)
  have g: "\<not> cr_is_global demo_rule" "cr_engine_types demo_rule = Some {API_KEY}" by (simp_all add: demo_rule_def)
  show ?thesis
    using check_projects_identifiers[OF vp vq e(1) _ _ g b, of ?C demo_service "''c1''" demo_keyspace]
    by (simp add: e r)
qed

end
