(* ===== verification/Rules_Loader.thy ===== *)
theory Rules_Loader
  imports Rule_Store Rate_Limiter_Service Clients_Cache
begin

text \<open>
  From the tables to the request path: \<^verbatim>\<open>services/rules_loader.py\<close> on the store, the scheduled polls of
  \<^verbatim>\<open>core/scheduler.py\<close> and the start-up of \<^verbatim>\<open>main.py\<close>.  A fetch is one query, so it reads one state of
  the store; a table is in no particular order.
\<close>

definition rule_row_of :: "db \<Rightarrow> rule \<Rightarrow> app_exception + rule_row" where
  "rule_row_of D r = (case get_algorithm_by_id D (r_algorithm_id r) of
       None \<Rightarrow> Inl (UnhandledError ''AttributeError'')
     | Some a \<Rightarrow> Inr \<lparr>rr_id = r_id r, rr_client_id = r_client_id r, rr_endpoint = r_endpoint r,
         rr_identifier_types = r_identifier_types r, rr_identifier_signature = r_identifier_signature r,
         rr_algorithm_id = r_algorithm_id r, rr_algorithm_name = a_name a, rr_params = r_params r, rr_status = r_status r,
         rr_priority = r_priority r, rr_version = r_version r\<rparr>)"

fun serialize_rules :: "db \<Rightarrow> rule list \<Rightarrow> app_exception + cached_rule list" where
  "serialize_rules D [] = Inr []"
| "serialize_rules D (r # rs) = bind_sum (rule_row_of D r) (\<lambda>row.
     map_sum id ((#) (serialize_rule row)) (serialize_rules D rs))"

definition fetch_all_rules :: "db \<Rightarrow> app_exception + cached_rule list" where
  "fetch_all_rules D = serialize_rules D (list_all_rules D)"

text \<open>A database that cannot be reached is \<open>None\<close>; the exception is the driver's.\<close>

definition load_rules_into_cache :: "int \<Rightarrow> db option \<Rightarrow> rules_cache \<Rightarrow> app_exception + cached_rule list \<times> rules_cache" where
  "load_rules_into_cache now reached C = (case reached of
       None \<Rightarrow> Inl (UnhandledError ''OSError'')
     | Some D \<Rightarrow> map_sum id (\<lambda>rules. (rules, load_all now rules C)) (fetch_all_rules D))"

definition scheduled_rules_poll :: "int \<Rightarrow> db option \<Rightarrow> rules_cache \<Rightarrow> rules_cache" where
  "scheduled_rules_poll now reached C = (case load_rules_into_cache now reached C of Inl _ \<Rightarrow> C | Inr (_, C') \<Rightarrow> C')"

subsection \<open>Start-up\<close>

record app_state =
  st_rules_cache :: rules_cache
  st_clients_cache :: clients_cache
  st_scripts :: "string list"
  st_service :: service

datatype boot_error = RedisUnreachable | ScriptsRejected script_loader_error | ConfigRejected | DatabaseFailed app_exception

text \<open>
  The order of \<^verbatim>\<open>lifespan\<close>: ping, scripts, the fallback configuration, rules, clients.  \<open>config\<close> is what
  \<^verbatim>\<open>load_rate_limiter_settings\<close> makes of the YAML file.
\<close>

definition boot :: "bool \<Rightarrow> (string \<Rightarrow> bool) \<Rightarrow> string list \<Rightarrow> algorithm_config option \<Rightarrow> int \<Rightarrow> db option \<Rightarrow> boot_error + app_state" where
  "boot ping loads files config now reached =
     (if \<not> ping then Inl RedisUnreachable
      else case register_all_scripts loads files [] of
        (Inl e, _) \<Rightarrow> Inl (ScriptsRejected e)
      | (Inr _, scripts) \<Rightarrow> (case config of
          None \<Rightarrow> Inl ConfigRejected
        | Some fallback \<Rightarrow> (case load_rules_into_cache now reached empty_rules_cache of
            Inl e \<Rightarrow> Inl (DatabaseFailed e)
          | Inr (_, rules) \<Rightarrow> (case reached of
              None \<Rightarrow> Inl (DatabaseFailed (UnhandledError ''OSError''))
            | Some D \<Rightarrow> Inr \<lparr>st_rules_cache = rules, st_clients_cache = load_clients_into_cache now D empty_clients_cache,
                st_scripts = scripts, st_service = init_service fallback True\<rparr>))))"

subsection \<open>What a load yields\<close>

definition cached_of :: "db \<Rightarrow> rule \<Rightarrow> cached_rule" where
  "cached_of D r = serialize_rule (case rule_row_of D r of Inr row \<Rightarrow> row | Inl _ \<Rightarrow> undefined)"

lemma rule_row_of_ok:
  assumes "integrity lower D" "r \<in> set (t_rules D)"
  obtains a where "get_algorithm_by_id D (r_algorithm_id r) = Some a"
proof -
  have "r_algorithm_id r \<in> set (map a_id (t_algorithms D))"
    using assms by (auto simp: integrity_def rules_integrity_def list_all_iff)
  then have "get_algorithm_by_id D (r_algorithm_id r) \<noteq> None"
    by (auto simp: get_algorithm_by_id_def find_None_iff')
  then show ?thesis using that by auto
qed

lemma cached_of_simps:
  assumes "get_algorithm_by_id D (r_algorithm_id r) = Some a"
  shows "rule_row_of D r = Inr \<lparr>rr_id = r_id r, rr_client_id = r_client_id r, rr_endpoint = r_endpoint r,
         rr_identifier_types = r_identifier_types r, rr_identifier_signature = r_identifier_signature r,
         rr_algorithm_id = r_algorithm_id r, rr_algorithm_name = a_name a, rr_params = r_params r, rr_status = r_status r,
         rr_priority = r_priority r, rr_version = r_version r\<rparr>"
    "cr_id (cached_of D r) = r_id r" "cr_client_pk (cached_of D r) = r_client_id r" "cr_endpoint (cached_of D r) = r_endpoint r"
    "cr_identifier_signature (cached_of D r) = r_identifier_signature r" "cr_status (cached_of D r) = r_status r"
    "cr_params (cached_of D r) = r_params r" "cr_algorithm_name (cached_of D r) = a_name a" "cr_priority (cached_of D r) = r_priority r"
    "cr_engine_types (cached_of D r) = engine_types_of (r_identifier_types r)"
    "cr_is_global (cached_of D r) = (r_identifier_signature r = ''global'')"
  by (simp_all add: rule_row_of_def cached_of_def serialize_rule_def assms)

lemma serialize_rules_ok:
  assumes "integrity lower D" "set rs \<subseteq> set (t_rules D)"
  shows "serialize_rules D rs = Inr (map (cached_of D) rs)"
  using assms(2)
proof (induction rs)
  case (Cons r rs)
  obtain a where a: "get_algorithm_by_id D (r_algorithm_id r) = Some a" using rule_row_of_ok[OF assms(1)] Cons.prems by auto
  then show ?case using Cons by (simp add: cached_of_simps(1)[OF a] cached_of_def)
qed simp

lemma fetch_all_rules_ok: "store_ok E D \<Longrightarrow> fetch_all_rules D = Inr (map (cached_of D) (t_rules D))"
  unfolding fetch_all_rules_def list_all_rules_def by (rule serialize_rules_ok) (auto simp: store_ok_def)

lemma poll_loads: "store_ok E D \<Longrightarrow> scheduled_rules_poll now (Some D) C = load_all now (map (cached_of D) (t_rules D)) C"
  by (simp add: scheduled_rules_poll_def load_rules_into_cache_def fetch_all_rules_ok)

lemma engine_types_canonical: "canonical_types ts sig \<Longrightarrow> engine_types_of ts \<noteq> None"
proof -
  assume "canonical_types ts sig"
  then have "set ts \<subseteq> set rule_identifier_values" by (simp add: canonical_types_def types_ok_def)
  moreover have "fst ` set rule_to_engine_identifier_type = set rule_identifier_values"
    by (simp add: rule_to_engine_identifier_type_def rule_identifier_values_def image_image)
  ultimately show ?thesis by (auto simp: engine_types_of_def map_of_eq_None_iff)
qed

lemma stored_algorithm:
  assumes "store_ok E D" "r \<in> set (t_rules D)"
  obtains a where "get_algorithm_by_id D (r_algorithm_id r) = Some a"
proof -
  have "integrity (d_pg_lower E) D" using assms(1) by (simp add: store_ok_def)
  from rule_row_of_ok[OF this assms(2)] that show ?thesis by blast
qed

lemma stored_rule_cached:
  assumes "store_ok E D" "r \<in> set (t_rules D)"
  shows "active_usable (cached_of D r) = is_active r" "cr_id (cached_of D r) = r_id r"
    "cr_client_pk (cached_of D r) = r_client_id r" "cr_endpoint (cached_of D r) = r_endpoint r"
    "cr_identifier_signature (cached_of D r) = r_identifier_signature r"
    "cr_is_global (cached_of D r) = (r_identifier_signature r = ''global'')"
    "\<exists>cfg. build_algorithm_config (d_coercions E) (cr_algorithm_name (cached_of D r)) (cr_params (cached_of D r)) = Inr cfg"
proof -
  obtain a where a: "get_algorithm_by_id D (r_algorithm_id r) = Some a"
    using stored_algorithm[OF assms(1,2)] by blast
  note s = cached_of_simps[OF a]
  have ok: "rule_ok (d_coercions E) (t_algorithms D) r" using rules_okD(1) assms by (auto simp: store_ok_def)
  show "active_usable (cached_of D r) = is_active r"
    using ok engine_types_canonical by (auto simp: active_usable_def s is_active_def rule_ok_def)
  obtain a' where a': "a' \<in> set (t_algorithms D)" "a_id a' = r_algorithm_id r" "builds (d_coercions E) (a_name a') (r_params r)"
    using ok by (auto simp: rule_ok_def algorithm_builds_def list_ex_iff)
  have "a' = a" using distinct_map_same[OF store_ok_ids(3)[OF assms(1)] a'(1)] get_algorithm_in[OF a] a'(2) by auto
  then show "\<exists>cfg. build_algorithm_config (d_coercions E) (cr_algorithm_name (cached_of D r)) (cr_params (cached_of D r)) = Inr cfg"
    using a'(3) by (simp add: s builds_iff)
qed (rule stored_algorithm[OF assms], simp add: cached_of_simps)+

definition provides :: "identifier_type set \<Rightarrow> rule \<Rightarrow> bool" where
  "provides provided r \<longleftrightarrow> list_all (\<lambda>t. case map_of rule_to_engine_identifier_type t of None \<Rightarrow> False | Some e \<Rightarrow> e \<in> provided)
     (r_identifier_types r)"

lemma rule_matches_cached:
  assumes "store_ok E D" "r \<in> set (t_rules D)"
  shows "rule_matches provided (cached_of D r) = provides provided r"
proof -
  obtain a where a: "get_algorithm_by_id D (r_algorithm_id r) = Some a"
    using stored_algorithm[OF assms(1,2)] by blast
  show ?thesis
  proof (cases "\<forall>t \<in> set (r_identifier_types r). map_of rule_to_engine_identifier_type t \<noteq> None")
    case True
    have "(case map_of rule_to_engine_identifier_type t of None \<Rightarrow> False | Some e \<Rightarrow> e \<in> provided) =
        (the (map_of rule_to_engine_identifier_type t) \<in> provided)" if "t \<in> set (r_identifier_types r)" for t
      using True that by (cases "map_of rule_to_engine_identifier_type t") auto
    then show ?thesis using True
      by (simp add: rule_matches_def cached_of_simps[OF a] engine_types_of_def provides_def list_all_iff image_subset_iff)
  next
    case False
    then obtain t where "t \<in> set (r_identifier_types r)" "map_of rule_to_engine_identifier_type t = None" by blast
    then have "\<not> provides provided r" by (auto simp: provides_def list_all_iff intro!: bexI[of _ t])
    moreover have "engine_types_of (r_identifier_types r) = None" using False by (simp add: engine_types_of_def)
    ultimately show ?thesis by (simp add: rule_matches_def cached_of_simps[OF a])
  qed
qed

lemma stored_rule_builds:
  assumes "store_ok E D" "r \<in> set (t_rules D)" "e_coercions env = d_coercions E" "\<And>cfg. script_name cfg \<in> set (e_scripts env)"
  shows "\<exists>cfg. build_algorithm_config (e_coercions env) (cr_algorithm_name (cached_of D r)) (r_params r) = Inr cfg \<and>
     build_limiter_for_rule env (cached_of D r) = Inr (Some \<lparr>lm_config = cfg, lm_scope = ''rule:'' @ r_id r\<rparr>)"
proof -
  obtain a where a: "get_algorithm_by_id D (r_algorithm_id r) = Some a"
    using stored_algorithm[OF assms(1,2)] by blast
  obtain cfg where "build_algorithm_config (d_coercions E) (cr_algorithm_name (cached_of D r)) (cr_params (cached_of D r)) = Inr cfg"
    using stored_rule_cached(7)[OF assms(1,2)] by blast
  then show ?thesis using assms(3) assms(4)[of cfg]
    by (simp add: build_limiter_for_rule_def create_limiter_def get_script_def rule_redis_scope_def cached_of_simps[OF a])
qed

definition all_scripts :: "string list" where
  "all_scripts = [''fixed_window'', ''leaky_bucket'', ''sliding_window_counter'', ''sliding_window_log'', ''token_bucket'']"

text \<open>
  C23.  What the store says is what a request meets.  Take any store that satisfies its invariant and
  poll it once, whatever the cache held before.  If resolution then yields a rule, it is an active
  row of the client and endpoint, the request is checked by a limiter of the row's algorithm and
  parameters in the Redis scope of that row, and the silent fallback to the default limiter does not
  happen.  If it yields none, no active row of the client and endpoint is global or has all its
  identifier types in the request.
\<close>

theorem poll_serves_store:
  assumes "store_ok E D" "sv_has_cache S" "e_coercions env = d_coercions E" "\<forall>cfg. script_name cfg \<in> set (e_scripts env)"
  shows "case fst (resolve_rule (scheduled_rules_poll now (Some D) C) S pk ep provided) of
      None \<Rightarrow> \<forall>r \<in> set (t_rules D). is_active r \<and> r_client_id r = pk \<and> r_endpoint r = ep \<longrightarrow>
        r_identifier_signature r \<noteq> ''global'' \<and> \<not> provides provided r
    | Some c \<Rightarrow> \<exists>r \<in> set (t_rules D). \<exists>a cfg ps. cr_id c = r_id r \<and> is_active r \<and> r_client_id r = pk \<and> r_endpoint r = ep
        \<and> get_algorithm_by_id D (r_algorithm_id r) = Some a
        \<and> build_algorithm_config (d_coercions E) (a_name a) (r_params r) = Inr cfg
        \<and> select_limiter env S' pk (Some c) validated = Inr (\<lparr>lm_config = cfg, lm_scope = ''rule:'' @ r_id r\<rparr>, ps)"
proof -
  let ?rules = "map (cached_of D) (t_rules D)"
  let ?C = "load_all now ?rules C"
  have C: "scheduled_rules_poll now (Some D) C = ?C" by (rule poll_loads[OF assms(1)])
  note cached = stored_rule_cached[OF assms(1)] rule_matches_cached[OF assms(1)]
  show ?thesis
  proof (cases "fst (resolve_rule ?C S pk ep provided)")
    case None
    then have "fst (scan_candidates provided (get_candidates ?C pk ep) (sv_warned (reset_warnings ?C S))) = None"
      and "get_global ?C pk ep = None"
      using assms(2) by (auto simp: resolve_rule_fst split: option.splits)
    then have "\<forall>c \<in> set (get_candidates ?C pk ep). \<not> rule_matches provided c" "get_global ?C pk ep = None"
      using scan_None candidates_usable by blast+
    then show ?thesis unfolding C None using cached by (fastforce simp: set_candidates global_None)
  next
    case (Some c)
    from resolve_rule_eligible[OF this] obtain r where r: "r \<in> set (t_rules D)" "c = cached_of D r"
        "is_active r" "r_client_id r = pk" "r_endpoint r = ep" "cr_id c = r_id r"
      by (auto simp: eligible_def cached)
    obtain a where a: "get_algorithm_by_id D (r_algorithm_id r) = Some a"
      using stored_algorithm[OF assms(1) r(1)] by blast
    have "\<And>cfg. script_name cfg \<in> set (e_scripts env)" using assms(4) by blast
    from stored_rule_builds[OF assms(1) r(1) assms(3) this] obtain cfg where
        "build_algorithm_config (e_coercions env) (cr_algorithm_name (cached_of D r)) (r_params r) = Inr cfg"
        "build_limiter_for_rule env (cached_of D r) = Inr (Some \<lparr>lm_config = cfg, lm_scope = ''rule:'' @ r_id r\<rparr>)" by blast
    with r a assms(3) show ?thesis unfolding C Some
      by (auto simp: select_limiter_def Let_def cached_of_simps[OF a] intro!: bexI[of _ r])
  qed
qed

theorem poll_serves_store_witness:
  "\<exists>a cfg ps. cr_id (cached_of demo_store demo_member) = ''r1'' \<and> get_algorithm_by_id demo_store ''a1'' = Some a
     \<and> build_algorithm_config demo_coercions (a_name a) (window_params 5 60) = Inr cfg
     \<and> select_limiter (demo_env\<lparr>e_scripts := all_scripts\<rparr>) demo_service ''c1'' (Some (cached_of demo_store demo_member)) [] =
         Inr (\<lparr>lm_config = cfg, lm_scope = ''rule:r1''\<rparr>, ps)"
proof -
  have a: "get_algorithm_by_id demo_store (r_algorithm_id demo_member) = Some demo_fixed"
    "get_algorithm_by_id demo_store (r_algorithm_id demo_rule_row) = Some demo_log"
    by (simp_all add: get_algorithm_by_id_def demo_store_def demo_rows)
  have cache: "sv_has_cache demo_service" by (simp add: demo_service_def init_service_def)
  have env: "e_coercions (demo_env\<lparr>e_scripts := all_scripts\<rparr>) = d_coercions demo_db_env" by (simp add: demo_env_def)
  have scripts: "\<forall>cfg. script_name cfg \<in> set (e_scripts (demo_env\<lparr>e_scripts := all_scripts\<rparr>))"
  proof
    fix cfg show "script_name cfg \<in> set (e_scripts (demo_env\<lparr>e_scripts := all_scripts\<rparr>))"
      by (cases cfg) (simp_all add: all_scripts_def)
  qed
  have rows: "t_rules demo_store = [demo_member, demo_rule_row]" by (simp add: demo_store_def)
  have e: "engine_types_of [''api_key''] = Some {API_KEY}" by code_simp
  have "active_usable (cached_of demo_store demo_member)" "cr_engine_types (cached_of demo_store demo_member) = Some {API_KEY}"
    unfolding active_usable_def cached_of_simps[OF a(1)] by (simp_all add: demo_member_def e)
  then have r: "fst (resolve_rule (scheduled_rules_poll 0 (Some demo_store) empty_rules_cache) demo_service ''c1'' ''/pay'' {API_KEY}) =
      Some (cached_of demo_store demo_member)"
    unfolding poll_loads[OF demo_store_ok] resolve_rule_fst[OF cache] rows
    by (simp add: get_candidates_def load_all_def Let_def index_candidates_eq rule_scope_def cached_of_simps[OF a(1)]
        cached_of_simps[OF a(2)]) (simp add: demo_member_def demo_rule_row_def)
  have "cr_id (cached_of demo_store demo_member) = ''r1''" unfolding cached_of_simps[OF a(1)] by (simp add: demo_member_def)
  with poll_serves_store[OF demo_store_ok cache env scripts, where now = 0 and C = empty_rules_cache and pk = "''c1''" and ep = "''/pay''"
      and provided = "{API_KEY}" and S' = demo_service and validated = "[]"]
  show ?thesis unfolding r by (simp add: rows) (auto simp: demo_member_def demo_rule_row_def)
qed

lemma sort_key_distinct_perm: "mset xs = mset ys \<Longrightarrow> inj_on f (set xs) \<Longrightarrow> sort_key f xs = sort_key f ys"
  by (rule sort_key_inj_key_eq) simp_all

lemma active_scope_inject:
  assumes "store_ok E D" "r \<in> set (t_rules D)" "r' \<in> set (t_rules D)" "is_active r" "is_active r'"
    "rule_scope_key r = rule_scope_key r'"
  shows "r = r'"
proof -
  have "distinct (map rule_scope_key (filter is_active (t_rules D)))" using store_ok_ids(7)[OF assms(1)] by (simp add: ux_rules_active_scope_def)
  from distinct_map_same[OF this] show ?thesis using assms by simp
qed

text \<open>
  C24.  The order in which a poll reads the rows does not matter, for any store that satisfies its
  invariant: the candidates of every client and endpoint come in the same order and the global rule
  is the same, so resolution is the same on every replica.  (The unique index on active scopes makes
  the sort key total and the global rule unique.)
\<close>

theorem poll_order_independent:
  assumes "store_ok E D" "mset (map (cached_of D) (t_rules D)) = mset rules"
  shows "get_candidates (load_all now' rules C') pk ep = get_candidates (scheduled_rules_poll now (Some D) C) pk ep \<and>
     get_global (load_all now' rules C') pk ep = get_global (scheduled_rules_poll now (Some D) C) pk ep"
proof -
  let ?rules = "map (cached_of D) (t_rules D)"
  have set: "set rules = cached_of D ` set (t_rules D)" using mset_eq_setD[OF assms(2)] by simp
  have same: "c = c'" if "c \<in> set ?rules" "c' \<in> set ?rules" "active_usable c" "active_usable c'" "rule_scope c = rule_scope c'"
      "cr_identifier_signature c = cr_identifier_signature c'" for c c'
  proof -
    note p = that
    obtain r r' where rs: "r \<in> set (t_rules D)" "r' \<in> set (t_rules D)" "c = cached_of D r" "c' = cached_of D r'"
      using p(1,2) by auto
    have "r = r'" using p(3-6)
      by (intro active_scope_inject[OF assms(1)]) (simp_all add: rs stored_rule_cached[OF assms(1)] rule_scope_def rule_scope_key_def)
    then show ?thesis by (simp add: rs)
  qed
  define cs where "cs rs = filter (\<lambda>r. \<not> cr_is_global r \<and> rule_scope r = (pk, ep)) (filter active_usable rs)" for rs
  have "inj_on sort_key_of (set (cs rules))"
    by (rule inj_onI, rule same) (auto simp: cs_def set sort_key_of_def)
  moreover have "mset (cs rules) = mset (cs ?rules)" using assms(2) by (simp add: cs_def)
  ultimately have "sort_key sort_key_of (cs rules) = sort_key sort_key_of (cs ?rules)" by (intro sort_key_distinct_perm)
  then have 1: "get_candidates (load_all now' rules C') pk ep = get_candidates (load_all now ?rules C) pk ep"
    by (simp add: get_candidates_def load_all_def Let_def index_candidates_eq cs_def)
  have 2: "get_global (load_all now' rules C') pk ep = get_global (load_all now ?rules C) pk ep"
  proof (cases "get_global (load_all now ?rules C) pk ep")
    case None
    then have "get_global (load_all now' rules C') pk ep = None" by (auto simp: global_None set)
    with None show ?thesis by simp
  next
    case (Some c)
    note c = global_in[OF Some]
    obtain c' where s: "get_global (load_all now' rules C') pk ep = Some c'"
      using c global_None[of now' rules C' pk ep] by (cases "get_global (load_all now' rules C') pk ep") (auto simp: set)
    note c' = global_in[OF s]
    have "c = c'" using c c' by (intro same) (auto simp: set rule_scope_def stored_rule_cached[OF assms(1)])
    with s Some show ?thesis by simp
  qed
  show ?thesis using 1 2 by (simp add: poll_loads[OF assms(1)])
qed

theorem poll_order_independent_witness:
  "get_candidates (load_all 7 (rev (map (cached_of demo_store) (t_rules demo_store))) empty_rules_cache) ''c1'' ''/pay'' =
     get_candidates (scheduled_rules_poll 0 (Some demo_store) empty_rules_cache) ''c1'' ''/pay''"
  using poll_order_independent[OF demo_store_ok, of "rev (map (cached_of demo_store) (t_rules demo_store))" 7 empty_rules_cache
      "''c1''" "''/pay''" 0 empty_rules_cache] by simp

end
