(* ===== verification/Config_Loader.thy ===== *)
theory Config_Loader
  imports Exceptions
begin

text \<open>
  \<^verbatim>\<open>core/config_loader.py\<close> on the models of \<^verbatim>\<open>model/rate_limiter_config.py\<close>: the fallback configuration,
  read once at start-up.  The file is what PyYAML makes of it; pydantic's validation is spelled out
  field by field, with all errors collected in the order of the fields, and only its wording and its
  coercions of numbers are parameters.
\<close>

subsection \<open>Validation\<close>

datatype field_problem = FieldRequired | NotAnObject | NotAMember | TagMissing | TagUnknown | NotAnInteger | NotANumber | NotPositive

type_synonym field_errors = "(string list \<times> field_problem) list"

definition required_field :: "string list \<Rightarrow> (string list \<Rightarrow> json \<Rightarrow> field_errors + 'a) \<Rightarrow> json dict \<Rightarrow> string \<Rightarrow> field_errors + 'a" where
  "required_field loc check d k = (case map_of d k of
     None \<Rightarrow> Inl [(loc @ [k], FieldRequired)] | Some v \<Rightarrow> check (loc @ [k]) v)"

definition both_fields :: "('a \<Rightarrow> 'b \<Rightarrow> 'c) \<Rightarrow> field_errors + 'a \<Rightarrow> field_errors + 'b \<Rightarrow> field_errors + 'c" where
  "both_fields f x y = (case (x, y) of
       (Inr a, Inr b) \<Rightarrow> Inr (f a b)
     | (Inl e, Inl e') \<Rightarrow> Inl (e @ e')
     | (Inl e, Inr _) \<Rightarrow> Inl e
     | (Inr _, Inl e) \<Rightarrow> Inl e)"

definition positive_int :: "coercions \<Rightarrow> string list \<Rightarrow> json \<Rightarrow> field_errors + int" where
  "positive_int c loc v = (case c_int c v of None \<Rightarrow> Inl [(loc, NotAnInteger)]
     | Some n \<Rightarrow> if 0 < n then Inr n else Inl [(loc, NotPositive)])"

definition positive_float :: "coercions \<Rightarrow> string list \<Rightarrow> json \<Rightarrow> field_errors + rat" where
  "positive_float c loc v = (case c_float c v of None \<Rightarrow> Inl [(loc, NotANumber)]
     | Some x \<Rightarrow> if 0 < x then Inr x else Inl [(loc, NotPositive)])"

definition algorithm_tags :: "string list" where
  "algorithm_tags = [''TokenBucket'', ''FixedWindow'', ''SlidingWindowLog'', ''SlidingWindowCounter'', ''LeakyBucket'']"

text \<open>The models of the union; the tag is one of \<open>algorithm_tags\<close>.\<close>

definition validate_params :: "coercions \<Rightarrow> string list \<Rightarrow> string \<Rightarrow> json dict \<Rightarrow> field_errors + algorithm_config" where
  "validate_params c loc tag d = (case windowed_class tag of
       Some mk \<Rightarrow> both_fields mk (required_field loc (positive_int c) d ''window_size_ms'') (required_field loc (positive_int c) d ''max_requests'')
     | None \<Rightarrow> both_fields (if tag = ''TokenBucket'' then TokenBucketParams else LeakyBucketParams)
         (required_field loc (positive_int c) d ''capacity'')
         (required_field loc (positive_float c) d
           (if tag = ''TokenBucket'' then ''refill_rate_per_second'' else ''leak_rate_per_second'')))"

definition validate_algorithm_config :: "coercions \<Rightarrow> string list \<Rightarrow> json \<Rightarrow> field_errors + algorithm_config" where
  "validate_algorithm_config c loc v = (case v of
       JObject d \<Rightarrow> (case map_of d ''algorithm'' of
           None \<Rightarrow> Inl [(loc, TagMissing)]
         | Some (JString s) \<Rightarrow> (case find (\<lambda>tag. codes tag = s) algorithm_tags of
               None \<Rightarrow> Inl [(loc, TagUnknown)]
             | Some tag \<Rightarrow> validate_params c (loc @ [tag]) tag d)
         | Some _ \<Rightarrow> Inl [(loc, TagUnknown)])
     | _ \<Rightarrow> Inl [(loc, NotAnObject)])"

definition identifier_type_list :: "identifier_type list" where
  "identifier_type_list = [CLIENT_ID, API_KEY, IP_ADDRESS, USER_ID, TENANT_ID, SESSION_ID, DEVICE_ID, ORGANIZATION_ID,
     ACCOUNT_ID, REGION, USER_AGENT, REQUEST_SOURCE, SUBSCRIPTION_TIER, WEBHOOK_ID, IP_RANGE, ENDPOINT]"

definition validate_identifier_type :: "string list \<Rightarrow> json \<Rightarrow> field_errors + identifier_type" where
  "validate_identifier_type loc v = (case v of
       JString s \<Rightarrow> (case find (\<lambda>t. codes (identifier_type_value t) = s) identifier_type_list of
           None \<Rightarrow> Inl [(loc, NotAMember)] | Some t \<Rightarrow> Inr t)
     | _ \<Rightarrow> Inl [(loc, NotAMember)])"

record endpoint_config =
  ep_identifier_type :: identifier_type
  ep_config :: algorithm_config

definition validate_endpoint_config :: "coercions \<Rightarrow> string list \<Rightarrow> json \<Rightarrow> field_errors + endpoint_config" where
  "validate_endpoint_config c loc v = (case v of
       JObject d \<Rightarrow> both_fields (\<lambda>t cfg. \<lparr>ep_identifier_type = t, ep_config = cfg\<rparr>)
         (required_field loc validate_identifier_type d ''identifier_type'')
         (required_field loc (validate_algorithm_config c) d ''config'')
     | _ \<Rightarrow> Inl [(loc, NotAnObject)])"

text \<open>\<^verbatim>\<open>RateLimiterSettings\<close> has the one field \<^verbatim>\<open>default\<close>.\<close>

definition validate_settings :: "coercions \<Rightarrow> json \<Rightarrow> field_errors + endpoint_config" where
  "validate_settings c raw = (case raw of
       JObject d \<Rightarrow> required_field [] (validate_endpoint_config c) d ''default''
     | _ \<Rightarrow> Inl [([], NotAnObject)])"

subsection \<open>Loading\<close>

datatype config_error = ConfigFileNotFound string | ConfigYamlError string | RateLimiterConfigError string

definition format_validation_error :: "(field_problem \<Rightarrow> string) \<Rightarrow> string \<Rightarrow> field_errors \<Rightarrow> string" where
  "format_validation_error txt path errors = join [CHR 0x0A] ((''Invalid rate limit config in '' @ path @ '':'')
     # map (\<lambda>(loc, p). ''  - '' @ join ''.'' loc @ '': '' @ txt p) errors)"

text \<open>\<open>file\<close> is \<open>None\<close> when the path is no file; PyYAML raises a class or returns a value.\<close>

definition load_rate_limiter_settings ::
  "coercions \<Rightarrow> (field_problem \<Rightarrow> string) \<Rightarrow> string \<Rightarrow> (string + json) option \<Rightarrow> config_error + endpoint_config" where
  "load_rate_limiter_settings c txt path file = (case file of
       None \<Rightarrow> Inl (ConfigFileNotFound path)
     | Some (Inl e) \<Rightarrow> Inl (ConfigYamlError e)
     | Some (Inr raw) \<Rightarrow> (case validate_settings c raw of
           Inl errors \<Rightarrow> Inl (RateLimiterConfigError (format_validation_error txt path errors))
         | Inr ep \<Rightarrow> Inr ep))"

text \<open>\<^verbatim>\<open>config/default_rate_limits.yml\<close>.\<close>

definition default_rate_limits :: json where
  "default_rate_limits = JObject [(''default'', JObject [
     (''identifier_type'', js ''endpoint''),
     (''config'', JObject [(''algorithm'', js ''FixedWindow''), (''window_size_ms'', JInt 60000), (''max_requests'', JInt 100)])])]"

subsection \<open>What is accepted\<close>

lemma both_fields_Inr: "both_fields f x y = Inr z \<longleftrightarrow> (\<exists>a b. x = Inr a \<and> y = Inr b \<and> z = f a b)"
  by (cases x; cases y) (auto simp: both_fields_def)

lemma required_field_Inr: "required_field loc check d k = Inr a \<longleftrightarrow> (\<exists>v. map_of d k = Some v \<and> check (loc @ [k]) v = Inr a)"
  by (auto simp: required_field_def split: option.splits)

lemma positive_Inr: "positive_int c loc v = Inr n \<longleftrightarrow> c_int c v = Some n \<and> 0 < n"
  "positive_float c loc v = Inr x \<longleftrightarrow> c_float c v = Some x \<and> 0 < x"
  by (auto simp: positive_int_def positive_float_def split: option.splits)

lemma validate_params_ok: "validate_params c loc tag d = Inr cfg \<Longrightarrow> config_ok cfg"
  using windowed_class_ok[of tag]
  by (auto simp: validate_params_def both_fields_Inr required_field_Inr positive_Inr split: option.splits if_splits)

lemma validate_algorithm_config_ok: "validate_algorithm_config c loc v = Inr cfg \<Longrightarrow> config_ok cfg"
  by (cases v) (auto simp: validate_algorithm_config_def dest: validate_params_ok split: option.splits json.splits)

lemma validate_endpoint_config_ok: "validate_endpoint_config c loc v = Inr ep \<Longrightarrow> config_ok (ep_config ep)"
  by (cases v) (auto simp: validate_endpoint_config_def both_fields_Inr required_field_Inr dest: validate_algorithm_config_ok)

lemma validate_settings_ok: "validate_settings c v = Inr ep \<Longrightarrow> config_ok (ep_config ep)"
  by (cases v) (auto simp: validate_settings_def required_field_Inr dest: validate_endpoint_config_ok)

lemma load_config_ok: "load_rate_limiter_settings c txt path file = Inr ep \<Longrightarrow> config_ok (ep_config ep)"
  by (auto simp: load_rate_limiter_settings_def dest: validate_settings_ok split: option.splits sum.splits)

lemma shipped_config:
  assumes "c_int c (JInt 60000) = Some 60000" "c_int c (JInt 100) = Some 100"
  shows "load_rate_limiter_settings c txt path (Some (Inr default_rate_limits)) =
    Inr \<lparr>ep_identifier_type = ENDPOINT, ep_config = FixedWindowParams 60000 100\<rparr>"
  using assms
  by (simp add: load_rate_limiter_settings_def default_rate_limits_def validate_settings_def required_field_def
      validate_endpoint_config_def both_fields_def validate_identifier_type_def identifier_type_list_def js_def
      validate_algorithm_config_def algorithm_tags_def validate_params_def windowed_class_def positive_int_def codes_def)

end
