(* ===== verification/Application.thy ===== *)
theory Application
  imports Admin_Http Rules_Loader Settings Config_Loader
begin

text \<open>
  The application as one state machine: what \<^verbatim>\<open>main.py\<close> keeps in \<^verbatim>\<open>app.state\<close>, the store, and the keys in
  Redis; a step is one request to any of its endpoints or one scheduled poll.  \<open>runs\<close> adds what other
  replicas may do in between to the store and to Redis, and keeps the two stores that the caches were
  last loaded from.

  FastAPI reads a body as JSON before it resolves the dependencies of an endpoint, and validates its
  shape after them; so a body that is no JSON is refused before the caller is authenticated, and
  every other error of a request is found after it.
\<close>

subsection \<open>The check endpoint\<close>

datatype check_payload = NotJson "json dict list" | WrongShape "json dict list" | Shaped check_request

fun service_exception :: "service_error \<Rightarrow> app_exception" where
  "service_exception (InvalidIdentifier e) = InvalidIdentifierValueError e"
| "service_exception (BuildRaised e) = UnhandledError ''OverflowError''"
| "service_exception (ScriptMissing e) = script_exception e"
| "service_exception (RedisResponseError e) = UnhandledError ''ResponseError''"

text \<open>\<open>errors q\<close> is what pydantic reports for a request that breaks a constraint of the model.\<close>

definition check_endpoint :: "(check_request \<Rightarrow> json dict list) \<Rightarrow> (string \<Rightarrow> string) \<Rightarrow> 't jwt_api \<Rightarrow> token_service \<Rightarrow> rat \<Rightarrow>
    clients_cache \<Rightarrow> 't bearer option \<Rightarrow> 's env \<Rightarrow> rules_cache \<Rightarrow> service \<Rightarrow> check_payload \<Rightarrow> 's \<Rightarrow>
    (app_exception + rate_limit_result) \<times> service \<times> 's" where
  "check_endpoint errors lower J T time C credentials E R S payload s = (case payload of
       NotJson es \<Rightarrow> (Inl (RequestValidationErrorExc es), S, s)
     | WrongShape es \<Rightarrow> (Inl (case require_scope lower J T time C ''check'' credentials of
           Inl e \<Rightarrow> e | Inr _ \<Rightarrow> RequestValidationErrorExc es), S, s)
     | Shaped q \<Rightarrow> (case require_scope lower J T time C ''check'' credentials of
           Inl e \<Rightarrow> (Inl e, S, s)
         | Inr ac \<Rightarrow>
             if \<not> request_ok q then (Inl (RequestValidationErrorExc (errors q)), S, s)
             else (case check_rate_limit E R S (ac_pk ac) q s of
                 (Inl e, S', s') \<Rightarrow> (Inl (service_exception e), S', s')
               | (Inr r, S', s') \<Rightarrow> (Inr r, S', s'))))"

subsection \<open>Redis diagnostics and the script registry\<close>

text \<open>\<^verbatim>\<open>core/redis_client.py\<close>: a \<^verbatim>\<open>PING\<close> that fails is \<^verbatim>\<open>False\<close>.\<close>

datatype ping_reply = Pong bool | PingFailed link_failure

definition ping :: "ping_reply \<Rightarrow> bool" where
  "ping p = (case p of Pong b \<Rightarrow> b | PingFailed _ \<Rightarrow> False)"

definition health :: "ping_reply \<Rightarrow> json dict" where
  "health p = [(''status'', js ''ok''), (''redis_connected'', JBool (ping p))]"

text \<open>The sections of \<^verbatim>\<open>INFO\<close>; \<open>None\<close> when the command fails.\<close>

definition info_field :: "json dict \<Rightarrow> string \<Rightarrow> string \<times> json" where
  "info_field d k = (k, case map_of d k of None \<Rightarrow> JNull | Some v \<Rightarrow> v)"

definition redis_health :: "(string \<Rightarrow> json dict option) \<Rightarrow> app_exception + json dict" where
  "redis_health info = (case (info ''memory'', info ''clients'', info ''stats'', info ''replication'') of
       (Some memory, Some clients, Some stats, Some replication) \<Rightarrow> Inr (
         map (info_field memory) [''used_memory'', ''used_memory_peak'', ''maxmemory_policy'']
         @ map (info_field clients) [''connected_clients'']
         @ map (info_field stats) [''evicted_keys'', ''expired_keys'']
         @ map (info_field replication) [''role''])
     | _ \<Rightarrow> Inl (UnhandledError ''RedisError''))"

definition reload_scripts :: "bool \<Rightarrow> (string \<Rightarrow> bool) \<Rightarrow> string list \<Rightarrow> string list \<Rightarrow> (app_exception + string list) \<times> string list" where
  "reload_scripts flush_ok loads files scripts =
     (case flush_and_reregister_scripts flush_ok loads files scripts of (res, scripts') \<Rightarrow> (map_sum script_exception id res, scripts'))"

subsection \<open>The system\<close>

record 's system =
  sys_app :: app_state
  sys_db :: db
  sys_redis :: 's

text \<open>What a step meets from outside; the registered scripts of \<open>w_env\<close> are those of the application.\<close>

record ('s, 't) world =
  w_env :: "'s env"
  w_db_env :: db_env
  w_jwt :: "'t jwt_api"
  w_tokens :: token_service
  w_time :: rat
  w_token_id :: string
  w_errors :: "check_request \<Rightarrow> json dict list"
  w_text :: "build_error \<Rightarrow> string"
  w_ping :: ping_reply
  w_info :: "string \<Rightarrow> json dict option"
  w_flush :: bool
  w_loads :: "string \<Rightarrow> bool"
  w_script_files :: "string list"
  w_db_reached :: bool

datatype 't request =
    CheckRequest "'t bearer option" check_payload
  | TokenRequest "json dict list" token_request
  | AdminRequest "'t bearer option" admin_request
  | ReloadScripts "'t bearer option"
  | RedisHealth "'t bearer option"
  | Health
  | RulesPoll
  | ClientsPoll

datatype 't reply =
    CheckReply rate_limit_result
  | TokenReply "'t token_response"
  | AdminReply http_response
  | ScriptsReply "string list"
  | JsonReply "json dict"
  | ErrorReply error_response
  | NoReply

definition error_reply :: "('s, 't) world \<Rightarrow> app_exception \<Rightarrow> 't reply" where
  "error_reply w e = ErrorReply (exception_response (w_text w) e)"

definition reply_or_error :: "('s, 't) world \<Rightarrow> ('a \<Rightarrow> 't reply) \<Rightarrow> app_exception + 'a \<Rightarrow> 't reply" where
  "reply_or_error w f x = (case x of Inl e \<Rightarrow> error_reply w e | Inr a \<Rightarrow> f a)"

definition now_of :: "('s, 't) world \<Rightarrow> int" where
  "now_of w = \<lfloor>w_time w\<rfloor>"

definition reached_db :: "('s, 't) world \<Rightarrow> 's system \<Rightarrow> db option" where
  "reached_db w Y = (if w_db_reached w then Some (sys_db Y) else None)"

definition scope_check :: "('s, 't) world \<Rightarrow> 's system \<Rightarrow> string \<Rightarrow> 't bearer option \<Rightarrow> app_exception + authenticated_client" where
  "scope_check w Y scope credentials =
     require_scope (d_py_lower (w_db_env w)) (w_jwt w) (w_tokens w) (w_time w) (st_clients_cache (sys_app Y)) scope credentials"

definition serve_check :: "('s, 't) world \<Rightarrow> 't bearer option \<Rightarrow> check_payload \<Rightarrow> 's system \<Rightarrow>
    (app_exception + rate_limit_result) \<times> service \<times> 's" where
  "serve_check w credentials payload Y = (let A = sys_app Y in
     check_endpoint (w_errors w) (d_py_lower (w_db_env w)) (w_jwt w) (w_tokens w) (w_time w) (st_clients_cache A) credentials
       ((w_env w)\<lparr>e_scripts := st_scripts A\<rparr>) (st_rules_cache A) (st_service A) payload (sys_redis Y))"

fun serve :: "('s, 't) world \<Rightarrow> 't request \<Rightarrow> 's system \<Rightarrow> 't reply \<times> 's system" where
  "serve w (CheckRequest credentials payload) Y = (case serve_check w credentials payload Y of
     (res, S', s') \<Rightarrow> (reply_or_error w CheckReply res,
       Y\<lparr>sys_app := (sys_app Y)\<lparr>st_service := S'\<rparr>, sys_redis := s'\<rparr>))"
| "serve w (TokenRequest missing q) Y = (reply_or_error w TokenReply
     (token_endpoint missing (w_db_env w) (w_jwt w) (w_tokens w) (w_time w) (w_token_id w) (sys_db Y) q), Y)"
| "serve w (AdminRequest credentials q) Y = (case admin_request_response (w_text w) (w_db_env w) (w_jwt w) (w_tokens w) (w_time w)
       (st_clients_cache (sys_app Y)) credentials q (sys_db Y) of
     (r, D') \<Rightarrow> (AdminReply r, Y\<lparr>sys_db := D'\<rparr>))"
| "serve w (ReloadScripts credentials) Y = (case scope_check w Y ''admin'' credentials of
       Inl e \<Rightarrow> (error_reply w e, Y)
     | Inr _ \<Rightarrow> (case reload_scripts (w_flush w) (w_loads w) (w_script_files w) (st_scripts (sys_app Y)) of
         (res, scripts') \<Rightarrow> (reply_or_error w ScriptsReply res, Y\<lparr>sys_app := (sys_app Y)\<lparr>st_scripts := scripts'\<rparr>\<rparr>)))"
| "serve w (RedisHealth credentials) Y = (case scope_check w Y ''admin'' credentials of
       Inl e \<Rightarrow> (error_reply w e, Y)
     | Inr _ \<Rightarrow> (reply_or_error w JsonReply (redis_health (w_info w)), Y))"
| "serve w Health Y = (JsonReply (health (w_ping w)), Y)"
| "serve w RulesPoll Y = (NoReply, Y\<lparr>sys_app := (sys_app Y)\<lparr>st_rules_cache :=
     scheduled_rules_poll (now_of w) (reached_db w Y) (st_rules_cache (sys_app Y))\<rparr>\<rparr>)"
| "serve w ClientsPoll Y = (NoReply, Y\<lparr>sys_app := (sys_app Y)\<lparr>st_clients_cache :=
     poll_clients (now_of w) (reached_db w Y) (st_clients_cache (sys_app Y))\<rparr>\<rparr>)"

subsection \<open>Runs\<close>

text \<open>
  A start needs a reachable Redis, a fallback configuration that validates and a store to load from.  The
  libraries of a deployment are PyJWT, pydantic's coercions and Postgres' \<^verbatim>\<open>lower\<close>; everything else may
  differ from step to step.  \<open>runs J E Dr Dc Y\<close>: the system is in state \<open>Y\<close>, its rules cache was last loaded from the
  store \<open>Dr\<close> and its clients cache from \<open>Dc\<close>.
\<close>

definition world_ok :: "'t jwt_api \<Rightarrow> db_env \<Rightarrow> ('s, 't) world \<Rightarrow> bool" where
  "world_ok J E w \<longleftrightarrow> w_jwt w = J \<and> same_libraries E (w_db_env w) \<and> e_coercions (w_env w) = d_coercions E"

definition reloaded :: "('s, 't) world \<Rightarrow> 's system \<Rightarrow> db \<Rightarrow> db" where
  "reloaded w Y D = (if w_db_reached w then sys_db Y else D)"

inductive runs :: "'t jwt_api \<Rightarrow> db_env \<Rightarrow> db \<Rightarrow> db \<Rightarrow> 's system \<Rightarrow> bool" for J :: "'t jwt_api" and E where
  start: "store_ok E D \<Longrightarrow> load_rate_limiter_settings (d_coercions E) wording path file = Inr ep \<Longrightarrow>
    boot (ping p) loads files (Some (ep_config ep)) now (Some D) = Inr A \<Longrightarrow>
    runs J E D D \<lparr>sys_app = A, sys_db = D, sys_redis = s\<rparr>"
| request: "runs J E Dr Dc Y \<Longrightarrow> world_ok J E w \<Longrightarrow> q \<notin> {RulesPoll, ClientsPoll} \<Longrightarrow> runs J E Dr Dc (snd (serve w q Y))"
| rules_poll: "runs J E Dr Dc Y \<Longrightarrow> world_ok J E w \<Longrightarrow> runs J E (reloaded w Y Dr) Dc (snd (serve w RulesPoll Y))"
| clients_poll: "runs J E Dr Dc Y \<Longrightarrow> world_ok J E w \<Longrightarrow> runs J E Dr (reloaded w Y Dc) (snd (serve w ClientsPoll Y))"
| elsewhere: "runs J E Dr Dc Y \<Longrightarrow> store_ok E D \<Longrightarrow> runs J E Dr Dc (Y\<lparr>sys_db := D, sys_redis := s\<rparr>)"

text \<open>What the caches hold.\<close>

definition system_ok :: "db_env \<Rightarrow> db \<Rightarrow> db \<Rightarrow> 's system \<Rightarrow> bool" where
  "system_ok E Dr Dc Y \<longleftrightarrow> store_ok E Dr \<and> store_ok E Dc \<and> store_ok E (sys_db Y)
     \<and> (\<exists>now C. st_rules_cache (sys_app Y) = load_all now (map (cached_of Dr) (t_rules Dr)) C)
     \<and> (\<exists>now C. st_clients_cache (sys_app Y) = load_clients_into_cache now Dc C)
     \<and> sv_has_cache (st_service (sys_app Y)) \<and> config_ok (sv_default (st_service (sys_app Y)))"

subsection \<open>The invariant\<close>

lemma resolve_rule_frame:
  "sv_has_cache (snd (resolve_rule C S pk ep provided)) = sv_has_cache S"
  "sv_default (snd (resolve_rule C S pk ep provided)) = sv_default S"
  by (auto simp: resolve_rule_def reset_warnings_def Let_def split: prod.splits)

lemma check_rate_limit_frame:
  "sv_has_cache (fst (snd (check_rate_limit E C S pk q s))) = sv_has_cache S
   \<and> sv_default (fst (snd (check_rate_limit E C S pk q s))) = sv_default S"
proof (cases "validate_pairs (e_lower E) 0 (as_pairs q)")
  case (Inr validated)
  have "fst (snd (check_rate_limit E C S pk q s)) = snd (resolve_rule C S pk (rq_endpoint q) (fst ` set validated))"
    using Inr by (simp add: check_rate_limit_def case_prod_beta Let_def split: sum.splits check_error.splits prod.splits)
  then show ?thesis by (simp add: resolve_rule_frame)
qed (simp add: check_rate_limit_def)

lemma check_endpoint_cases:
  obtains (kept) "snd (check_endpoint errors lower J T time C credentials E R S payload s) = (S, s)"
  | (checked) ac q where "payload = Shaped q" "require_scope lower J T time C ''check'' credentials = Inr ac" "request_ok q"
      "snd (check_endpoint errors lower J T time C credentials E R S payload s) = snd (check_rate_limit E R S (ac_pk ac) q s)"
proof -
  have "snd (check_endpoint errors lower J T time C credentials E R S payload s) = (S, s) \<or>
    (\<exists>ac q. payload = Shaped q \<and> require_scope lower J T time C ''check'' credentials = Inr ac \<and> request_ok q \<and>
      snd (check_endpoint errors lower J T time C credentials E R S payload s) = snd (check_rate_limit E R S (ac_pk ac) q s))"
    by (cases payload; cases "require_scope lower J T time C ''check'' credentials")
      (auto simp: check_endpoint_def split: prod.splits sum.splits)
  then show ?thesis using kept checked by blast
qed

lemma serve_check_service:
  "sv_has_cache (fst (snd (serve_check w credentials payload Y))) = sv_has_cache (st_service (sys_app Y))
   \<and> sv_default (fst (snd (serve_check w credentials payload Y))) = sv_default (st_service (sys_app Y))"
  unfolding serve_check_def Let_def
  by (rule check_endpoint_cases[of "w_errors w" "d_py_lower (w_db_env w)" "w_jwt w" "w_tokens w" "w_time w"
        "st_clients_cache (sys_app Y)" credentials "(w_env w)\<lparr>e_scripts := st_scripts (sys_app Y)\<rparr>"
        "st_rules_cache (sys_app Y)" "st_service (sys_app Y)" payload "sys_redis Y"])
    (simp_all add: check_rate_limit_frame)

lemma admin_request_ok:
  assumes "store_ok E D" "same_libraries E E'"
  shows "store_ok E (snd (admin_request_response txt E' J T time C credentials q D))"
proof -
  have "store_ok E' D" using assms store_ok_libraries by blast
  then have "store_ok E' (snd (admin_request_response txt E' J T time C credentials q D))"
    using admin_step_ok by (auto simp: admin_request_response_def handle_write_snd split: sum.splits admin_request.splits)
  then show ?thesis using assms(2) store_ok_libraries by blast
qed

lemma boot_ok:
  assumes "store_ok E D" "config_ok fallback" "boot up loads files (Some fallback) now (Some D) = Inr A"
  shows "system_ok E D D \<lparr>sys_app = A, sys_db = D, sys_redis = s\<rparr>"
proof -
  have "st_rules_cache A = load_all now (map (cached_of D) (t_rules D)) empty_rules_cache"
    "st_clients_cache A = load_clients_into_cache now D empty_clients_cache" "st_service A = init_service fallback True"
    using assms(3) fetch_all_rules_ok[OF assms(1)]
    by (auto simp: boot_def load_rules_into_cache_def split: if_splits prod.splits sum.splits)
  then show ?thesis using assms(1,2) by (auto simp: system_ok_def init_service_def)
qed

lemma request_ok_step:
  assumes "system_ok E Dr Dc Y" "world_ok J E w" "q \<notin> {RulesPoll, ClientsPoll}"
  shows "system_ok E Dr Dc (snd (serve w q Y))"
proof (cases q)
  case (CheckRequest credentials payload)
  then show ?thesis using assms(1) serve_check_service[of w credentials payload Y]
    by (auto simp: system_ok_def split: prod.splits)
next
  case (AdminRequest credentials a)
  have "store_ok E (sys_db Y)" "same_libraries E (w_db_env w)" using assms(1,2) by (simp_all add: system_ok_def world_ok_def)
  from admin_request_ok[OF this] show ?thesis using assms(1) AdminRequest
    by (auto simp: system_ok_def case_prod_beta)
next
  case (ReloadScripts credentials)
  then show ?thesis using assms(1) by (auto simp: system_ok_def split: sum.splits prod.splits)
next
  case (RedisHealth credentials)
  then show ?thesis using assms(1) by (auto simp: system_ok_def split: sum.splits)
qed (use assms in simp_all)

lemma runs_ok: "runs J E Dr Dc Y \<Longrightarrow> system_ok E Dr Dc Y"
proof (induction rule: runs.induct)
  case (start D wording path yml ep p loads files now A s)
  from boot_ok[OF start.hyps(1) load_config_ok[OF start.hyps(2)] start.hyps(3)] show ?case .
next
  case (request Dr Dc Y w q)
  then show ?case using request_ok_step by blast
next
  case (rules_poll Dr Dc Y w)
  then have "store_ok E (sys_db Y)" by (simp add: system_ok_def)
  from poll_loads[OF this] rules_poll.IH show ?case
    by (cases "w_db_reached w")
      (auto simp: system_ok_def reloaded_def reached_db_def scheduled_rules_poll_def load_rules_into_cache_def)
next
  case (clients_poll Dr Dc Y w)
  then show ?case
    by (auto simp: system_ok_def reloaded_def reached_db_def poll_clients_def)
next
  case (elsewhere Dr Dc Y D s)
  then show ?case by (simp add: system_ok_def)
qed

subsection \<open>Who reaches Redis\<close>

lemma serve_redis:
  assumes "touches ks (sys_redis Y) (sys_redis (snd (serve w q Y))) k"
  obtains credentials rq ac where "q = CheckRequest credentials (Shaped rq)" "scope_check w Y ''check'' credentials = Inr ac" "request_ok rq"
    "touches ks (sys_redis Y) (snd (snd (check_rate_limit ((w_env w)\<lparr>e_scripts := st_scripts (sys_app Y)\<rparr>)
      (st_rules_cache (sys_app Y)) (st_service (sys_app Y)) (ac_pk ac) rq (sys_redis Y)))) k"
proof -
  have same: "sys_redis (snd (serve w q Y)) = sys_redis Y" if "\<nexists>c p. q = CheckRequest c p"
    using that by (cases q) (auto split: prod.splits sum.splits)
  obtain credentials payload where q: "q = CheckRequest credentials payload"
    using assms same by (force simp: touches_def)
  have s: "sys_redis (snd (serve w q Y)) = snd (snd (serve_check w credentials payload Y))"
    by (simp add: q split: prod.splits)
  show ?thesis
  proof (rule check_endpoint_cases[of "w_errors w" "d_py_lower (w_db_env w)" "w_jwt w" "w_tokens w" "w_time w"
        "st_clients_cache (sys_app Y)" credentials "(w_env w)\<lparr>e_scripts := st_scripts (sys_app Y)\<rparr>"
        "st_rules_cache (sys_app Y)" "st_service (sys_app Y)" payload "sys_redis Y"])
    assume "snd (check_endpoint (w_errors w) (d_py_lower (w_db_env w)) (w_jwt w) (w_tokens w) (w_time w)
        (st_clients_cache (sys_app Y)) credentials ((w_env w)\<lparr>e_scripts := st_scripts (sys_app Y)\<rparr>)
        (st_rules_cache (sys_app Y)) (st_service (sys_app Y)) payload (sys_redis Y)) = (st_service (sys_app Y), sys_redis Y)"
    then have "sys_redis (snd (serve w q Y)) = sys_redis Y" unfolding s serve_check_def Let_def by simp
    then show thesis using assms by (simp add: touches_def)
  next
    fix ac rq
    assume p: "payload = Shaped rq"
      "require_scope (d_py_lower (w_db_env w)) (w_jwt w) (w_tokens w) (w_time w) (st_clients_cache (sys_app Y)) ''check'' credentials = Inr ac"
      "request_ok rq"
      "snd (check_endpoint (w_errors w) (d_py_lower (w_db_env w)) (w_jwt w) (w_tokens w) (w_time w)
        (st_clients_cache (sys_app Y)) credentials ((w_env w)\<lparr>e_scripts := st_scripts (sys_app Y)\<rparr>)
        (st_rules_cache (sys_app Y)) (st_service (sys_app Y)) payload (sys_redis Y)) =
       snd (check_rate_limit ((w_env w)\<lparr>e_scripts := st_scripts (sys_app Y)\<rparr>) (st_rules_cache (sys_app Y))
        (st_service (sys_app Y)) (ac_pk ac) rq (sys_redis Y))"
    have "sys_redis (snd (serve w q Y)) = snd (snd (check_rate_limit ((w_env w)\<lparr>e_scripts := st_scripts (sys_app Y)\<rparr>)
        (st_rules_cache (sys_app Y)) (st_service (sys_app Y)) (ac_pk ac) rq (sys_redis Y)))"
      unfolding s serve_check_def Let_def p(4) by simp
    then show thesis using assms p by (intro that[of credentials rq ac]) (simp_all add: q scope_check_def)
  qed
qed

text \<open>A scope of Redis keys that belongs to a client, in the rules table of a store.\<close>

definition scope_of_client :: "db \<Rightarrow> string \<Rightarrow> string \<Rightarrow> bool" where
  "scope_of_client D pk scope \<longleftrightarrow> scope = default_scope pk
     \<or> (\<exists>r \<in> set (t_rules D). r_client_id r = pk \<and> scope = ''rule:'' @ r_id r)"

lemma owned_scope_cached:
  assumes "store_ok E D" "owned_scope (map (cached_of D) (t_rules D)) pk scope"
  shows "scope_of_client D pk scope"
  using assms(2) stored_rule_cached(2,3)[OF assms(1)]
  by (auto simp: owned_scope_def scope_of_client_def rule_redis_scope_def)

subsection \<open>A demonstration system\<close>

definition demo_system :: "keyspace system" where
  "demo_system = \<lparr>sys_app = \<lparr>st_rules_cache = load_all 0 (map (cached_of demo_store) (t_rules demo_store)) empty_rules_cache,
       st_clients_cache = load_clients_into_cache 0 demo_store empty_clients_cache, st_scripts = rev all_scripts,
       st_service = demo_service\<rparr>, sys_db = demo_store, sys_redis = demo_keyspace\<rparr>"

definition demo_world :: "(keyspace, claims \<times> string \<times> string) world" where
  "demo_world = \<lparr>w_env = demo_env, w_db_env = demo_db_env, w_jwt = ref_jwt, w_tokens = demo_rotated, w_time = 1500,
     w_token_id = ''j2'', w_errors = (\<lambda>_. []), w_text = (\<lambda>_. []), w_ping = Pong True, w_info = (\<lambda>_. None), w_flush = True,
     w_loads = (\<lambda>_. True), w_script_files = all_scripts, w_db_reached = True\<rparr>"

definition demo_bearer :: "(claims \<times> string \<times> string) bearer" where
  "demo_bearer = \<lparr>b_scheme = ''bearer'',
     b_credentials = (token_claims_of demo_tokens 1000 ''j1'' ''acme'' [''check''], ''first key'', ''k1'')\<rparr>"

lemma demo_runs: "runs ref_jwt demo_db_env demo_store demo_store demo_system"
proof -
  have s: "register_all_scripts (\<lambda>_. True) all_scripts [] = (Inr all_scripts, rev all_scripts)"
    by code_simp
  have c: "load_rate_limiter_settings (d_coercions demo_db_env) (\<lambda>_. []) ''default_rate_limits.yml'' (Some (Inr default_rate_limits)) =
      Inr \<lparr>ep_identifier_type = ENDPOINT, ep_config = FixedWindowParams 60000 100\<rparr>"
    by (rule shipped_config) (simp_all add: demo_coercions_def)
  have "boot (ping (Pong True)) (\<lambda>_. True) all_scripts (Some (ep_config \<lparr>ep_identifier_type = ENDPOINT,
      ep_config = FixedWindowParams 60000 100\<rparr>)) 0 (Some demo_store) = Inr (sys_app demo_system)"
    by (simp add: boot_def ping_def s load_rules_into_cache_def fetch_all_rules_ok[OF demo_store_ok] demo_system_def demo_service_def)
  from runs.start[OF demo_store_ok c this, of ref_jwt demo_keyspace] show ?thesis
    by (simp add: demo_system_def)
qed

lemma demo_world_ok: "world_ok ref_jwt demo_db_env demo_world"
  by (simp add: world_ok_def demo_world_def same_libraries_def demo_env_def)

lemma demo_scope_check:
  "scope_check demo_world demo_system ''check'' (Some demo_bearer) =
     Inr \<lparr>ac_pk = ''c1'', ac_client_id = ''acme'', ac_scopes = {''check''}\<rparr>"
proof -
  have i: "issue ref_jwt demo_tokens 1000 ''j1'' ''acme'' [''check''] = Inr (b_credentials demo_bearer, 600)"
    by (simp add: issue_def demo_keys ref_jwt_def demo_bearer_def) (simp add: demo_tokens_def)
  have w: "list_all scope_word [''check'']" by (simp add: scope_word_def)
  have v: "verify ref_jwt demo_rotated 1500 (b_credentials demo_bearer) =
      Inr \<lparr>tc_client_id = js ''acme'', tc_scopes = [codes ''check''], tc_jti = js ''j1''\<rparr>"
    using ref_jwt.verify_issued[OF i demo_keys(2) w, of 1500] by (simp add: token_live_def demo_keys)
  have k: "subject_record (load_clients_into_cache 0 demo_store empty_clients_cache) (js ''acme'') = Inr (Some (serialize_client demo_client))"
    using subject_record_loaded[OF demo_store_ok, of 0 empty_clients_cache "''acme''"]
    by (simp add: get_client_by_client_id_def demo_store_def demo_client_def)
  have "{s \<in> set (c_scopes demo_client). codes s \<in> set [codes ''check'']} = {''check''}" by (auto simp: demo_client_def)
  with v k show ?thesis
    by (simp add: scope_check_def require_scope_def demo_world_def demo_system_def record_is_active_def Let_def)
      (simp add: demo_bearer_def demo_client_def)
qed

definition demo_other :: check_request where
  "demo_other = \<lparr>rq_endpoint = ''/other'', rq_identifiers = [(USER_ID, codes ''u1'')]\<rparr>"

lemma demo_validated: "validate_pairs id 0 (as_pairs demo_other) = Inr [(USER_ID, codes ''u1'')]"
  by code_simp

lemma demo_request_ok: "request_ok demo_other"
  by (simp add: request_ok_def demo_other_def max_identifiers_per_check_def codes_def)

lemma demo_unmatched: "fst (resolve_rule (st_rules_cache (sys_app demo_system)) demo_service ''c1'' ''/other'' provided) = None"
proof -
  let ?R = "load_all 0 (map (cached_of demo_store) (t_rules demo_store)) empty_rules_cache"
  have e: "cr_endpoint c \<noteq> ''/other''" if "c \<in> set (map (cached_of demo_store) (t_rules demo_store))" for c
  proof -
    note m = that
    obtain r where "r \<in> set (t_rules demo_store)" "c = cached_of demo_store r" using m by auto
    moreover from this have "r_endpoint r \<in> {''/pay'', ''/login''}"
      by (auto simp: demo_store_def demo_member_def demo_rule_row_def)
    ultimately show ?thesis using stored_rule_cached(4)[OF demo_store_ok] by auto
  qed
  have "set (get_candidates ?R ''c1'' ''/other'') = {}" unfolding set_candidates using e by blast
  moreover have "get_global ?R ''c1'' ''/other'' = None" unfolding global_None using e by blast
  moreover have "sv_has_cache demo_service" by (simp add: demo_service_def init_service_def)
  ultimately show ?thesis unfolding demo_system_def by (simp only: resolve_rule_fst system.simps app_state.simps set_empty scan_candidates.simps fst_conv option.case)
qed

lemma demo_default_check:
  "snd (snd (check_rate_limit (demo_env\<lparr>e_scripts := rev all_scripts\<rparr>) (st_rules_cache (sys_app demo_system)) demo_service ''c1''
      demo_other demo_keyspace)) =
     snd (fixed_window_lua mem_redis ''rl:fixed_window:client:c1:__default__:user_id:0'' 60000 100 demo_keyspace)"
proof -
  let ?E = "demo_env\<lparr>e_scripts := rev all_scripts\<rparr>"
  define res where "res = resolve_rule (st_rules_cache (sys_app demo_system)) demo_service ''c1'' ''/other'' {USER_ID}"
  have r: "fst res = None" unfolding res_def by (rule demo_unmatched)
  have d: "sv_default (snd res) = FixedWindowParams 60000 100"
    unfolding res_def resolve_rule_frame by (simp add: demo_service_def init_service_def)
  have s: "select_limiter ?E (snd res) ''c1'' None [(USER_ID, codes ''u1'')] =
      Inr (\<lparr>lm_config = FixedWindowParams 60000 100, lm_scope = ''client:c1:__default__''\<rparr>, [(USER_ID, codes ''u1'')])"
    by (simp add: select_limiter_def build_default_limiter_def create_limiter_def get_script_def default_scope_def d all_scripts_def)
  have k: "identifier_key (build_client_identifier (\<lambda>_. ''0'') [(USER_ID, codes ''u1'')]) = ''user_id:0''"
    by (simp add: identifier_key_def build_client_identifier_def key_digest_def)
  have v: "validate_pairs (e_lower ?E) 0 (as_pairs demo_other) = Inr [(USER_ID, codes ''u1'')]"
    using demo_validated by (simp add: demo_env_def)
  have "snd (snd (check_rate_limit ?E (st_rules_cache (sys_app demo_system)) demo_service ''c1'' demo_other demo_keyspace)) =
      snd (limiter_check mem_redis LinkUp ''u'' \<lparr>lm_config = FixedWindowParams 60000 100, lm_scope = ''client:c1:__default__''\<rparr>
        (build_client_identifier (\<lambda>_. ''0'') [(USER_ID, codes ''u1'')]) demo_keyspace)"
    unfolding check_rate_limit_def v using r s
    by (simp add: case_prod_beta Let_def res_def demo_other_def demo_env_def split: sum.splits check_error.splits prod.splits)
  also have "\<dots> = snd (fixed_window_lua mem_redis ''rl:fixed_window:client:c1:__default__:user_id:0'' 60000 100 demo_keyspace)"
    by (simp add: limiter_check_def fixed_window_check_def fixed_window_key_def k reply_to_result_def run_script_def
        split: prod.splits sum.splits)
  finally show ?thesis .
qed

lemma demo_served:
  "sys_redis (snd (serve demo_world (CheckRequest (Some demo_bearer) (Shaped demo_other)) demo_system)) =
     snd (fixed_window_lua mem_redis ''rl:fixed_window:client:c1:__default__:user_id:0'' 60000 100 demo_keyspace)"
proof -
  have auth: "require_scope (d_py_lower (w_db_env demo_world)) (w_jwt demo_world) (w_tokens demo_world) (w_time demo_world)
      (st_clients_cache (sys_app demo_system)) ''check'' (Some demo_bearer) =
      Inr \<lparr>ac_pk = ''c1'', ac_client_id = ''acme'', ac_scopes = {''check''}\<rparr>"
    using demo_scope_check by (simp add: scope_check_def)
  have w: "w_env demo_world = demo_env" "st_scripts (sys_app demo_system) = rev all_scripts"
    "st_service (sys_app demo_system) = demo_service" "sys_redis demo_system = demo_keyspace"
    by (simp_all add: demo_world_def demo_system_def)
  have "snd (snd (serve_check demo_world (Some demo_bearer) (Shaped demo_other) demo_system)) =
      snd (snd (check_rate_limit (demo_env\<lparr>e_scripts := rev all_scripts\<rparr>) (st_rules_cache (sys_app demo_system)) demo_service ''c1''
        demo_other demo_keyspace))"
    by (simp add: serve_check_def Let_def check_endpoint_def auth demo_request_ok w split: prod.splits sum.splits)
  then show ?thesis unfolding demo_default_check by (simp add: case_prod_beta)
qed

lemma demo_touches: "touches id (sys_redis demo_system)
    (sys_redis (snd (serve demo_world (CheckRequest (Some demo_bearer) (Shaped demo_other)) demo_system)))
    ''rl:fixed_window:client:c1:__default__:user_id:0''"
proof -
  let ?k = "''rl:fixed_window:client:c1:__default__:user_id:0''"
  let ?s = "snd (fixed_window_lua mem_redis ?k 60000 100 demo_keyspace)"
  have h: "fw_params 60000 100" "sane_time (ks_clock (id demo_keyspace))"
      "fw_holds ?k (id demo_keyspace) None" "fw_nonneg None"
      "pred_option (fw_inv 60000 100 (ks_now (id demo_keyspace))) None"
    by (simp_all add: fw_params_def sane_time_def demo_keyspace_def fw_holds_def ks_live_def fw_nonneg_def)
  have "ks_live ?k ?s \<noteq> None"
    using mem.fixed_window_refines[OF h] by (auto simp: fw_holds_def fw_step_def fw_roll_def)
  then have "ks_data ?s ?k \<noteq> None" by (cases "ks_data ?s ?k") (auto simp: ks_live_def)
  then show ?thesis unfolding demo_served touches_def by (simp add: demo_system_def demo_keyspace_def)
qed

subsection \<open>Properties\<close>

text \<open>
  C30.  Whatever changes a key in Redis acts for a current client, on keys of that client only.  In
  every run, with other replicas writing to the store and to Redis at any time: the step is a
  \<^verbatim>\<open>/check\<close> with a bearer token that decodes under a key of the ring, its subject is an active client
  of the store the clients cache was last loaded from, registered for \<^verbatim>\<open>check\<close>, and the key lies in
  the client's own default scope or in the scope of a rule of that client in the store the rules
  cache was last loaded from.
\<close>

theorem check_acts_for_current_client:
  assumes "runs J E Dr Dc Y" "world_ok J E w" "redis_server (e_redis (w_env w)) ks"
    and "touches ks (sys_redis Y) (sys_redis (snd (serve w q Y))) k"
  shows "\<exists>b rq kid key cs c cfg scope ps. q = CheckRequest (Some b) (Shaped rq)
    \<and> jwt_header_kid J (b_credentials b) = Some (Some kid) \<and> map_of (ts_signing_keys (w_tokens w)) kid = Some key
    \<and> jwt_decode J (b_credentials b) key (verify_options (w_tokens w)) (w_time w) = Some cs
    \<and> map_of cs ''sub'' = Some (js (c_client_id c))
    \<and> c \<in> set (t_clients Dc) \<and> c_status c = ''active'' \<and> ''check'' \<in> set (c_scopes c)
    \<and> scope_of_client Dr (c_id c) scope
    \<and> k = limiter_key cfg scope (identifier_key (build_client_identifier (e_hmac (w_env w)) ps))"
proof -
  have ok: "system_ok E Dr Dc Y" by (rule runs_ok[OF assms(1)])
  obtain now C where R: "st_rules_cache (sys_app Y) = load_all now (map (cached_of Dr) (t_rules Dr)) C"
    using ok by (auto simp: system_ok_def)
  obtain n C' where K: "st_clients_cache (sys_app Y) = load_clients_into_cache n Dc C'" using ok by (auto simp: system_ok_def)
  have D: "store_ok E Dr" "store_ok E Dc" using ok by (simp_all add: system_ok_def)
  have J: "w_jwt w = J" using assms(2) by (simp add: world_ok_def)
  obtain credentials rq ac where q: "q = CheckRequest credentials (Shaped rq)" "scope_check w Y ''check'' credentials = Inr ac"
    and t: "touches ks (sys_redis Y) (snd (snd (check_rate_limit ((w_env w)\<lparr>e_scripts := st_scripts (sys_app Y)\<rparr>)
      (load_all now (map (cached_of Dr) (t_rules Dr)) C) (st_service (sys_app Y)) (ac_pk ac) rq (sys_redis Y)))) k"
    using serve_redis[OF assms(4)] unfolding R by metis
  obtain b kid key cs c where a: "credentials = Some b" "jwt_header_kid J (b_credentials b) = Some (Some kid)"
      "map_of (ts_signing_keys (w_tokens w)) kid = Some key"
      "jwt_decode J (b_credentials b) key (verify_options (w_tokens w)) (w_time w) = Some cs"
      "map_of cs ''sub'' = Some (js (ac_client_id ac))" "c \<in> set (t_clients Dc)" "c_client_id c = ac_client_id ac"
      "c_id c = ac_pk ac" "c_status c = ''active''" "''check'' \<in> ac_scopes ac" "ac_scopes ac \<subseteq> set (c_scopes c)"
    using access_is_current[OF D(2) q(2)[unfolded scope_check_def K J]] by blast
  have "redis_server (e_redis ((w_env w)\<lparr>e_scripts := st_scripts (sys_app Y)\<rparr>)) ks" using assms(3) by simp
  from check_touches[OF this t] obtain cfg scope ps where k: "owned_scope (map (cached_of Dr) (t_rules Dr)) (ac_pk ac) scope"
      "k = limiter_key cfg scope (identifier_key (build_client_identifier (e_hmac (w_env w)) ps))"
    by auto
  have "scope_of_client Dr (c_id c) scope" using owned_scope_cached[OF D(1) k(1)] a(8) by simp
  moreover have "''check'' \<in> set (c_scopes c)" using a(10,11) by blast
  moreover have "q = CheckRequest (Some b) (Shaped rq)" using q(1) a(1) by simp
  moreover have "map_of cs ''sub'' = Some (js (c_client_id c))" using a(5,7) by simp
  ultimately show ?thesis using a(2-4,6,9) k(2) by blast
qed

theorem check_acts_for_current_client_witness:
  "\<exists>c scope cfg ps. c \<in> set (t_clients demo_store) \<and> scope_of_client demo_store (c_id c) scope
     \<and> ''rl:fixed_window:client:c1:__default__:user_id:0'' =
         limiter_key cfg scope (identifier_key (build_client_identifier (e_hmac (w_env demo_world)) ps))"
proof -
  have r: "redis_server (e_redis (w_env demo_world)) id" using mem.redis_server_axioms by (simp add: demo_world_def demo_env_def)
  from check_acts_for_current_client[OF demo_runs demo_world_ok r demo_touches] show ?thesis by blast
qed

end
