(* ===== verification/Bootstrap.thy ===== *)
theory Bootstrap
  imports Application
begin

text \<open>
  \<^verbatim>\<open>scripts/create_client.py\<close>: the command that creates the first admin client directly in the
  database, and the way from there to the admin plane: a token, and the next poll of the clients.
\<close>

text \<open>
  \<^verbatim>\<open>argparse\<close> has already checked the scopes.  The client and its secret are committed one after the
  other, so a failure of the second commit leaves a client without a secret.
\<close>

datatype bootstrap_outcome = AlreadyExists string | CreatedClient string string | BootstrapRaised db_error

definition bootstrap_client :: "db_env \<Rightarrow> client_create \<Rightarrow> db \<Rightarrow> bootstrap_outcome \<times> db" where
  "bootstrap_client E data D = (case get_client_by_client_id D (nc_client_id data) of
       Some existing \<Rightarrow> (AlreadyExists (c_id existing), D)
     | None \<Rightarrow> (case commit (d_pg_lower E) (insert_client (new_client E data) D) of
           Inl e \<Rightarrow> (BootstrapRaised e, D)
         | Inr D1 \<Rightarrow> (case commit (d_pg_lower E) (insert_secret (new_secret E 1 (c_id (new_client E data))) D1) of
               Inl e \<Rightarrow> (BootstrapRaised e, D1)
             | Inr D2 \<Rightarrow> (CreatedClient (c_id (new_client E data)) (d_secret E), D2))))"

lemma bootstrap_ok:
  assumes "store_ok E D"
  shows "store_ok E (snd (bootstrap_client E data D))"
proof -
  have 1: "store_ok E D1" if "commit (d_pg_lower E) (insert_client (new_client E data) D) = Inr D1" for D1
    using assms that by (rule commit_frame_ok) simp_all
  have 2: "store_ok E D2" if "store_ok E D1" "commit (d_pg_lower E) (insert_secret s D1) = Inr D2" for D1 D2 s
    using that by (rule commit_frame_ok) simp_all
  show ?thesis using assms 1 2 by (auto simp: bootstrap_client_def split: option.splits sum.splits)
qed

lemma bootstrap_created:
  assumes "bootstrap_client E data D = (CreatedClient pk secret, D')"
  shows "get_client_by_client_id D (nc_client_id data) = None" "pk = d_ids E 0" "secret = d_secret E"
    "t_clients D' = t_clients D @ [new_client E data]" "t_secrets D' = t_secrets D @ [new_secret E 1 (d_ids E 0)]"
    "integrity (d_pg_lower E) D'"
proof -
  have id: "c_id (new_client E data) = d_ids E 0" by (simp add: new_client_def)
  obtain D1 where D1: "get_client_by_client_id D (nc_client_id data) = None"
      "commit (d_pg_lower E) (insert_client (new_client E data) D) = Inr D1"
      "commit (d_pg_lower E) (insert_secret (new_secret E 1 (d_ids E 0)) D1) = Inr D'" "pk = d_ids E 0" "secret = d_secret E"
    using assms id by (auto simp: bootstrap_client_def split: option.splits sum.splits)
  then show "get_client_by_client_id D (nc_client_id data) = None" "pk = d_ids E 0" "secret = d_secret E" by simp_all
  show "t_clients D' = t_clients D @ [new_client E data]" "t_secrets D' = t_secrets D @ [new_secret E 1 (d_ids E 0)]"
    "integrity (d_pg_lower E) D'"
    using D1(2,3) by (auto simp: commit_Inr insert_client_def insert_secret_def)
qed

lemma client_id_no_nul:
  assumes "ck_clients_client_id_format s"
  shows "0 \<notin> set (codes s)"
proof -
  have n: "client_id_char ch \<or> ch = CHR ''-'' \<Longrightarrow> (of_char ch :: int) \<noteq> 0" for ch
    using of_char_eq_iff[of ch "CHR 0x00", where ?'a = nat] of_char_eq_iff[of ch "CHR 0x00", where ?'a = int]
    by (auto simp: client_id_char_def Let_def)
  obtain a t where s: "s = a # t" using assms by (cases s) (auto simp: ck_clients_client_id_format_def)
  then have "\<forall>ch \<in> set s. client_id_char ch \<or> ch = CHR ''-''"
    using assms by (auto simp: ck_clients_client_id_format_def list_all_iff)
  then show ?thesis using n by (force simp: codes_def)
qed

text \<open>The form a client sends to the token endpoint, asking for all its scopes.\<close>

definition credentials_form :: "string \<Rightarrow> string \<Rightarrow> token_request" where
  "credentials_form cid secret = \<lparr>tq_grant_type = Some ''client_credentials'', tq_client_id = Some (codes cid),
     tq_client_secret = Some (codes secret), tq_scope = None, tq_authorization = None\<rparr>"

lemma form_granted:
  assumes "store_ok E D" "c \<in> set (t_clients D)" "c_client_id c = cid" "authenticates E D (codes cid) (codes secret) c"
    "map_of (ts_signing_keys T) (ts_active_kid T) = Some key"
  shows "\<exists>t granted. token_endpoint missing E J T time jti D (credentials_form cid secret) = Inr t
    \<and> issue_token E J T time jti D (codes cid) (codes secret) None = Inr (tk_access_token t, ts_ttl_seconds T, granted)
    \<and> set granted = set (c_scopes c)"
proof -
  have "ck_clients_client_id_format cid"
    using assms(1-3) by (auto simp: store_ok_def integrity_def clients_integrity_def list_all_iff ck_clients_def)
  note n = client_id_no_nul[OF this]
  obtain granted where g: "resolve_scopes c None = Inr granted" "set granted = set (c_scopes c)"
    using resolve_scopes_asked(1)[of c None] by (auto simp: asked_scopes_def)
  have i: "issue_token E J T time jti D (codes cid) (codes secret) None =
      Inr (jwt_encode J (token_claims_of T \<lfloor>time\<rfloor> jti cid granted) key (ts_active_kid T), ts_ttl_seconds T, granted)"
    unfolding issue_token_authenticated[OF assms(1) n assms(4)] by (simp add: g(1) issue_def assms(3,5))
  have "requested_scopes (credentials_form cid secret) = None" by (simp add: requested_scopes_def credentials_form_def)
  moreover have "token_credentials (credentials_form cid secret) = Inr (codes cid, codes secret)"
    by (simp add: token_credentials_def credentials_form_def parse_basic_auth_def)
  ultimately show ?thesis using i g(2) by (simp add: token_endpoint_def credentials_form_def)
qed

definition bearer_of :: "string \<Rightarrow> 't token_response \<Rightarrow> 't bearer" where
  "bearer_of scheme t = \<lparr>b_scheme = scheme, b_credentials = tk_access_token t\<rparr>"

lemma bootstrapped_client:
  assumes "store_ok E D" "bootstrap_client E data D = (CreatedClient pk secret, D')" "d_sha256 E' = d_sha256 E"
  shows "authenticates E' D' (codes (nc_client_id data)) (codes secret) (new_client E data)"
    "get_client_by_client_id D' (nc_client_id data) = Some (new_client E data)"
proof -
  note b = bootstrap_created[OF assms(2)]
  have c: "c_client_id (new_client E data) = nc_client_id data" "c_status (new_client E data) = ''active''"
    "c_id (new_client E data) = d_ids E 0"
    by (simp_all add: new_client_def)
  have "find (\<lambda>c. c_client_id c = nc_client_id data) (t_clients D @ [new_client E data]) = Some (new_client E data)"
  proof (rule find_unique)
    show "distinct (map c_client_id (t_clients D @ [new_client E data]))"
      using b(6) unfolding b(4)[symmetric] by (simp add: integrity_def clients_integrity_def)
  qed (simp_all add: c)
  then show "get_client_by_client_id D' (nc_client_id data) = Some (new_client E data)"
    by (simp add: get_client_by_client_id_def b(4))
  show "authenticates E' D' (codes (nc_client_id data)) (codes secret) (new_client E data)"
    using assms(3) by (auto simp: authenticates_def b c new_secret_def secret_active_def hash_secret_def)
qed

text \<open>
  C34.  From the command line to the admin plane.  In any run, once the command has created a client
  with the \<^verbatim>\<open>admin\<close> scope, the printed credentials obtain a token at once; the token is refused by the
  admin endpoints until the clients are polled from a reachable database, and then opens them, for
  its lifetime and at any replica that holds the signing key, whatever happened to the token
  service's active key in between.
\<close>

theorem bootstrap_opens_admin_plane:
  assumes "jwt_library J" "runs J E Dr Dc Y" "same_libraries E E1"
    and "bootstrap_client E1 data (sys_db Y) = (CreatedClient pk secret, D')" "''admin'' \<in> set (nc_scopes data)"
    and "world_ok J E w" "d_sha256 (w_db_env w) = d_sha256 E1" "map_of (ts_signing_keys (w_tokens w)) (ts_active_kid (w_tokens w)) = Some key"
    and "world_ok J E w2" "w_db_reached w2"
    and "world_ok J E w3" "same_realm (w_tokens w) (w_tokens w3)" "token_live (w_tokens w) (w_time w) (w_time w3)"
    and "d_py_lower (w_db_env w3) scheme = ''bearer''"
  shows "\<exists>t. fst (serve w (TokenRequest missing (credentials_form (nc_client_id data) secret)) (Y\<lparr>sys_db := D'\<rparr>)) = TokenReply t
    \<and> (get_client_by_client_id Dc (nc_client_id data) = None \<longrightarrow>
        scope_check w3 (Y\<lparr>sys_db := D'\<rparr>) ''admin'' (Some (bearer_of scheme t)) = Inl AuthorizationError)
    \<and> scope_check w3 (snd (serve w2 ClientsPoll (Y\<lparr>sys_db := D'\<rparr>))) ''admin'' (Some (bearer_of scheme t)) =
        Inr \<lparr>ac_pk = pk, ac_client_id = nc_client_id data, ac_scopes = set (nc_scopes data)\<rparr>"
proof -
  let ?c = "new_client E1 data" and ?name = "nc_client_id data" and ?Y = "Y\<lparr>sys_db := D'\<rparr>"
  have ok: "system_ok E Dr Dc Y" by (rule runs_ok[OF assms(2)])
  then have "store_ok E1 (sys_db Y)" "store_ok E Dc" using store_ok_libraries[OF assms(3)] by (simp_all add: system_ok_def)
  note b = bootstrapped_client[OF this(1) assms(4,7)]
  have D': "store_ok E D'" using bootstrap_ok[OF \<open>store_ok E1 (sys_db Y)\<close>, of data] assms(3,4) store_ok_libraries by auto
  have Dw: "store_ok (w_db_env w) D'" using D' assms(6) store_ok_libraries by (auto simp: world_ok_def)
  have c: "c_client_id ?c = ?name" "c_scopes ?c = nc_scopes data" "c_id ?c = pk" "c_status ?c = ''active''"
    using bootstrap_created(2)[OF assms(4)] by (simp_all add: new_client_def)
  have "?c \<in> set (t_clients D')" using get_client_in[OF b(2)] by simp
  from form_granted[OF Dw this c(1) b(1) assms(8), where missing = missing and J = "w_jwt w" and time = "w_time w" and jti = "w_token_id w"]
  obtain t granted where t: "token_endpoint missing (w_db_env w) (w_jwt w) (w_tokens w) (w_time w) (w_token_id w) D' (credentials_form ?name secret) = Inr t"
    and i: "issue_token (w_db_env w) (w_jwt w) (w_tokens w) (w_time w) (w_token_id w) D' (codes ?name) (codes secret) None =
      Inr (tk_access_token t, ts_ttl_seconds (w_tokens w), granted)" and g: "set granted = set (nc_scopes data)"
    unfolding c(2) by blast
  have J: "w_jwt w = J" "w_jwt w3 = J" using assms(6,11) by (simp_all add: world_ok_def)
  obtain c' where c': "authenticates (w_db_env w) D' (codes ?name) (codes secret) c'" and "resolve_scopes c' None = Inr granted"
    and iss: "issue (w_jwt w) (w_tokens w) (w_time w) (w_token_id w) (c_client_id c') granted = Inr (tk_access_token t, ts_ttl_seconds (w_tokens w))"
    by (rule issued_token_cases[OF Dw i])
  have "c_client_id c' = ?name" using c' by (simp add: authenticates_def codes_inject)
  note issued = iss[unfolded this J]
  have words: "list_all scope_word granted"
    using client_scope_words[OF Dw \<open>?c \<in> set (t_clients D')\<close>] g c(2) by simp
  note admitted = require_scope_issued[OF assms(1) issued assms(12) words, where lower = "d_py_lower (w_db_env w3)" and scheme = scheme
      and time' = "w_time w3" and scope = "''admin''", OF assms(14)]
  have token: "fst (serve w (TokenRequest missing (credentials_form ?name secret)) ?Y) = TokenReply t"
    using t by (simp add: reply_or_error_def)
  have before: "scope_check w3 ?Y ''admin'' (Some (bearer_of scheme t)) = Inl AuthorizationError"
    if none: "get_client_by_client_id Dc ?name = None"
  proof -
    obtain n C where K: "st_clients_cache (sys_app Y) = load_clients_into_cache n Dc C" using ok by (auto simp: system_ok_def)
    have "subject_record (load_clients_into_cache n Dc C) (js ?name) = Inr None"
      using subject_record_loaded[OF \<open>store_ok E Dc\<close>] none by simp
    from admitted[OF this] show ?thesis using assms(13) by (simp add: scope_check_def bearer_of_def K J)
  qed
  have after: "scope_check w3 (snd (serve w2 ClientsPoll ?Y)) ''admin'' (Some (bearer_of scheme t)) =
      Inr \<lparr>ac_pk = pk, ac_client_id = ?name, ac_scopes = set (nc_scopes data)\<rparr>"
  proof -
    have "subject_record (load_clients_into_cache (now_of w2) D' (st_clients_cache (sys_app Y))) (js ?name) = Inr (Some (serialize_client ?c))"
      using subject_record_loaded[OF D'] b(2) by simp
    from admitted[OF this] show ?thesis
      using assms(5,10,13) g c by (simp add: scope_check_def bearer_of_def J poll_clients_def reached_db_def record_is_active_def)
  qed
  from token before after show ?thesis by (intro exI[of _ t] conjI impI)
qed

definition demo_admin :: client_create where
  "demo_admin = \<lparr>nc_client_id = ''ops-cli'', nc_name = ''Ops'', nc_description = None, nc_scopes = [''admin'']\<rparr>"

definition bootstrapped_store :: db where
  "bootstrapped_store = insert_secret (new_secret demo_db_env 1 ''new'') (insert_client (new_client demo_db_env demo_admin) demo_store)"

lemma demo_bootstrap: "bootstrap_client demo_db_env demo_admin demo_store = (CreatedClient ''new'' ''s3cret'', bootstrapped_store)"
proof -
  have ok: "integrity id demo_store" "int4_columns demo_store" using demo_store_ok by (simp_all add: store_ok_def)
  have 0: "get_client_by_client_id demo_store ''ops-cli'' = None"
    by (simp add: get_client_by_client_id_def demo_store_def demo_client_def)
  have c: "ck_clients (new_client demo_db_env demo_admin)" by code_simp
  have n: "c_id (new_client demo_db_env demo_admin) = ''new''" "c_client_id (new_client demo_db_env demo_admin) = ''ops-cli''"
    by (simp_all add: new_client_def demo_admin_def)
  have "clients_integrity (insert_client (new_client demo_db_env demo_admin) demo_store)"
    using ok(1) c n by (simp add: integrity_def clients_integrity_def insert_client_def) (simp add: demo_store_def demo_rows)
  then have 1: "integrity id (insert_client (new_client demo_db_env demo_admin) demo_store)"
    using ok(1) by (auto simp: integrity_def groups_integrity_def rules_integrity_def insert_client_def list_all_iff cong: option.case_cong)
  then have "clients_integrity bootstrapped_store"
    by (simp add: bootstrapped_store_def integrity_def clients_integrity_def insert_secret_def insert_client_def n new_secret_def)
      (simp add: demo_store_def demo_rows)
  with 1 have 2: "integrity id bootstrapped_store"
    by (auto simp: integrity_def groups_integrity_def rules_integrity_def insert_secret_def bootstrapped_store_def cong: option.case_cong)
  have "int4_columns (insert_client (new_client demo_db_env demo_admin) demo_store)" "int4_columns bootstrapped_store"
    using ok(2) by (simp_all add: int4_columns_def bootstrapped_store_def)
  with 1 2 have c1: "commit id (insert_client (new_client demo_db_env demo_admin) demo_store) =
      Inr (insert_client (new_client demo_db_env demo_admin) demo_store)"
    and c2: "commit id (insert_secret (new_secret demo_db_env 1 ''new'') (insert_client (new_client demo_db_env demo_admin) demo_store)) =
      Inr bootstrapped_store"
    by (simp_all add: commit_def bootstrapped_store_def)
  have a: "nc_client_id demo_admin = ''ops-cli''" by (simp add: demo_admin_def)
  show ?thesis by (simp add: bootstrap_client_def a 0 n c1 c2 del: One_nat_def)
qed

theorem bootstrap_opens_admin_plane_witness:
  "\<exists>t. fst (serve demo_world (TokenRequest [] (credentials_form ''ops-cli'' ''s3cret'')) (demo_system\<lparr>sys_db := bootstrapped_store\<rparr>)) = TokenReply t
    \<and> scope_check demo_world (demo_system\<lparr>sys_db := bootstrapped_store\<rparr>) ''admin'' (Some (bearer_of ''bearer'' t)) = Inl AuthorizationError
    \<and> scope_check demo_world (snd (serve demo_world ClientsPoll (demo_system\<lparr>sys_db := bootstrapped_store\<rparr>))) ''admin''
        (Some (bearer_of ''bearer'' t)) = Inr \<lparr>ac_pk = ''new'', ac_client_id = ''ops-cli'', ac_scopes = {''admin''}\<rparr>"
proof -
  have d: "sys_db demo_system = demo_store" "nc_client_id demo_admin = ''ops-cli''" "nc_scopes demo_admin = [''admin'']"
    "w_db_env demo_world = demo_db_env" "w_tokens demo_world = demo_rotated" "w_time demo_world = 1500" "w_db_reached demo_world"
    by (simp_all add: demo_system_def demo_admin_def demo_world_def)
  have b: "bootstrap_client demo_db_env demo_admin (sys_db demo_system) = (CreatedClient ''new'' ''s3cret'', bootstrapped_store)"
    unfolding d by (rule demo_bootstrap)
  have k: "map_of (ts_signing_keys (w_tokens demo_world)) (ts_active_kid (w_tokens demo_world)) = Some ''second key''"
    "same_realm (w_tokens demo_world) (w_tokens demo_world)" "token_live (w_tokens demo_world) (w_time demo_world) (w_time demo_world)"
    unfolding d by (simp_all add: demo_rotated_def same_realm_def token_live_def)
  have n: "get_client_by_client_id demo_store ''ops-cli'' = None"
    by (simp add: get_client_by_client_id_def demo_store_def demo_client_def)
  have l: "same_libraries demo_db_env demo_db_env" by (simp add: same_libraries_def)
  have a: "''admin'' \<in> set (nc_scopes demo_admin)" "d_sha256 (w_db_env demo_world) = d_sha256 demo_db_env"
    "d_py_lower (w_db_env demo_world) ''bearer'' = ''bearer''" by (simp_all add: d)
  show ?thesis
    using bootstrap_opens_admin_plane[OF ref_jwt.jwt_library_axioms demo_runs l b a(1) demo_world_ok a(2) k(1) demo_world_ok d(7)
        demo_world_ok k(2,3) a(3), of "[]"] n unfolding d(2,3) by auto
qed

end
