(* ===== verification/Migrations.thy ===== *)
theory Migrations
  imports Rule_Store
begin

text \<open>
  \<^verbatim>\<open>alembic/versions\<close>: the thirteen revisions as a chain of fallible steps on a schema in flux.  A row of
  \<^verbatim>\<open>rules\<close> has every column that any revision gives it, absent columns being \<open>None\<close>; the constraints
  in force are part of the state, are checked by every statement that writes rows, and are checked
  once when they are created.  The triggers of revisions 0003 and 0004 write \<^verbatim>\<open>updated_at\<close> and
  \<^verbatim>\<open>rule_history\<close>.  \<^verbatim>\<open>alembic/env.py\<close> runs all pending revisions in one transaction.

  Server defaults are written out in the rows; indexes that are not unique have no effect here.
\<close>

subsection \<open>Rows and constraints\<close>

record xrule =
  xr_id :: string
  xr_endpoint :: string
  xr_identifier_type :: "string option"
  xr_identifier_value :: "string option"
  xr_identifier_types :: "string list option"
  xr_identifier_signature :: "string option"
  xr_algorithm_id :: string
  xr_params :: params
  xr_status :: string
  xr_priority :: int
  xr_version :: int
  xr_created_by :: string
  xr_updated_by :: "string option"
  xr_created_at :: int
  xr_updated_at :: int
  xr_group_id :: "string option"
  xr_overrides :: "params option"
  xr_client_id :: "string option"

record xgroup =
  xg_id :: string
  xg_client_id :: "string option"
  xg_name :: string
  xg_description :: "string option"
  xg_algorithm_id :: string
  xg_identifier_types :: "string list"
  xg_identifier_signature :: string
  xg_params :: params
  xg_priority :: int
  xg_created_by :: string
  xg_updated_by :: "string option"
  xg_created_at :: int
  xg_updated_at :: int

record xhistory =
  xh_rule_id :: string
  xh_action :: string
  xh_snapshot :: xrule
  xh_changed_by :: "string option"
  xh_changed_at :: int

datatype rule_column = IdentifierTypeColumn | IdentifierTypesColumn | IdentifierSignatureColumn | ClientIdColumn

datatype scope_key = ByValue | ByType | BySignature | ByClient

datatype schema_constraint =
    AlgorithmsPkey | AlgorithmsNameKey
  | RulesPkey | RulesAlgorithmFkey | RulesActiveScope scope_key | RulesNotNull rule_column
  | RulesTypesCardinality | RulesGlobalAlone | RulesGroupFkey | RulesOverridesRequireGroup | RulesClientFkey
  | GroupsPkey | GroupsAlgorithmFkey | GroupsTypesCardinality | GroupsGlobalAlone | GroupsNameCi bool
  | GroupsNotNullClient | GroupsClientFkey
  | ClientsPkey | ClientsClientIdKey | ClientsCheck | SecretsPkey | SecretsClientFkey

record xdb =
  xd_revision :: nat
  xd_algorithms :: "algorithm list"
  xd_rules :: "xrule list"
  xd_groups :: "xgroup list"
  xd_clients :: "client list"
  xd_secrets :: "client_secret list"
  xd_history :: "xhistory list"
  xd_history_trigger :: bool
  xd_constraints :: "schema_constraint list"
  xd_drawn :: nat

definition empty_database :: xdb where
  "empty_database = \<lparr>xd_revision = 0, xd_algorithms = [], xd_rules = [], xd_groups = [], xd_clients = [], xd_secrets = [],
     xd_history = [], xd_history_trigger = False, xd_constraints = [], xd_drawn = 0\<rparr>"

fun column_value :: "rule_column \<Rightarrow> xrule \<Rightarrow> bool" where
  "column_value IdentifierTypeColumn r = (xr_identifier_type r \<noteq> None)"
| "column_value IdentifierTypesColumn r = (xr_identifier_types r \<noteq> None)"
| "column_value IdentifierSignatureColumn r = (xr_identifier_signature r \<noteq> None)"
| "column_value ClientIdColumn r = (xr_client_id r \<noteq> None)"

fun scope_values :: "scope_key \<Rightarrow> xrule \<Rightarrow> string option list" where
  "scope_values ByValue r = [Some (xr_endpoint r), xr_identifier_type r, Some (case xr_identifier_value r of None \<Rightarrow> [] | Some v \<Rightarrow> v)]"
| "scope_values ByType r = [Some (xr_endpoint r), xr_identifier_type r]"
| "scope_values BySignature r = [Some (xr_endpoint r), xr_identifier_signature r]"
| "scope_values ByClient r = [xr_client_id r, Some (xr_endpoint r), xr_identifier_signature r]"

text \<open>A unique index does not compare keys that hold a NULL.\<close>

definition unique_index :: "('a \<Rightarrow> string option list) \<Rightarrow> 'a list \<Rightarrow> bool" where
  "unique_index key rows \<longleftrightarrow> distinct (map key (filter (\<lambda>r. None \<notin> set (key r)) rows))"

definition xr_active :: "xrule \<Rightarrow> bool" where
  "xr_active r \<longleftrightarrow> xr_status r = ''active''"

definition name_ci_values :: "(string \<Rightarrow> string) \<Rightarrow> bool \<Rightarrow> xgroup \<Rightarrow> string option list" where
  "name_ci_values lower per_client g = (if per_client then [xg_client_id g, Some (lower (xg_name g))] else [Some (lower (xg_name g))])"

fun holds :: "(string \<Rightarrow> string) \<Rightarrow> xdb \<Rightarrow> schema_constraint \<Rightarrow> bool" where
  "holds lower D AlgorithmsPkey = distinct (map a_id (xd_algorithms D))"
| "holds lower D AlgorithmsNameKey = distinct (map a_name (xd_algorithms D))"
| "holds lower D RulesPkey = distinct (map xr_id (xd_rules D))"
| "holds lower D RulesAlgorithmFkey = list_all (\<lambda>r. xr_algorithm_id r \<in> set (map a_id (xd_algorithms D))) (xd_rules D)"
| "holds lower D (RulesActiveScope k) = unique_index (scope_values k) (filter xr_active (xd_rules D))"
| "holds lower D (RulesNotNull c) = list_all (column_value c) (xd_rules D)"
| "holds lower D RulesTypesCardinality = list_all (\<lambda>r. case xr_identifier_types r of None \<Rightarrow> True
     | Some ts \<Rightarrow> 1 \<le> length ts \<and> length ts \<le> 3) (xd_rules D)"
| "holds lower D RulesGlobalAlone = list_all (\<lambda>r. case xr_identifier_types r of None \<Rightarrow> True
     | Some ts \<Rightarrow> \<not> (''global'' \<in> set ts \<and> 1 < length ts)) (xd_rules D)"
| "holds lower D RulesGroupFkey = list_all (\<lambda>r. case xr_group_id r of None \<Rightarrow> True
     | Some g \<Rightarrow> g \<in> set (map xg_id (xd_groups D))) (xd_rules D)"
| "holds lower D RulesOverridesRequireGroup = list_all (\<lambda>r. xr_overrides r = None \<or> xr_group_id r \<noteq> None) (xd_rules D)"
| "holds lower D RulesClientFkey = list_all (\<lambda>r. case xr_client_id r of None \<Rightarrow> True
     | Some c \<Rightarrow> c \<in> set (map c_id (xd_clients D))) (xd_rules D)"
| "holds lower D GroupsPkey = distinct (map xg_id (xd_groups D))"
| "holds lower D GroupsAlgorithmFkey = list_all (\<lambda>g. xg_algorithm_id g \<in> set (map a_id (xd_algorithms D))) (xd_groups D)"
| "holds lower D GroupsTypesCardinality = list_all (\<lambda>g. 1 \<le> length (xg_identifier_types g) \<and> length (xg_identifier_types g) \<le> 3) (xd_groups D)"
| "holds lower D GroupsGlobalAlone =
     list_all (\<lambda>g. \<not> (''global'' \<in> set (xg_identifier_types g) \<and> 1 < length (xg_identifier_types g))) (xd_groups D)"
| "holds lower D (GroupsNameCi per_client) = unique_index (name_ci_values lower per_client) (xd_groups D)"
| "holds lower D GroupsNotNullClient = list_all (\<lambda>g. xg_client_id g \<noteq> None) (xd_groups D)"
| "holds lower D GroupsClientFkey = list_all (\<lambda>g. case xg_client_id g of None \<Rightarrow> True
     | Some c \<Rightarrow> c \<in> set (map c_id (xd_clients D))) (xd_groups D)"
| "holds lower D ClientsPkey = distinct (map c_id (xd_clients D))"
| "holds lower D ClientsClientIdKey = distinct (map c_client_id (xd_clients D))"
| "holds lower D ClientsCheck = list_all ck_clients (xd_clients D)"
| "holds lower D SecretsPkey = distinct (map s_id (xd_secrets D))"
| "holds lower D SecretsClientFkey = list_all (\<lambda>s. s_client_pk s \<in> set (map c_id (xd_clients D))) (xd_secrets D)"

subsection \<open>Statements\<close>

datatype migration_error = Violated schema_constraint | MissingAlgorithm string | MissingGroup

definition checked :: "db_env \<Rightarrow> xdb \<Rightarrow> migration_error + xdb" where
  "checked E D = (case find (\<lambda>c. \<not> holds (d_pg_lower E) D c) (xd_constraints D) of
       None \<Rightarrow> Inr D
     | Some c \<Rightarrow> Inl (Violated c))"

definition add_constraint :: "db_env \<Rightarrow> schema_constraint \<Rightarrow> xdb \<Rightarrow> migration_error + xdb" where
  "add_constraint E c D = (if holds (d_pg_lower E) D c then Inr (D\<lparr>xd_constraints := xd_constraints D @ [c]\<rparr>) else Inl (Violated c))"

fun add_constraints :: "db_env \<Rightarrow> schema_constraint list \<Rightarrow> xdb \<Rightarrow> migration_error + xdb" where
  "add_constraints E [] D = Inr D"
| "add_constraints E (c # cs) D = bind_sum (add_constraint E c D) (add_constraints E cs)"

definition drop_constraints :: "schema_constraint list \<Rightarrow> xdb \<Rightarrow> xdb" where
  "drop_constraints cs D = D\<lparr>xd_constraints := filter (\<lambda>c. c \<notin> set cs) (xd_constraints D)\<rparr>"

definition alter_rules :: "(xrule \<Rightarrow> xrule) \<Rightarrow> xdb \<Rightarrow> xdb" where
  "alter_rules f D = D\<lparr>xd_rules := map f (xd_rules D)\<rparr>"

definition fn_rules_history :: "int \<Rightarrow> string \<Rightarrow> xrule \<Rightarrow> xhistory" where
  "fn_rules_history now tg_op r = \<lparr>xh_rule_id = xr_id r, xh_action = tg_op, xh_snapshot = r, xh_changed_by = xr_updated_by r,
     xh_changed_at = now\<rparr>"

definition trg_rules_history :: "db_env \<Rightarrow> string \<Rightarrow> xrule list \<Rightarrow> xdb \<Rightarrow> xdb" where
  "trg_rules_history E tg_op rows D = (if xd_history_trigger D
     then D\<lparr>xd_history := xd_history D @ map (fn_rules_history (d_now E) tg_op) rows\<rparr> else D)"

definition fn_touch_updated_at :: "db_env \<Rightarrow> xrule \<Rightarrow> xrule" where
  "fn_touch_updated_at E r = r\<lparr>xr_updated_at := d_now E\<rparr>"

definition insert_rows :: "db_env \<Rightarrow> xrule list \<Rightarrow> xdb \<Rightarrow> migration_error + xdb" where
  "insert_rows E rows D = checked E (trg_rules_history E ''insert'' rows (D\<lparr>xd_rules := xd_rules D @ rows\<rparr>))"

definition update_rows :: "db_env \<Rightarrow> (xrule \<Rightarrow> bool) \<Rightarrow> (xrule \<Rightarrow> xrule) \<Rightarrow> xdb \<Rightarrow> migration_error + xdb" where
  "update_rows E selected f D = (let write = (\<lambda>r. fn_touch_updated_at E (f r)) in
     checked E (trg_rules_history E ''update'' (map write (filter selected (xd_rules D)))
       (alter_rules (\<lambda>r. if selected r then write r else r) D)))"

definition delete_rows :: "db_env \<Rightarrow> (xrule \<Rightarrow> bool) \<Rightarrow> xdb \<Rightarrow> migration_error + xdb" where
  "delete_rows E selected D = checked E (trg_rules_history E ''delete'' (filter selected (xd_rules D))
     (D\<lparr>xd_rules := filter (\<lambda>r. \<not> selected r) (xd_rules D)\<rparr>))"

text \<open>The identifiers of \<^verbatim>\<open>uuid4\<close> and \<^verbatim>\<open>gen_random_uuid\<close> are drawn in order.\<close>

definition drawn :: "db_env \<Rightarrow> xdb \<Rightarrow> nat \<Rightarrow> string" where
  "drawn E D i = d_ids E (xd_drawn D + i)"

definition draw :: "nat \<Rightarrow> xdb \<Rightarrow> xdb" where
  "draw n D = D\<lparr>xd_drawn := xd_drawn D + n\<rparr>"

text \<open>\<^verbatim>\<open>algorithm_ids[algorithm_name]\<close> for every seed.\<close>

definition algorithm_ids :: "xdb \<Rightarrow> string dict" where
  "algorithm_ids D = map (\<lambda>a. (a_name a, a_id a)) (xd_algorithms D)"

fun seed_rows :: "string dict \<Rightarrow> ('s \<Rightarrow> string) \<Rightarrow> (nat \<Rightarrow> string \<Rightarrow> 's \<Rightarrow> 'r) \<Rightarrow> nat \<Rightarrow> 's list \<Rightarrow> migration_error + 'r list" where
  "seed_rows ids name_of row i [] = Inr []"
| "seed_rows ids name_of row i (s # ss) = (case map_of ids (name_of s) of
       None \<Rightarrow> Inl (MissingAlgorithm (name_of s))
     | Some aid \<Rightarrow> map_sum id ((#) (row i aid s)) (seed_rows ids name_of row (Suc i) ss))"

subsection \<open>Seeds\<close>

text \<open>0002: name, description and the properties of the parameters.\<close>

definition param_schema :: "(string \<times> json) list \<Rightarrow> string list \<Rightarrow> json" where
  "param_schema properties required = JObject [(''type'', js ''object''), (''properties'', JObject properties),
     (''required'', JArray (map js required))]"

definition param_property :: "string \<Rightarrow> string \<Rightarrow> json \<Rightarrow> json" where
  "param_property type description fallback =
     JObject [(''type'', js type), (''description'', js description), (''default'', fallback)]"

definition seed_algorithms :: "(string \<times> string \<times> json) list" where
  "seed_algorithms = [
     (''FixedWindow'', ''Fixed-size time windows with a max request count per window.'', param_schema [
         (''limit'', param_property ''integer'' ''max requests allowed per window'' (JInt 100)),
         (''window_seconds'', param_property ''integer'' ''window duration, in seconds'' (JInt 60))]
       [''limit'', ''window_seconds'']),
     (''SlidingWindowLog'', ''Logs each request timestamp; counts requests within a rolling window.'', param_schema [
         (''limit'', param_property ''integer'' ''max requests allowed in the trailing window'' (JInt 100)),
         (''window_seconds'', param_property ''integer'' ''trailing window size, in seconds'' (JInt 60))]
       [''limit'', ''window_seconds'']),
     (''SlidingWindowCounter'', ''Approximates a rolling window using weighted adjacent fixed windows.'', param_schema [
         (''limit'', param_property ''integer'' ''max requests allowed in the trailing window'' (JInt 100)),
         (''window_seconds'', param_property ''integer'' ''trailing window size, in seconds'' (JInt 60))]
       [''limit'', ''window_seconds'']),
     (''TokenBucket'', ''Refills at a fixed rate up to a burst capacity.'', param_schema [
         (''capacity'', param_property ''integer'' ''max tokens the bucket holds (= max burst size)'' (JInt 100)),
         (''refill_rate'', param_property ''number'' ''tokens added per second'' (JFloat 10)),
         (''initial_tokens'', param_property ''integer'' ''tokens present when the bucket is first created; defaults to `capacity` if omitted'' (JNull))]
       [''capacity'', ''refill_rate'']),
     (''LeakyBucket'', ''Requests fill a bucket that leaks at a constant rate.'', param_schema [
         (''capacity'', param_property ''integer'' ''max queued requests before overflow'' (JInt 100)),
         (''leak_rate'', param_property ''number'' ''requests drained (processed) per second'' (JFloat 10))]
       [''capacity'', ''leak_rate''])]"


type_synonym sample_rule = "string \<times> string \<times> string option \<times> string \<times> params \<times> int"

text \<open>0005: endpoint, type, value, algorithm, parameters and priority.\<close>

definition sample_rules :: "sample_rule list" where
  "sample_rules = [
     (''/api/v1/orders'', ''global'', None, ''TokenBucket'', [(''capacity'', JInt 15), (''refill_rate'', JFloat 5)], 100),
     (''/api/v1/orders'', ''api_key'', Some ''premium-partner'', ''TokenBucket'', [(''capacity'', JInt 40), (''refill_rate'', JFloat 10)], 10),
     (''/api/v1/search'', ''global'', None, ''FixedWindow'', [(''limit'', JInt 10), (''window_seconds'', JInt 2)], 100),
     (''/api/v1/search'', ''ip'', Some ''203.0.113.7'', ''FixedWindow'', [(''limit'', JInt 8), (''window_seconds'', JInt 1)], 50),
     (''/api/v1/public-search'', ''global'', None, ''SlidingWindowLog'', [(''limit'', JInt 10), (''window_seconds'', JInt 1)], 100),
     (''/api/v1/checkout'', ''global'', None, ''LeakyBucket'', [(''capacity'', JInt 12), (''leak_rate'', JFloat 3)], 100),
     (''/api/v1/checkout'', ''client_id'', Some ''flaky-client'', ''LeakyBucket'', [(''capacity'', JInt 5), (''leak_rate'', JFloat 1)], 20),
     (''/api/v1/reports'', ''global'', None, ''SlidingWindowCounter'', [(''limit'', JInt 20), (''window_seconds'', JInt 10)], 100),
     (''/api/v1/reports'', ''client_id'', Some ''vip-client'', ''SlidingWindowCounter'', [(''limit'', JInt 40), (''window_seconds'', JInt 10)], 10),
     (''/api/v1/login'', ''ip'', Some ''198.51.100.42'', ''FixedWindow'', [(''limit'', JInt 5), (''window_seconds'', JInt 300)], 100),
     (''/api/v1/orders'', ''user_id'', Some ''user-1001'', ''TokenBucket'', [(''capacity'', JInt 20), (''refill_rate'', JFloat 5)], 15),
     (''/api/v1/orders'', ''organization_id'', Some ''org-42'', ''TokenBucket'', [(''capacity'', JInt 60), (''refill_rate'', JFloat 15)], 12),
     (''/api/v1/orders'', ''subscription_tier'', Some ''free-tier'', ''TokenBucket'', [(''capacity'', JInt 5), (''refill_rate'', JFloat 1)], 30),
     (''/api/v1/reports'', ''tenant_id'', Some ''tenant-acme'', ''SlidingWindowCounter'', [(''limit'', JInt 100), (''window_seconds'', JInt 60)], 15),
     (''/api/v1/reports'', ''request_source'', Some ''internal-dashboard'', ''SlidingWindowCounter'', [(''limit'', JInt 200), (''window_seconds'', JInt 10)], 5),
     (''/api/v1/reports'', ''endpoint'', Some ''reports-v2'', ''SlidingWindowCounter'', [(''limit'', JInt 25), (''window_seconds'', JInt 10)], 25),
     (''/api/v1/checkout'', ''session_id'', Some ''sess-abcxyz'', ''LeakyBucket'', [(''capacity'', JInt 8), (''leak_rate'', JFloat 2)], 15),
     (''/api/v1/public-search'', ''device_id'', Some ''device-9f2a'', ''SlidingWindowLog'', [(''limit'', JInt 15), (''window_seconds'', JInt 1)], 15),
     (''/api/v1/public-search'', ''user_agent'', Some ''bot-crawler/1.0'', ''SlidingWindowLog'', [(''limit'', JInt 3), (''window_seconds'', JInt 5)], 10),
     (''/api/v1/search'', ''account_id'', Some ''account-777'', ''FixedWindow'', [(''limit'', JInt 12), (''window_seconds'', JInt 1)], 15),
     (''/api/v1/search'', ''region'', Some ''us-east-1'', ''FixedWindow'', [(''limit'', JInt 20), (''window_seconds'', JInt 1)], 60),
     (''/api/v1/login'', ''ip_range'', Some ''198.51.100.0/24'', ''FixedWindow'', [(''limit'', JInt 50), (''window_seconds'', JInt 300)], 50),
     (''/api/v1/webhooks'', ''webhook_id'', Some ''webhook-555'', ''FixedWindow'', [(''limit'', JInt 30), (''window_seconds'', JInt 60)], 100)]"


type_synonym composite_sample_rule = "string \<times> string list \<times> string \<times> params \<times> int"

definition composite_sample_rules :: "composite_sample_rule list" where
  "composite_sample_rules = [
     (''/api/v1/orders'', [''api_key'', ''ip''], ''TokenBucket'', [(''capacity'', JInt 25), (''refill_rate'', JFloat 8)], 50),
     (''/api/v1/checkout'', [''client_id'', ''session_id''], ''LeakyBucket'', [(''capacity'', JInt 10), (''leak_rate'', JFloat (5 / 2))], 50),
     (''/api/v1/reports'', [''tenant_id'', ''user_id''], ''SlidingWindowCounter'', [(''limit'', JInt 150), (''window_seconds'', JInt 60)], 50),
     (''/api/v1/search'', [''api_key'', ''ip'', ''user_id''], ''FixedWindow'', [(''limit'', JInt 15), (''window_seconds'', JInt 2)], 50),
     (''/api/v1/public-search'', [''device_id'', ''user_agent''], ''SlidingWindowLog'', [(''limit'', JInt 6), (''window_seconds'', JInt 1)], 50)]"


type_synonym sample_group = "string \<times> string \<times> string \<times> string list \<times> params \<times> int"

definition sample_groups :: "sample_group list" where
  "sample_groups = [
     (''premium-endpoints'', ''Shared TokenBucket policy for premium-tier API endpoints, keyed by api_key.'', ''TokenBucket'', [''api_key''], [(''capacity'', JInt 50), (''refill_rate'', JFloat 15)], 50),
     (''admin-endpoints'', ''Shared FixedWindow policy for internal admin endpoints, keyed by user_id.'', ''FixedWindow'', [''user_id''], [(''limit'', JInt 200), (''window_seconds'', JInt 60)], 50)]"


definition sample_members :: "(string \<times> string \<times> params) list" where
  "sample_members = [
     (''premium-endpoints'', ''/api/v1/premium/dashboard'', []),
     (''premium-endpoints'', ''/api/v1/premium/export'', [(''capacity'', JInt 100)]),
     (''premium-endpoints'', ''/api/v1/premium/reports'', []),
     (''admin-endpoints'', ''/api/v1/admin/users'', []),
     (''admin-endpoints'', ''/api/v1/admin/settings'', [(''limit'', JInt 500)])]"


definition seeded_by :: string where
  "seeded_by = ''seed_migration''"

subsection \<open>Upgrades\<close>

definition upgrade_0001 :: "db_env \<Rightarrow> xdb \<Rightarrow> migration_error + xdb" where
  "upgrade_0001 E D = add_constraints E [AlgorithmsPkey, AlgorithmsNameKey] D"

definition seed_algorithm :: "db_env \<Rightarrow> string \<Rightarrow> string \<times> string \<times> json \<Rightarrow> algorithm" where
  "seed_algorithm E i = (\<lambda>(name, description, schema). \<lparr>a_id = i, a_name = name, a_description = Some description,
     a_params = schema, a_created_at = d_now E, a_updated_at = d_now E\<rparr>)"

definition upgrade_0002 :: "db_env \<Rightarrow> xdb \<Rightarrow> migration_error + xdb" where
  "upgrade_0002 E D = (let n = length seed_algorithms in
     checked E (draw n (D\<lparr>xd_algorithms := xd_algorithms D @
       map (\<lambda>(i, s). seed_algorithm E (drawn E D i) s) (enumerate 0 seed_algorithms)\<rparr>)))"

definition upgrade_0003 :: "db_env \<Rightarrow> xdb \<Rightarrow> migration_error + xdb" where
  "upgrade_0003 E D = add_constraints E [RulesPkey, RulesNotNull IdentifierTypeColumn, RulesAlgorithmFkey, RulesActiveScope ByValue] D"

definition upgrade_0004 :: "db_env \<Rightarrow> xdb \<Rightarrow> migration_error + xdb" where
  "upgrade_0004 E D = Inr (D\<lparr>xd_history_trigger := True\<rparr>)"

definition sample_rule_row :: "db_env \<Rightarrow> string \<Rightarrow> string \<Rightarrow> sample_rule \<Rightarrow> xrule" where
  "sample_rule_row E i aid = (\<lambda>(endpoint, type, value, _, ps, prio). \<lparr>xr_id = i, xr_endpoint = endpoint,
     xr_identifier_type = Some type, xr_identifier_value = value, xr_identifier_types = None, xr_identifier_signature = None,
     xr_algorithm_id = aid, xr_params = ps, xr_status = ''active'', xr_priority = prio, xr_version = 1,
     xr_created_by = seeded_by, xr_updated_by = None, xr_created_at = d_now E, xr_updated_at = d_now E,
     xr_group_id = None, xr_overrides = None, xr_client_id = None\<rparr>)"

definition upgrade_0005 :: "db_env \<Rightarrow> xdb \<Rightarrow> migration_error + xdb" where
  "upgrade_0005 E D = bind_sum
     (seed_rows (algorithm_ids D) (\<lambda>(_, _, _, name, _). name) (\<lambda>i. sample_rule_row E (drawn E D i)) 0 sample_rules)
     (\<lambda>rows. insert_rows E rows (draw (length sample_rules) D))"

definition upgrade_0006 :: "db_env \<Rightarrow> xdb \<Rightarrow> migration_error + xdb" where
  "upgrade_0006 E D = add_constraint E (RulesActiveScope ByType)
     (alter_rules (\<lambda>r. r\<lparr>xr_identifier_value := None\<rparr>) (drop_constraints [RulesActiveScope ByValue] D))"

definition backfill_types :: "xrule \<Rightarrow> xrule" where
  "backfill_types r = r\<lparr>xr_identifier_types := map_option (\<lambda>t. [t]) (xr_identifier_type r),
     xr_identifier_signature := xr_identifier_type r\<rparr>"

definition upgrade_0007 :: "db_env \<Rightarrow> xdb \<Rightarrow> migration_error + xdb" where
  "upgrade_0007 E D =
     bind_sum (update_rows E (\<lambda>r. xr_identifier_types r = None) backfill_types D) (\<lambda>D.
     bind_sum (add_constraints E [RulesNotNull IdentifierTypesColumn, RulesNotNull IdentifierSignatureColumn,
       RulesTypesCardinality, RulesGlobalAlone] D) (\<lambda>D.
     add_constraint E (RulesActiveScope BySignature) (drop_constraints [RulesActiveScope ByType] D)))"

definition upgrade_0008 :: "db_env \<Rightarrow> xdb \<Rightarrow> migration_error + xdb" where
  "upgrade_0008 E D = Inr (alter_rules (\<lambda>r. r\<lparr>xr_identifier_type := None\<rparr>)
     (drop_constraints [RulesNotNull IdentifierTypeColumn] D))"

definition composite_rule_row :: "db_env \<Rightarrow> string \<Rightarrow> string \<Rightarrow> composite_sample_rule \<Rightarrow> xrule" where
  "composite_rule_row E i aid = (\<lambda>(endpoint, types, _, ps, prio). \<lparr>xr_id = i, xr_endpoint = endpoint,
     xr_identifier_type = None, xr_identifier_value = None, xr_identifier_types = Some (sort types),
     xr_identifier_signature = Some (join ''+'' (sort types)),
     xr_algorithm_id = aid, xr_params = ps, xr_status = ''active'', xr_priority = prio, xr_version = 1,
     xr_created_by = seeded_by, xr_updated_by = None, xr_created_at = d_now E, xr_updated_at = d_now E,
     xr_group_id = None, xr_overrides = None, xr_client_id = None\<rparr>)"

definition upgrade_0009 :: "db_env \<Rightarrow> xdb \<Rightarrow> migration_error + xdb" where
  "upgrade_0009 E D = bind_sum
     (seed_rows (algorithm_ids D) (\<lambda>(_, _, name, _). name) (\<lambda>i. composite_rule_row E (drawn E D i)) 0 composite_sample_rules)
     (\<lambda>rows. insert_rows E rows (draw (length composite_sample_rules) D))"

definition upgrade_0010 :: "db_env \<Rightarrow> xdb \<Rightarrow> migration_error + xdb" where
  "upgrade_0010 E D = add_constraints E [GroupsPkey, GroupsAlgorithmFkey, GroupsTypesCardinality, GroupsGlobalAlone,
     GroupsNameCi False, RulesGroupFkey, RulesOverridesRequireGroup] D"

definition sample_group_row :: "db_env \<Rightarrow> string \<Rightarrow> string \<Rightarrow> sample_group \<Rightarrow> xgroup" where
  "sample_group_row E i aid = (\<lambda>(name, description, _, types, ps, prio). \<lparr>xg_id = i, xg_client_id = None, xg_name = name,
     xg_description = Some description, xg_algorithm_id = aid, xg_identifier_types = sort types,
     xg_identifier_signature = join ''+'' (sort types), xg_params = ps, xg_priority = prio,
     xg_created_by = seeded_by, xg_updated_by = None, xg_created_at = d_now E, xg_updated_at = d_now E\<rparr>)"

text \<open>A member takes everything from its group's row; an unknown group would be a \<^verbatim>\<open>KeyError\<close>.\<close>

definition sample_member_row :: "db_env \<Rightarrow> xgroup list \<Rightarrow> string \<Rightarrow> string \<times> string \<times> params \<Rightarrow> xrule option" where
  "sample_member_row E groups i = (\<lambda>(group_name, endpoint, ov).
     map_option (\<lambda>g. \<lparr>xr_id = i, xr_endpoint = endpoint, xr_identifier_type = None, xr_identifier_value = None,
       xr_identifier_types = Some (xg_identifier_types g), xr_identifier_signature = Some (xg_identifier_signature g),
       xr_algorithm_id = xg_algorithm_id g, xr_params = compute_effective_params (xg_params g) ov,
       xr_status = ''active'', xr_priority = xg_priority g, xr_version = 1, xr_created_by = seeded_by, xr_updated_by = None,
       xr_created_at = d_now E, xr_updated_at = d_now E, xr_group_id = Some (xg_id g), xr_overrides = Some ov,
       xr_client_id = None\<rparr>) (find (\<lambda>g. xg_name g = group_name) groups))"

definition upgrade_0011 :: "db_env \<Rightarrow> xdb \<Rightarrow> migration_error + xdb" where
  "upgrade_0011 E D = (let n = length sample_groups in bind_sum
     (seed_rows (algorithm_ids D) (\<lambda>(_, _, name, _). name) (\<lambda>i. sample_group_row E (drawn E D i)) 0 sample_groups)
     (\<lambda>groups. bind_sum (checked E (draw n (D\<lparr>xd_groups := xd_groups D @ groups\<rparr>))) (\<lambda>D.
       case those (map (\<lambda>(i, s). sample_member_row E groups (drawn E D i) s) (enumerate 0 sample_members)) of
         None \<Rightarrow> Inl MissingGroup
       | Some rows \<Rightarrow> insert_rows E rows (draw (length sample_members) D))))"

definition default_client :: "db_env \<Rightarrow> string \<Rightarrow> client" where
  "default_client E i = \<lparr>c_id = i, c_client_id = ''default'', c_name = ''Default client'',
     c_description = Some ''Seeded owner of every pre-Phase-6 rule/group'', c_status = ''active'', c_scopes = [''check''],
     c_created_at = d_now E, c_updated_at = d_now E\<rparr>"

definition upgrade_0012 :: "db_env \<Rightarrow> xdb \<Rightarrow> migration_error + xdb" where
  "upgrade_0012 E D = bind_sum (add_constraints E [ClientsPkey, ClientsClientIdKey, ClientsCheck, SecretsPkey, SecretsClientFkey] D)
     (\<lambda>D. checked E (draw 1 (D\<lparr>xd_clients := xd_clients D @ [default_client E (drawn E D 0)]\<rparr>)))"

definition default_client_pk :: "xdb \<Rightarrow> string option" where
  "default_client_pk D = map_option c_id (find (\<lambda>c. c_client_id c = ''default'') (xd_clients D))"

definition upgrade_0013 :: "db_env \<Rightarrow> xdb \<Rightarrow> migration_error + xdb" where
  "upgrade_0013 E D = (let pk = default_client_pk D in
     bind_sum (update_rows E (\<lambda>r. xr_client_id r = None) (\<lambda>r. r\<lparr>xr_client_id := pk\<rparr>) D) (\<lambda>D.
     bind_sum (checked E (D\<lparr>xd_groups := map (\<lambda>g. if xg_client_id g = None
         then g\<lparr>xg_client_id := pk, xg_updated_at := d_now E\<rparr> else g) (xd_groups D)\<rparr>)) (\<lambda>D.
     bind_sum (add_constraints E [RulesNotNull ClientIdColumn, GroupsNotNullClient, RulesClientFkey, GroupsClientFkey] D) (\<lambda>D.
     bind_sum (add_constraint E (RulesActiveScope ByClient) (drop_constraints [RulesActiveScope BySignature] D)) (\<lambda>D.
     add_constraint E (GroupsNameCi True) (drop_constraints [GroupsNameCi False] D))))))"


subsection \<open>Downgrades\<close>

definition downgrade_0013 :: "db_env \<Rightarrow> xdb \<Rightarrow> migration_error + xdb" where
  "downgrade_0013 E D =
     bind_sum (add_constraint E (GroupsNameCi False) (drop_constraints [GroupsNameCi True] D)) (\<lambda>D.
     bind_sum (add_constraint E (RulesActiveScope BySignature) (drop_constraints [RulesActiveScope ByClient] D)) (\<lambda>D.
     let D = drop_constraints [GroupsClientFkey, RulesClientFkey, GroupsNotNullClient, RulesNotNull ClientIdColumn] D in
     Inr (alter_rules (\<lambda>r. r\<lparr>xr_client_id := None\<rparr>) (D\<lparr>xd_groups := map (\<lambda>g. g\<lparr>xg_client_id := None\<rparr>) (xd_groups D)\<rparr>))))"

definition downgrade_0012 :: "db_env \<Rightarrow> xdb \<Rightarrow> migration_error + xdb" where
  "downgrade_0012 E D = Inr (drop_constraints [ClientsPkey, ClientsClientIdKey, ClientsCheck, SecretsPkey, SecretsClientFkey]
     (D\<lparr>xd_secrets := [], xd_clients := []\<rparr>))"

definition downgrade_0011 :: "db_env \<Rightarrow> xdb \<Rightarrow> migration_error + xdb" where
  "downgrade_0011 E D =
     (let names = map fst sample_groups;
          seeded = (\<lambda>g. xg_created_by g = seeded_by \<and> xg_name g \<in> set names);
          ids = map xg_id (filter seeded (xd_groups D)) in
      bind_sum (if ids = [] then Inr D
          else delete_rows E (\<lambda>r. case xr_group_id r of None \<Rightarrow> False | Some g \<Rightarrow> g \<in> set ids) D) (\<lambda>D.
      checked E (D\<lparr>xd_groups := filter (\<lambda>g. \<not> seeded g) (xd_groups D)\<rparr>)))"

definition downgrade_0010 :: "db_env \<Rightarrow> xdb \<Rightarrow> migration_error + xdb" where
  "downgrade_0010 E D = Inr (alter_rules (\<lambda>r. r\<lparr>xr_overrides := None, xr_group_id := None\<rparr>)
     (drop_constraints [RulesOverridesRequireGroup, RulesGroupFkey, GroupsPkey, GroupsAlgorithmFkey, GroupsTypesCardinality,
       GroupsGlobalAlone, GroupsNameCi False] (D\<lparr>xd_groups := []\<rparr>)))"

definition downgrade_0009 :: "db_env \<Rightarrow> xdb \<Rightarrow> migration_error + xdb" where
  "downgrade_0009 E D =
     (let signatures = map (\<lambda>(_, types, _). join ''+'' (sort types)) composite_sample_rules in
      delete_rows E (\<lambda>r. xr_created_by r = seeded_by
        \<and> (case xr_identifier_signature r of None \<Rightarrow> False | Some s \<Rightarrow> s \<in> set signatures)) D)"

definition downgrade_0008 :: "db_env \<Rightarrow> xdb \<Rightarrow> migration_error + xdb" where
  "downgrade_0008 E D =
     bind_sum (update_rows E (\<lambda>_. True) (\<lambda>r. r\<lparr>xr_identifier_type := xr_identifier_signature r\<rparr>) D)
       (add_constraint E (RulesNotNull IdentifierTypeColumn))"

definition downgrade_0007 :: "db_env \<Rightarrow> xdb \<Rightarrow> migration_error + xdb" where
  "downgrade_0007 E D =
     bind_sum (add_constraint E (RulesActiveScope ByType) (drop_constraints [RulesActiveScope BySignature] D)) (\<lambda>D.
     Inr (alter_rules (\<lambda>r. r\<lparr>xr_identifier_signature := None, xr_identifier_types := None\<rparr>)
       (drop_constraints [RulesGlobalAlone, RulesTypesCardinality, RulesNotNull IdentifierSignatureColumn,
         RulesNotNull IdentifierTypesColumn] D)))"

definition downgrade_0006 :: "db_env \<Rightarrow> xdb \<Rightarrow> migration_error + xdb" where
  "downgrade_0006 E D = add_constraint E (RulesActiveScope ByValue)
     (alter_rules (\<lambda>r. r\<lparr>xr_identifier_value := None\<rparr>) (drop_constraints [RulesActiveScope ByType] D))"

definition downgrade_0005 :: "db_env \<Rightarrow> xdb \<Rightarrow> migration_error + xdb" where
  "downgrade_0005 E D = delete_rows E (\<lambda>r. xr_created_by r = seeded_by) D"

definition downgrade_0004 :: "db_env \<Rightarrow> xdb \<Rightarrow> migration_error + xdb" where
  "downgrade_0004 E D = Inr (D\<lparr>xd_history := [], xd_history_trigger := False\<rparr>)"

definition downgrade_0003 :: "db_env \<Rightarrow> xdb \<Rightarrow> migration_error + xdb" where
  "downgrade_0003 E D = Inr (drop_constraints [RulesPkey, RulesNotNull IdentifierTypeColumn, RulesAlgorithmFkey,
     RulesActiveScope ByValue] (D\<lparr>xd_rules := []\<rparr>))"

definition downgrade_0002 :: "db_env \<Rightarrow> xdb \<Rightarrow> migration_error + xdb" where
  "downgrade_0002 E D = checked E (D\<lparr>xd_algorithms := filter (\<lambda>a. a_name a \<notin> set (map fst seed_algorithms)) (xd_algorithms D)\<rparr>)"

definition downgrade_0001 :: "db_env \<Rightarrow> xdb \<Rightarrow> migration_error + xdb" where
  "downgrade_0001 E D = Inr (drop_constraints [AlgorithmsPkey, AlgorithmsNameKey] (D\<lparr>xd_algorithms := []\<rparr>))"

subsection \<open>Running the chain\<close>

definition upgrades :: "(db_env \<Rightarrow> xdb \<Rightarrow> migration_error + xdb) list" where
  "upgrades = [upgrade_0001, upgrade_0002, upgrade_0003, upgrade_0004, upgrade_0005, upgrade_0006, upgrade_0007,
     upgrade_0008, upgrade_0009, upgrade_0010, upgrade_0011, upgrade_0012, upgrade_0013]"

definition downgrades :: "(db_env \<Rightarrow> xdb \<Rightarrow> migration_error + xdb) list" where
  "downgrades = [downgrade_0001, downgrade_0002, downgrade_0003, downgrade_0004, downgrade_0005, downgrade_0006, downgrade_0007,
     downgrade_0008, downgrade_0009, downgrade_0010, downgrade_0011, downgrade_0012, downgrade_0013]"

fun run_steps :: "db_env \<Rightarrow> (db_env \<Rightarrow> xdb \<Rightarrow> migration_error + xdb) list \<Rightarrow> xdb \<Rightarrow> migration_error + xdb" where
  "run_steps E [] D = Inr D"
| "run_steps E (f # fs) D = bind_sum (f E D) (run_steps E fs)"

text \<open>One transaction: when a step fails nothing is changed.\<close>

definition in_transaction :: "nat \<Rightarrow> xdb \<Rightarrow> migration_error + xdb \<Rightarrow> (migration_error + unit) \<times> xdb" where
  "in_transaction revision D x = (case x of Inl e \<Rightarrow> (Inl e, D) | Inr D' \<Rightarrow> (Inr (), D'\<lparr>xd_revision := revision\<rparr>))"

definition upgrade_head :: "db_env \<Rightarrow> xdb \<Rightarrow> (migration_error + unit) \<times> xdb" where
  "upgrade_head E D = in_transaction (length upgrades) D (run_steps E (drop (xd_revision D) upgrades) D)"

definition downgrade_to :: "db_env \<Rightarrow> nat \<Rightarrow> xdb \<Rightarrow> (migration_error + unit) \<times> xdb" where
  "downgrade_to E revision D =
     in_transaction revision D (run_steps E (rev (drop revision (take (xd_revision D) downgrades))) D)"

subsection \<open>The audit script\<close>

text \<open>\<^verbatim>\<open>scripts/audit_rules_identifier_value.py\<close>: the rows that lose their value with revision 0006.\<close>

definition audit_rules_identifier_value :: "xdb \<Rightarrow> (string \<times> string \<times> string option \<times> string) list" where
  "audit_rules_identifier_value D = map (\<lambda>r. (xr_id r, xr_endpoint r, xr_identifier_type r, the (xr_identifier_value r)))
     (sort_key (\<lambda>r. (xr_endpoint r, case xr_identifier_type r of None \<Rightarrow> [] | Some t \<Rightarrow> t))
       (filter (\<lambda>r. xr_identifier_value r \<noteq> None) (xd_rules D)))"

subsection \<open>The store at the head\<close>

definition head_rule :: "xrule \<Rightarrow> rule option" where
  "head_rule r = (case (xr_client_id r, xr_identifier_types r, xr_identifier_signature r) of
       (Some c, Some ts, Some sig) \<Rightarrow> Some \<lparr>r_id = xr_id r, r_client_id = c, r_endpoint = xr_endpoint r,
         r_identifier_types = ts, r_identifier_signature = sig, r_algorithm_id = xr_algorithm_id r, r_params = xr_params r,
         r_status = xr_status r, r_priority = xr_priority r, r_version = xr_version r, r_created_by = xr_created_by r,
         r_updated_by = xr_updated_by r, r_created_at = xr_created_at r, r_updated_at = xr_updated_at r,
         r_group_id = xr_group_id r, r_overrides = xr_overrides r\<rparr>
     | _ \<Rightarrow> None)"

definition head_group :: "xgroup \<Rightarrow> rule_group option" where
  "head_group g = map_option (\<lambda>c. \<lparr>g_id = xg_id g, g_client_id = c, g_name = xg_name g, g_description = xg_description g,
     g_algorithm_id = xg_algorithm_id g, g_identifier_types = xg_identifier_types g,
     g_identifier_signature = xg_identifier_signature g, g_params = xg_params g, g_priority = xg_priority g,
     g_created_by = xg_created_by g, g_updated_by = xg_updated_by g, g_created_at = xg_created_at g,
     g_updated_at = xg_updated_at g\<rparr>) (xg_client_id g)"

text \<open>
  The tables as the application reads them.  The log starts empty here: the entries that migrations
  leave are snapshots of rows in the shape of their time, and nothing in the application reads them.
\<close>

definition head_store :: "xdb \<Rightarrow> db option" where
  "head_store D = Option.bind (those (map head_rule (xd_rules D))) (\<lambda>rules. map_option (\<lambda>groups.
     \<lparr>t_algorithms = xd_algorithms D, t_clients = xd_clients D, t_secrets = xd_secrets D, t_groups = groups, t_rules = rules,
      t_history = []\<rparr>) (those (map head_group (xd_groups D))))"

end
