(* ===== verification/Fresh_Database.thy ===== *)
theory Fresh_Database
  imports Migrations
begin

text \<open>
  A fresh database: all thirteen revisions run on the empty one, and what they leave is a store the
  application accepts.  The rows are tracked by the closed lists of seeds they come from, so every
  constraint reduces to a computation on the seeds, and the identifiers only have to be distinct.
\<close>

subsection \<open>Lists of seeds\<close>

definition rows_of :: "(nat \<Rightarrow> 's \<Rightarrow> 'r) \<Rightarrow> 's list \<Rightarrow> 'r list" where
  "rows_of g ss = map (\<lambda>(i, s). g i s) (enumerate 0 ss)"

lemma map_rows_of: "map f (rows_of g ss) = rows_of (\<lambda>i s. f (g i s)) ss"
  by (simp add: rows_of_def split_def o_def)

lemma rows_of_snd: "rows_of (\<lambda>i. f) ss = map f ss"
proof -
  have "map (\<lambda>(i, s). f s) (enumerate n ss) = map f ss" for n by (induction ss arbitrary: n) auto
  then show ?thesis by (simp add: rows_of_def)
qed

lemma rows_of_fst: "rows_of (\<lambda>i s. f i) ss = map f [0..<length ss]"
proof -
  have "map (\<lambda>(i, s). f i) (enumerate n ss) = map f [n..<n + length ss]" for n
    by (induction ss arbitrary: n) (auto simp: upt_rec)
  then show ?thesis by (simp add: rows_of_def)
qed

lemma rows_of_cong: "(\<And>i s. s \<in> set ss \<Longrightarrow> f i s = g i s) \<Longrightarrow> rows_of f ss = rows_of g ss"
proof -
  assume a: "\<And>i s. s \<in> set ss \<Longrightarrow> f i s = g i s"
  have "map (\<lambda>(i, s). f i s) (enumerate n ss) = map (\<lambda>(i, s). g i s) (enumerate n ss)" for n
    using a by (induction ss arbitrary: n) auto
  then show ?thesis by (simp add: rows_of_def)
qed

lemma list_all_rows_of: "(\<And>i. list_all (\<lambda>s. P (g i s)) ss) \<Longrightarrow> list_all P (rows_of g ss)"
proof -
  assume a: "\<And>i. list_all (\<lambda>s. P (g i s)) ss"
  have "list_all P (map (\<lambda>(i, s). g i s) (enumerate n ss))" for n using a by (induction ss arbitrary: n) auto
  then show ?thesis by (simp add: rows_of_def)
qed

lemma seed_rows_Inr:
  "list_all (\<lambda>s. map_of ids (name_of s) \<noteq> None) ss \<Longrightarrow>
     seed_rows ids name_of row 0 ss = Inr (rows_of (\<lambda>i s. row i (the (map_of ids (name_of s))) s) ss)"
proof -
  assume a: "list_all (\<lambda>s. map_of ids (name_of s) \<noteq> None) ss"
  have "seed_rows ids name_of row n ss = Inr (map (\<lambda>(i, s). row i (the (map_of ids (name_of s))) s) (enumerate n ss))" for n
    using a by (induction ss arbitrary: n) auto
  then show ?thesis by (simp add: rows_of_def)
qed

lemma those_Some: "those (map Some xs) = Some xs"
  by (induction xs) auto

lemma those_map: "list_all (\<lambda>x. f x \<noteq> None) xs \<Longrightarrow> those (map f xs) = Some (map (\<lambda>x. the (f x)) xs)"
  by (induction xs) auto

lemma checked_Inr: "list_all (holds (d_pg_lower E) D) (xd_constraints D) \<Longrightarrow> checked E D = Inr D"
  by (auto simp: checked_def list_all_iff find_None_iff split: option.splits dest: find_SomeD)

subsection \<open>The seeds\<close>

definition seed_algorithm_of :: "sample_rule \<Rightarrow> string" where
  "seed_algorithm_of = (\<lambda>(_, _, _, name, _). name)"

definition seed_scopes :: "(string \<times> string) list" where
  "seed_scopes = map (\<lambda>(endpoint, type, _). (endpoint, type)) sample_rules
     @ map (\<lambda>(endpoint, types, _). (endpoint, join ''+'' (sort types))) composite_sample_rules
     @ map (\<lambda>(group_name, endpoint, _). (endpoint, if group_name = ''admin-endpoints'' then ''user_id'' else ''api_key'')) sample_members"

lemma seed_scopes_distinct: "distinct seed_scopes"
  by code_simp

lemma sample_types: "list_all (\<lambda>(_, type, _). canonical_types [type] type) sample_rules"
  by code_simp

lemma composite_types: "list_all (\<lambda>(_, types, _). canonical_types (sort types) (join ''+'' (sort types))) composite_sample_rules"
  by code_simp

text \<open>What pydantic is documented to do with the numbers the seeds use.\<close>

definition numbers_accepted :: "coercions \<Rightarrow> bool" where
  "numbers_accepted c \<longleftrightarrow> (\<forall>n. c_int c (JInt n) = Some n) \<and> (\<forall>x. c_float c (JFloat x) = Some x)"

lemma builds_seed:
  assumes "numbers_accepted c"
  shows "name \<in> {''FixedWindow'', ''SlidingWindowLog'', ''SlidingWindowCounter''} \<Longrightarrow> 0 < n \<Longrightarrow> 0 < w \<Longrightarrow>
      builds c name [(''limit'', JInt n), (''window_seconds'', JInt w)]"
    "0 < n \<Longrightarrow> 0 < x \<Longrightarrow> builds c ''TokenBucket'' [(''capacity'', JInt n), (''refill_rate'', JFloat x)]"
    "0 < n \<Longrightarrow> 0 < x \<Longrightarrow> builds c ''LeakyBucket'' [(''capacity'', JInt n), (''leak_rate'', JFloat x)]"
  using assms
  by (auto simp: builds_def build_algorithm_config_def windowed_class_def get_key_def window_ms_def gt0_int_def gt0_float_def
      numbers_accepted_def)

lemma sample_builds:
  assumes "numbers_accepted c"
  shows "list_all (\<lambda>(_, _, _, name, ps, _). builds c name ps) sample_rules"
    "list_all (\<lambda>(_, _, name, ps, _). builds c name ps) composite_sample_rules"
  by (simp_all add: sample_rules_def composite_sample_rules_def builds_seed[OF assms])

subsection \<open>Stages\<close>

definition stage :: "algorithm list \<Rightarrow> xrule list \<Rightarrow> xgroup list \<Rightarrow> client list \<Rightarrow> xhistory list \<Rightarrow> bool \<Rightarrow>
    schema_constraint list \<Rightarrow> nat \<Rightarrow> xdb" where
  "stage A R G C h trigger cs n = \<lparr>xd_revision = 0, xd_algorithms = A, xd_rules = R, xd_groups = G, xd_clients = C,
     xd_secrets = [], xd_history = h, xd_history_trigger = trigger, xd_constraints = cs, xd_drawn = n\<rparr>"

lemma stage_simps [simp]: "xd_algorithms (stage A R G C h t cs n) = A" "xd_rules (stage A R G C h t cs n) = R"
  "xd_groups (stage A R G C h t cs n) = G" "xd_clients (stage A R G C h t cs n) = C" "xd_secrets (stage A R G C h t cs n) = []"
  "xd_constraints (stage A R G C h t cs n) = cs" "xd_drawn (stage A R G C h t cs n) = n"
  "xd_revision (stage A R G C h t cs n) = 0"
  "(stage A R G C h t cs n)\<lparr>xd_rules := R'\<rparr> = stage A R' G C h t cs n"
  "(stage A R G C h t cs n)\<lparr>xd_groups := G'\<rparr> = stage A R G' C h t cs n"
  "(stage A R G C h t cs n)\<lparr>xd_clients := C'\<rparr> = stage A R G C' h t cs n"
  "(stage A R G C h t cs n)\<lparr>xd_constraints := cs'\<rparr> = stage A R G C h t cs' n"
  "alter_rules f (stage A R G C h t cs n) = stage A (map f R) G C h t cs n"
  "drop_constraints ds (stage A R G C h t cs n) = stage A R G C h t (filter (\<lambda>c. c \<notin> set ds) cs) n"
  "draw k (stage A R G C h t cs n) = stage A R G C h t cs (n + k)"
  "drawn E (stage A R G C h t cs n) i = d_ids E (n + i)"
  by (simp_all add: stage_def alter_rules_def drop_constraints_def draw_def drawn_def)

definition valid :: "(string \<Rightarrow> string) \<Rightarrow> algorithm list \<Rightarrow> xrule list \<Rightarrow> xgroup list \<Rightarrow> client list \<Rightarrow> schema_constraint list \<Rightarrow> bool" where
  "valid lower A R G C cs \<longleftrightarrow> list_all (holds lower (stage A R G C [] False [] 0)) cs"

lemma holds_stage: "holds lower (stage A R G C h t cs n) = holds lower (stage A R G C [] False [] 0)"
proof
  fix c show "holds lower (stage A R G C h t cs n) c = holds lower (stage A R G C [] False [] 0) c"
    by (cases c) (simp_all cong: option.case_cong)
qed

lemma checked_stage: "valid (d_pg_lower E) A R G C cs \<Longrightarrow> checked E (stage A R G C h t cs n) = Inr (stage A R G C h t cs n)"
  by (intro checked_Inr) (simp add: valid_def holds_stage[of _ _ _ _ _ h t cs n])

lemma add_constraint_stage:
  "valid (d_pg_lower E) A R G C [c] \<Longrightarrow> add_constraint E c (stage A R G C h t cs n) = Inr (stage A R G C h t (cs @ [c]) n)"
  by (simp add: add_constraint_def valid_def holds_stage[of _ _ _ _ _ h t cs n])

lemma add_constraints_stage:
  "valid (d_pg_lower E) A R G C ds \<Longrightarrow> add_constraints E ds (stage A R G C h t cs n) = Inr (stage A R G C h t (cs @ ds) n)"
proof (induction ds arbitrary: cs)
  case (Cons d ds)
  then have "valid (d_pg_lower E) A R G C [d]" "valid (d_pg_lower E) A R G C ds" by (simp_all add: valid_def)
  then show ?case using Cons.IH by (simp add: add_constraint_stage)
qed simp

lemma trg_stage: "\<exists>h'. trg_rules_history E tg_op rows (stage A R G C h t cs n) = stage A R G C h' t cs n"
  by (auto simp: trg_rules_history_def stage_def)

lemma insert_stage:
  assumes "valid (d_pg_lower E) A (R @ rows) G C cs"
  shows "\<exists>h'. insert_rows E rows (stage A R G C h t cs n) = Inr (stage A (R @ rows) G C h' t cs n)"
  using trg_stage[of E "''insert''" rows A "R @ rows" G C h t cs n] checked_stage[OF assms] by (auto simp: insert_rows_def)

lemma update_stage:
  assumes "R' = map (\<lambda>r. if selected r then fn_touch_updated_at E (f r) else r) R" "valid (d_pg_lower E) A R' G C cs"
  shows "\<exists>h'. update_rows E selected f (stage A R G C h t cs n) = Inr (stage A R' G C h' t cs n)"
proof -
  let ?rows = "map (\<lambda>r. fn_touch_updated_at E (f r)) (filter selected R)"
  obtain h' where "trg_rules_history E ''update'' ?rows (stage A R' G C h t cs n) = stage A R' G C h' t cs n"
    using trg_stage by blast
  then have "update_rows E selected f (stage A R G C h t cs n) = checked E (stage A R' G C h' t cs n)"
    by (simp add: update_rows_def Let_def assms(1))
  with checked_stage[OF assms(2)] show ?thesis by auto
qed

subsection \<open>Algorithms\<close>

definition alg_rows :: "db_env \<Rightarrow> algorithm list" where
  "alg_rows E = rows_of (\<lambda>i. seed_algorithm E (d_ids E i)) seed_algorithms"

definition alg_names :: "string list" where
  "alg_names = [''FixedWindow'', ''SlidingWindowLog'', ''SlidingWindowCounter'', ''TokenBucket'', ''LeakyBucket'']"

lemma alg_rows_keys: "map a_id (alg_rows E) = map (d_ids E) [0..<5]" "map a_name (alg_rows E) = alg_names"
  "map (\<lambda>a. (a_name a, a_id a)) (alg_rows E) = zip alg_names (map (d_ids E) [0..<5])"
  by (simp_all add: alg_rows_def rows_of_def seed_algorithms_def seed_algorithm_def alg_names_def upt_rec)

definition alg_id :: "db_env \<Rightarrow> string \<Rightarrow> string" where
  "alg_id E name = the (map_of (zip alg_names (map (d_ids E) [0..<5])) name)"

lemma alg_known: "name \<in> set alg_names \<Longrightarrow> map_of (zip alg_names (map (d_ids E) [0..<5])) name = Some (alg_id E name)"
  by (auto simp: alg_id_def alg_names_def upt_rec)

lemma alg_id_in:
  assumes "name \<in> set alg_names"
  shows "\<exists>a \<in> set (alg_rows E). a_id a = alg_id E name \<and> a_name a = name"
proof -
  have "(name, alg_id E name) \<in> set (map (\<lambda>a. (a_name a, a_id a)) (alg_rows E))"
    unfolding alg_rows_keys by (rule map_of_SomeD[OF alg_known[OF assms]])
  then show ?thesis by auto
qed

lemma sample_names: "list_all (\<lambda>(_, _, _, name, _). name \<in> set alg_names) sample_rules"
  "list_all (\<lambda>(_, _, name, _). name \<in> set alg_names) composite_sample_rules"
  by code_simp+

subsection \<open>Revisions 0001 to 0008\<close>

abbreviation (input) algorithm_keys :: "schema_constraint list" where
  "algorithm_keys \<equiv> [AlgorithmsPkey, AlgorithmsNameKey]"

abbreviation (input) rule_keys :: "scope_key \<Rightarrow> schema_constraint list" where
  "rule_keys k \<equiv> algorithm_keys @ [RulesPkey, RulesNotNull IdentifierTypeColumn, RulesAlgorithmFkey, RulesActiveScope k]"

definition single_row :: "db_env \<Rightarrow> nat \<Rightarrow> sample_rule \<Rightarrow> xrule" where
  "single_row E i s = sample_rule_row E (d_ids E (5 + i)) (alg_id E (seed_algorithm_of s)) s"

definition valueless_row :: "db_env \<Rightarrow> nat \<Rightarrow> sample_rule \<Rightarrow> xrule" where
  "valueless_row E i s = (single_row E i s)\<lparr>xr_identifier_value := None\<rparr>"

definition typed_row :: "db_env \<Rightarrow> nat \<Rightarrow> sample_rule \<Rightarrow> xrule" where
  "typed_row E i s = fn_touch_updated_at E (backfill_types (valueless_row E i s))"

definition contracted_row :: "db_env \<Rightarrow> nat \<Rightarrow> sample_rule \<Rightarrow> xrule" where
  "contracted_row E i s = (typed_row E i s)\<lparr>xr_identifier_type := None\<rparr>"

lemmas row_defs = contracted_row_def typed_row_def valueless_row_def single_row_def sample_rule_row_def fn_touch_updated_at_def
  backfill_types_def

lemma algorithms_valid: "inj (d_ids E) \<Longrightarrow> valid lower (alg_rows E) R G C algorithm_keys"
  unfolding valid_def by (simp add: alg_rows_keys distinct_map inj_on_def) (simp add: alg_names_def)

lemma unique_index_distinct: "distinct (map key rows) \<Longrightarrow> unique_index key (filter P rows)"
  unfolding unique_index_def by (intro distinct_map_filter)

lemma distinct_via: "distinct (map g rows) \<Longrightarrow> (\<And>r. g r = f (key r)) \<Longrightarrow> distinct (map key rows)"
  by (metis (no_types, lifting) distinct_map inj_on_def)

lemma scope_distinct:
  "distinct (map (\<lambda>r. (xr_endpoint r, xr_identifier_type r)) R) \<Longrightarrow> unique_index (scope_values ByValue) (filter P R)"
  "distinct (map (\<lambda>r. (xr_endpoint r, xr_identifier_type r)) R) \<Longrightarrow> unique_index (scope_values ByType) (filter P R)"
  "distinct (map (\<lambda>r. (xr_endpoint r, xr_identifier_signature r)) R) \<Longrightarrow> unique_index (scope_values BySignature) (filter P R)"
  "distinct (map (\<lambda>r. (xr_endpoint r, xr_identifier_signature r)) R) \<Longrightarrow> unique_index (scope_values ByClient) (filter P R)"
  by (rule unique_index_distinct, erule distinct_via[where f = "\<lambda>k. (the (k ! 0), k ! 1)"], simp,
      rule unique_index_distinct, erule distinct_via[where f = "\<lambda>k. (the (k ! 0), k ! 1)"], simp,
      rule unique_index_distinct, erule distinct_via[where f = "\<lambda>k. (the (k ! 0), k ! 1)"], simp,
      rule unique_index_distinct, erule distinct_via[where f = "\<lambda>k. (the (k ! 1), k ! 2)"], simp)

lemma ids_distinct: "inj (d_ids E) \<Longrightarrow> distinct xs \<Longrightarrow> distinct (map (\<lambda>i. d_ids E (k + i)) xs)"
  by (auto simp: distinct_map intro!: inj_onI dest!: injD)

lemma single_rules_valid:
  assumes "inj (d_ids E)"
    and g: "\<And>i s. xr_id (g i s) = d_ids E (5 + i) \<and> xr_algorithm_id (g i s) = alg_id E (seed_algorithm_of s)
      \<and> xr_endpoint (g i s) = fst s \<and> xr_identifier_type (g i s) = Some (fst (snd s))"
    and k: "k \<in> {ByValue, ByType}"
  shows "valid lower (alg_rows E) (rows_of g sample_rules) G C (rule_keys k)"
proof -
  let ?R = "rows_of g sample_rules"
  have ids: "distinct (map xr_id ?R)"
    by (simp add: map_rows_of g rows_of_fst[of "\<lambda>i. d_ids E (5 + i)"] ids_distinct[OF assms(1)])
  have fk: "list_all (\<lambda>r. xr_algorithm_id r \<in> set (map a_id (alg_rows E))) ?R"
    using sample_names(1) alg_id_in by (intro list_all_rows_of) (force simp: g list_all_iff seed_algorithm_of_def)
  have "map (\<lambda>r. (xr_endpoint r, xr_identifier_type r)) ?R = map (\<lambda>(e, t). (e, Some t)) (take (length sample_rules) seed_scopes)"
    by (simp add: map_rows_of g rows_of_snd[of "\<lambda>s. (fst s, Some (fst (snd s)))"] seed_scopes_def split_def)
  then have scopes: "distinct (map (\<lambda>r. (xr_endpoint r, xr_identifier_type r)) ?R)"
    using distinct_take[OF seed_scopes_distinct] by (auto simp: distinct_map inj_on_def)
  have nn: "list_all (column_value IdentifierTypeColumn) ?R" by (intro list_all_rows_of) (simp add: g list_all_iff)
  show ?thesis using algorithms_valid[OF assms(1)] ids fk nn scope_distinct(1,2)[OF scopes] k by (auto simp: valid_def)
qed

abbreviation (input) type_checks :: "schema_constraint list" where
  "type_checks \<equiv> [RulesNotNull IdentifierTypesColumn, RulesNotNull IdentifierSignatureColumn, RulesTypesCardinality, RulesGlobalAlone]"

lemma single_valid:
  assumes "inj (d_ids E)"
  shows "valid lower (alg_rows E) (rows_of (single_row E) sample_rules) G C (rule_keys ByValue)"
    "valid lower (alg_rows E) (rows_of (valueless_row E) sample_rules) G C (rule_keys ByType)"
    "valid lower (alg_rows E) (rows_of (typed_row E) sample_rules) G C (rule_keys ByType)"
  by (rule single_rules_valid[OF assms]; simp add: row_defs split_def)+

lemma typed_valid:
  assumes "inj (d_ids E)"
  shows "valid lower (alg_rows E) (rows_of (typed_row E) sample_rules) G C type_checks"
    "valid lower (alg_rows E) (rows_of (typed_row E) sample_rules) G C [RulesActiveScope BySignature]"
proof -
  let ?R = "rows_of (typed_row E) sample_rules"
  have "list_all (column_value IdentifierTypesColumn) ?R" "list_all (column_value IdentifierSignatureColumn) ?R"
    "holds lower (stage A ?R G C h t cs n) RulesTypesCardinality" "holds lower (stage A ?R G C h t cs n) RulesGlobalAlone" for A h t cs n
    by (simp_all, (intro list_all_rows_of; simp add: row_defs split_def list_all_iff)+)
  then show "valid lower (alg_rows E) ?R G C type_checks" by (simp add: valid_def)
  have "map (\<lambda>r. (xr_endpoint r, xr_identifier_signature r)) ?R = map (\<lambda>(e, t). (e, Some t)) (take (length sample_rules) seed_scopes)"
    by (simp add: map_rows_of row_defs split_def rows_of_snd[of "\<lambda>s. (fst s, Some (fst (snd s)))"] seed_scopes_def)
  then have "distinct (map (\<lambda>r. (xr_endpoint r, xr_identifier_signature r)) ?R)"
    using distinct_take[OF seed_scopes_distinct] by (auto simp: distinct_map inj_on_def)
  from scope_distinct(3)[OF this] show "valid lower (alg_rows E) ?R G C [RulesActiveScope BySignature]" by (simp add: valid_def)
qed

text \<open>The constraints after revision 0008.\<close>

definition contracted :: "schema_constraint list" where
  "contracted = algorithm_keys @ [RulesPkey, RulesAlgorithmFkey] @ type_checks @ [RulesActiveScope BySignature]"

lemma first_steps:
  assumes "inj (d_ids E)"
  shows "upgrade_0001 E empty_database = Inr (stage [] [] [] [] [] False algorithm_keys 0)"
    "upgrade_0002 E (stage [] [] [] [] [] False algorithm_keys 0) = Inr (stage (alg_rows E) [] [] [] [] False algorithm_keys 5)"
    "upgrade_0003 E (stage A [] [] [] [] False algorithm_keys 5) = Inr (stage A [] [] [] [] False (rule_keys ByValue) 5)"
    "upgrade_0004 E (stage A [] [] [] [] False cs 5) = Inr (stage A [] [] [] [] True cs 5)"
proof -
  have e: "empty_database = stage [] [] [] [] [] False [] 0" by (simp add: empty_database_def stage_def)
  have "valid (d_pg_lower E) [] [] [] [] algorithm_keys" by (simp add: valid_def)
  from add_constraints_stage[OF this] show "upgrade_0001 E empty_database = Inr (stage [] [] [] [] [] False algorithm_keys 0)"
    by (simp add: upgrade_0001_def e)
  have n: "length seed_algorithms = 5" by (simp add: seed_algorithms_def)
  have "draw (length seed_algorithms) ((stage [] [] [] [] [] False algorithm_keys 0)\<lparr>xd_algorithms := [] @
      map (\<lambda>(i, s). seed_algorithm E (drawn E (stage [] [] [] [] [] False algorithm_keys 0) i) s) (enumerate 0 seed_algorithms)\<rparr>) =
      stage (alg_rows E) [] [] [] [] False algorithm_keys 5"
    by (simp add: n alg_rows_def rows_of_def) (simp add: stage_def draw_def)
  then show "upgrade_0002 E (stage [] [] [] [] [] False algorithm_keys 0) = Inr (stage (alg_rows E) [] [] [] [] False algorithm_keys 5)"
    using checked_stage[OF algorithms_valid[OF assms]] by (simp add: upgrade_0002_def Let_def)
  have "valid (d_pg_lower E) A [] [] [] [RulesPkey, RulesNotNull IdentifierTypeColumn, RulesAlgorithmFkey, RulesActiveScope ByValue]"
    by (simp add: valid_def unique_index_def)
  from add_constraints_stage[OF this]
  show "upgrade_0003 E (stage A [] [] [] [] False algorithm_keys 5) = Inr (stage A [] [] [] [] False (rule_keys ByValue) 5)"
    by (simp add: upgrade_0003_def)
  show "upgrade_0004 E (stage A [] [] [] [] False cs 5) = Inr (stage A [] [] [] [] True cs 5)"
    by (simp add: upgrade_0004_def stage_def)
qed

lemma alg_ids_stage: "algorithm_ids (stage (alg_rows E) R G C h t cs n) = zip alg_names (map (d_ids E) [0..<5])"
  by (simp add: algorithm_ids_def alg_rows_keys)

lemma seeded_rows:
  assumes "list_all (\<lambda>s. name_of s \<in> set alg_names) ss"
  shows "seed_rows (algorithm_ids (stage (alg_rows E) R G C h t cs n)) name_of row 0 ss = Inr (rows_of (\<lambda>i s. row i (alg_id E (name_of s)) s) ss)"
proof -
  have "list_all (\<lambda>s. map_of (zip alg_names (map (d_ids E) [0..<5])) (name_of s) \<noteq> None) ss"
    using assms alg_known by (auto simp: list_all_iff)
  from seed_rows_Inr[OF this] show ?thesis unfolding alg_ids_stage by (simp add: alg_id_def)
qed

lemma sample_length: "length sample_rules = 23" "length composite_sample_rules = 5" "length sample_groups = 2" "length sample_members = 5"
  by (simp_all add: sample_rules_def composite_sample_rules_def sample_groups_def sample_members_def)

lemma single_steps:
  assumes inj: "inj (d_ids E)"
  shows "\<exists>h'. upgrade_0005 E (stage (alg_rows E) [] [] [] h True (rule_keys ByValue) 5) =
      Inr (stage (alg_rows E) (rows_of (single_row E) sample_rules) [] [] h' True (rule_keys ByValue) 28)"
    "\<exists>h'. upgrade_0006 E (stage (alg_rows E) (rows_of (single_row E) sample_rules) [] [] h True (rule_keys ByValue) 28) =
      Inr (stage (alg_rows E) (rows_of (valueless_row E) sample_rules) [] [] h' True (rule_keys ByType) 28)"
    "\<exists>h'. upgrade_0007 E (stage (alg_rows E) (rows_of (valueless_row E) sample_rules) [] [] h True (rule_keys ByType) 28) =
      Inr (stage (alg_rows E) (rows_of (typed_row E) sample_rules) [] [] h' True
        (algorithm_keys @ [RulesPkey, RulesNotNull IdentifierTypeColumn, RulesAlgorithmFkey] @ type_checks @ [RulesActiveScope BySignature]) 28)"
    "\<exists>h'. upgrade_0008 E (stage (alg_rows E) (rows_of (typed_row E) sample_rules) [] [] h True
        (algorithm_keys @ [RulesPkey, RulesNotNull IdentifierTypeColumn, RulesAlgorithmFkey] @ type_checks @ [RulesActiveScope BySignature]) 28) =
      Inr (stage (alg_rows E) (rows_of (contracted_row E) sample_rules) [] [] h' True contracted 28)"
proof -
  have n: "list_all (\<lambda>s. (\<lambda>(_, _, _, name, _). name) s \<in> set alg_names) sample_rules" using sample_names(1) by (simp add: split_def)
  have r: "rows_of (\<lambda>i s. sample_rule_row E (d_ids E (5 + i)) (alg_id E ((\<lambda>(_, _, _, name, _). name) s)) s) sample_rules =
      rows_of (single_row E) sample_rules"
    by (simp add: single_row_def[abs_def] seed_algorithm_of_def)
  have v0: "valid (d_pg_lower E) (alg_rows E) ([] @ rows_of (single_row E) sample_rules) [] [] (rule_keys ByValue)"
    using single_valid(1)[OF inj] by simp
  show "\<exists>h'. upgrade_0005 E (stage (alg_rows E) [] [] [] h True (rule_keys ByValue) 5) =
      Inr (stage (alg_rows E) (rows_of (single_row E) sample_rules) [] [] h' True (rule_keys ByValue) 28)"
    using insert_stage[OF v0, of h True 28]
    unfolding upgrade_0005_def seeded_rows[OF n] bind_sum_simps stage_simps r sample_length by simp
  have v: "valid (d_pg_lower E) (alg_rows E) (rows_of (valueless_row E) sample_rules) [] [] [RulesActiveScope ByType]"
    using single_valid(2)[OF inj] by (simp add: valid_def)
  have m: "map (\<lambda>r. r\<lparr>xr_identifier_value := None\<rparr>) (rows_of (single_row E) sample_rules) = rows_of (valueless_row E) sample_rules"
    by (simp add: map_rows_of valueless_row_def[abs_def])
  show "\<exists>h'. upgrade_0006 E (stage (alg_rows E) (rows_of (single_row E) sample_rules) [] [] h True (rule_keys ByValue) 28) =
      Inr (stage (alg_rows E) (rows_of (valueless_row E) sample_rules) [] [] h' True (rule_keys ByType) 28)"
    by (intro exI[of _ h]) (simp add: upgrade_0006_def m add_constraint_stage[OF v])
  have none: "map (\<lambda>r. if xr_identifier_types r = None then fn_touch_updated_at E (backfill_types r) else r)
      (rows_of (valueless_row E) sample_rules) = rows_of (typed_row E) sample_rules"
    by (simp add: map_rows_of typed_row_def[abs_def] valueless_row_def single_row_def sample_rule_row_def split_def)
  from update_stage[OF none[symmetric] single_valid(3)[OF inj]]
  obtain h1 where u: "update_rows E (\<lambda>r. xr_identifier_types r = None) backfill_types
      (stage (alg_rows E) (rows_of (valueless_row E) sample_rules) [] [] h True (rule_keys ByType) 28) =
    Inr (stage (alg_rows E) (rows_of (typed_row E) sample_rules) [] [] h1 True (rule_keys ByType) 28)" by blast
  show "\<exists>h'. upgrade_0007 E (stage (alg_rows E) (rows_of (valueless_row E) sample_rules) [] [] h True (rule_keys ByType) 28) =
      Inr (stage (alg_rows E) (rows_of (typed_row E) sample_rules) [] [] h' True
        (algorithm_keys @ [RulesPkey, RulesNotNull IdentifierTypeColumn, RulesAlgorithmFkey] @ type_checks @ [RulesActiveScope BySignature]) 28)"
    unfolding upgrade_0007_def u bind_sum_simps add_constraints_stage[OF typed_valid(1)[OF inj]] stage_simps
    by (intro exI[of _ h1]) (simp add: add_constraint_stage[OF typed_valid(2)[OF inj]])
  show "\<exists>h'. upgrade_0008 E (stage (alg_rows E) (rows_of (typed_row E) sample_rules) [] [] h True
        (algorithm_keys @ [RulesPkey, RulesNotNull IdentifierTypeColumn, RulesAlgorithmFkey] @ type_checks @ [RulesActiveScope BySignature]) 28) =
      Inr (stage (alg_rows E) (rows_of (contracted_row E) sample_rules) [] [] h' True contracted 28)"
    by (intro exI[of _ h]) (simp add: upgrade_0008_def map_rows_of contracted_row_def[abs_def] contracted_def)
qed

subsection \<open>Revisions 0009 to 0012\<close>

definition shape :: "algorithm list \<Rightarrow> xrule \<Rightarrow> bool" where
  "shape A r \<longleftrightarrow> xr_algorithm_id r \<in> set (map a_id A)
     \<and> (case (xr_identifier_types r, xr_identifier_signature r) of (Some ts, Some sig) \<Rightarrow> canonical_types ts sig | _ \<Rightarrow> False)"

lemma shapeD:
  assumes "shape A r"
  obtains ts sig where "xr_identifier_types r = Some ts" "xr_identifier_signature r = Some sig" "canonical_types ts sig"
    "ck_identifier_types ts" "xr_algorithm_id r \<in> set (map a_id A)"
  using assms canonical_ck by (auto simp: shape_def split: option.splits)

lemma contracted_valid:
  assumes "valid lower A R G C algorithm_keys" "distinct (map xr_id R)" "list_all (shape A) R"
    "distinct (map (\<lambda>r. (xr_endpoint r, xr_identifier_signature r)) R)"
  shows "valid lower A R G C contracted"
proof -
  have s: "shape A r" if "r \<in> set R" for r using assms(3) that by (simp add: list_all_iff)
  have "holds lower (stage A R G C [] False [] 0) c" if "c \<in> set ([RulesAlgorithmFkey] @ type_checks)" for c
    using that s by (auto simp: list_all_iff ck_identifier_types_def elim!: shapeD dest!: s)
  then have "valid lower A R G C ([RulesAlgorithmFkey] @ type_checks)" unfolding valid_def list_all_iff by blast
  then show ?thesis using assms(1,2) scope_distinct(3)[OF assms(4)] by (simp add: valid_def contracted_def)
qed

definition composite_row :: "db_env \<Rightarrow> nat \<Rightarrow> composite_sample_rule \<Rightarrow> xrule" where
  "composite_row E i s = composite_rule_row E (d_ids E (28 + i)) (alg_id E (fst (snd (snd s)))) s"

definition group_row :: "db_env \<Rightarrow> nat \<Rightarrow> sample_group \<Rightarrow> xgroup" where
  "group_row E i s = sample_group_row E (d_ids E (33 + i)) (alg_id E (fst (snd (snd s)))) s"

definition group_rows :: "db_env \<Rightarrow> xgroup list" where
  "group_rows E = rows_of (group_row E) sample_groups"

definition member_row :: "db_env \<Rightarrow> nat \<Rightarrow> string \<times> string \<times> params \<Rightarrow> xrule" where
  "member_row E i s = the (sample_member_row E (group_rows E) (d_ids E (35 + i)) s)"

definition ungrouped_rows :: "db_env \<Rightarrow> xrule list" where
  "ungrouped_rows E = rows_of (contracted_row E) sample_rules @ rows_of (composite_row E) composite_sample_rules"

definition all_rows :: "db_env \<Rightarrow> xrule list" where
  "all_rows E = ungrouped_rows E @ rows_of (member_row E) sample_members"

lemmas composite_defs = composite_row_def composite_rule_row_def

lemma group_rows_explicit: "group_rows E = [
    \<lparr>xg_id = d_ids E 33, xg_client_id = None, xg_name = ''premium-endpoints'',
     xg_description = Some ''Shared TokenBucket policy for premium-tier API endpoints, keyed by api_key.'',
     xg_algorithm_id = alg_id E ''TokenBucket'', xg_identifier_types = [''api_key''], xg_identifier_signature = ''api_key'',
     xg_params = [(''capacity'', JInt 50), (''refill_rate'', JFloat 15)], xg_priority = 50, xg_created_by = seeded_by,
     xg_updated_by = None, xg_created_at = d_now E, xg_updated_at = d_now E\<rparr>,
    \<lparr>xg_id = d_ids E 34, xg_client_id = None, xg_name = ''admin-endpoints'',
     xg_description = Some ''Shared FixedWindow policy for internal admin endpoints, keyed by user_id.'',
     xg_algorithm_id = alg_id E ''FixedWindow'', xg_identifier_types = [''user_id''], xg_identifier_signature = ''user_id'',
     xg_params = [(''limit'', JInt 200), (''window_seconds'', JInt 60)], xg_priority = 50, xg_created_by = seeded_by,
     xg_updated_by = None, xg_created_at = d_now E, xg_updated_at = d_now E\<rparr>]"
  by (simp add: group_rows_def rows_of_def sample_groups_def group_row_def sample_group_row_def)

lemma member_found:
  "list_all (\<lambda>s. sample_member_row E (group_rows E) i s \<noteq> None) sample_members"
  by (simp add: sample_members_def sample_member_row_def group_rows_explicit)

lemma member_fields:
  "list_all (\<lambda>s. \<exists>g \<in> set (group_rows E). sample_member_row E (group_rows E) i s = Some \<lparr>xr_id = i, xr_endpoint = fst (snd s),
     xr_identifier_type = None, xr_identifier_value = None, xr_identifier_types = Some (xg_identifier_types g),
     xr_identifier_signature = Some (xg_identifier_signature g), xr_algorithm_id = xg_algorithm_id g,
     xr_params = compute_effective_params (xg_params g) (snd (snd s)), xr_status = ''active'', xr_priority = xg_priority g,
     xr_version = 1, xr_created_by = seeded_by, xr_updated_by = None, xr_created_at = d_now E, xr_updated_at = d_now E,
     xr_group_id = Some (xg_id g), xr_overrides = Some (snd (snd s)), xr_client_id = None\<rparr>
     \<and> xg_identifier_signature g = (if fst s = ''admin-endpoints'' then ''user_id'' else ''api_key'')
     \<and> xg_name g = fst s \<and> unknown_keys (xg_params g) (snd (snd s)) = []) sample_members"
  by (simp add: sample_members_def sample_member_row_def group_rows_explicit unknown_keys_def)

lemma member_row_fields:
  assumes "s \<in> set sample_members"
  obtains g where "g \<in> set (group_rows E)" "xg_name g = fst s" "unknown_keys (xg_params g) (snd (snd s)) = []"
    "xg_identifier_signature g = (if fst s = ''admin-endpoints'' then ''user_id'' else ''api_key'')"
    "member_row E i s = \<lparr>xr_id = d_ids E (35 + i), xr_endpoint = fst (snd s),
     xr_identifier_type = None, xr_identifier_value = None, xr_identifier_types = Some (xg_identifier_types g),
     xr_identifier_signature = Some (xg_identifier_signature g), xr_algorithm_id = xg_algorithm_id g,
     xr_params = compute_effective_params (xg_params g) (snd (snd s)), xr_status = ''active'', xr_priority = xg_priority g,
     xr_version = 1, xr_created_by = seeded_by, xr_updated_by = None, xr_created_at = d_now E, xr_updated_at = d_now E,
     xr_group_id = Some (xg_id g), xr_overrides = Some (snd (snd s)), xr_client_id = None\<rparr>"
proof -
  obtain g where g: "g \<in> set (group_rows E)" "xg_name g = fst s" "unknown_keys (xg_params g) (snd (snd s)) = []"
    "xg_identifier_signature g = (if fst s = ''admin-endpoints'' then ''user_id'' else ''api_key'')"
    "sample_member_row E (group_rows E) (d_ids E (35 + i)) s = Some \<lparr>xr_id = d_ids E (35 + i), xr_endpoint = fst (snd s),
     xr_identifier_type = None, xr_identifier_value = None, xr_identifier_types = Some (xg_identifier_types g),
     xr_identifier_signature = Some (xg_identifier_signature g), xr_algorithm_id = xg_algorithm_id g,
     xr_params = compute_effective_params (xg_params g) (snd (snd s)), xr_status = ''active'', xr_priority = xg_priority g,
     xr_version = 1, xr_created_by = seeded_by, xr_updated_by = None, xr_created_at = d_now E, xr_updated_at = d_now E,
     xr_group_id = Some (xg_id g), xr_overrides = Some (snd (snd s)), xr_client_id = None\<rparr>"
    using member_fields[of E "d_ids E (35 + i)"] assms unfolding list_all_iff by blast
  show ?thesis by (rule that[OF g(1-4)]) (simp add: member_row_def g(5))
qed

lemma all_rows_ids:
  assumes "inj (d_ids E)"
  shows "distinct (map xr_id (all_rows E))" "distinct (map xr_id (ungrouped_rows E))"
proof -
  define L :: "nat list" where "L = map (\<lambda>i. 5 + i) [0..<23] @ map (\<lambda>i. 28 + i) [0..<5] @ map (\<lambda>i. 35 + i) [0..<5]"
  have m: "xr_id (member_row E i s) = d_ids E (35 + i)" if "s \<in> set sample_members" for i s
    by (rule member_row_fields[OF that, of E i]) simp
  have "map xr_id (rows_of (member_row E) sample_members) = rows_of (\<lambda>i s. d_ids E (35 + i)) sample_members"
    unfolding map_rows_of by (rule rows_of_cong) (rule m)
  then have eq: "map xr_id (all_rows E) = map (d_ids E) L"
    by (simp add: L_def all_rows_def ungrouped_rows_def map_rows_of row_defs composite_defs split_def rows_of_fst sample_length o_def
        del: upt_rec)
  have "distinct L" by (simp add: L_def upt_rec)
  then show d: "distinct (map xr_id (all_rows E))"
    unfolding eq distinct_map using inj_on_subset[OF assms subset_UNIV] by blast
  then show "distinct (map xr_id (ungrouped_rows E))" by (simp add: all_rows_def)
qed

lemma group_algorithms: "list_all (\<lambda>g. xg_algorithm_id g \<in> set (map a_id (alg_rows E)) \<and> xg_client_id g = None
    \<and> canonical_types (xg_identifier_types g) (xg_identifier_signature g)) (group_rows E)"
proof -
  have "alg_id E ''TokenBucket'' \<in> set (map a_id (alg_rows E))" "alg_id E ''FixedWindow'' \<in> set (map a_id (alg_rows E))"
    using alg_id_in[of "''TokenBucket''" E] alg_id_in[of "''FixedWindow''" E] by (force simp: alg_names_def)+
  moreover have "canonical_types [''api_key''] ''api_key''" "canonical_types [''user_id''] ''user_id''" by code_simp+
  ultimately show ?thesis by (simp add: group_rows_explicit)
qed

lemma all_rows_shape: "list_all (shape (alg_rows E)) (all_rows E)"
proof -
  have known: "alg_id E name \<in> set (map a_id (alg_rows E))" if "name \<in> set alg_names" for name
    using alg_id_in[OF that, of E] by force
  have "list_all (shape (alg_rows E)) (rows_of (contracted_row E) sample_rules)"
    using sample_types sample_names(1) known
    by (intro list_all_rows_of) (auto simp: shape_def row_defs split_def list_all_iff seed_algorithm_of_def)
  moreover have "list_all (shape (alg_rows E)) (rows_of (composite_row E) composite_sample_rules)"
    using composite_types sample_names(2) known
    by (intro list_all_rows_of) (auto simp: shape_def composite_defs split_def list_all_iff)
  moreover have "shape (alg_rows E) (member_row E i s)" if "s \<in> set sample_members" for i s
    by (rule member_row_fields[OF that, of E i]) (use group_algorithms[of E] in \<open>auto simp: list_all_iff shape_def\<close>)
  then have "list_all (shape (alg_rows E)) (rows_of (member_row E) sample_members)"
    by (intro list_all_rows_of) (simp add: list_all_iff)
  ultimately show ?thesis by (simp add: all_rows_def ungrouped_rows_def)
qed

lemma all_rows_scopes:
  "distinct (map (\<lambda>r. (xr_endpoint r, xr_identifier_signature r)) (all_rows E))"
  "distinct (map (\<lambda>r. (xr_endpoint r, xr_identifier_signature r)) (ungrouped_rows E))"
proof -
  have m: "(xr_endpoint (member_row E i s), xr_identifier_signature (member_row E i s)) =
      (fst (snd s), Some (if fst s = ''admin-endpoints'' then ''user_id'' else ''api_key''))" if "s \<in> set sample_members" for i s
    by (rule member_row_fields[OF that, of E i]) simp
  have "map (\<lambda>r. (xr_endpoint r, xr_identifier_signature r)) (rows_of (member_row E) sample_members) =
      rows_of (\<lambda>i s. (fst (snd s), Some (if fst s = ''admin-endpoints'' then ''user_id'' else ''api_key''))) sample_members"
    unfolding map_rows_of by (rule rows_of_cong) (rule m)
  then have "map (\<lambda>r. (xr_endpoint r, xr_identifier_signature r)) (all_rows E) = map (\<lambda>(e, t). (e, Some t)) seed_scopes"
    by (simp add: all_rows_def ungrouped_rows_def map_rows_of row_defs composite_defs split_def seed_scopes_def
        rows_of_snd[of "\<lambda>s. (fst s, Some (fst (snd s)))"]
        rows_of_snd[of "\<lambda>s. (fst (snd s), Some (if fst s = ''admin-endpoints'' then ''user_id'' else ''api_key''))"] rows_of_snd[of "\<lambda>s. (fst s, Some (join ''+'' (sort (fst (snd s)))))"])
  then show d: "distinct (map (\<lambda>r. (xr_endpoint r, xr_identifier_signature r)) (all_rows E))"
    using seed_scopes_distinct by (auto simp: distinct_map inj_on_def)
  then show "distinct (map (\<lambda>r. (xr_endpoint r, xr_identifier_signature r)) (ungrouped_rows E))" by (simp add: all_rows_def)
qed

lemma rows_valid:
  assumes "inj (d_ids E)"
  shows "valid lower (alg_rows E) (all_rows E) G C contracted" "valid lower (alg_rows E) (ungrouped_rows E) G C contracted"
  using contracted_valid[OF algorithms_valid[OF assms]] all_rows_ids[OF assms] all_rows_shape all_rows_scopes
  by (auto simp: all_rows_def)

abbreviation (input) group_keys :: "schema_constraint list" where
  "group_keys \<equiv> [GroupsPkey, GroupsAlgorithmFkey, GroupsTypesCardinality, GroupsGlobalAlone, GroupsNameCi False, RulesGroupFkey,
     RulesOverridesRequireGroup]"

abbreviation (input) client_keys :: "schema_constraint list" where
  "client_keys \<equiv> [ClientsPkey, ClientsClientIdKey, ClientsCheck, SecretsPkey, SecretsClientFkey]"

text \<open>What is documented of \<^verbatim>\<open>lower\<close>: lower-case ASCII stays as it is.\<close>

definition lowers_ascii :: "(string \<Rightarrow> string) \<Rightarrow> bool" where
  "lowers_ascii lower \<longleftrightarrow> (\<forall>s. set s \<subseteq> set ''abcdefghijklmnopqrstuvwxyz-'' \<longrightarrow> lower s = s)"

lemma lower_names: "lowers_ascii lower \<Longrightarrow> lower ''premium-endpoints'' = ''premium-endpoints''"
  "lowers_ascii lower \<Longrightarrow> lower ''admin-endpoints'' = ''admin-endpoints''"
  by (simp_all add: lowers_ascii_def)

definition grouped_row :: "xgroup list \<Rightarrow> xrule \<Rightarrow> bool" where
  "grouped_row G r \<longleftrightarrow> (case xr_group_id r of None \<Rightarrow> xr_overrides r = None
     | Some i \<Rightarrow> i \<in> set (map xg_id G) \<and> xr_overrides r \<noteq> None)"

lemma all_rows_grouped: "list_all (grouped_row (group_rows E)) (all_rows E)" "list_all (grouped_row G) (ungrouped_rows E)"
proof -
  have u: "list_all (grouped_row G) (ungrouped_rows E)" for G
    unfolding ungrouped_rows_def list_all_append
    by (intro conjI list_all_rows_of) (simp_all add: grouped_row_def row_defs composite_defs split_def list_all_iff)
  have "grouped_row (group_rows E) (member_row E i s)" if "s \<in> set sample_members" for i s
    by (rule member_row_fields[OF that, of E i]) (simp add: grouped_row_def)
  then have "list_all (grouped_row (group_rows E)) (rows_of (member_row E) sample_members)"
    by (intro list_all_rows_of) (simp add: list_all_iff)
  then show "list_all (grouped_row (group_rows E)) (all_rows E)" using u by (simp add: all_rows_def)
  show "list_all (grouped_row G) (ungrouped_rows E)" by (rule u)
qed

definition owned_groups :: "db_env \<Rightarrow> string option \<Rightarrow> xgroup list" where
  "owned_groups E pk = map (\<lambda>g. g\<lparr>xg_client_id := pk, xg_updated_at := d_now E\<rparr>) (group_rows E)"

lemma owned_groups_None: "owned_groups E None = group_rows E"
  by (simp add: owned_groups_def group_rows_explicit)

lemma owned_groups_keys: "map xg_id (owned_groups E pk) = map xg_id (group_rows E)"
  "grouped_row (owned_groups E pk) = grouped_row (group_rows E)"
proof -
  show ids: "map xg_id (owned_groups E pk) = map xg_id (group_rows E)" by (simp add: owned_groups_def o_def)
  show "grouped_row (owned_groups E pk) = grouped_row (group_rows E)" by (simp only: grouped_row_def[abs_def] ids)
qed

lemma groups_valid:
  assumes "inj (d_ids E)" "lowers_ascii lower" "list_all (grouped_row (group_rows E)) R"
  shows "valid lower (alg_rows E) R (owned_groups E pk) C (group_keys @ [GroupsNameCi True])"
proof -
  let ?G = "owned_groups E pk"
  have "list_all (\<lambda>r. case xr_group_id r of None \<Rightarrow> True | Some g \<Rightarrow> g \<in> set (map xg_id ?G)) R"
    "list_all (\<lambda>r. xr_overrides r = None \<or> xr_group_id r \<noteq> None) R"
    using assms(3) unfolding owned_groups_keys by (auto simp: list_all_iff grouped_row_def split: option.splits)
  moreover have "d_ids E 33 \<noteq> d_ids E 34" using injD[OF assms(1), of 33 34] by auto
  then have "holds lower (stage (alg_rows E) R ?G C [] False [] 0) c"
    if "c \<in> set [GroupsPkey, GroupsTypesCardinality, GroupsGlobalAlone, GroupsNameCi False, GroupsNameCi True]" for c
    using that by (auto simp: group_rows_explicit owned_groups_def unique_index_def name_ci_values_def lower_names[OF assms(2)])
  then have "valid lower (alg_rows E) R ?G C [GroupsPkey, GroupsTypesCardinality, GroupsGlobalAlone, GroupsNameCi False, GroupsNameCi True]"
    unfolding valid_def list_all_iff by blast
  moreover have "list_all (\<lambda>g. xg_algorithm_id g \<in> set (map a_id (alg_rows E))) ?G"
    using group_algorithms[of E] by (simp add: list_all_iff owned_groups_def)
  ultimately show ?thesis unfolding valid_def by (simp cong: option.case_cong)
qed

lemma no_groups_valid:
  assumes "list_all (grouped_row []) R"
  shows "valid lower A R [] C group_keys"
  using assms unfolding valid_def
  by (auto simp: list_all_iff grouped_row_def unique_index_def split: option.splits)

lemma valid_append: "valid lower A R G C (cs @ ds) \<longleftrightarrow> valid lower A R G C cs \<and> valid lower A R G C ds"
  by (simp add: valid_def)

lemma unowned_groups_valid:
  assumes "inj (d_ids E)" "lowers_ascii lower" "list_all (grouped_row (group_rows E)) R"
  shows "valid lower (alg_rows E) R (group_rows E) C group_keys"
  using groups_valid[OF assms, of None] by (simp add: owned_groups_None valid_append del: append_Cons)

lemma group_steps:
  assumes inj: "inj (d_ids E)" and low: "lowers_ascii (d_pg_lower E)"
  shows "\<exists>h'. upgrade_0009 E (stage (alg_rows E) (rows_of (contracted_row E) sample_rules) [] [] h True contracted 28) =
      Inr (stage (alg_rows E) (ungrouped_rows E) [] [] h' True contracted 33)"
    "upgrade_0010 E (stage (alg_rows E) (ungrouped_rows E) [] [] h True contracted 33) =
      Inr (stage (alg_rows E) (ungrouped_rows E) [] [] h True (contracted @ group_keys) 33)"
    "\<exists>h'. upgrade_0011 E (stage (alg_rows E) (ungrouped_rows E) [] [] h True (contracted @ group_keys) 33) =
      Inr (stage (alg_rows E) (all_rows E) (group_rows E) [] h' True (contracted @ group_keys) 40)"
    "upgrade_0012 E (stage (alg_rows E) (all_rows E) (group_rows E) [] h True (contracted @ group_keys) 40) =
      Inr (stage (alg_rows E) (all_rows E) (group_rows E) [default_client E (d_ids E 40)] h True (contracted @ group_keys @ client_keys) 41)"
proof -
  have n9: "list_all (\<lambda>s. (\<lambda>(_, _, name, _). name) s \<in> set alg_names) composite_sample_rules" using sample_names(2) by (simp add: split_def)
  have r9: "rows_of (\<lambda>i s. composite_rule_row E (d_ids E (28 + i)) (alg_id E ((\<lambda>(_, _, name, _). name) s)) s) composite_sample_rules =
      rows_of (composite_row E) composite_sample_rules"
    by (simp add: composite_row_def[abs_def] split_def)
  have v9: "valid (d_pg_lower E) (alg_rows E) (rows_of (contracted_row E) sample_rules @ rows_of (composite_row E) composite_sample_rules) [] [] contracted"
    using rows_valid(2)[OF inj] by (simp add: ungrouped_rows_def)
  show "\<exists>h'. upgrade_0009 E (stage (alg_rows E) (rows_of (contracted_row E) sample_rules) [] [] h True contracted 28) =
      Inr (stage (alg_rows E) (ungrouped_rows E) [] [] h' True contracted 33)"
    using insert_stage[OF v9, of h True 33]
    unfolding upgrade_0009_def seeded_rows[OF n9] bind_sum_simps stage_simps r9 sample_length by (simp add: ungrouped_rows_def)
  show "upgrade_0010 E (stage (alg_rows E) (ungrouped_rows E) [] [] h True contracted 33) =
      Inr (stage (alg_rows E) (ungrouped_rows E) [] [] h True (contracted @ group_keys) 33)"
    unfolding upgrade_0010_def by (rule add_constraints_stage[OF no_groups_valid[OF all_rows_grouped(2)]])
  have n11: "list_all (\<lambda>s. (\<lambda>(_, _, name, _). name) s \<in> set alg_names) sample_groups"
    by (simp add: sample_groups_def alg_names_def)
  have r11: "rows_of (\<lambda>i s. sample_group_row E (d_ids E (33 + i)) (alg_id E ((\<lambda>(_, _, name, _). name) s)) s) sample_groups = group_rows E"
    by (simp add: group_rows_def group_row_def[abs_def] split_def)
  have c11: "checked E (stage (alg_rows E) (ungrouped_rows E) (group_rows E) [] h True (contracted @ group_keys) 35) =
      Inr (stage (alg_rows E) (ungrouped_rows E) (group_rows E) [] h True (contracted @ group_keys) 35)"
    by (rule checked_stage) (simp only: valid_append rows_valid(2)[OF inj] unowned_groups_valid[OF inj low all_rows_grouped(2)] simp_thms)
  have m: "those (map (\<lambda>(i, s). sample_member_row E (group_rows E) (d_ids E (35 + i)) s) (enumerate 0 sample_members)) =
      Some (rows_of (member_row E) sample_members)"
  proof -
    have f: "sample_member_row E (group_rows E) (d_ids E (35 + i)) s = Some (member_row E i s)" if "s \<in> set sample_members" for i s
      using member_found[of E "d_ids E (35 + i)"] that by (auto simp: member_row_def list_all_iff)
    have "map (\<lambda>(i, s). sample_member_row E (group_rows E) (d_ids E (35 + i)) s) (enumerate 0 sample_members) =
        rows_of (\<lambda>i s. sample_member_row E (group_rows E) (d_ids E (35 + i)) s) sample_members" by (simp add: rows_of_def)
    also have "\<dots> = rows_of (\<lambda>i s. Some (member_row E i s)) sample_members" by (rule rows_of_cong) (rule f)
    also have "\<dots> = map Some (rows_of (member_row E) sample_members)" by (simp add: map_rows_of)
    finally show ?thesis by (simp add: those_Some)
  qed
  have v11: "valid (d_pg_lower E) (alg_rows E) (ungrouped_rows E @ rows_of (member_row E) sample_members) (group_rows E) []
      (contracted @ group_keys)"
    using rows_valid(1)[OF inj] unowned_groups_valid[OF inj low all_rows_grouped(1)] by (simp add: valid_append all_rows_def)
  show "\<exists>h'. upgrade_0011 E (stage (alg_rows E) (ungrouped_rows E) [] [] h True (contracted @ group_keys) 33) =
      Inr (stage (alg_rows E) (all_rows E) (group_rows E) [] h' True (contracted @ group_keys) 40)"
    using insert_stage[OF v11, of h True 40]
    by (simp add: upgrade_0011_def Let_def seeded_rows[OF n11] r11 sample_length c11 m all_rows_def del: append_Cons)
  have v12: "valid (d_pg_lower E) (alg_rows E) (all_rows E) (group_rows E) [] client_keys" by (simp add: valid_def)
  have "c_scopes (default_client E i) = [''check'']" "ck_clients (default_client E i)" for i
    by (simp_all add: default_client_def ck_clients_def ck_clients_client_id_format_def client_id_char_def)
  then have "valid (d_pg_lower E) (alg_rows E) (all_rows E) (group_rows E) [default_client E (d_ids E 40)] (contracted @ group_keys @ client_keys)"
    using rows_valid(1)[OF inj] unowned_groups_valid[OF inj low all_rows_grouped(1)] by (simp add: valid_append) (simp add: valid_def)
  from checked_stage[OF this]
  show "upgrade_0012 E (stage (alg_rows E) (all_rows E) (group_rows E) [] h True (contracted @ group_keys) 40) =
      Inr (stage (alg_rows E) (all_rows E) (group_rows E) [default_client E (d_ids E 40)] h True (contracted @ group_keys @ client_keys) 41)"
    unfolding upgrade_0012_def add_constraints_stage[OF v12] bind_sum_simps stage_simps by simp
qed

subsection \<open>Revision 0013 and the head\<close>

definition owned_row :: "db_env \<Rightarrow> string \<Rightarrow> xrule \<Rightarrow> xrule" where
  "owned_row E pk r = fn_touch_updated_at E (r\<lparr>xr_client_id := Some pk\<rparr>)"

definition head_rows :: "db_env \<Rightarrow> xrule list" where
  "head_rows E = map (owned_row E (d_ids E 40)) (all_rows E)"

lemma owned_row_simps [simp]: "xr_id (owned_row E pk r) = xr_id r" "xr_endpoint (owned_row E pk r) = xr_endpoint r"
  "xr_identifier_signature (owned_row E pk r) = xr_identifier_signature r" "xr_client_id (owned_row E pk r) = Some pk"
  "xr_identifier_types (owned_row E pk r) = xr_identifier_types r" "shape A (owned_row E pk r) = shape A r"
  "grouped_row G (owned_row E pk r) = grouped_row G r"
  by (simp_all add: owned_row_def fn_touch_updated_at_def shape_def grouped_row_def cong: option.case_cong)

lemma head_rows_valid:
  assumes "inj (d_ids E)"
  shows "valid lower (alg_rows E) (head_rows E) G C contracted" "list_all (grouped_row (group_rows E)) (head_rows E)"
    "valid lower (alg_rows E) (head_rows E) G C [RulesActiveScope ByClient]"
proof -
  have s: "distinct (map (\<lambda>r. (xr_endpoint r, xr_identifier_signature r)) (head_rows E))"
    using all_rows_scopes(1)[of E] by (simp add: head_rows_def o_def)
  show "valid lower (alg_rows E) (head_rows E) G C contracted"
    using all_rows_ids(1)[OF assms] all_rows_shape s
    by (intro contracted_valid[OF algorithms_valid[OF assms]]) (simp_all add: head_rows_def o_def list_all_iff)
  show "list_all (grouped_row (group_rows E)) (head_rows E)" using all_rows_grouped(1)[of E] by (simp add: head_rows_def list_all_iff)
  show "valid lower (alg_rows E) (head_rows E) G C [RulesActiveScope ByClient]" using scope_distinct(4)[OF s] by (simp add: valid_def)
qed

lemma unowned: "list_all (\<lambda>r. xr_client_id r = None \<and> xr_active r \<and> xr_version r = 1) (all_rows E)"
proof -
  have "xr_client_id (member_row E i s) = None \<and> xr_active (member_row E i s) \<and> xr_version (member_row E i s) = 1" if "s \<in> set sample_members" for i s
    by (rule member_row_fields[OF that, of E i]) (simp add: xr_active_def)
  then have "list_all (\<lambda>r. xr_client_id r = None \<and> xr_active r \<and> xr_version r = 1) (rows_of (member_row E) sample_members)"
    by (intro list_all_rows_of) (simp add: list_all_iff)
  moreover have "list_all (\<lambda>r. xr_client_id r = None \<and> xr_active r \<and> xr_version r = 1) (ungrouped_rows E)"
    unfolding ungrouped_rows_def list_all_append
    by (intro conjI list_all_rows_of) (simp_all add: row_defs composite_defs split_def list_all_iff xr_active_def)
  ultimately show ?thesis by (simp add: all_rows_def)
qed

text \<open>The constraints in force at the head, in the order of their creation.\<close>

definition head_constraints :: "schema_constraint list" where
  "head_constraints = filter (\<lambda>c. c \<noteq> GroupsNameCi False) (filter (\<lambda>c. c \<noteq> RulesActiveScope BySignature)
     (contracted @ group_keys @ client_keys @ [RulesNotNull ClientIdColumn, GroupsNotNullClient, RulesClientFkey, GroupsClientFkey])
     @ [RulesActiveScope ByClient]) @ [GroupsNameCi True]"

lemma valid_filter: "valid lower A R G C cs \<Longrightarrow> valid lower A R G C (filter P cs)"
  by (simp add: valid_def list_all_iff)

lemma last_step:
  assumes inj: "inj (d_ids E)" and low: "lowers_ascii (d_pg_lower E)"
  shows "valid (d_pg_lower E) (alg_rows E) (head_rows E) (owned_groups E (Some (d_ids E 40))) [default_client E (d_ids E 40)] head_constraints"
    "\<exists>h'. upgrade_0013 E (stage (alg_rows E) (all_rows E) (group_rows E) [default_client E (d_ids E 40)] h True
      (contracted @ group_keys @ client_keys) 41) =
    Inr (stage (alg_rows E) (head_rows E) (owned_groups E (Some (d_ids E 40))) [default_client E (d_ids E 40)] h' True head_constraints 41)"
proof -
  let ?pk = "d_ids E 40" let ?C = "[default_client E (d_ids E 40)]"
  let ?G = "owned_groups E (Some ?pk)"
  have pk: "default_client_pk (stage A R G ?C h t cs n) = Some ?pk" for A R G t cs n
    by (simp add: default_client_pk_def default_client_def)
  have ck: "valid (d_pg_lower E) A R G ?C client_keys" for A R G
    by (simp add: valid_def default_client_def ck_clients_def ck_clients_client_id_format_def client_id_char_def)
  have rows: "map (\<lambda>r. if xr_client_id r = None then fn_touch_updated_at E (r\<lparr>xr_client_id := Some ?pk\<rparr>) else r) (all_rows E) = head_rows E"
    using unowned[of E] by (simp add: head_rows_def owned_row_def list_all_iff)
  have groups: "map (\<lambda>g. if xg_client_id g = None then g\<lparr>xg_client_id := Some ?pk, xg_updated_at := d_now E\<rparr> else g) (group_rows E) = ?G"
    using group_algorithms[of E] by (simp add: owned_groups_def list_all_iff)
  note hr = head_rows_valid[OF inj]
  have v1: "valid (d_pg_lower E) (alg_rows E) (head_rows E) (group_rows E) ?C (contracted @ group_keys @ client_keys)"
    by (simp only: valid_append hr(1) unowned_groups_valid[OF inj low hr(2)] ck simp_thms)
  from update_stage[OF rows[symmetric] v1, of h True 41] obtain h1 where
    u: "update_rows E (\<lambda>r. xr_client_id r = None) (\<lambda>r. r\<lparr>xr_client_id := Some ?pk\<rparr>)
      (stage (alg_rows E) (all_rows E) (group_rows E) ?C h True (contracted @ group_keys @ client_keys) 41) =
     Inr (stage (alg_rows E) (head_rows E) (group_rows E) ?C h1 True (contracted @ group_keys @ client_keys) 41)" by blast
  note g = groups_valid[OF inj low hr(2), where pk = "Some ?pk", unfolded valid_append]
  have v2: "valid (d_pg_lower E) (alg_rows E) (head_rows E) ?G ?C (contracted @ group_keys @ client_keys)"
    using g by (simp only: valid_append hr(1) ck simp_thms)
  have v3: "valid (d_pg_lower E) (alg_rows E) (head_rows E) ?G ?C [RulesNotNull ClientIdColumn, GroupsNotNullClient, RulesClientFkey, GroupsClientFkey]"
    by (simp add: valid_def list_all_iff head_rows_def owned_groups_def default_client_def)
  show "valid (d_pg_lower E) (alg_rows E) (head_rows E) ?G ?C head_constraints"
    unfolding head_constraints_def valid_append using v2 v3 hr(3) g
    by (intro conjI valid_filter, unfold valid_append) (simp_all only: valid_append valid_filter)
  show "\<exists>h'. upgrade_0013 E (stage (alg_rows E) (all_rows E) (group_rows E) ?C h True (contracted @ group_keys @ client_keys) 41) =
      Inr (stage (alg_rows E) (head_rows E) ?G ?C h' True head_constraints 41)"
    unfolding upgrade_0013_def Let_def pk u bind_sum_simps stage_simps groups checked_stage[OF v2] add_constraints_stage[OF v3]
      add_constraint_stage[OF hr(3)] add_constraint_stage[OF g[THEN conjunct2]]
    by (intro exI[of _ h1]) (simp add: head_constraints_def)
qed

lemma upgrades_length: "length upgrades = 13"
  by (simp add: upgrades_def)

lemma all_upgrades:
  assumes "inj (d_ids E)" "lowers_ascii (d_pg_lower E)"
  shows "\<exists>h. upgrade_head E empty_database = (Inr (), (stage (alg_rows E) (head_rows E) (owned_groups E (Some (d_ids E 40)))
    [default_client E (d_ids E 40)] h True head_constraints 41)\<lparr>xd_revision := 13\<rparr>)"
proof -
  note s = single_steps[OF assms(1)] note g = group_steps[OF assms]
  obtain h5 where h5: "upgrade_0005 E (stage (alg_rows E) [] [] [] [] True (rule_keys ByValue) 5) =
      Inr (stage (alg_rows E) (rows_of (single_row E) sample_rules) [] [] h5 True (rule_keys ByValue) 28)" using s(1) by blast
  obtain h6 where h6: "upgrade_0006 E (stage (alg_rows E) (rows_of (single_row E) sample_rules) [] [] h5 True (rule_keys ByValue) 28) =
      Inr (stage (alg_rows E) (rows_of (valueless_row E) sample_rules) [] [] h6 True (rule_keys ByType) 28)" using s(2) by blast
  obtain h8 D where h7: "upgrade_0007 E (stage (alg_rows E) (rows_of (valueless_row E) sample_rules) [] [] h6 True (rule_keys ByType) 28) = Inr D"
    "upgrade_0008 E D = Inr (stage (alg_rows E) (rows_of (contracted_row E) sample_rules) [] [] h8 True contracted 28)"
    using s(3,4) by meson
  obtain h9 where h9: "upgrade_0009 E (stage (alg_rows E) (rows_of (contracted_row E) sample_rules) [] [] h8 True contracted 28) =
      Inr (stage (alg_rows E) (ungrouped_rows E) [] [] h9 True contracted 33)" using g(1) by blast
  obtain h11 where h11: "upgrade_0011 E (stage (alg_rows E) (ungrouped_rows E) [] [] h9 True (contracted @ group_keys) 33) =
      Inr (stage (alg_rows E) (all_rows E) (group_rows E) [] h11 True (contracted @ group_keys) 40)" using g(3) by blast
  obtain h13 where h13: "upgrade_0013 E (stage (alg_rows E) (all_rows E) (group_rows E) [default_client E (d_ids E 40)] h11 True
      (contracted @ group_keys @ client_keys) 41) =
    Inr (stage (alg_rows E) (head_rows E) (owned_groups E (Some (d_ids E 40))) [default_client E (d_ids E 40)] h13 True head_constraints 41)"
    using last_step(2)[OF assms] by blast
  have "xd_revision empty_database = 0" by (simp add: empty_database_def)
  then have "upgrade_head E empty_database = in_transaction 13 empty_database (run_steps E upgrades empty_database)"
    by (simp add: upgrade_head_def upgrades_length)
  also have "run_steps E upgrades empty_database = Inr (stage (alg_rows E) (head_rows E) (owned_groups E (Some (d_ids E 40)))
      [default_client E (d_ids E 40)] h13 True head_constraints 41)"
    unfolding upgrades_def run_steps.simps first_steps[OF assms(1)] bind_sum_simps h5 h6 h7 h9 g(2) h11 g(4) h13 ..
  finally show ?thesis by (auto simp: in_transaction_def)
qed

subsection \<open>The head satisfies the application's invariant\<close>

definition served_row :: "db_env \<Rightarrow> xrule \<Rightarrow> bool" where
  "served_row E r \<longleftrightarrow> algorithm_builds (d_coercions E) (alg_rows E) (xr_algorithm_id r) (xr_params r) \<and> int4 (xr_priority r)"

lemma algorithm_builds_seeded:
  assumes "name \<in> set alg_names" "builds c name ps"
  shows "algorithm_builds c (alg_rows E) (alg_id E name) ps"
  using alg_id_in[OF assms(1), of E] assms(2) by (auto intro: algorithm_buildsI)

lemma sample_priorities: "list_all (\<lambda>(_, _, _, _, _, p). int4 p) sample_rules" "list_all (\<lambda>(_, _, _, _, p). int4 p) composite_sample_rules"
  by (simp_all add: sample_rules_def composite_sample_rules_def int4_def)

lemma member_builds:
  assumes "numbers_accepted (d_coercions E)"
  shows "list_all (\<lambda>s. \<forall>g \<in> set (group_rows E). xg_name g = fst s \<longrightarrow>
    algorithm_builds (d_coercions E) (alg_rows E) (xg_algorithm_id g) (compute_effective_params (xg_params g) (snd (snd s)))) sample_members"
proof -
  have "algorithm_builds (d_coercions E) (alg_rows E) (alg_id E ''TokenBucket'') [(''capacity'', JInt n), (''refill_rate'', JFloat 15)]"
    "algorithm_builds (d_coercions E) (alg_rows E) (alg_id E ''FixedWindow'') [(''limit'', JInt n), (''window_seconds'', JInt 60)]"
    if "0 < n" for n
    using that by (intro algorithm_builds_seeded builds_seed[OF assms]; simp add: alg_names_def)+
  then show ?thesis by (simp add: sample_members_def group_rows_explicit compute_effective_params_def)
qed

lemma group_priorities: "list_all (\<lambda>g. int4 (xg_priority g)) (group_rows E)"
  by (simp add: group_rows_explicit int4_def)

lemma member_served:
  assumes "numbers_accepted (d_coercions E)" "s \<in> set sample_members"
  shows "served_row E (member_row E i s) \<and> (\<exists>g \<in> set (owned_groups E (Some pk)). xr_group_id (member_row E i s) = Some (xg_id g)
    \<and> mirrors (the (head_group g)) (the (head_rule (owned_row E pk (member_row E i s)))))"
proof (rule member_row_fields[OF assms(2), of E i])
  fix g
  assume g: "g \<in> set (group_rows E)" "xg_name g = fst s" "unknown_keys (xg_params g) (snd (snd s)) = []"
    and m: "member_row E i s = \<lparr>xr_id = d_ids E (35 + i), xr_endpoint = fst (snd s),
     xr_identifier_type = None, xr_identifier_value = None, xr_identifier_types = Some (xg_identifier_types g),
     xr_identifier_signature = Some (xg_identifier_signature g), xr_algorithm_id = xg_algorithm_id g,
     xr_params = compute_effective_params (xg_params g) (snd (snd s)), xr_status = ''active'', xr_priority = xg_priority g,
     xr_version = 1, xr_created_by = seeded_by, xr_updated_by = None, xr_created_at = d_now E, xr_updated_at = d_now E,
     xr_group_id = Some (xg_id g), xr_overrides = Some (snd (snd s)), xr_client_id = None\<rparr>"
  let ?g = "g\<lparr>xg_client_id := Some pk, xg_updated_at := d_now E\<rparr>"
  have "?g \<in> set (owned_groups E (Some pk))" using g(1) by (simp add: owned_groups_def)
  moreover have "mirrors (the (head_group ?g)) (the (head_rule (owned_row E pk (member_row E i s))))"
    by (simp add: m g(3) mirrors_def head_group_def head_rule_def owned_row_def fn_touch_updated_at_def)
  moreover have "served_row E (member_row E i s)"
    using member_builds[OF assms(1)] assms(2) g(1,2) group_priorities[of E] by (simp add: m served_row_def list_all_iff)
  ultimately show ?thesis by (auto simp: m intro!: bexI[of _ ?g])
qed

lemma head_rows_served:
  assumes "numbers_accepted (d_coercions E)"
  shows "list_all (served_row E) (all_rows E)"
proof -
  have "list_all (served_row E) (rows_of (contracted_row E) sample_rules)"
    using sample_builds(1)[OF assms] sample_names(1) sample_priorities(1)
    by (intro list_all_rows_of)
      (auto simp: served_row_def row_defs split_def list_all_iff seed_algorithm_of_def intro!: algorithm_builds_seeded)
  moreover have "list_all (served_row E) (rows_of (composite_row E) composite_sample_rules)"
    using sample_builds(2)[OF assms] sample_names(2) sample_priorities(2)
    by (intro list_all_rows_of) (auto simp: served_row_def composite_defs split_def list_all_iff intro!: algorithm_builds_seeded)
  moreover have "list_all (served_row E) (rows_of (member_row E) sample_members)"
    using member_served[OF assms] by (intro list_all_rows_of) (simp add: list_all_iff)
  ultimately show ?thesis by (simp add: all_rows_def ungrouped_rows_def)
qed

definition fresh_store :: "db_env \<Rightarrow> db" where
  "fresh_store E = \<lparr>t_algorithms = alg_rows E, t_clients = [default_client E (d_ids E 40)], t_secrets = [],
     t_groups = map (\<lambda>g. the (head_group g)) (owned_groups E (Some (d_ids E 40))),
     t_rules = map (\<lambda>r. the (head_rule r)) (head_rows E), t_history = []\<rparr>"

lemma head_rule_owned:
  assumes "shape A r"
  obtains ts sig where "head_rule (owned_row E pk r) = Some \<lparr>r_id = xr_id r, r_client_id = pk, r_endpoint = xr_endpoint r,
      r_identifier_types = ts, r_identifier_signature = sig, r_algorithm_id = xr_algorithm_id r, r_params = xr_params r,
      r_status = xr_status r, r_priority = xr_priority r, r_version = xr_version r, r_created_by = xr_created_by r,
      r_updated_by = xr_updated_by r, r_created_at = xr_created_at r, r_updated_at = d_now E,
      r_group_id = xr_group_id r, r_overrides = xr_overrides r\<rparr>"
    "canonical_types ts sig" "xr_identifier_signature r = Some sig"
proof -
  obtain ts sig where "xr_identifier_types r = Some ts" "xr_identifier_signature r = Some sig" "canonical_types ts sig"
    using assms by (rule shapeD)
  then show ?thesis by (intro that[of ts sig]) (simp_all add: head_rule_def owned_row_def fn_touch_updated_at_def)
qed

lemma head_store_stage:
  "head_store ((stage (alg_rows E) (head_rows E) (owned_groups E (Some (d_ids E 40))) [default_client E (d_ids E 40)] h True cs 41)
     \<lparr>xd_revision := 13\<rparr>) = Some (fresh_store E)"
proof -
  have "head_rule (owned_row E pk r) \<noteq> None" if "r \<in> set (all_rows E)" for r pk
  proof -
    have "shape (alg_rows E) r" using all_rows_shape[of E] that by (simp add: list_all_iff)
    then show ?thesis by (rule head_rule_owned[of _ _ E pk]) simp
  qed
  then have "list_all (\<lambda>r. head_rule r \<noteq> None) (head_rows E)" by (simp add: head_rows_def list_all_iff)
  moreover have "list_all (\<lambda>g. head_group g \<noteq> None) (owned_groups E (Some pk))" for pk
    by (simp add: owned_groups_def list_all_iff head_group_def)
  ultimately show ?thesis by (simp add: head_store_def stage_def fresh_store_def those_map)
qed

lemma fresh_rule:
  assumes "numbers_accepted (d_coercions E)" "x \<in> set (t_rules (fresh_store E))"
  shows "rule_ok (d_coercions E) (alg_rows E) x" "membership_ok (t_groups (fresh_store E)) x" "is_active x"
    "r_client_id x = d_ids E 40" "int4 (r_priority x) \<and> int4 (r_version x)" "ck_rules_overrides_requires_group x"
    "case r_group_id x of None \<Rightarrow> True | Some gid \<Rightarrow> gid \<in> set (map g_id (t_groups (fresh_store E)))"
proof -
  let ?pk = "d_ids E 40"
  obtain r where r: "r \<in> set (all_rows E)" "x = the (head_rule (owned_row E ?pk r))"
    using assms(2) by (auto simp: fresh_store_def head_rows_def)
  have sh: "shape (alg_rows E) r" and un: "xr_client_id r = None" "xr_active r" "xr_version r = 1" and sv: "served_row E r"
    and gr: "grouped_row (group_rows E) r"
    using r(1) all_rows_shape[of E] unowned[of E] head_rows_served[OF assms(1)] all_rows_grouped(1)[of E] by (auto simp: list_all_iff)
  obtain ts sig where x: "x = \<lparr>r_id = xr_id r, r_client_id = ?pk, r_endpoint = xr_endpoint r,
      r_identifier_types = ts, r_identifier_signature = sig, r_algorithm_id = xr_algorithm_id r, r_params = xr_params r,
      r_status = xr_status r, r_priority = xr_priority r, r_version = xr_version r, r_created_by = xr_created_by r,
      r_updated_by = xr_updated_by r, r_created_at = xr_created_at r, r_updated_at = d_now E,
      r_group_id = xr_group_id r, r_overrides = xr_overrides r\<rparr>" and ts: "canonical_types ts sig"
    by (rule head_rule_owned[OF sh, of E ?pk]) (use r(2) in simp)
  show "rule_ok (d_coercions E) (alg_rows E) x" using ts sv un by (simp add: x rule_ok_def served_row_def xr_active_def)
  show "is_active x" "r_client_id x = ?pk" "int4 (r_priority x) \<and> int4 (r_version x)"
    using un sv by (simp_all add: x is_active_def xr_active_def served_row_def int4_def)
  have g: "set (map g_id (t_groups (fresh_store E))) = set (map xg_id (group_rows E))"
    by (force simp: fresh_store_def owned_groups_def head_group_def image_image)
  show "ck_rules_overrides_requires_group x" using gr by (auto simp: x ck_rules_overrides_requires_group_def grouped_row_def)
  show "case r_group_id x of None \<Rightarrow> True | Some gid \<Rightarrow> gid \<in> set (map g_id (t_groups (fresh_store E)))"
    using gr unfolding g by (auto simp: x grouped_row_def split: option.splits)
  show "membership_ok (t_groups (fresh_store E)) x"
  proof (cases "r \<in> set (ungrouped_rows E)")
    case True
    then have "grouped_row [] r" using all_rows_grouped(2)[of "[]" E] by (simp add: list_all_iff)
    then show ?thesis by (auto simp: x membership_ok_def grouped_row_def split: option.splits)
  next
    case False
    then obtain i s where s: "s \<in> set sample_members" "r = member_row E i s"
      using r(1) by (auto simp: all_rows_def rows_of_def enumerate_eq_zip dest: set_zip_rightD)
    obtain g where "g \<in> set (owned_groups E (Some ?pk))" "xr_group_id r = Some (xg_id g)" "mirrors (the (head_group g)) x"
      using member_served[OF assms(1) s(1), of i ?pk] r(2) s(2) by auto
    moreover from this have "g_id (the (head_group g)) = xg_id g" by (auto simp: owned_groups_def head_group_def)
    ultimately show ?thesis by (auto simp: x membership_ok_def list_ex_iff fresh_store_def)
  qed
qed

lemma fresh_group:
  assumes "x \<in> set (t_groups (fresh_store E))"
  shows "canonical_types (g_identifier_types x) (g_identifier_signature x)" "g_client_id x = d_ids E 40"
    "g_algorithm_id x \<in> set (map a_id (alg_rows E))" "int4 (g_priority x)"
  using assms group_algorithms[of E] group_priorities[of E]
  by (auto simp: fresh_store_def owned_groups_def head_group_def list_all_iff)

lemma fresh_integrity:
  assumes "inj (d_ids E)" "lowers_ascii (d_pg_lower E)" "numbers_accepted (d_coercions E)"
  shows "integrity (d_pg_lower E) (fresh_store E)"
proof -
  let ?S = "fresh_store E"
  have "clients_integrity ?S"
    by (simp add: clients_integrity_def fresh_store_def default_client_def ck_clients_def ck_clients_client_id_format_def client_id_char_def)
  moreover have "groups_integrity (d_pg_lower E) ?S"
  proof -
    have "d_ids E 33 \<noteq> d_ids E 34" using injD[OF assms(1), of 33 34] by auto
    then have "distinct (map g_id (t_groups ?S))" "ux_rule_groups_name_ci (d_pg_lower E) (t_groups ?S)"
      by (simp_all add: fresh_store_def owned_groups_def group_rows_explicit head_group_def ux_rule_groups_name_ci_def
          lower_names[OF assms(2)])
    moreover have "distinct (map a_id (t_algorithms ?S))" "distinct (map a_name (t_algorithms ?S))"
      using algorithms_valid[OF assms(1), of id "[]" "[]" "[]"] by (simp_all add: valid_def fresh_store_def)
    moreover have "set (map c_id (t_clients ?S)) = {d_ids E 40}" "t_algorithms ?S = alg_rows E"
      by (simp_all add: fresh_store_def default_client_def)
    ultimately show ?thesis
      unfolding groups_integrity_def list_all_iff using fresh_group[of _ E] canonical_ck[OF fresh_group(1)[of _ E]] by auto
  qed
  moreover have "rules_integrity ?S"
  proof -
    have row: "r_id (the (head_rule (owned_row E pk r))) = xr_id r
        \<and> rule_scope_key (the (head_rule (owned_row E pk r))) = (pk, xr_endpoint r, the (xr_identifier_signature r))"
      if "r \<in> set (all_rows E)" for r pk
    proof -
      have "shape (alg_rows E) r" using all_rows_shape[of E] that by (simp add: list_all_iff)
      then show ?thesis by (rule head_rule_owned[of _ _ E pk]) (simp add: rule_scope_key_def)
    qed
    have ids: "map r_id (t_rules ?S) = map xr_id (all_rows E)" using row by (simp add: fresh_store_def head_rows_def)
    have "map rule_scope_key (t_rules ?S) = map (\<lambda>(e, t). (d_ids E 40, e, the t)) (map (\<lambda>r. (xr_endpoint r, xr_identifier_signature r)) (all_rows E))"
      using row by (simp add: fresh_store_def head_rows_def)
    moreover have "inj_on (\<lambda>(e, t). (d_ids E 40, e, the t)) (set (map (\<lambda>r. (xr_endpoint r, xr_identifier_signature r)) (all_rows E)))"
    proof -
      have sig: "\<exists>t. xr_identifier_signature r = Some t" if "r \<in> set (all_rows E)" for r
      proof -
        have "shape (alg_rows E) r" using all_rows_shape[of E] that by (simp add: list_all_iff)
        then show ?thesis by (rule shapeD) simp
      qed
      show ?thesis by (rule inj_onI) (auto dest!: sig)
    qed
    ultimately have "distinct (map rule_scope_key (t_rules ?S))" using all_rows_scopes(1)[of E] by (simp only: distinct_map[of "\<lambda>(e, t). (d_ids E 40, e, the t)"] simp_thms)
    then have "ux_rules_active_scope (t_rules ?S)" unfolding ux_rules_active_scope_def by (rule distinct_map_filter)
    moreover have "distinct (map r_id (t_rules ?S))" unfolding ids by (rule all_rows_ids(1)[OF assms(1)])
    moreover have "t_algorithms ?S = alg_rows E" "set (map c_id (t_clients ?S)) = {d_ids E 40}"
      by (simp_all add: fresh_store_def default_client_def)
    moreover have "ck_identifier_types (r_identifier_types r) \<and> r_algorithm_id r \<in> set (map a_id (alg_rows E))"
      if "r \<in> set (t_rules ?S)" for r
      using fresh_rule(1)[OF assms(3) that] canonical_ck by (force simp: rule_ok_def algorithm_builds_def list_ex_iff)
    ultimately show ?thesis
      unfolding rules_integrity_def list_all_iff using fresh_rule(4,6,7)[OF assms(3)] by auto
  qed
  ultimately show ?thesis by (simp add: integrity_def)
qed

lemma fresh_store_ok:
  assumes "inj (d_ids E)" "lowers_ascii (d_pg_lower E)" "numbers_accepted (d_coercions E)"
  shows "store_ok E (fresh_store E)"
proof -
  have "t_algorithms (fresh_store E) = alg_rows E" by (simp add: fresh_store_def)
  then have "rules_ok (d_coercions E) (fresh_store E)"
    using fresh_rule(1,2)[OF assms(3)] fresh_group(1) by (auto simp: rules_ok_def groups_ok_def list_all_iff)
  moreover have "int4_columns (fresh_store E)"
    using fresh_rule(5)[OF assms(3)] fresh_group(4) by (auto simp: int4_columns_def list_all_iff)
  ultimately show ?thesis using fresh_integrity[OF assms] by (simp add: store_ok_def)
qed

text \<open>
  C25.  All thirteen revisions run on an empty database, and the store they leave is one the
  application accepts: it meets every constraint and the services' own invariant (canonical types,
  parameters that build a configuration, members that mirror their group), with the 33 sample rules,
  the two groups and the \<^verbatim>\<open>default\<close> client, which has no secret.  Identifiers are required to be
  distinct, \<^verbatim>\<open>lower\<close> to keep lower-case ASCII, and pydantic to take a JSON number of the field's type.
\<close>

theorem fresh_database_valid:
  assumes "inj (d_ids E)" "lowers_ascii (d_pg_lower E)" "numbers_accepted (d_coercions E)"
  shows "\<exists>D S. upgrade_head E empty_database = (Inr (), D) \<and> xd_revision D = 13 \<and> head_store D = Some S \<and> store_ok E S
    \<and> length (t_rules S) = 33 \<and> length (t_groups S) = 2 \<and> map c_client_id (t_clients S) = [''default''] \<and> t_secrets S = []"
proof -
  obtain h where "upgrade_head E empty_database = (Inr (), (stage (alg_rows E) (head_rows E) (owned_groups E (Some (d_ids E 40)))
      [default_client E (d_ids E 40)] h True head_constraints 41)\<lparr>xd_revision := 13\<rparr>)"
    using all_upgrades[OF assms(1,2)] by blast
  moreover have "length (t_rules (fresh_store E)) = 33"
    by (simp add: fresh_store_def head_rows_def all_rows_def ungrouped_rows_def rows_of_def sample_length)
  ultimately show ?thesis using head_store_stage fresh_store_ok[OF assms]
    by (intro exI conjI) (assumption | simp add: fresh_store_def owned_groups_def group_rows_explicit default_client_def)+
qed

theorem fresh_database_valid_witness:
  "\<exists>D S. upgrade_head (demo_db_env\<lparr>d_ids := (\<lambda>i. replicate i (CHR ''x''))\<rparr>) empty_database = (Inr (), D)
     \<and> head_store D = Some S \<and> length (t_rules S) = 33"
proof -
  let ?E = "demo_db_env\<lparr>d_ids := (\<lambda>i. replicate i (CHR ''x''))\<rparr>"
  have "inj (d_ids ?E)" by (simp add: inj_def)
  moreover have "lowers_ascii (d_pg_lower ?E)" by (simp add: lowers_ascii_def)
  moreover have "numbers_accepted (d_coercions ?E)" by (simp add: numbers_accepted_def demo_coercions_def)
  ultimately show ?thesis using fresh_database_valid[of ?E] by blast
qed

end
