(* ===== verification/Migration_Safety.thy ===== *)
theory Migration_Safety
  imports Fresh_Database
begin

text \<open>
  Running revisions on a database with data: when revision 0006 can be applied, what the audit script
  tells about it, and that the change of the identifier columns (0007, 0008) can be taken back.
\<close>

lemma unique_index_map:
  assumes "\<And>r. r \<in> set R \<Longrightarrow> key' (f r) = key r" "\<And>r. P (f r) = P r"
  shows "unique_index key' (filter P (map f R)) = unique_index key (filter P R)"
proof -
  have "filter (\<lambda>r. None \<notin> set (key' r)) (filter P (map f R)) = map f (filter (\<lambda>r. None \<notin> set (key r)) (filter P R))"
    using assms by (induction R) auto
  moreover have "map (\<lambda>r. key' (f r)) (filter (\<lambda>r. None \<notin> set (key r)) (filter P R)) =
      map key (filter (\<lambda>r. None \<notin> set (key r)) (filter P R))"
    by (rule map_cong) (simp_all only: set_filter mem_Collect_eq assms(1))
  ultimately have "map key' (filter (\<lambda>r. None \<notin> set (key' r)) (filter P (map f R))) =
      map key (filter (\<lambda>r. None \<notin> set (key r)) (filter P R))"
    by (simp only: map_map o_def)
  then show ?thesis by (simp only: unique_index_def)
qed

lemma unique_index_total:
  "list_all (\<lambda>r. None \<notin> set (key r)) rows \<Longrightarrow> unique_index key rows = distinct (map key rows)"
  by (simp add: unique_index_def list_all_iff filter_id_conv)

lemma distinct_map_iff_rows:
  assumes "distinct (map g rows)"
  shows "distinct (map key rows) \<longleftrightarrow> (\<forall>r \<in> set rows. \<forall>r' \<in> set rows. key r = key r' \<longrightarrow> r = r')"
  using assms by (auto simp: distinct_map inj_on_def)

subsection \<open>Dropping the identifier value\<close>

definition same_policy :: "xrule \<Rightarrow> xrule \<Rightarrow> bool" where
  "same_policy r r' \<longleftrightarrow> xr_active r \<and> xr_active r' \<and> xr_endpoint r = xr_endpoint r' \<and> xr_identifier_type r = xr_identifier_type r'"

lemma upgrade_0006_by_type:
  "upgrade_0006 E D = (if unique_index (scope_values ByType) (filter xr_active (xd_rules D))
     then Inr ((alter_rules (\<lambda>r. r\<lparr>xr_identifier_value := None\<rparr>) (drop_constraints [RulesActiveScope ByValue] D))
       \<lparr>xd_constraints := filter (\<lambda>c. c \<noteq> RulesActiveScope ByValue) (xd_constraints D) @ [RulesActiveScope ByType]\<rparr>)
     else Inl (Violated (RulesActiveScope ByType)))"
proof -
  have "unique_index (scope_values ByType) (filter xr_active (map (\<lambda>r. r\<lparr>xr_identifier_value := None\<rparr>) (xd_rules D))) =
      unique_index (scope_values ByType) (filter xr_active (xd_rules D))"
    by (rule unique_index_map) (simp_all add: xr_active_def)
  then show ?thesis by (simp add: upgrade_0006_def add_constraint_def alter_rules_def drop_constraints_def)
qed

lemma scope_pairwise:
  assumes "distinct (map xr_id R)" "list_all (\<lambda>r. xr_identifier_type r \<noteq> None) R" "k \<in> {ByType, ByValue}"
  shows "unique_index (scope_values k) R \<longleftrightarrow>
    (\<forall>r \<in> set R. \<forall>r' \<in> set R. scope_values k r = scope_values k r' \<longrightarrow> r = r')"
proof -
  have "list_all (\<lambda>r. None \<notin> set (scope_values k r)) R" using assms(2,3) by (auto simp: list_all_iff)
  then show ?thesis
    by (simp only: unique_index_total distinct_map_iff_rows[OF assms(1), of "scope_values k"])
qed

definition at_0005 :: "db_env \<Rightarrow> xdb \<Rightarrow> bool" where
  "at_0005 E D \<longleftrightarrow> xd_revision D = 5 \<and>
     list_all (holds (d_pg_lower E) D) [RulesPkey, RulesNotNull IdentifierTypeColumn, RulesActiveScope ByValue]"

lemma active_rows_pairwise:
  assumes "at_0005 E D" "k \<in> {ByType, ByValue}"
  shows "unique_index (scope_values k) (filter xr_active (xd_rules D)) \<longleftrightarrow>
    (\<forall>r \<in> set (xd_rules D). \<forall>r' \<in> set (xd_rules D). xr_active r \<and> xr_active r' \<and> scope_values k r = scope_values k r' \<longrightarrow> r = r')"
  using assms by (subst scope_pairwise) (auto simp: at_0005_def list_all_iff intro: distinct_map_filter)

lemma audit_empty:
  "audit_rules_identifier_value D = [] \<Longrightarrow> r \<in> set (xd_rules D) \<Longrightarrow> xr_identifier_value r = None"
  by (auto simp: audit_rules_identifier_value_def filter_empty_conv dest!: arg_cong[of _ _ set])

text \<open>
  C26.  Revision 0006 goes through exactly when no two active rules agree on endpoint and type, however
  their values differ; otherwise the whole upgrade is rolled back.  An empty report of the audit
  script guarantees success, but the report lists rows that lose a value, not the rows that block
  the revision.
\<close>

theorem drop_identifier_value_conflicts:
  assumes "at_0005 E D"
  shows "(if \<forall>r \<in> set (xd_rules D). \<forall>r' \<in> set (xd_rules D). same_policy r r' \<longrightarrow> r = r'
      then \<exists>D'. upgrade_0006 E D = Inr D' \<and> (\<forall>r \<in> set (xd_rules D'). xr_identifier_value r = None)
      else audit_rules_identifier_value D \<noteq> [] \<and> upgrade_head E D = (Inl (Violated (RulesActiveScope ByType)), D))"
proof (cases "\<forall>r \<in> set (xd_rules D). \<forall>r' \<in> set (xd_rules D). same_policy r r' \<longrightarrow> r = r'")
  case True
  then have "unique_index (scope_values ByType) (filter xr_active (xd_rules D))"
    unfolding active_rows_pairwise[OF assms, of ByType, simplified] by (auto simp: same_policy_def)
  with True show ?thesis by (simp add: upgrade_0006_by_type alter_rules_def)
next
  case False
  then obtain r r' where rr: "r \<in> set (xd_rules D)" "r' \<in> set (xd_rules D)" "same_policy r r'" "r \<noteq> r'" by blast
  have "\<not> unique_index (scope_values ByType) (filter xr_active (xd_rules D))"
    unfolding active_rows_pairwise[OF assms, of ByType, simplified] using rr by (auto simp: same_policy_def)
  then have "upgrade_0006 E D = Inl (Violated (RulesActiveScope ByType))" by (simp add: upgrade_0006_by_type)
  then have "upgrade_head E D = (Inl (Violated (RulesActiveScope ByType)), D)"
    using assms by (simp add: at_0005_def upgrade_head_def upgrades_def in_transaction_def bind_sum_def)
  moreover have "unique_index (scope_values ByValue) (filter xr_active (xd_rules D))" using assms by (simp add: at_0005_def)
  then have "scope_values ByValue r \<noteq> scope_values ByValue r'"
    using rr unfolding active_rows_pairwise[OF assms, of ByValue, simplified] by (auto simp: same_policy_def)
  then have "xr_identifier_value r \<noteq> xr_identifier_value r'" using rr(3) by (auto simp: same_policy_def)
  then have "audit_rules_identifier_value D \<noteq> []" using audit_empty[of D r] audit_empty[of D r'] rr(1,2) by metis
  ultimately show ?thesis unfolding if_not_P[OF False] by blast
qed

definition demo_xrule :: "string \<Rightarrow> string \<Rightarrow> string option \<Rightarrow> xrule" where
  "demo_xrule i type v = \<lparr>xr_id = i, xr_endpoint = ''/orders'', xr_identifier_type = Some type, xr_identifier_value = v,
     xr_identifier_types = None, xr_identifier_signature = None, xr_algorithm_id = ''a'', xr_params = [], xr_status = ''active'',
     xr_priority = 0, xr_version = 1, xr_created_by = ''ops'', xr_updated_by = None, xr_created_at = 0, xr_updated_at = 0,
     xr_group_id = None, xr_overrides = None, xr_client_id = None\<rparr>"

definition demo_algorithm :: algorithm where
  "demo_algorithm = seed_algorithm demo_db_env ''a'' (hd seed_algorithms)"

theorem drop_identifier_value_conflicts_witness:
  "let D = empty_database\<lparr>xd_revision := 5, xd_algorithms := [demo_algorithm],
       xd_rules := [demo_xrule ''1'' ''user_id'' (Some ''ann''), demo_xrule ''2'' ''user_id'' (Some ''bob'')],
       xd_constraints := [AlgorithmsPkey, AlgorithmsNameKey, RulesPkey, RulesNotNull IdentifierTypeColumn, RulesAlgorithmFkey,
         RulesActiveScope ByValue]\<rparr>
     in upgrade_head demo_db_env D = (Inl (Violated (RulesActiveScope ByType)), D)"
proof -
  let ?D = "empty_database\<lparr>xd_revision := 5, xd_algorithms := [demo_algorithm],
       xd_rules := [demo_xrule ''1'' ''user_id'' (Some ''ann''), demo_xrule ''2'' ''user_id'' (Some ''bob'')],
       xd_constraints := [AlgorithmsPkey, AlgorithmsNameKey, RulesPkey, RulesNotNull IdentifierTypeColumn, RulesAlgorithmFkey,
         RulesActiveScope ByValue]\<rparr>"
  have "at_0005 demo_db_env ?D"
    by (simp add: at_0005_def unique_index_def xr_active_def demo_xrule_def)
  moreover have "\<not> (\<forall>r \<in> set (xd_rules ?D). \<forall>r' \<in> set (xd_rules ?D). same_policy r r' \<longrightarrow> r = r')"
    by (simp add: same_policy_def xr_active_def demo_xrule_def)
  ultimately show ?thesis using drop_identifier_value_conflicts[of demo_db_env ?D] by (simp only: if_False Let_def)
qed

subsection \<open>Changing the identifier columns and back\<close>

text \<open>Between revisions 0006 and 0007.\<close>

definition at_0006 :: "db_env \<Rightarrow> xdb \<Rightarrow> bool" where
  "at_0006 E D \<longleftrightarrow>
     set (xd_constraints D) = {AlgorithmsPkey, AlgorithmsNameKey, RulesPkey, RulesNotNull IdentifierTypeColumn, RulesAlgorithmFkey,
       RulesActiveScope ByType} \<and>
     list_all (holds (d_pg_lower E) D) (xd_constraints D) \<and>
     list_all (\<lambda>r. xr_identifier_types r = None \<and> xr_identifier_signature r = None) (xd_rules D)"

lemma holds_rows: "holds lower (D\<lparr>xd_rules := R, xd_history := h, xd_constraints := cs\<rparr>) = holds lower (D\<lparr>xd_rules := R\<rparr>)"
proof
  fix c show "holds lower (D\<lparr>xd_rules := R, xd_history := h, xd_constraints := cs\<rparr>) c = holds lower (D\<lparr>xd_rules := R\<rparr>) c"
    by (cases c) (simp_all cong: option.case_cong)
qed

definition with_rows :: "xdb \<Rightarrow> xrule list \<Rightarrow> xhistory list \<Rightarrow> schema_constraint list \<Rightarrow> xdb" where
  "with_rows D R h cs = D\<lparr>xd_rules := R, xd_history := h, xd_constraints := cs\<rparr>"

lemma rows_self: "D = with_rows D (xd_rules D) (xd_history D) (xd_constraints D)"
  by (simp add: with_rows_def)

lemma rows_simps [simp]: "xd_rules (with_rows D R h cs) = R" "xd_constraints (with_rows D R h cs) = cs"
  "alter_rules f (with_rows D R h cs) = with_rows D (map f R) h cs"
  "drop_constraints ds (with_rows D R h cs) = with_rows D R h (filter (\<lambda>c. c \<notin> set ds) cs)"
  by (simp_all add: with_rows_def alter_rules_def drop_constraints_def)

lemma trg_with_rows: "\<exists>h'. trg_rules_history E tg_op rs (with_rows D R h cs) = with_rows D R h' cs"
proof (cases "xd_history_trigger D")
  case True
  then show ?thesis
    by (intro exI[of _ "h @ map (fn_rules_history (d_now E) tg_op) rs"]) (simp add: trg_rules_history_def with_rows_def)
next
  case False
  then show ?thesis by (intro exI[of _ h]) (simp add: trg_rules_history_def with_rows_def)
qed

lemma update_rows_all:
  assumes "\<forall>r \<in> set R. selected r" "\<forall>c \<in> set cs. holds (d_pg_lower E) (D\<lparr>xd_rules := map (\<lambda>r. fn_touch_updated_at E (f r)) R\<rparr>) c"
  shows "\<exists>h'. update_rows E selected f (with_rows D R h cs) = Inr (with_rows D (map (\<lambda>r. fn_touch_updated_at E (f r)) R) h' cs)"
proof -
  let ?R = "map (\<lambda>r. fn_touch_updated_at E (f r)) R"
  let ?new = "map (\<lambda>r. fn_touch_updated_at E (f r)) (filter selected R)"
  obtain h' where "trg_rules_history E ''update'' ?new (with_rows D ?R h cs) = with_rows D ?R h' cs"
    using trg_with_rows by blast
  moreover have "map (\<lambda>r. if selected r then fn_touch_updated_at E (f r) else r) R = ?R" using assms(1) by simp
  ultimately have "update_rows E selected f (with_rows D R h cs) = checked E (with_rows D ?R h' cs)"
    by (simp only: update_rows_def Let_def rows_simps)
  moreover have "checked E (with_rows D ?R h' cs) = Inr (with_rows D ?R h' cs)"
    using assms(2) by (intro checked_Inr) (simp add: with_rows_def holds_rows list_all_iff)
  ultimately show ?thesis by auto
qed

lemma add_constraint_rows:
  "holds (d_pg_lower E) (D\<lparr>xd_rules := R\<rparr>) c \<Longrightarrow> add_constraint E c (with_rows D R h cs) = Inr (with_rows D R h (cs @ [c]))"
  by (simp add: add_constraint_def with_rows_def holds_rows)

lemma add_constraints_rows:
  "\<forall>c \<in> set ds. holds (d_pg_lower E) (D\<lparr>xd_rules := R\<rparr>) c \<Longrightarrow> add_constraints E ds (with_rows D R h cs) = Inr (with_rows D R h (cs @ ds))"
  by (induction ds arbitrary: cs) (simp_all add: add_constraint_rows bind_sum_def)

text \<open>What a rewriting of the rows of revision 0006 has to keep for each constraint.\<close>

lemma rewritten_holds:
  assumes "at_0006 E D" "\<And>r. xr_id (g r) = xr_id r \<and> xr_algorithm_id (g r) = xr_algorithm_id r \<and> xr_status (g r) = xr_status r
    \<and> xr_endpoint (g r) = xr_endpoint r"
  shows "c \<in> {AlgorithmsPkey, AlgorithmsNameKey, RulesPkey, RulesAlgorithmFkey} \<Longrightarrow>
      holds (d_pg_lower E) (D\<lparr>xd_rules := map g (xd_rules D)\<rparr>) c"
    "(\<And>r. xr_identifier_signature (g r) = xr_identifier_type r) \<Longrightarrow>
      holds (d_pg_lower E) (D\<lparr>xd_rules := map g (xd_rules D)\<rparr>) (RulesActiveScope BySignature)"
    "(\<And>r. xr_identifier_type (g r) = xr_identifier_type r) \<Longrightarrow>
      holds (d_pg_lower E) (D\<lparr>xd_rules := map g (xd_rules D)\<rparr>) (RulesActiveScope ByType)"
proof -
  have D: "\<forall>c \<in> {AlgorithmsPkey, AlgorithmsNameKey, RulesPkey, RulesNotNull IdentifierTypeColumn, RulesAlgorithmFkey,
       RulesActiveScope ByType}. holds (d_pg_lower E) D c"
    using assms(1) unfolding at_0006_def list_all_iff by simp
  show "holds (d_pg_lower E) (D\<lparr>xd_rules := map g (xd_rules D)\<rparr>) c"
    if "c \<in> {AlgorithmsPkey, AlgorithmsNameKey, RulesPkey, RulesAlgorithmFkey}"
    using that D assms(2) by (auto simp: list_all_iff o_def)
  have active: "xr_active (g r) = xr_active r" for r using assms(2) by (simp add: xr_active_def)
  have by_type: "unique_index (scope_values ByType) (filter xr_active (xd_rules D))" using D by simp
  show "holds (d_pg_lower E) (D\<lparr>xd_rules := map g (xd_rules D)\<rparr>) (RulesActiveScope BySignature)"
    if "\<And>r. xr_identifier_signature (g r) = xr_identifier_type r"
    using by_type unique_index_map[of "xd_rules D" "scope_values BySignature" g "scope_values ByType" xr_active] active that assms(2)
    by simp
  show "holds (d_pg_lower E) (D\<lparr>xd_rules := map g (xd_rules D)\<rparr>) (RulesActiveScope ByType)"
    if "\<And>r. xr_identifier_type (g r) = xr_identifier_type r"
    using by_type unique_index_map[of "xd_rules D" "scope_values ByType" g "scope_values ByType" xr_active] active that assms(2)
    by simp
qed

definition both_columns :: "db_env \<Rightarrow> xrule \<Rightarrow> xrule" where
  "both_columns E r = fn_touch_updated_at E (backfill_types r)"

definition without_type :: "db_env \<Rightarrow> xrule \<Rightarrow> xrule" where
  "without_type E r = (both_columns E r)\<lparr>xr_identifier_type := None\<rparr>"

definition identifier_constraints :: "schema_constraint list" where
  "identifier_constraints = [RulesNotNull IdentifierTypesColumn, RulesNotNull IdentifierSignatureColumn, RulesTypesCardinality,
     RulesGlobalAlone]"

lemma column_simps [simp]:
  "xr_id (both_columns E r) = xr_id r" "xr_algorithm_id (both_columns E r) = xr_algorithm_id r"
  "xr_status (both_columns E r) = xr_status r" "xr_endpoint (both_columns E r) = xr_endpoint r"
  "xr_identifier_type (both_columns E r) = xr_identifier_type r"
  "xr_identifier_signature (both_columns E r) = xr_identifier_type r"
  "xr_identifier_types (both_columns E r) = map_option (\<lambda>t. [t]) (xr_identifier_type r)"
  by (simp_all add: both_columns_def backfill_types_def fn_touch_updated_at_def)

lemma not_null_at_0006: "at_0006 E D \<Longrightarrow> \<forall>r \<in> set (xd_rules D). xr_identifier_type r \<noteq> None"
proof -
  assume "at_0006 E D"
  then have "holds (d_pg_lower E) D (RulesNotNull IdentifierTypeColumn)" unfolding at_0006_def list_all_iff by blast
  then show ?thesis by (simp add: list_all_iff)
qed

lemma identifier_constraints_hold:
  assumes "at_0006 E D" "\<And>r. xr_identifier_types (g r) = map_option (\<lambda>t. [t]) (xr_identifier_type r)"
    "\<And>r. xr_identifier_signature (g r) = xr_identifier_type r"
  shows "\<forall>c \<in> set identifier_constraints. holds (d_pg_lower E) (D\<lparr>xd_rules := map g (xd_rules D)\<rparr>) c"
  using not_null_at_0006[OF assms(1)] assms(2,3)
  by (auto simp: identifier_constraints_def list_all_iff split: option.splits)

lemma upgrade_0007_rows:
  assumes "at_0006 E D"
  shows "\<exists>h. upgrade_0007 E D = Inr (with_rows D (map (both_columns E) (xd_rules D)) h
    (filter (\<lambda>c. c \<noteq> RulesActiveScope ByType) (xd_constraints D @ identifier_constraints) @ [RulesActiveScope BySignature]))"
proof -
  let ?R = "map (both_columns E) (xd_rules D)"
  have cs: "set (xd_constraints D) = {AlgorithmsPkey, AlgorithmsNameKey, RulesPkey, RulesNotNull IdentifierTypeColumn,
      RulesAlgorithmFkey, RulesActiveScope ByType}" using assms by (simp add: at_0006_def)
  have old: "\<forall>c \<in> set (xd_constraints D). holds (d_pg_lower E) (D\<lparr>xd_rules := ?R\<rparr>) c"
    unfolding cs using rewritten_holds(1,3)[OF assms, of "both_columns E"] not_null_at_0006[OF assms]
    by (auto simp del: holds.simps simp: holds.simps(6) list_all_iff)
  have both: "(\<lambda>r. fn_touch_updated_at E (backfill_types r)) = both_columns E" by (simp add: both_columns_def fun_eq_iff)
  have "\<forall>r \<in> set (xd_rules D). xr_identifier_types r = None" using assms by (simp add: at_0006_def list_all_iff)
  with old obtain h where "update_rows E (\<lambda>r. xr_identifier_types r = None) backfill_types
      (with_rows D (xd_rules D) (xd_history D) (xd_constraints D)) = Inr (with_rows D ?R h (xd_constraints D))"
    using update_rows_all[where R = "xd_rules D" and selected = "\<lambda>r. xr_identifier_types r = None" and cs = "xd_constraints D"
        and E = E and D = D and f = backfill_types and h = "xd_history D"]
    unfolding both by blast
  then have "update_rows E (\<lambda>r. xr_identifier_types r = None) backfill_types D = Inr (with_rows D ?R h (xd_constraints D))"
    by (simp only: rows_self[symmetric])
  moreover have "add_constraints E identifier_constraints (with_rows D ?R h cs) = Inr (with_rows D ?R h (cs @ identifier_constraints))" for cs
    using identifier_constraints_hold[OF assms] by (intro add_constraints_rows) simp
  moreover have "add_constraint E (RulesActiveScope BySignature) (with_rows D ?R h cs) =
      Inr (with_rows D ?R h (cs @ [RulesActiveScope BySignature]))" for cs
    using rewritten_holds(2)[OF assms, of "both_columns E"] by (intro add_constraint_rows) simp
  ultimately have "upgrade_0007 E D = Inr (with_rows D ?R h
    (filter (\<lambda>c. c \<noteq> RulesActiveScope ByType) (xd_constraints D @ identifier_constraints) @ [RulesActiveScope BySignature]))"
    by (simp add: upgrade_0007_def identifier_constraints_def bind_sum_def)
  then show ?thesis by blast
qed

text \<open>The columns of 0007 are gone again, and with the signature copied back the type is the old one.\<close>

lemma restored_row:
  assumes "xr_identifier_types r = None \<and> xr_identifier_signature r = None"
  shows "(fn_touch_updated_at E ((without_type E r)\<lparr>xr_identifier_type := xr_identifier_signature (without_type E r)\<rparr>))
      \<lparr>xr_identifier_signature := None, xr_identifier_types := None\<rparr> = fn_touch_updated_at E r"
  using assms
  by (cases r) (simp add: without_type_def both_columns_def backfill_types_def fn_touch_updated_at_def)

definition with_type_again :: "db_env \<Rightarrow> xrule \<Rightarrow> xrule" where
  "with_type_again E r = fn_touch_updated_at E ((without_type E r)\<lparr>xr_identifier_type := xr_identifier_signature (without_type E r)\<rparr>)"

lemma with_type_again_simps [simp]:
  "xr_id (with_type_again E r) = xr_id r" "xr_algorithm_id (with_type_again E r) = xr_algorithm_id r"
  "xr_status (with_type_again E r) = xr_status r" "xr_endpoint (with_type_again E r) = xr_endpoint r"
  "xr_identifier_type (with_type_again E r) = xr_identifier_type r"
  "xr_identifier_signature (with_type_again E r) = xr_identifier_type r"
  "xr_identifier_types (with_type_again E r) = map_option (\<lambda>t. [t]) (xr_identifier_type r)"
  by (simp_all add: with_type_again_def without_type_def fn_touch_updated_at_def)

lemma downgrade_0008_rows:
  assumes "at_0006 E D"
    "set cs \<subseteq> {AlgorithmsPkey, AlgorithmsNameKey, RulesPkey, RulesAlgorithmFkey, RulesActiveScope BySignature} \<union> set identifier_constraints"
  shows "\<exists>h'. downgrade_0008 E (with_rows D (map (without_type E) (xd_rules D)) h cs) =
    Inr (with_rows D (map (with_type_again E) (xd_rules D)) h' (cs @ [RulesNotNull IdentifierTypeColumn]))"
proof -
  let ?R = "map (without_type E) (xd_rules D)"
  let ?f = "\<lambda>r. r\<lparr>xr_identifier_type := xr_identifier_signature r\<rparr>"
  have R: "map (\<lambda>r. fn_touch_updated_at E (?f r)) ?R = map (with_type_again E) (xd_rules D)" by (simp add: with_type_again_def)
  have ok: "\<forall>c \<in> set cs. holds (d_pg_lower E) (D\<lparr>xd_rules := map (with_type_again E) (xd_rules D)\<rparr>) c"
    using rewritten_holds(1,2)[OF assms(1), of "with_type_again E"] identifier_constraints_hold[OF assms(1), of "with_type_again E"] assms(2)
    by (auto simp del: holds.simps)
  obtain h' where "update_rows E (\<lambda>_. True) ?f (with_rows D ?R h cs) = Inr (with_rows D (map (with_type_again E) (xd_rules D)) h' cs)"
    using update_rows_all[where R = ?R and selected = "\<lambda>_. True" and cs = cs and E = E and D = D and f = ?f and h = h] ok
    unfolding R by auto
  moreover have "add_constraint E (RulesNotNull IdentifierTypeColumn) (with_rows D (map (with_type_again E) (xd_rules D)) h' cs) =
      Inr (with_rows D (map (with_type_again E) (xd_rules D)) h' (cs @ [RulesNotNull IdentifierTypeColumn]))"
    using not_null_at_0006[OF assms(1)] by (intro add_constraint_rows) (simp add: list_all_iff)
  ultimately show ?thesis by (auto simp: downgrade_0008_def bind_sum_def)
qed

text \<open>
  C27.  The change to composite identifiers can be taken back: from the schema of revision 0006,
  running 0007 and 0008 and then both downgrades succeeds, restores every row except its
  \<^verbatim>\<open>updated_at\<close>, which the trigger sets, and leaves the same constraints in force.
\<close>

theorem identifier_columns_roundtrip:
  assumes "at_0006 E D"
  shows "\<exists>h cs. run_steps E [upgrade_0007, upgrade_0008, downgrade_0008, downgrade_0007] D =
      Inr (D\<lparr>xd_rules := map (fn_touch_updated_at E) (xd_rules D), xd_history := h, xd_constraints := cs\<rparr>)
    \<and> set cs = set (xd_constraints D)"
proof -
  have cs: "set (xd_constraints D) = {AlgorithmsPkey, AlgorithmsNameKey, RulesPkey, RulesNotNull IdentifierTypeColumn,
      RulesAlgorithmFkey, RulesActiveScope ByType}" using assms by (simp add: at_0006_def)
  define cs7 where "cs7 = filter (\<lambda>c. c \<noteq> RulesActiveScope ByType) (xd_constraints D @ identifier_constraints) @ [RulesActiveScope BySignature]"
  define cs8 where "cs8 = filter (\<lambda>c. c \<noteq> RulesNotNull IdentifierTypeColumn) cs7"
  define cs6 where "cs6 = filter (\<lambda>c. c \<notin> {RulesGlobalAlone, RulesTypesCardinality, RulesNotNull IdentifierSignatureColumn,
    RulesNotNull IdentifierTypesColumn}) (filter (\<lambda>c. c \<noteq> RulesActiveScope BySignature) (cs8 @ [RulesNotNull IdentifierTypeColumn])
      @ [RulesActiveScope ByType])"
  obtain h where "upgrade_0007 E D = Inr (with_rows D (map (both_columns E) (xd_rules D)) h cs7)"
    using upgrade_0007_rows[OF assms] unfolding cs7_def by blast
  moreover have "upgrade_0008 E (with_rows D (map (both_columns E) (xd_rules D)) h cs7) =
      Inr (with_rows D (map (without_type E) (xd_rules D)) h cs8)"
    by (simp add: upgrade_0008_def without_type_def[abs_def] cs8_def o_def)
  moreover have "set cs8 \<subseteq> {AlgorithmsPkey, AlgorithmsNameKey, RulesPkey, RulesAlgorithmFkey, RulesActiveScope BySignature} \<union> set identifier_constraints"
    unfolding cs8_def cs7_def using cs by auto
  then obtain h' where "downgrade_0008 E (with_rows D (map (without_type E) (xd_rules D)) h cs8) =
      Inr (with_rows D (map (with_type_again E) (xd_rules D)) h' (cs8 @ [RulesNotNull IdentifierTypeColumn]))"
    using downgrade_0008_rows[OF assms] by blast
  moreover have "add_constraint E (RulesActiveScope ByType) (with_rows D (map (with_type_again E) (xd_rules D)) h' c) =
      Inr (with_rows D (map (with_type_again E) (xd_rules D)) h' (c @ [RulesActiveScope ByType]))" for c
    using rewritten_holds(3)[OF assms, of "with_type_again E"] by (intro add_constraint_rows) simp
  then have "downgrade_0007 E (with_rows D (map (with_type_again E) (xd_rules D)) h' (cs8 @ [RulesNotNull IdentifierTypeColumn])) =
      Inr (with_rows D (map (\<lambda>r. (with_type_again E r)\<lparr>xr_identifier_signature := None, xr_identifier_types := None\<rparr>) (xd_rules D)) h' cs6)"
    by (simp add: downgrade_0007_def bind_sum_def cs6_def o_def)
  moreover have "map (\<lambda>r. (with_type_again E r)\<lparr>xr_identifier_signature := None, xr_identifier_types := None\<rparr>) (xd_rules D) =
      map (fn_touch_updated_at E) (xd_rules D)"
    using assms unfolding with_type_again_def by (intro map_cong refl restored_row) (simp add: at_0006_def list_all_iff)
  ultimately have "run_steps E [upgrade_0007, upgrade_0008, downgrade_0008, downgrade_0007] D =
      Inr (with_rows D (map (fn_touch_updated_at E) (xd_rules D)) h' cs6)"
    by (simp only: run_steps.simps bind_sum_def sum.case)
  moreover have "set cs6 = set (xd_constraints D)"
    unfolding cs6_def cs8_def cs7_def identifier_constraints_def set_append set_filter cs by auto
  ultimately show ?thesis unfolding with_rows_def by blast
qed

theorem identifier_columns_roundtrip_witness:
  "let D = empty_database\<lparr>xd_algorithms := [demo_algorithm], xd_history_trigger := True,
       xd_rules := [demo_xrule ''1'' ''user_id'' None, demo_xrule ''2'' ''global'' None],
       xd_constraints := [AlgorithmsPkey, AlgorithmsNameKey, RulesPkey, RulesNotNull IdentifierTypeColumn, RulesAlgorithmFkey,
         RulesActiveScope ByType]\<rparr>
     in \<exists>D'. run_steps demo_db_env [upgrade_0007, upgrade_0008, downgrade_0008, downgrade_0007] D = Inr D' \<and>
          map xr_identifier_type (xd_rules D') = [Some ''user_id'', Some ''global'']"
proof -
  let ?D = "empty_database\<lparr>xd_algorithms := [demo_algorithm], xd_history_trigger := True,
       xd_rules := [demo_xrule ''1'' ''user_id'' None, demo_xrule ''2'' ''global'' None],
       xd_constraints := [AlgorithmsPkey, AlgorithmsNameKey, RulesPkey, RulesNotNull IdentifierTypeColumn, RulesAlgorithmFkey,
         RulesActiveScope ByType]\<rparr>"
  have "at_0006 demo_db_env ?D"
    by (simp add: at_0006_def unique_index_def xr_active_def demo_xrule_def demo_algorithm_def seed_algorithm_def seed_algorithms_def)
  from identifier_columns_roundtrip[OF this] show ?thesis
    by (auto simp: Let_def demo_xrule_def fn_touch_updated_at_def)
qed

end
