(* ===== verification/Migration_Downgrade.thy ===== *)
theory Migration_Downgrade
  imports Migration_Safety
begin

text \<open>
  The whole chain backwards, on a database with data: which stores of the head can be taken down to the
  empty database, and what stands in the way of the others.  Each downgrade is a step between the
  constraints of two revisions; of the rows only what the constraints say of them is followed.
\<close>

subsection \<open>Revisions as sets of constraints\<close>

definition at_constraints :: "db_env \<Rightarrow> schema_constraint set \<Rightarrow> xdb \<Rightarrow> bool" where
  "at_constraints E K D \<longleftrightarrow> set (xd_constraints D) = K \<and> (\<forall>c \<in> K. holds (d_pg_lower E) D c)"

abbreviation (input) identifier_checks :: "schema_constraint set" where
  "identifier_checks \<equiv> {RulesNotNull IdentifierTypesColumn, RulesNotNull IdentifierSignatureColumn, RulesTypesCardinality, RulesGlobalAlone}"

abbreviation (input) group_checks :: "schema_constraint set" where
  "group_checks \<equiv> {GroupsPkey, GroupsAlgorithmFkey, GroupsTypesCardinality, GroupsGlobalAlone, RulesGroupFkey, RulesOverridesRequireGroup}"

abbreviation (input) row_keys :: "schema_constraint set" where
  "row_keys \<equiv> {AlgorithmsPkey, AlgorithmsNameKey, RulesPkey, RulesAlgorithmFkey}"

definition constraints_0009 :: "schema_constraint set" where
  "constraints_0009 = row_keys \<union> identifier_checks \<union> {RulesActiveScope BySignature}"

definition constraints_0011 :: "schema_constraint set" where
  "constraints_0011 = constraints_0009 \<union> group_checks \<union> {GroupsNameCi False}"

definition constraints_0012 :: "schema_constraint set" where
  "constraints_0012 = constraints_0011 \<union> {ClientsPkey, ClientsClientIdKey, ClientsCheck, SecretsPkey, SecretsClientFkey}"

definition constraints_0013 :: "schema_constraint set" where
  "constraints_0013 = row_keys \<union> identifier_checks \<union> group_checks
     \<union> {ClientsPkey, ClientsClientIdKey, ClientsCheck, SecretsPkey, SecretsClientFkey,
       RulesNotNull ClientIdColumn, GroupsNotNullClient, RulesClientFkey, GroupsClientFkey, RulesActiveScope ByClient, GroupsNameCi True}"

definition constraints_0006 :: "scope_key \<Rightarrow> schema_constraint set" where
  "constraints_0006 k = row_keys \<union> {RulesNotNull IdentifierTypeColumn, RulesActiveScope k}"

lemma at_checked:
  assumes "at_constraints E K D" shows "checked E D = Inr D"
  using assms by (intro checked_Inr) (auto simp: at_constraints_def list_all_iff)

text \<open>A constraint looks at the five tables only.\<close>

lemma holds_cong:
  assumes "xd_algorithms D' = xd_algorithms D" "xd_rules D' = xd_rules D" "xd_groups D' = xd_groups D"
    "xd_clients D' = xd_clients D" "xd_secrets D' = xd_secrets D"
  shows "holds lower D' c = holds lower D c"
  by (cases c) (simp_all add: assms cong: option.case_cong)

lemma at_drop: "at_constraints E K D \<Longrightarrow> at_constraints E (K - set cs) (drop_constraints cs D)"
  using holds_cong[of "drop_constraints cs D" D] by (auto simp: at_constraints_def drop_constraints_def)

lemma at_add:
  assumes "at_constraints E K D" "holds (d_pg_lower E) D c"
  shows "add_constraint E c D = Inr (D\<lparr>xd_constraints := xd_constraints D @ [c]\<rparr>)"
    "at_constraints E (insert c K) (D\<lparr>xd_constraints := xd_constraints D @ [c]\<rparr>)"
proof -
  have "holds (d_pg_lower E) (D\<lparr>xd_constraints := cs\<rparr>) c' = holds (d_pg_lower E) D c'" for cs c' by (rule holds_cong) simp_all
  then show "add_constraint E c D = Inr (D\<lparr>xd_constraints := xd_constraints D @ [c]\<rparr>)"
    "at_constraints E (insert c K) (D\<lparr>xd_constraints := xd_constraints D @ [c]\<rparr>)"
    using assms by (auto simp: at_constraints_def add_constraint_def)
qed

lemma at_cong:
  assumes "at_constraints E K D" "xd_constraints D' = xd_constraints D"
    "\<And>c. c \<in> K \<Longrightarrow> holds (d_pg_lower E) D c \<Longrightarrow> holds (d_pg_lower E) D' c"
  shows "at_constraints E K D'"
  using assms by (simp add: at_constraints_def)

text \<open>Statements that take rows away.\<close>

lemma unique_index_filter: "unique_index key rows \<Longrightarrow> unique_index key (filter P rows)"
proof -
  assume "unique_index key rows"
  then have "distinct (map key (filter P (filter (\<lambda>r. None \<notin> set (key r)) rows)))"
    unfolding unique_index_def by (rule distinct_map_filter)
  then show ?thesis by (simp add: unique_index_def conj_commute)
qed

lemma holds_delete_rules:
  assumes "holds lower D c" shows "holds lower (D\<lparr>xd_rules := filter P (xd_rules D)\<rparr>) c"
proof (cases c)
  case (RulesActiveScope k)
  have "filter xr_active (filter P (xd_rules D)) = filter P (filter xr_active (xd_rules D))" by (simp add: conj_commute)
  with assms RulesActiveScope show ?thesis by (auto intro: unique_index_filter simp del: filter_filter)
qed (use assms in \<open>auto simp: list_all_iff distinct_map_filter cong: option.case_cong\<close>)

lemma logged: "trg_rules_history E op rows D = D\<lparr>xd_history := (if xd_history_trigger D
    then xd_history D @ map (fn_rules_history (d_now E) op) rows else xd_history D)\<rparr>"
  by (simp add: trg_rules_history_def)

lemma at_delete_rows:
  assumes "at_constraints E K D"
  shows "\<exists>h. delete_rows E selected D = Inr (D\<lparr>xd_rules := filter (\<lambda>r. \<not> selected r) (xd_rules D), xd_history := h\<rparr>)
    \<and> at_constraints E K (D\<lparr>xd_rules := filter (\<lambda>r. \<not> selected r) (xd_rules D), xd_history := h\<rparr>)"
proof -
  have "holds (d_pg_lower E) (D\<lparr>xd_rules := filter P (xd_rules D), xd_history := h\<rparr>) c =
      holds (d_pg_lower E) (D\<lparr>xd_rules := filter P (xd_rules D)\<rparr>) c" for P h c
    by (rule holds_cong) simp_all
  then have "at_constraints E K (D\<lparr>xd_rules := filter (\<lambda>r. \<not> selected r) (xd_rules D), xd_history := h\<rparr>)" for h
    using holds_delete_rules by (intro at_cong[OF assms]) simp_all
  note ok = this
  show ?thesis unfolding delete_rows_def logged
    by (rule exI[of _ "if xd_history_trigger D then xd_history D @ map (fn_rules_history (d_now E) ''delete'') (filter selected (xd_rules D))
        else xd_history D"]) (use at_checked[OF ok] ok in simp)
qed

text \<open>What a step leaves alone.\<close>

definition kept :: "xdb \<Rightarrow> client list \<times> client_secret list \<times> xgroup list \<times> nat" where
  "kept D = (xd_clients D, xd_secrets D, xd_groups D, xd_drawn D)"

definition goes :: "db_env \<Rightarrow> (db_env \<Rightarrow> xdb \<Rightarrow> migration_error + xdb) \<Rightarrow> xdb \<Rightarrow> schema_constraint set \<Rightarrow> (xdb \<Rightarrow> bool) \<Rightarrow> bool" where
  "goes E f D K P \<longleftrightarrow> (\<exists>D'. f E D = Inr D' \<and> at_constraints E K D' \<and> P D')"

lemma goesI: "f E D = Inr D' \<Longrightarrow> at_constraints E K D' \<Longrightarrow> P D' \<Longrightarrow> goes E f D K P"
  by (auto simp: goes_def)

subsection \<open>The schema with clients and groups\<close>

lemma holds_rewrite_rules:
  assumes "c \<in> constraints_0009" "xd_algorithms D' = xd_algorithms D" "xd_rules D' = map f (xd_rules D)"
    "\<And>r. xr_id (f r) = xr_id r \<and> xr_algorithm_id (f r) = xr_algorithm_id r \<and> xr_identifier_types (f r) = xr_identifier_types r
      \<and> xr_identifier_signature (f r) = xr_identifier_signature r \<and> xr_endpoint (f r) = xr_endpoint r \<and> xr_status (f r) = xr_status r"
  shows "holds lower D' c = holds lower D c"
proof -
  have "unique_index (scope_values BySignature) (filter xr_active (map f R)) = unique_index (scope_values BySignature) (filter xr_active R)" for R
    by (rule unique_index_map) (simp_all add: assms(4) xr_active_def)
  then show ?thesis using assms(1)
    by (auto simp: constraints_0009_def assms(2-4) list_all_iff o_def simp del: scope_values.simps cong: option.case_cong)
qed

lemma holds_rewrite_groups:
  assumes "c \<in> group_checks \<union> {GroupsNameCi False}" "xd_algorithms D' = xd_algorithms D" "xd_rules D' = map f (xd_rules D)"
    "xd_groups D' = map g (xd_groups D)" "\<And>r. xr_group_id (f r) = xr_group_id r \<and> xr_overrides (f r) = xr_overrides r"
    "\<And>x. xg_id (g x) = xg_id x \<and> xg_algorithm_id (g x) = xg_algorithm_id x \<and> xg_identifier_types (g x) = xg_identifier_types x
      \<and> xg_name (g x) = xg_name x"
  shows "holds lower D' c = holds lower D c"
  using assms(1)
  by (auto simp: assms(2-6) list_all_iff o_def unique_index_def name_ci_values_def[abs_def] filter_map split: option.splits)

lemma downgrade_0013_form:
  "downgrade_0013 E D = (if \<not> holds (d_pg_lower E) D (GroupsNameCi False) then Inl (Violated (GroupsNameCi False))
     else if \<not> holds (d_pg_lower E) D (RulesActiveScope BySignature) then Inl (Violated (RulesActiveScope BySignature))
     else Inr (D\<lparr>xd_rules := map (\<lambda>r. r\<lparr>xr_client_id := None\<rparr>) (xd_rules D),
       xd_groups := map (\<lambda>g. g\<lparr>xg_client_id := None\<rparr>) (xd_groups D),
       xd_constraints := filter (\<lambda>c. c \<notin> {GroupsClientFkey, RulesClientFkey, GroupsNotNullClient, RulesNotNull ClientIdColumn,
         GroupsNameCi True, RulesActiveScope ByClient}) (xd_constraints D) @ [GroupsNameCi False, RulesActiveScope BySignature]\<rparr>))"
  by (simp add: downgrade_0013_def add_constraint_def drop_constraints_def alter_rules_def Let_def bind_sum_def conj_ac)

lemma constraints_0012_of_0013: "constraints_0012 = (constraints_0013 - {GroupsClientFkey, RulesClientFkey, GroupsNotNullClient,
    RulesNotNull ClientIdColumn, GroupsNameCi True, RulesActiveScope ByClient}) \<union> {GroupsNameCi False, RulesActiveScope BySignature}"
  unfolding constraints_0013_def constraints_0012_def constraints_0011_def constraints_0009_def by simp blast

lemma constraints_0013_parts: "constraints_0009 - {RulesActiveScope BySignature} \<subseteq> constraints_0013" "group_checks \<subseteq> constraints_0013"
    "{ClientsPkey, ClientsClientIdKey, ClientsCheck, SecretsPkey, SecretsClientFkey} \<subseteq> constraints_0013"
  unfolding constraints_0013_def constraints_0009_def by blast+

lemma downgrade_0013_goes:
  assumes "at_constraints E constraints_0013 D" "holds (d_pg_lower E) D (GroupsNameCi False)"
    "holds (d_pg_lower E) D (RulesActiveScope BySignature)"
  shows "goes E downgrade_0013 D constraints_0012 (\<lambda>D'. xd_drawn D' = xd_drawn D)"
proof -
  define D' where "D' = D\<lparr>xd_rules := map (\<lambda>r. r\<lparr>xr_client_id := None\<rparr>) (xd_rules D),
       xd_groups := map (\<lambda>g. g\<lparr>xg_client_id := None\<rparr>) (xd_groups D),
       xd_constraints := filter (\<lambda>c. c \<notin> {GroupsClientFkey, RulesClientFkey, GroupsNotNullClient, RulesNotNull ClientIdColumn,
         GroupsNameCi True, RulesActiveScope ByClient}) (xd_constraints D) @ [GroupsNameCi False, RulesActiveScope BySignature]\<rparr>"
  have D: "set (xd_constraints D) = constraints_0013" "\<And>c. c \<in> constraints_0013 \<Longrightarrow> holds (d_pg_lower E) D c"
    using assms(1) unfolding at_constraints_def by blast+
  have "set (xd_constraints D') = constraints_0012"
    unfolding constraints_0012_of_0013 D(1)[symmetric] by (simp add: D'_def set_diff_eq)
  moreover have "holds (d_pg_lower E) D' c" if c: "c \<in> constraints_0009" for c
  proof -
    have "holds (d_pg_lower E) D c" using D(2) assms(3) constraints_0013_parts(1) c by blast
    then show ?thesis using holds_rewrite_rules[OF c, of D' D "\<lambda>r. r\<lparr>xr_client_id := None\<rparr>"] by (simp add: D'_def del: holds.simps)
  qed
  moreover have "holds (d_pg_lower E) D' c" if c: "c \<in> group_checks \<union> {GroupsNameCi False}" for c
  proof -
    have "holds (d_pg_lower E) D c" using D(2) assms(2) constraints_0013_parts(2) c by blast
    then show ?thesis
      using holds_rewrite_groups[OF c, of D' D "\<lambda>r. r\<lparr>xr_client_id := None\<rparr>" "\<lambda>g. g\<lparr>xg_client_id := None\<rparr>"]
      by (simp add: D'_def del: holds.simps)
  qed
  moreover have "holds (d_pg_lower E) D' c" if c: "c \<in> {ClientsPkey, ClientsClientIdKey, ClientsCheck, SecretsPkey, SecretsClientFkey}" for c
  proof -
    have "holds (d_pg_lower E) D c" using D(2) constraints_0013_parts(3) c by blast
    then show ?thesis using c by (auto simp: D'_def)
  qed
  ultimately have "at_constraints E constraints_0012 D'"
    unfolding at_constraints_def constraints_0012_def constraints_0011_def by blast
  moreover have "downgrade_0013 E D = Inr D'" using assms(2,3) by (simp add: downgrade_0013_form D'_def del: holds.simps)
  moreover have "xd_drawn D' = xd_drawn D" by (simp add: D'_def)
  ultimately show ?thesis unfolding goes_def by blast
qed

lemma downgrade_0012_goes:
  assumes "at_constraints E constraints_0012 D"
  shows "goes E downgrade_0012 D constraints_0011 (\<lambda>D'. xd_clients D' = [] \<and> xd_secrets D' = [] \<and> xd_drawn D' = xd_drawn D)"
proof -
  let ?cs = "[ClientsPkey, ClientsClientIdKey, ClientsCheck, SecretsPkey, SecretsClientFkey]"
  define D' where "D' = drop_constraints ?cs (D\<lparr>xd_secrets := [], xd_clients := []\<rparr>)"
  have D: "set (xd_constraints D) = constraints_0012" "\<And>c. c \<in> constraints_0012 \<Longrightarrow> holds (d_pg_lower E) D c"
    using assms unfolding at_constraints_def by blast+
  have "constraints_0012 - set ?cs = constraints_0011"
    unfolding constraints_0012_def constraints_0011_def constraints_0009_def by simp
  then have "set (xd_constraints D') = constraints_0011" by (simp add: D'_def drop_constraints_def D(1) set_diff_eq)
  moreover have "holds (d_pg_lower E) D' c = holds (d_pg_lower E) D c" if "c \<in> constraints_0011" for c
    using that unfolding constraints_0011_def constraints_0009_def
    by (auto simp: D'_def drop_constraints_def cong: option.case_cong)
  ultimately have "at_constraints E constraints_0011 D'" using D(2) unfolding at_constraints_def constraints_0012_def by blast
  then show ?thesis unfolding goes_def by (intro exI[of _ D']) (simp add: downgrade_0012_def D'_def drop_constraints_def)
qed

lemma remove_groups_holds:
  assumes "c \<in> constraints_0011" "holds lower D c"
    "\<And>r. r \<in> set (xd_rules D) \<Longrightarrow> case xr_group_id r of None \<Rightarrow> True | Some i \<Rightarrow> i \<notin> set (map xg_id (filter P (xd_groups D)))"
  shows "holds lower (D\<lparr>xd_groups := filter (\<lambda>g. \<not> P g) (xd_groups D)\<rparr>) c"
proof (cases "c = RulesGroupFkey")
  case True
  have "i \<in> set (map xg_id (filter (\<lambda>g. \<not> P g) (xd_groups D)))"
    if "r \<in> set (xd_rules D)" "xr_group_id r = Some i" "i \<in> set (map xg_id (xd_groups D))" for r i
    using assms(3)[OF that(1)] that(2,3) by auto
  then show ?thesis using True assms(2) by (fastforce simp: list_all_iff split: option.splits)
next
  case False
  then show ?thesis using assms(1,2) unfolding constraints_0011_def constraints_0009_def
    by (auto simp: list_all_iff distinct_map_filter unique_index_filter cong: option.case_cong)
qed

lemma downgrade_0011_goes:
  assumes "at_constraints E constraints_0011 D"
  shows "goes E downgrade_0011 D constraints_0011
    (\<lambda>D'. xd_clients D' = xd_clients D \<and> xd_secrets D' = xd_secrets D \<and> xd_drawn D' = xd_drawn D)"
proof -
  define seeded :: "xgroup \<Rightarrow> bool" where "seeded = (\<lambda>g. xg_created_by g = seeded_by \<and> xg_name g \<in> set (map fst sample_groups))"
  define ids where "ids = map xg_id (filter seeded (xd_groups D))"
  define member :: "xrule \<Rightarrow> bool" where "member = (\<lambda>r. case xr_group_id r of None \<Rightarrow> False | Some g \<Rightarrow> g \<in> set ids)"
  obtain h where h: "(if ids = [] then Inr D else delete_rows E member D) = Inr (D\<lparr>xd_rules := filter (\<lambda>r. \<not> member r) (xd_rules D), xd_history := h\<rparr>)"
    "at_constraints E constraints_0011 (D\<lparr>xd_rules := filter (\<lambda>r. \<not> member r) (xd_rules D), xd_history := h\<rparr>)"
  proof (cases "ids = []")
    case True
    then have "member r = False" for r by (simp add: member_def split: option.splits)
    then show ?thesis using that[of "xd_history D"] True assms by simp
  next
    case False
    then show ?thesis using that at_delete_rows[OF assms, of member] by auto
  qed
  let ?D1 = "D\<lparr>xd_rules := filter (\<lambda>r. \<not> member r) (xd_rules D), xd_history := h\<rparr>"
  let ?D2 = "?D1\<lparr>xd_groups := filter (\<lambda>g. \<not> seeded g) (xd_groups ?D1)\<rparr>"
  have ok: "at_constraints E constraints_0011 ?D2"
  proof (rule at_cong[OF h(2)])
    fix c assume "c \<in> constraints_0011" "holds (d_pg_lower E) ?D1 c"
    then show "holds (d_pg_lower E) ?D2 c"
      by (rule remove_groups_holds) (auto simp: member_def ids_def split: option.splits)
  qed simp
  have "downgrade_0011 E D = bind_sum (if ids = [] then Inr D else delete_rows E member D)
      (\<lambda>D. checked E (D\<lparr>xd_groups := filter (\<lambda>g. \<not> seeded g) (xd_groups D)\<rparr>))"
    by (simp only: downgrade_0011_def Let_def seeded_def ids_def member_def)
  then have "downgrade_0011 E D = Inr ?D2" using at_checked[OF ok] by (simp add: h(1))
  from this ok show ?thesis by (rule goesI) simp
qed

subsection \<open>The schema with identifier types\<close>

lemma downgrade_0010_goes:
  assumes "at_constraints E constraints_0011 D"
  shows "goes E downgrade_0010 D constraints_0009
    (\<lambda>D'. xd_groups D' = [] \<and> xd_clients D' = xd_clients D \<and> xd_secrets D' = xd_secrets D \<and> xd_drawn D' = xd_drawn D)"
proof -
  let ?f = "\<lambda>r. r\<lparr>xr_overrides := None, xr_group_id := None\<rparr>"
  let ?cs = "[RulesOverridesRequireGroup, RulesGroupFkey, GroupsPkey, GroupsAlgorithmFkey, GroupsTypesCardinality, GroupsGlobalAlone,
    GroupsNameCi False]"
  define D' where "D' = alter_rules ?f (drop_constraints ?cs (D\<lparr>xd_groups := []\<rparr>))"
  have D: "set (xd_constraints D) = constraints_0011" "\<And>c. c \<in> constraints_0011 \<Longrightarrow> holds (d_pg_lower E) D c"
    using assms unfolding at_constraints_def by blast+
  have "constraints_0011 - set ?cs = constraints_0009" unfolding constraints_0011_def constraints_0009_def by auto
  then have "set (xd_constraints D') = constraints_0009" by (simp add: D'_def alter_rules_def drop_constraints_def D(1) set_diff_eq)
  moreover have "holds (d_pg_lower E) D' c = holds (d_pg_lower E) D c" if "c \<in> constraints_0009" for c
    by (rule holds_rewrite_rules[OF that, where f = ?f]) (simp_all add: D'_def alter_rules_def drop_constraints_def)
  ultimately have "at_constraints E constraints_0009 D'" using D(2) unfolding at_constraints_def constraints_0011_def by blast
  then show ?thesis unfolding goes_def
    by (intro exI[of _ D']) (simp add: downgrade_0010_def D'_def alter_rules_def drop_constraints_def)
qed

lemma downgrade_0009_goes:
  assumes "at_constraints E constraints_0009 D"
  shows "goes E downgrade_0009 D constraints_0009 (\<lambda>D'. kept D' = kept D)"
  using at_delete_rows[OF assms, of "\<lambda>r. xr_created_by r = seeded_by \<and> (case xr_identifier_signature r of None \<Rightarrow> False
      | Some s \<Rightarrow> s \<in> set (map (\<lambda>(_, types, _). join ''+'' (sort types)) composite_sample_rules))"]
  unfolding goes_def downgrade_0009_def Let_def by (auto simp: kept_def simp del: set_map)

lemma downgrade_0008_goes:
  assumes "at_constraints E constraints_0009 D"
  shows "goes E downgrade_0008 D (insert (RulesNotNull IdentifierTypeColumn) constraints_0009)
    (\<lambda>D'. kept D' = kept D \<and> (\<forall>r \<in> set (xd_rules D'). xr_identifier_type r = xr_identifier_signature r))"
proof -
  let ?f = "\<lambda>r. fn_touch_updated_at E (r\<lparr>xr_identifier_type := xr_identifier_signature r\<rparr>)"
  let ?D1 = "trg_rules_history E ''update'' (map ?f (xd_rules D)) (alter_rules ?f D)"
  have D: "set (xd_constraints D) = constraints_0009" "\<And>c. c \<in> constraints_0009 \<Longrightarrow> holds (d_pg_lower E) D c"
    using assms unfolding at_constraints_def by blast+
  have "holds (d_pg_lower E) ?D1 c = holds (d_pg_lower E) D c" if "c \<in> constraints_0009" for c
    by (rule holds_rewrite_rules[OF that, where f = ?f]) (simp_all add: logged alter_rules_def fn_touch_updated_at_def)
  then have 1: "at_constraints E constraints_0009 ?D1" using D by (simp add: at_constraints_def logged alter_rules_def)
  have "holds (d_pg_lower E) D (RulesNotNull IdentifierSignatureColumn)" by (rule D(2)) (simp add: constraints_0009_def)
  then have "holds (d_pg_lower E) ?D1 (RulesNotNull IdentifierTypeColumn)"
    by (simp add: logged alter_rules_def fn_touch_updated_at_def list_all_iff)
  note 2 = at_add[OF 1 this]
  have "downgrade_0008 E D = add_constraint E (RulesNotNull IdentifierTypeColumn) ?D1"
    using at_checked[OF 1] by (simp add: downgrade_0008_def update_rows_def Let_def)
  with 2(1) have "downgrade_0008 E D = Inr (?D1\<lparr>xd_constraints := xd_constraints ?D1 @ [RulesNotNull IdentifierTypeColumn]\<rparr>)" by simp
  then show ?thesis using 2(2) by (rule goesI) (auto simp: kept_def logged alter_rules_def fn_touch_updated_at_def)
qed

lemma constraints_0006_of_0009: "constraints_0006 ByType = (insert (RulesNotNull IdentifierTypeColumn) constraints_0009
    - insert (RulesActiveScope BySignature) identifier_checks) \<union> {RulesActiveScope ByType}"
  unfolding constraints_0006_def constraints_0009_def by simp blast

lemma downgrade_0007_goes:
  assumes "at_constraints E (insert (RulesNotNull IdentifierTypeColumn) constraints_0009) D"
    "\<forall>r \<in> set (xd_rules D). xr_identifier_type r = xr_identifier_signature r"
  shows "goes E downgrade_0007 D (constraints_0006 ByType) (\<lambda>D'. kept D' = kept D)"
proof -
  let ?f = "\<lambda>r. r\<lparr>xr_identifier_signature := None, xr_identifier_types := None\<rparr>"
  let ?K = "insert (RulesNotNull IdentifierTypeColumn) constraints_0009"
  let ?cs = "[RulesGlobalAlone, RulesTypesCardinality, RulesNotNull IdentifierSignatureColumn, RulesNotNull IdentifierTypesColumn]"
  let ?D1 = "drop_constraints [RulesActiveScope BySignature] D"
  let ?D2 = "?D1\<lparr>xd_constraints := xd_constraints ?D1 @ [RulesActiveScope ByType]\<rparr>"
  define D' where "D' = alter_rules ?f (drop_constraints ?cs ?D2)"
  have D: "set (xd_constraints D) = ?K" "\<And>c. c \<in> ?K \<Longrightarrow> holds (d_pg_lower E) D c"
    using assms(1) unfolding at_constraints_def by blast+
  have "holds (d_pg_lower E) D (RulesActiveScope BySignature)" by (rule D(2)) (simp add: constraints_0009_def)
  then have t: "unique_index (scope_values ByType) (filter xr_active (xd_rules D))"
    using unique_index_map[of "xd_rules D" "scope_values ByType" id "scope_values BySignature" xr_active] assms(2) by simp
  have 1: "downgrade_0007 E D = Inr D'"
    using t by (simp add: downgrade_0007_def add_constraint_def D'_def drop_constraints_def)
  have "unique_index (scope_values ByType) (filter xr_active (map ?f (xd_rules D)))"
    using t unique_index_map[of "xd_rules D" "scope_values ByType" ?f "scope_values ByType" xr_active] by (simp add: xr_active_def)
  then have "holds (d_pg_lower E) D' (RulesActiveScope ByType)" by (simp add: D'_def alter_rules_def drop_constraints_def)
  moreover have "set (xd_constraints D') = constraints_0006 ByType"
    unfolding constraints_0006_of_0009 D(1)[symmetric] by (auto simp: D'_def alter_rules_def drop_constraints_def)
  moreover have "holds (d_pg_lower E) D' c" if c: "c \<in> row_keys \<union> {RulesNotNull IdentifierTypeColumn}" for c
  proof -
    have "c \<in> ?K" using c unfolding constraints_0009_def by blast
    from D(2)[OF this] show ?thesis using c by (auto simp: D'_def alter_rules_def drop_constraints_def list_all_iff o_def)
  qed
  ultimately have "at_constraints E (constraints_0006 ByType) D'"
    unfolding at_constraints_def constraints_0006_def by blast
  then show ?thesis using 1 by (intro goesI) (assumption | simp add: kept_def D'_def alter_rules_def drop_constraints_def)+
qed

subsection \<open>The schema with one identifier type\<close>

lemma downgrade_0006_goes:
  assumes "at_constraints E (constraints_0006 ByType) D"
  shows "goes E downgrade_0006 D (constraints_0006 ByValue) (\<lambda>D'. kept D' = kept D)"
proof -
  let ?f = "\<lambda>r. r\<lparr>xr_identifier_value := None\<rparr>"
  let ?D1 = "alter_rules ?f (drop_constraints [RulesActiveScope ByType] D)"
  have D: "set (xd_constraints D) = constraints_0006 ByType" "\<And>c. c \<in> constraints_0006 ByType \<Longrightarrow> holds (d_pg_lower E) D c"
    using assms unfolding at_constraints_def by blast+
  have K: "constraints_0006 ByType - {RulesActiveScope ByType} = row_keys \<union> {RulesNotNull IdentifierTypeColumn}"
    unfolding constraints_0006_def by auto
  have "holds (d_pg_lower E) ?D1 c" if c: "c \<in> row_keys \<union> {RulesNotNull IdentifierTypeColumn}" for c
    using D(2)[of c] c by (auto simp: constraints_0006_def alter_rules_def drop_constraints_def list_all_iff o_def)
  then have 1: "at_constraints E (row_keys \<union> {RulesNotNull IdentifierTypeColumn}) ?D1"
    unfolding at_constraints_def K[symmetric] D(1)[symmetric] by (simp add: alter_rules_def drop_constraints_def set_diff_eq)
  have type: "list_all (\<lambda>r. xr_identifier_type r \<noteq> None) (xd_rules D)" "unique_index (scope_values ByType) (filter xr_active (xd_rules D))"
    using D(2)[of "RulesNotNull IdentifierTypeColumn"] D(2)[of "RulesActiveScope ByType"] by (simp_all add: constraints_0006_def list_all_iff)
  let ?R = "filter xr_active (xd_rules D)"
  have "distinct (map (scope_values ByType) ?R)"
    using type by (subst unique_index_total[symmetric]) (auto simp: list_all_iff)
  then have "distinct (map (\<lambda>r. scope_values ByValue (?f r)) ?R)"
    by (rule distinct_via[where f = "\<lambda>k. [k ! 0, k ! 1]"]) simp
  then have "unique_index (\<lambda>r. scope_values ByValue (?f r)) (filter xr_active (xd_rules D))"
    using type(1) by (subst unique_index_total) (auto simp: list_all_iff)
  moreover have "unique_index (scope_values ByValue) (filter xr_active (map ?f (xd_rules D))) =
      unique_index (\<lambda>r. scope_values ByValue (?f r)) (filter xr_active (xd_rules D))"
    by (rule unique_index_map) (simp_all add: xr_active_def)
  ultimately have "holds (d_pg_lower E) ?D1 (RulesActiveScope ByValue)" by (simp add: alter_rules_def drop_constraints_def)
  note 2 = at_add[OF 1 this]
  have "insert (RulesActiveScope ByValue) (row_keys \<union> {RulesNotNull IdentifierTypeColumn}) = constraints_0006 ByValue"
    unfolding constraints_0006_def by auto
  note ok = 2(2)[unfolded this]
  from 2(1) have "downgrade_0006 E D = Inr (?D1\<lparr>xd_constraints := xd_constraints ?D1 @ [RulesActiveScope ByValue]\<rparr>)"
    unfolding downgrade_0006_def .
  from this ok show ?thesis by (rule goesI) (simp add: kept_def alter_rules_def drop_constraints_def)
qed

lemma downgrade_0005_goes:
  assumes "at_constraints E (constraints_0006 ByValue) D"
  shows "goes E downgrade_0005 D (constraints_0006 ByValue) (\<lambda>D'. kept D' = kept D)"
  using at_delete_rows[OF assms, of "\<lambda>r. xr_created_by r = seeded_by"] unfolding goes_def downgrade_0005_def by (auto simp: kept_def)

lemma downgrade_0004_goes:
  assumes "at_constraints E K D"
  shows "goes E downgrade_0004 D K (\<lambda>D'. kept D' = kept D \<and> xd_history D' = [] \<and> \<not> xd_history_trigger D')"
proof -
  have "holds (d_pg_lower E) (D\<lparr>xd_history := [], xd_history_trigger := False\<rparr>) c = holds (d_pg_lower E) D c" for c
    by (rule holds_cong) simp_all
  then show ?thesis using assms unfolding goes_def by (simp add: downgrade_0004_def kept_def at_constraints_def)
qed

text \<open>Without rules and groups the rest is emptied at once.\<close>

lemma last_downgrades:
  assumes "at_constraints E (constraints_0006 ByValue) D" "kept D = ([], [], [], n)" "xd_history D = []" "\<not> xd_history_trigger D"
  shows "\<exists>D'. run_steps E [downgrade_0003, downgrade_0002, downgrade_0001] D = Inr D' \<and> D'\<lparr>xd_revision := 0\<rparr> = empty_database\<lparr>xd_drawn := n\<rparr>"
proof -
  let ?D1 = "drop_constraints [RulesPkey, RulesNotNull IdentifierTypeColumn, RulesAlgorithmFkey, RulesActiveScope ByValue] (D\<lparr>xd_rules := []\<rparr>)"
  let ?D2 = "?D1\<lparr>xd_algorithms := filter (\<lambda>a. a_name a \<notin> set (map fst seed_algorithms)) (xd_algorithms ?D1)\<rparr>"
  have D: "set (xd_constraints D) = constraints_0006 ByValue" "\<And>c. c \<in> constraints_0006 ByValue \<Longrightarrow> holds (d_pg_lower E) D c"
    using assms(1) unfolding at_constraints_def by blast+
  have cs: "set (xd_constraints ?D1) = {AlgorithmsPkey, AlgorithmsNameKey}"
    using D(1) by (auto simp: drop_constraints_def constraints_0006_def)
  have a: "distinct (map a_id (xd_algorithms D))" "distinct (map a_name (xd_algorithms D))"
    using D(2)[of AlgorithmsPkey] D(2)[of AlgorithmsNameKey] by (simp_all add: constraints_0006_def)
  have "holds (d_pg_lower E) ?D2 c" if "c \<in> {AlgorithmsPkey, AlgorithmsNameKey}" for c
    using that a by (auto simp: drop_constraints_def distinct_map_filter)
  then have "checked E ?D2 = Inr ?D2" using cs by (intro checked_Inr) (simp add: list_all_iff)
  then have "run_steps E [downgrade_0003, downgrade_0002, downgrade_0001] D =
      Inr (drop_constraints [AlgorithmsPkey, AlgorithmsNameKey] (?D2\<lparr>xd_algorithms := []\<rparr>))"
    by (simp add: downgrade_0003_def downgrade_0002_def downgrade_0001_def)
  moreover have "filter (\<lambda>c. c \<notin> {AlgorithmsPkey, AlgorithmsNameKey}) (xd_constraints ?D1) = []"
    using cs by (simp add: filter_empty_conv)
  then have "(drop_constraints [AlgorithmsPkey, AlgorithmsNameKey] (?D2\<lparr>xd_algorithms := []\<rparr>))\<lparr>xd_revision := 0\<rparr> =
      empty_database\<lparr>xd_drawn := n\<rparr>"
    using assms(2-4) by (simp add: drop_constraints_def empty_database_def kept_def)
  ultimately show ?thesis by blast
qed

subsection \<open>The whole chain\<close>

lemma run_steps_goes:
  assumes "goes E f D K P" "\<And>D'. at_constraints E K D' \<Longrightarrow> P D' \<Longrightarrow> \<exists>D''. run_steps E fs D' = Inr D'' \<and> Q D''"
  shows "\<exists>D''. run_steps E (f # fs) D = Inr D'' \<and> Q D''"
  using assms by (auto simp: goes_def bind_sum_def)

lemma chain_downgrades:
  assumes "at_constraints E constraints_0013 D" "holds (d_pg_lower E) D (GroupsNameCi False)"
    "holds (d_pg_lower E) D (RulesActiveScope BySignature)"
  shows "\<exists>D'. run_steps E (rev downgrades) D = Inr D' \<and> D'\<lparr>xd_revision := 0\<rparr> = empty_database\<lparr>xd_drawn := xd_drawn D\<rparr>"
  unfolding downgrades_def rev.simps append.simps
  apply (rule run_steps_goes[OF downgrade_0013_goes[OF assms]])
  apply (rule run_steps_goes, erule downgrade_0012_goes)
  apply (rule run_steps_goes, erule downgrade_0011_goes)
  apply (rule run_steps_goes, erule downgrade_0010_goes)
  apply (rule run_steps_goes, erule downgrade_0009_goes)
  apply (rule run_steps_goes, erule downgrade_0008_goes)
  apply (rule run_steps_goes, erule downgrade_0007_goes, blast)
  apply (rule run_steps_goes, erule downgrade_0006_goes)
  apply (rule run_steps_goes, erule downgrade_0005_goes)
  apply (rule run_steps_goes, erule downgrade_0004_goes)
  apply (rule last_downgrades, assumption)
  apply (simp_all add: kept_def)
  done

definition same_scope_elsewhere :: "xrule \<Rightarrow> xrule \<Rightarrow> bool" where
  "same_scope_elsewhere r r' \<longleftrightarrow> xr_active r \<and> xr_active r' \<and> xr_endpoint r = xr_endpoint r'
     \<and> xr_identifier_signature r = xr_identifier_signature r'"

text \<open>A database at the head: the schema of revision 0013, and rows that satisfy it.\<close>

definition at_head :: "db_env \<Rightarrow> xdb \<Rightarrow> bool" where
  "at_head E D \<longleftrightarrow> xd_revision D = 13 \<and> at_constraints E constraints_0013 D"

lemma head_pairwise:
  assumes "at_head E D"
  shows "holds (d_pg_lower E) D (RulesActiveScope BySignature) \<longleftrightarrow>
      (\<forall>r \<in> set (xd_rules D). \<forall>r' \<in> set (xd_rules D). same_scope_elsewhere r r' \<longrightarrow> r = r')"
    "holds (d_pg_lower E) D (GroupsNameCi False) \<longleftrightarrow>
      (\<forall>g \<in> set (xd_groups D). \<forall>g' \<in> set (xd_groups D). d_pg_lower E (xg_name g) = d_pg_lower E (xg_name g') \<longrightarrow> g = g')"
proof -
  have D: "holds (d_pg_lower E) D c" if "c \<in> {RulesPkey, GroupsPkey, RulesNotNull IdentifierSignatureColumn}" for c
    using assms that by (auto simp: at_head_def at_constraints_def constraints_0013_def simp del: holds.simps)
  let ?R = "filter xr_active (xd_rules D)"
  have ids: "distinct (map xr_id ?R)" "distinct (map xg_id (xd_groups D))"
    using D[of RulesPkey] D[of GroupsPkey] by (simp_all add: distinct_map_filter)
  have "list_all (\<lambda>r. None \<notin> set (scope_values BySignature r)) ?R"
    using D[of "RulesNotNull IdentifierSignatureColumn"] by (auto simp: list_all_iff)
  then show "holds (d_pg_lower E) D (RulesActiveScope BySignature) \<longleftrightarrow>
      (\<forall>r \<in> set (xd_rules D). \<forall>r' \<in> set (xd_rules D). same_scope_elsewhere r r' \<longrightarrow> r = r')"
    using distinct_map_iff_rows[OF ids(1), of "scope_values BySignature"]
    by (auto simp: unique_index_total same_scope_elsewhere_def)
  have "list_all (\<lambda>g. None \<notin> set (name_ci_values (d_pg_lower E) False g)) (xd_groups D)"
    by (simp add: list_all_iff name_ci_values_def)
  then show "holds (d_pg_lower E) D (GroupsNameCi False) \<longleftrightarrow>
      (\<forall>g \<in> set (xd_groups D). \<forall>g' \<in> set (xd_groups D). d_pg_lower E (xg_name g) = d_pg_lower E (xg_name g') \<longrightarrow> g = g')"
    using distinct_map_iff_rows[OF ids(2), of "name_ci_values (d_pg_lower E) False"]
    by (simp add: unique_index_total name_ci_values_def)
qed

text \<open>The database that the migrations make is one of those that go back.\<close>

lemma head_constraints_0013: "set head_constraints = constraints_0013"
  unfolding head_constraints_def contracted_def constraints_0013_def by auto

lemma fresh_at_head:
  assumes "inj (d_ids E)" "lowers_ascii (d_pg_lower E)"
  obtains D where "upgrade_head E empty_database = (Inr (), D)" "at_head E D" "xd_drawn D = 41"
    "holds (d_pg_lower E) D (GroupsNameCi False)" "holds (d_pg_lower E) D (RulesActiveScope BySignature)"
proof -
  let ?G = "owned_groups E (Some (d_ids E 40))" and ?C = "[default_client E (d_ids E 40)]"
  obtain h where h: "upgrade_head E empty_database =
      (Inr (), (stage (alg_rows E) (head_rows E) ?G ?C h True head_constraints 41)\<lparr>xd_revision := 13\<rparr>)"
    using all_upgrades[OF assms] by blast
  let ?D = "(stage (alg_rows E) (head_rows E) ?G ?C h True head_constraints 41)\<lparr>xd_revision := 13\<rparr>"
  have s: "holds (d_pg_lower E) ?D c" if "valid (d_pg_lower E) (alg_rows E) (head_rows E) ?G ?C cs" "c \<in> set cs" for c cs
  proof -
    have "holds (d_pg_lower E) ?D c = holds (d_pg_lower E) (stage (alg_rows E) (head_rows E) ?G ?C h True head_constraints 41) c"
      by (rule holds_cong) simp_all
    then show ?thesis using that by (simp add: valid_def list_all_iff holds_stage[of _ _ _ _ _ h True head_constraints 41] del: holds.simps)
  qed
  have "at_head E ?D" using s[OF last_step(1)[OF assms]] by (simp add: at_head_def at_constraints_def head_constraints_0013 del: holds.simps)
  moreover have "holds (d_pg_lower E) ?D (GroupsNameCi False)"
    by (rule s[OF groups_valid[OF assms head_rows_valid(2)[OF assms(1)]]]) simp
  moreover have "holds (d_pg_lower E) ?D (RulesActiveScope BySignature)"
    by (rule s[OF head_rows_valid(1)[OF assms(1)]]) (simp add: contracted_def)
  ultimately show ?thesis using that[OF h] by (simp del: holds.simps)
qed

text \<open>Two clients with a rule each for one endpoint and type.\<close>

definition client_rule :: "string \<Rightarrow> string \<Rightarrow> xrule" where
  "client_rule i pk = (demo_xrule i ''user_id'' None)\<lparr>xr_identifier_type := None, xr_identifier_types := Some [''user_id''],
     xr_identifier_signature := Some ''user_id'', xr_client_id := Some pk\<rparr>"

definition two_clients :: xdb where
  "two_clients = empty_database\<lparr>xd_revision := 13, xd_algorithms := [demo_algorithm], xd_history_trigger := True,
     xd_clients := [demo_client, demo_client\<lparr>c_id := ''c2'', c_client_id := ''globex''\<rparr>],
     xd_rules := [client_rule ''1'' ''c1'', client_rule ''2'' ''c2''], xd_constraints := head_constraints\<rparr>"

lemma two_clients_head: "at_head demo_db_env two_clients"
proof -
  have "holds (d_pg_lower demo_db_env) two_clients c" if "c \<in> constraints_0013" for c
    using that unfolding constraints_0013_def
    by (auto simp: two_clients_def client_rule_def demo_xrule_def demo_rows empty_database_def unique_index_def xr_active_def ck_clients_def
        ck_clients_client_id_format_def client_id_char_def demo_algorithm_def seed_algorithm_def seed_algorithms_def)
  then show ?thesis by (simp add: at_head_def at_constraints_def two_clients_def head_constraints_0013 del: holds.simps)
qed

text \<open>
  C28.  \<^verbatim>\<open>alembic downgrade base\<close>, from any database at the head: it goes through exactly when no two
  active rules, of whatever clients, agree on endpoint and identifiers and no two groups have one name up
  to case, and then leaves the empty database.  Otherwise, once two clients have used the scoping that
  revision 0013 introduced, nothing is changed: the first step, and with it the transaction, fails.
\<close>

theorem downgrade_to_base:
  assumes "at_head E D"
  shows "if (\<forall>r \<in> set (xd_rules D). \<forall>r' \<in> set (xd_rules D). same_scope_elsewhere r r' \<longrightarrow> r = r')
      \<and> (\<forall>g \<in> set (xd_groups D). \<forall>g' \<in> set (xd_groups D). d_pg_lower E (xg_name g) = d_pg_lower E (xg_name g') \<longrightarrow> g = g')
    then downgrade_to E 0 D = (Inr (), empty_database\<lparr>xd_drawn := xd_drawn D\<rparr>)
    else \<exists>c \<in> {GroupsNameCi False, RulesActiveScope BySignature}. downgrade_to E 0 D = (Inl (Violated c), D)"
proof -
  have chain: "downgrade_to E 0 D = in_transaction 0 D (run_steps E (rev downgrades) D)"
    using assms by (simp add: at_head_def downgrade_to_def downgrades_def)
  have at: "at_constraints E constraints_0013 D" using assms by (simp add: at_head_def)
  note p = head_pairwise[OF assms]
  have "downgrade_to E 0 D = (Inr (), empty_database\<lparr>xd_drawn := xd_drawn D\<rparr>)"
    if "holds (d_pg_lower E) D (GroupsNameCi False)" "holds (d_pg_lower E) D (RulesActiveScope BySignature)"
    using chain_downgrades[OF at that] by (auto simp: chain in_transaction_def)
  moreover have "run_steps E (rev downgrades) D = bind_sum (downgrade_0013 E D) (run_steps E (tl (rev downgrades)))"
    by (simp add: downgrades_def)
  then have "\<exists>c \<in> {GroupsNameCi False, RulesActiveScope BySignature}. downgrade_to E 0 D = (Inl (Violated c), D)"
    if "\<not> (holds (d_pg_lower E) D (GroupsNameCi False) \<and> holds (d_pg_lower E) D (RulesActiveScope BySignature))"
    using that by (auto simp: chain downgrade_0013_form in_transaction_def bind_sum_def simp del: holds.simps)
  ultimately show ?thesis unfolding p[symmetric] by (auto simp del: holds.simps)
qed

theorem downgrade_to_base_witness:
  "(\<exists>e. downgrade_to demo_db_env 0 two_clients = (Inl e, two_clients))
   \<and> (let E = demo_db_env\<lparr>d_ids := (\<lambda>i. replicate i (CHR ''x''))\<rparr> in
     downgrade_to E 0 (snd (upgrade_head E empty_database)) = (Inr (), empty_database\<lparr>xd_drawn := 41\<rparr>))"
proof -
  have R: "xd_rules two_clients = [client_rule ''1'' ''c1'', client_rule ''2'' ''c2'']" and G: "xd_groups two_clients = []"
    by (simp_all add: two_clients_def empty_database_def)
  have n: "same_scope_elsewhere (client_rule ''1'' ''c1'') (client_rule ''2'' ''c2'')" "client_rule ''1'' ''c1'' \<noteq> client_rule ''2'' ''c2''"
    by (simp_all add: same_scope_elsewhere_def client_rule_def demo_xrule_def xr_active_def)
  have 1: "\<exists>e. downgrade_to demo_db_env 0 two_clients = (Inl e, two_clients)"
    using downgrade_to_base[OF two_clients_head] n by (auto simp: R split: if_splits)
  let ?E = "demo_db_env\<lparr>d_ids := (\<lambda>i. replicate i (CHR ''x''))\<rparr>"
  have "inj (d_ids ?E)" by (simp add: inj_def)
  moreover have "lowers_ascii (d_pg_lower ?E)" by (simp add: lowers_ascii_def)
  ultimately obtain D where D: "upgrade_head ?E empty_database = (Inr (), D)" "at_head ?E D" "xd_drawn D = 41"
    "holds (d_pg_lower ?E) D (GroupsNameCi False)" "holds (d_pg_lower ?E) D (RulesActiveScope BySignature)"
    by (rule fresh_at_head)
  have "downgrade_to ?E 0 D = (Inr (), empty_database\<lparr>xd_drawn := 41\<rparr>)"
    using downgrade_to_base[OF D(2)] D(4,5) unfolding head_pairwise[OF D(2)] D(3) by presburger
  with 1 D(1) show ?thesis by (simp add: Let_def)
qed

end
