(* ===== verification/Concurrency.thy ===== *)
theory Concurrency
  imports Admin_Api
begin

text \<open>
  Overlapping requests.  A handler first reads, then validates, then commits; the session holds no lock
  on what it read (\<^verbatim>\<open>core/db.py\<close> leaves the engine at READ COMMITTED), except for the row of a group
  that the group operations select \<^verbatim>\<open>FOR UPDATE\<close>.  Here the handlers of rules, groups, members and secrets are the
  two steps they are in the code, with any other request in between; what creates a group or a client, which
  flushes or commits in the middle, and the update of one client stay one step.
\<close>

subsection \<open>The two steps of a handler\<close>

definition create_rule_plan :: "db_env \<Rightarrow> rule_create \<Rightarrow> db \<Rightarrow> app_exception + rule" where
  "create_rule_plan E data D =
     bind_sum (resolve_client_or_raise D (nr_client_id data)) (\<lambda>client.
     bind_sum (validate_params_or_raise E D (nr_algorithm_id data) (nr_params data)) (\<lambda>_.
     bind_sum (normalized_types (nr_identifier_types data)) (\<lambda>(types, sig).
     Inr \<lparr>r_id = d_ids E 0, r_client_id = c_id client, r_endpoint = nr_endpoint data,
           r_identifier_types = types, r_identifier_signature = sig, r_algorithm_id = nr_algorithm_id data,
           r_params = nr_params data, r_status = rule_status_value ACTIVE, r_priority = nr_priority data, r_version = 1,
           r_created_by = nr_created_by data, r_updated_by = None, r_created_at = d_now E, r_updated_at = d_now E,
           r_group_id = None, r_overrides = None\<rparr>)))"

definition add_secret_plan :: "db_env \<Rightarrow> string \<Rightarrow> db \<Rightarrow> app_exception + client_secret" where
  "add_secret_plan E cid D = bind_sum (get_client_or_raise D cid) (\<lambda>c.
     if max_active_secrets_per_client \<le> count_active_secrets D (d_now E) (c_id c) then Inl (TooManyActiveSecretsError cid)
     else Inr (new_secret E 0 (c_id c)))"

text \<open>\<open>None\<close> is the early return for a secret that is revoked already.\<close>

definition revoke_secret_plan :: "db_env \<Rightarrow> string \<Rightarrow> string \<Rightarrow> db \<Rightarrow> app_exception + client_secret option" where
  "revoke_secret_plan E cid sid D = bind_sum (get_client_or_raise D cid) (\<lambda>c.
     case get_secret_by_id D sid of
       None \<Rightarrow> Inl (ClientSecretNotFoundError sid)
     | Some s \<Rightarrow>
         if s_client_pk s \<noteq> c_id c then Inl (ClientSecretNotFoundError sid)
         else if s_revoked_at s \<noteq> None then Inr None
         else if (case s_expires_at s of None \<Rightarrow> True | Some t \<Rightarrow> d_now E < t) \<and> c_status c = ''active''
              \<and> count_active_secrets D (d_now E) (c_id c) \<le> 1
         then Inl (LastActiveSecretError cid)
         else Inr (Some s))"

text \<open>\<open>None\<close> is the answer with conflicts, which writes nothing.\<close>

definition add_members_plan :: "db_env \<Rightarrow> string \<Rightarrow> group_member_input list \<Rightarrow> db \<Rightarrow>
    app_exception + (rule_group \<times> (string \<times> params \<times> params) list) option" where
  "add_members_plan E gid members D = bind_sum (get_group_or_raise D gid) (\<lambda>g.
     case duplicate_endpoint {} members of Some ep \<Rightarrow> Inl (DuplicateMemberEndpointError ep) | None \<Rightarrow>
     bind_sum (prepare_members (validated_overrides E D g (g_params g))
         (\<lambda>ep. find_active_conflict D (g_client_id g) ep (g_identifier_signature g) None) members) (\<lambda>(conflicts, prepared).
     if conflicts \<noteq> [] then Inr None else Inr (Some (g, prepared))))"

definition update_group_plan :: "db_env \<Rightarrow> string \<Rightarrow> group_update \<Rightarrow> db \<Rightarrow> app_exception + rule_group \<times> (rule \<times> params) list" where
  "update_group_plan E gid data D = bind_sum (get_group_or_raise D gid) (\<lambda>g.
     if (case ug_name data of None \<Rightarrow> False | Some n \<Rightarrow> n \<noteq> g_name g
          \<and> get_group_by_name_ci (d_pg_lower E) (d_py_lower E) D (g_client_id g) n (Some gid) \<noteq> None)
     then Inl (GroupNameConflictError (case ug_name data of None \<Rightarrow> [] | Some n \<Rightarrow> n))
     else let g' = updated_group g data in
     bind_sum (commit_else (d_pg_lower E) IntegrityErrorExc () (store_group (d_now E) g (renamed_group g data) D)) (\<lambda>(_, D1).
     let members = list_by_group D1 gid in
     map_sum id (\<lambda>recomputed. (g, zip members recomputed))
       (recompute_members (validated_overrides E D1 g' (g_params g')) members)))"

definition delete_group_plan :: "string \<Rightarrow> db \<Rightarrow> app_exception + rule list" where
  "delete_group_plan gid D = bind_sum (get_group_or_raise D gid) (\<lambda>_. Inr (list_by_group D gid))"

definition detach_rule_plan :: "db_env \<Rightarrow> string \<Rightarrow> detach_request \<Rightarrow> db \<Rightarrow> app_exception + rule \<times> rule" where
  "detach_rule_plan E rid data D = bind_sum (get_rule_or_raise D rid) (\<lambda>r.
     if r_group_id r = None then Inl (RuleNotInGroupError rid)
     else case get_algorithm_by_name D (dr_algorithm data) of
       None \<Rightarrow> Inl (AlgorithmNameNotFoundError (dr_algorithm data))
     | Some a \<Rightarrow>
         bind_sum (map_sum params_exception id (check_params (d_coercions E) (a_name a) (dr_params data))) (\<lambda>_.
         Inr (r, r\<lparr>r_group_id := None, r_overrides := None, r_algorithm_id := a_id a, r_params := dr_params data,
              r_version := r_version r + 1\<rparr>)))"

definition move_to_group_plan :: "db_env \<Rightarrow> string \<Rightarrow> move_to_group_request \<Rightarrow> db \<Rightarrow> app_exception + rule_group \<times> rule \<times> rule" where
  "move_to_group_plan E rid data D =
     bind_sum (get_rule_or_raise D rid) (\<lambda>r.
     bind_sum (get_group_or_raise D (mg_group_id data)) (\<lambda>g.
     if r_client_id r \<noteq> g_client_id g then Inl (CrossClientOperationError rid (mg_group_id data))
     else let ov = or_empty (mg_overrides data) in
     bind_sum (validated_overrides E D g (g_params g) ov) (\<lambda>merged.
     if g_identifier_signature g \<noteq> r_identifier_signature r
        \<and> find_active_conflict D (r_client_id r) (r_endpoint r) (g_identifier_signature g) (Some (r_id r)) \<noteq> None
     then Inl (ScopeConflictError (r_endpoint r) (g_identifier_signature g))
     else Inr (g, r, moved_rule g ov merged (mg_updated_by data) r))))"

text \<open>What a session holds when it has read and not yet committed.\<close>

datatype open_request =
    OpenCreateRule (request_env: db_env) rule
  | OpenUpdateRule (request_env: db_env) rule rule
  | OpenDeleteRule (request_env: db_env) rule
  | OpenAddSecret (request_env: db_env) client_secret
  | OpenRevokeSecret (request_env: db_env) client_secret
  | OpenAddMembers (request_env: db_env) rule_group "(string \<times> params \<times> params) list"
  | OpenUpdateGroup (request_env: db_env) rule_group group_update "(rule \<times> params) list"
  | OpenDeleteGroup (request_env: db_env) string members_mode "rule list"
  | OpenDetachRule (request_env: db_env) rule rule
  | OpenMoveRule (request_env: db_env) rule_group rule rule
  | OpenWhole (request_env: db_env) admin_op

text \<open>The row of a group that the request has selected \<^verbatim>\<open>FOR UPDATE\<close>, until it ends.\<close>

fun locked_group :: "open_request \<Rightarrow> string option" where
  "locked_group (OpenAddMembers E g ps) = Some (g_id g)"
| "locked_group (OpenDeleteGroup E gid mode ms) = Some gid"
| "locked_group (OpenMoveRule E g old new) = Some (g_id g)"
| "locked_group (OpenUpdateGroup E g data ms) = Some (g_id g)"
| "locked_group _ = None"

text \<open>Reading answers the request, with an exception or with nothing to do, or leaves it open.\<close>

definition opened :: "('a \<Rightarrow> open_request) \<Rightarrow> app_exception + 'a \<Rightarrow> app_exception option + open_request" where
  "opened f x = map_sum Some f x"

fun read_request :: "db_env \<Rightarrow> admin_op \<Rightarrow> db \<Rightarrow> app_exception option + open_request" where
  "read_request E (CreateRule data) D = opened (OpenCreateRule E) (create_rule_plan E data D)"
| "read_request E (UpdateRule rid data) D = opened (\<lambda>(old, new). OpenUpdateRule E old new) (update_rule_plan E D rid data)"
| "read_request E (DeleteRule rid) D = opened (OpenDeleteRule E) (get_rule_or_raise D rid)"
| "read_request E (AddSecret cid) D = opened (OpenAddSecret E) (add_secret_plan E cid D)"
| "read_request E (RevokeSecret cid sid) D = (case revoke_secret_plan E cid sid D of
     Inl e \<Rightarrow> Inl (Some e) | Inr None \<Rightarrow> Inl None | Inr (Some s) \<Rightarrow> Inr (OpenRevokeSecret E s))"
| "read_request E (AddMembers gid members) D = (case add_members_plan E gid members D of
     Inl e \<Rightarrow> Inl (Some e) | Inr None \<Rightarrow> Inl None | Inr (Some (g, ps)) \<Rightarrow> Inr (OpenAddMembers E g ps))"
| "read_request E (UpdateGroup gid data) D = opened (\<lambda>(g, ms). OpenUpdateGroup E g data ms) (update_group_plan E gid data D)"
| "read_request E (DeleteGroup gid mode) D = opened (OpenDeleteGroup E gid mode) (delete_group_plan gid D)"
| "read_request E (DetachRule rid data) D = opened (\<lambda>(old, new). OpenDetachRule E old new) (detach_rule_plan E rid data D)"
| "read_request E (MoveToGroup rid data) D =
     opened (\<lambda>(g, old, new). OpenMoveRule E g old new) (move_to_group_plan E rid data D)"
| "read_request E oper D = Inr (OpenWhole E oper)"

fun finish_request :: "open_request \<Rightarrow> db \<Rightarrow> app_exception option \<times> db" where
  "finish_request (OpenCreateRule E r) D = outcome (transaction D
     (commit_else (d_pg_lower E) (ScopeConflictError (r_endpoint r) (r_identifier_signature r)) r (insert_rule (d_now E) r D)))"
| "finish_request (OpenUpdateRule E old new) D = outcome (transaction D (commit_rule E old new D))"
| "finish_request (OpenDeleteRule E r) D = outcome (transaction D
     (commit_else (d_pg_lower E) IntegrityErrorExc () (delete_rule_row (d_now E) (r_id r) D)))"
| "finish_request (OpenAddSecret E s) D = outcome (transaction D
     (commit_else (d_pg_lower E) IntegrityErrorExc (s, d_secret E) (insert_secret s D)))"
| "finish_request (OpenRevokeSecret E s) D = outcome (transaction D
     (commit_else (d_pg_lower E) IntegrityErrorExc () (store_secret (s\<lparr>s_revoked_at := Some (d_now E)\<rparr>) D)))"
| "finish_request (OpenAddMembers E g ps) D = outcome (transaction D
     (commit_else (d_pg_lower E) MembersWriteRaceError () (insert_members E g 0 ps D)))"
| "finish_request (OpenUpdateGroup E g data ms) D = outcome (transaction D
     (let g1 = renamed_group g data; g' = updated_group g data in
      bind_sum (map_sum db_exception id (store_rules (d_now E) (map (\<lambda>(m, ps). (m, updated_member g' data m ps)) ms)
          (store_group (d_now E) g1 g' (store_group (d_now E) g g1 D)))) (\<lambda>D'.
      commit_else (d_pg_lower E) IntegrityErrorExc g' D')))"
| "finish_request (OpenDeleteGroup E gid mode ms) D = outcome (transaction D
     (bind_sum (case mode of
         DeleteMembers \<Rightarrow> Inr (fold (\<lambda>m. delete_rule_row (d_now E) (r_id m)) ms D)
       | DetachMembers \<Rightarrow> map_sum db_exception id (store_rules (d_now E) (map (\<lambda>m. (m, detached_row m)) ms) D)) (\<lambda>D'.
     commit_else (d_pg_lower E) IntegrityErrorExc () (delete_group_row gid D'))))"
| "finish_request (OpenDetachRule E old new) D = outcome (transaction D (case store_rule (d_now E) old new D of
     Inl e \<Rightarrow> Inl (db_exception e) | Inr D' \<Rightarrow> commit_else (d_pg_lower E) IntegrityErrorExc new D'))"
| "finish_request (OpenMoveRule E g old new) D = outcome (transaction D (commit_rule E old new D))"
| "finish_request (OpenWhole E oper) D = admin_step E oper D"

lemma outcome_Inl [simp]: "outcome (transaction D (Inl e)) = (Some e, D)"
  by (simp add: outcome_def transaction_def)

lemma outcome_Inr [simp]: "outcome (transaction D (Inr (a, D'))) = (None, D')"
  by (simp add: outcome_def transaction_def)

lemma update_group_steps:
  "update_group E gid data D = transaction D (bind_sum (update_group_plan E gid data D) (\<lambda>(g, ms).
     let g1 = renamed_group g data; g' = updated_group g data in
     bind_sum (map_sum db_exception id (store_rules (d_now E) (map (\<lambda>(m, ps). (m, updated_member g' data m ps)) ms)
         (store_group (d_now E) g1 g' (store_group (d_now E) g g1 D)))) (\<lambda>D'.
     commit_else (d_pg_lower E) IntegrityErrorExc g' D')))"
proof (cases "get_group_or_raise D gid")
  case (Inr g)
  let ?D1 = "store_group (d_now E) g (renamed_group g data) D"
  show ?thesis
  proof (cases "commit (d_pg_lower E) ?D1")
    case c: (Inr D1)
    then have "D1 = ?D1" by (simp add: commit_Inr)
    with c show ?thesis
      by (cases "recompute_members (validated_overrides E ?D1 (updated_group g data) (g_params (updated_group g data))) (list_by_group ?D1 gid)")
        (simp_all only: update_group_def update_group_plan_def Inr Let_def commit_else_def bind_sum_def map_sum.simps prod.case sum.case if_distrib
            id_apply split: if_split, simp_all)
  qed (simp only: update_group_def update_group_plan_def Inr Let_def commit_else_def bind_sum_def sum.case split: if_split, simp)
qed (simp add: update_group_def update_group_plan_def)

text \<open>The two steps with nothing in between are the handler.\<close>

lemma request_steps:
  "admin_step E oper D = (case read_request E oper D of Inl out \<Rightarrow> (out, D) | Inr q \<Rightarrow> finish_request q D)"
proof (cases oper)
  case (CreateRule data)
  then show ?thesis
    by (auto simp: create_rule_def create_rule_plan_def opened_def Let_def bind_sum_def split: sum.splits prod.splits)
next
  case (UpdateRule rid data)
  then show ?thesis by (auto simp: update_rule_def opened_def bind_sum_def split: sum.splits prod.splits)
next
  case (DeleteRule rid)
  then show ?thesis by (auto simp: delete_rule_def opened_def bind_sum_def split: sum.splits)
next
  case (AddSecret cid)
  then show ?thesis by (auto simp: add_secret_def add_secret_plan_def opened_def bind_sum_def Let_def split: sum.splits)
next
  case (RevokeSecret cid sid)
  then show ?thesis
    by (auto simp: revoke_secret_def revoke_secret_plan_def bind_sum_def split: sum.splits option.splits)
next
  case (AddMembers gid members)
  then show ?thesis
    by (auto simp: add_members_def add_members_plan_def bind_sum_def commit_else_def transaction_def outcome_def
        split: sum.splits option.splits prod.splits)
next
  case (UpdateGroup gid data)
  then show ?thesis by (simp add: update_group_steps opened_def bind_sum_def split: sum.splits prod.splits)
next
  case (DeleteGroup gid mode)
  then show ?thesis
    by (cases "get_group_or_raise D gid") (simp_all add: delete_group_def delete_group_plan_def opened_def Let_def)
next
  case (DetachRule rid data)
  then show ?thesis
    by (auto simp: detach_rule_def detach_rule_plan_def opened_def bind_sum_def Let_def split: sum.splits option.splits)
next
  case (MoveToGroup rid data)
  then show ?thesis
    by (auto simp: move_to_group_def move_to_group_plan_def opened_def bind_sum_def Let_def split: sum.splits)
qed simp_all

subsection \<open>Interleavings\<close>

text \<open>
  A read that locks a group waits for the request that holds it.  \<open>P\<close> restricts the requests that are
  made, given the store and what is open.
\<close>

inductive interleaved :: "(db \<Rightarrow> open_request list \<Rightarrow> admin_op \<Rightarrow> open_request \<Rightarrow> bool) \<Rightarrow> db_env \<Rightarrow> db \<Rightarrow> db \<Rightarrow> open_request list \<Rightarrow> bool" for P E D0 where
  start: "interleaved P E D0 D0 []"
| read: "interleaved P E D0 D qs \<Longrightarrow> same_libraries E E' \<Longrightarrow> read_request E' oper D = Inr q \<Longrightarrow> P D qs oper q \<Longrightarrow>
    locked_group q = None \<or> locked_group q \<notin> locked_group ` set qs \<Longrightarrow> interleaved P E D0 D (qs @ [q])"
| finish: "interleaved P E D0 D qs \<Longrightarrow> i < length qs \<Longrightarrow>
    interleaved P E D0 (snd (finish_request (qs ! i) D)) (take i qs @ drop (Suc i) qs)"

inductive_cases interleaved_cases: "interleaved P E D0 D qs"

lemma read_request_env: "read_request E oper D = Inr q \<Longrightarrow> request_env q = E"
  by (cases oper) (auto simp: opened_def map_sum_Inr split: sum.splits option.splits)

text \<open>What a step does to the store: a logged change that the constraints admit, or nothing.\<close>

definition committed :: "db_env \<Rightarrow> db \<Rightarrow> db \<Rightarrow> bool" where
  "committed E D D' \<longleftrightarrow> logged D D' \<and> (D' = D \<or> int4_columns D' \<and> integrity (d_pg_lower E) D')"

lemma committed_refl [simp]: "committed E D D"
  by (simp add: committed_def logged_refl)

lemma committed_commit: "commit (d_pg_lower E) D1 = Inr D' \<Longrightarrow> logged D D1 \<Longrightarrow> committed E D D'"
  by (simp add: committed_def commit_Inr)

lemma committed_transaction:
  assumes "\<And>D'. commit (d_pg_lower E) D1 = Inr D' \<Longrightarrow> logged D D1"
  shows "committed E D (snd (transaction D (commit_else (d_pg_lower E) e a D1)))"
  using assms by (auto simp: transaction_def commit_else_def committed_commit split: sum.splits)

lemma logged_secrets: "logged D (insert_secret s D)" "logged D (store_secret s D)" "logged D (insert_client c D)"
  "logged D (store_client now c c' D)" "logged D (insert_group g D)" "logged D (store_group now g g' D)"
  by (rule logged_frame; simp add: store_group_def)+

lemma logged_store_rules: "store_rules now ps D = Inr D' \<Longrightarrow> logged D D'"
  by (induction now ps D rule: store_rules.induct)
    (auto simp: logged_refl bind_sum_Inr intro: logged_trans dest: logged_store)

lemma committed_rule: "committed E D (snd (transaction D (commit_rule E old new D)))"
  by (auto simp: transaction_def commit_rule_def commit_else_def committed_commit logged_store split: sum.splits)

lemma logged_insert_members: "logged D (insert_members E g i ps D)"
  using insert_members_frame by blast

lemma committed_whole_ops:
  "committed E D (snd (create_group E ng D))" "committed E D (snd (create_client E nc D))"
  "committed E D (snd (update_client E cid uc D))"
proof -
  note P = transaction_ok[where P = "committed E D"]
  show "committed E D (snd (create_group E ng D))"
    by (rule P[OF create_group_def committed_refl])
      (auto elim!: create_group_Inr intro!: committed_commit logged_trans[OF logged_secrets(5) logged_insert_members])
  show "committed E D (snd (create_client E nc D))"
    by (cases rule: create_client_cases[of D nc E])
      (auto simp: commit_Inr committed_def logged_refl intro: logged_frame)
  show "committed E D (snd (update_client E cid uc D))"
    by (rule P[OF update_client_def committed_refl])
      (auto elim!: update_client_Inr intro: committed_commit logged_secrets(4))
qed

text \<open>Several rows are stored and one commit follows.\<close>

lemma committed_rows:
  assumes "\<And>D1. x = Inr D1 \<Longrightarrow> logged D (f D1)"
  shows "committed E D (snd (transaction D (bind_sum x (\<lambda>D1. commit_else (d_pg_lower E) e a (f D1)))))"
proof (cases x)
  case (Inr D1)
  then show ?thesis using committed_transaction[of E "f D1" D e a] assms by simp
qed (simp add: transaction_def)

lemma committed_plain:
  assumes "request_env q = E" "\<And>oper. q \<noteq> OpenWhole E oper"
  shows "committed E D (snd (finish_request q D))"
proof (cases q)
  case (OpenUpdateGroup E' g data ms)
  let ?g1 = "renamed_group g data" and ?g2 = "updated_group g data"
  let ?D1 = "store_group (d_now E) ?g1 ?g2 (store_group (d_now E) g ?g1 D)"
  have "logged D D'" if "map_sum db_exception id (store_rules (d_now E) ps ?D1) = Inr D'" for ps D'
    using that logged_trans[OF logged_trans[OF logged_secrets(6) logged_secrets(6)] logged_store_rules] by (auto simp: map_sum_Inr)
  from committed_rows[where f = "\<lambda>D'. D'", OF this] OpenUpdateGroup assms(1) show ?thesis
    by (simp add: Let_def del: outcome_Inl outcome_Inr)
next
  case (OpenDeleteGroup E' gid mode ms)
  let ?x = "case mode of DeleteMembers \<Rightarrow> Inr (fold (\<lambda>m. delete_rule_row (d_now E) (r_id m)) ms D)
        | DetachMembers \<Rightarrow> map_sum db_exception id (store_rules (d_now E) (map (\<lambda>m. (m, detached_row m)) ms) D)"
  have "logged D (delete_group_row gid D1)" if "?x = Inr D1" for D1
  proof (rule logged_trans)
    show "logged D D1" using that delete_rules_fold by (cases mode) (auto simp: map_sum_Inr dest: logged_store_rules)
    show "logged D1 (delete_group_row gid D1)" by (rule logged_frame) (simp_all add: delete_group_row_def)
  qed
  from committed_rows[where f = "delete_group_row gid", OF this] OpenDeleteGroup assms(1) show ?thesis
    by (simp del: outcome_Inl outcome_Inr)
next
  case (OpenDetachRule E' old new)
  then show ?thesis
    using assms(1) committed_transaction[OF logged_store]
    by (cases "store_rule (d_now E) old new D") (simp_all add: transaction_def)
qed (use assms in \<open>auto simp del: outcome_Inl outcome_Inr
      intro!: committed_transaction committed_rule logged_insert logged_delete logged_secrets logged_insert_members\<close>)

lemma committed_admin: "committed E D (snd (admin_step E oper D))"
proof (cases "read_request E oper D")
  case (Inr q)
  show ?thesis
  proof (cases "\<exists>oper'. q = OpenWhole E oper'")
    case False
    then show ?thesis using Inr committed_plain[of q E D] read_request_env[OF Inr] by (simp add: request_steps)
  next
    case True
    then show ?thesis using Inr
      by (cases oper) (auto simp: committed_whole_ops opened_def map_sum_Inr split: sum.splits option.splits prod.splits)
  qed
qed (simp add: request_steps)

lemma committed_finish: "committed (request_env q) D (snd (finish_request q D))"
  using committed_plain[of q "request_env q" D] committed_admin by (cases q) auto

lemma interleaved_committed:
  assumes "interleaved P E D0 D qs" "int4_columns D0" "integrity (d_pg_lower E) D0"
  shows "logged D0 D \<and> int4_columns D \<and> integrity (d_pg_lower E) D
    \<and> (\<forall>q \<in> set qs. d_pg_lower (request_env q) = d_pg_lower E)"
  using assms
proof (induction rule: interleaved.induct)
  case (read D qs E' oper q)
  then show ?case using read_request_env[OF read.hyps(3)] by (auto simp: same_libraries_def)
next
  case (finish D qs i)
  let ?q = "qs ! i"
  have IH: "logged D0 D" "int4_columns D" "integrity (d_pg_lower E) D" "\<forall>q \<in> set qs. d_pg_lower (request_env q) = d_pg_lower E"
    using finish by auto
  have "committed (request_env ?q) D (snd (finish_request ?q D))" by (rule committed_finish)
  moreover have "d_pg_lower (request_env ?q) = d_pg_lower E" using IH(4) finish.hyps(2) by simp
  moreover have "set (take i qs @ drop (Suc i) qs) \<subseteq> set qs" using set_take_subset set_drop_subset by fastforce
  ultimately show ?case using IH logged_trans[OF IH(1)] by (auto simp: committed_def)
qed (simp add: logged_refl)

subsection \<open>Two updates of a rule\<close>

lemma get_rule_replaced:
  assumes "get_rule_by_id D rid = Some cur" "r_id r = rid"
  shows "get_rule_by_id (replace_rule now r D) rid = Some r"
proof -
  have "find (\<lambda>x. r_id x = rid) (map (\<lambda>x. if r_id x = r_id r then r else x) xs) = Some r"
    if "find (\<lambda>x. r_id x = rid) xs = Some cur" for xs
    using that assms(2) by (induction xs) (auto split: if_splits)
  with assms(1) show ?thesis by (simp add: get_rule_by_id_def replace_rule_def)
qed

lemma finish_update_None:
  assumes "finish_request (OpenUpdateRule E old new) D = (None, D')" "get_rule_by_id D (r_id old) = Some cur" "old \<noteq> new"
  shows "D' = replace_rule (d_now E) ((rule_delta old new cur)\<lparr>r_updated_at := d_now E\<rparr>) D"
  using assms by (auto simp: outcome_def transaction_def commit_rule_def store_rule_def commit_else_def commit_Inr
      split: sum.splits)

lemma rule_delta_touch: "(rule_delta old new (cur\<lparr>r_updated_at := t\<rparr>))\<lparr>r_updated_at := u\<rparr> = (rule_delta old new cur)\<lparr>r_updated_at := u\<rparr>"
  by (simp add: rule_delta_def)

lemma first_update:
  assumes "update_rule_plan E D rid data = Inr (old, new)" "finish_request (OpenUpdateRule E old new) D = (None, D1)"
  shows "D1 = replace_rule (d_now E) (new\<lparr>r_updated_at := d_now E\<rparr>) D"
    "get_rule_by_id D1 rid = Some (new\<lparr>r_updated_at := d_now E\<rparr>)"
proof -
  note p = update_rule_plan_Inr[OF assms(1)]
  have ids: "r_id old = rid" "r_id new = rid" using get_rule_by_id_in[OF p(1)] p(3) by auto
  have "old \<noteq> new" using p(11) by auto
  then show 1: "D1 = replace_rule (d_now E) (new\<lparr>r_updated_at := d_now E\<rparr>) D"
    using finish_update_None[OF assms(2), of old] p(1,3,8,9) ids by (simp add: rule_delta_same)
  show "get_rule_by_id D1 rid = Some (new\<lparr>r_updated_at := d_now E\<rparr>)"
    unfolding 1 using p(1) ids(2) by (intro get_rule_replaced) auto
qed

subsection \<open>Two changes of a client's secrets\<close>

lemma revoke_plan_Some:
  assumes "revoke_secret_plan E cid sid D = Inr (Some s)"
  obtains c where "get_client_by_client_id D cid = Some c" "get_secret_by_id D sid = Some s" "s_id s = sid"
    "s_client_pk s = c_id c" "s_revoked_at s = None"
proof -
  obtain c where c: "get_client_by_client_id D cid = Some c"
    using assms by (auto simp: revoke_secret_plan_def bind_sum_Inr get_client_Inr)
  obtain s' where s': "get_secret_by_id D sid = Some s'"
    using assms c by (auto simp: revoke_secret_plan_def get_client_or_raise_def split: option.splits)
  have "s' = s \<and> s_client_pk s = c_id c \<and> s_revoked_at s = None"
    using assms c s' by (auto simp: revoke_secret_plan_def get_client_or_raise_def split: if_splits)
  moreover have "s_id s' = sid" using s' by (auto simp: get_secret_by_id_def dest: find_SomeD)
  ultimately show ?thesis using that[OF c] s' by simp
qed

lemma store_secret_integrity:
  assumes "integrity lower D" "get_secret_by_id D (s_id s') = Some s" "s_client_pk s' = s_client_pk s"
  shows "integrity lower (store_secret s' D)"
proof -
  have s: "s \<in> set (t_secrets D)" using assms(2) by (auto simp: get_secret_by_id_def dest: find_SomeD)
  have ids: "map s_id (t_secrets (store_secret s' D)) = map s_id (t_secrets D)" by (simp add: store_secret_def)
  have "list_all (\<lambda>x. s_client_pk x \<in> set (map c_id (t_clients D))) (t_secrets (store_secret s' D))"
    using assms(1,3) s by (auto simp: store_secret_def integrity_def clients_integrity_def list_all_iff)
  moreover have "t_clients (store_secret s' D) = t_clients D" "t_groups (store_secret s' D) = t_groups D"
    by (simp_all add: store_secret_def)
  ultimately show ?thesis using assms(1) ids
    by (simp add: integrity_def clients_integrity_def groups_integrity_def rules_integrity_def cong: option.case_cong)
qed

lemma finish_revocation:
  assumes "store_ok E D" "get_secret_by_id D (s_id s) = Some s"
  defines "D1 \<equiv> store_secret (s\<lparr>s_revoked_at := Some (d_now E)\<rparr>) D"
  shows "finish_request (OpenRevokeSecret E s) D = (None, D1)" "store_ok E D1"
proof -
  have "int4_columns D1" using assms(1) by (simp add: D1_def store_ok_def int4_columns_def)
  moreover have "integrity (d_pg_lower E) D1"
    unfolding D1_def using assms(1,2) by (intro store_secret_integrity[of _ _ _ s]) (simp_all add: store_ok_def)
  ultimately have c: "commit (d_pg_lower E) D1 = Inr D1" by (simp add: commit_Inr)
  then show "finish_request (OpenRevokeSecret E s) D = (None, D1)" by (simp add: commit_else_def D1_def)
  show "store_ok E D1" using assms(1) c by (rule commit_frame_ok) (simp_all add: D1_def)
qed

lemma get_other_secret:
  assumes "get_secret_by_id D sid = Some s" "s_id s' \<noteq> sid"
  shows "get_secret_by_id (store_secret s' D) sid = Some s"
proof -
  have "find (\<lambda>x. s_id x = sid) (map (\<lambda>x. if s_id x = s_id s' then s' else x) xs) = Some s"
    if "find (\<lambda>x. s_id x = sid) xs = Some s" for xs
    using that assms(2) by (induction xs) (auto split: if_splits)
  with assms(1) show ?thesis by (simp add: get_secret_by_id_def store_secret_def)
qed

subsection \<open>A member and its group\<close>

text \<open>
  An update of a member's overrides reads the group without its lock (\<^verbatim>\<open>update_rule\<close> calls
  \<^verbatim>\<open>get_by_id\<close> without \<^verbatim>\<open>for_update\<close>).  If the group's parameters change before it commits, it stores
  the overrides merged into the old ones, and the member does not mirror its group any more.
\<close>

lemma stale_overrides:
  assumes "update_rule_plan E D rid data = Inr (old, new)" "r_group_id old = Some gid" "ur_overrides data = Some ov"
    and "get_group_by_id D gid = Some g" "r_params new \<noteq> r_params old" "r_overrides old \<noteq> Some ov"
    and "get_rule_by_id D1 rid = Some cur" "get_group_by_id D1 gid = Some g'"
    and "compute_effective_params (g_params g') ov \<noteq> compute_effective_params (g_params g) ov"
    and "finish_request (OpenUpdateRule E old new) D1 = (None, D2)"
  shows "\<exists>r. get_rule_by_id D2 rid = Some r \<and> r_overrides r = Some ov \<and> \<not> mirrors g' r"
proof -
  note p = update_rule_plan_Inr[OF assms(1)]
  have ids: "r_id old = rid" using get_rule_by_id_in[OF p(1)] by simp
  obtain ps where ps: "updated_params E D old data = Inr ps"
      and new: "r_params new = (case ps of Some x \<Rightarrow> x | None \<Rightarrow> r_params old)" using p(14) by blast
  obtain x where x: "validated_overrides E D g (g_params g) ov = Inr x" "ps = Some x"
    using ps assms(2-4) by (auto simp: updated_params_def map_sum_Inr)
  have params: "r_params new = compute_effective_params (g_params g) ov"
    using validated_overrides_Inr(1)[OF x(1)] new x(2) by simp
  let ?r = "(rule_delta old new cur)\<lparr>r_updated_at := d_now E\<rparr>"
  have "old \<noteq> new" using p(11) by auto
  then have D2: "D2 = replace_rule (d_now E) ?r D1" using finish_update_None[OF assms(10)] assms(7) ids by simp
  have "r_id cur = rid" using get_rule_by_id_in[OF assms(7)] by simp
  then have row: "get_rule_by_id D2 rid = Some ?r"
    unfolding D2 using assms(7) by (intro get_rule_replaced) (simp_all add: rule_delta_def)
  have ov: "r_overrides ?r = Some ov" "r_params ?r = compute_effective_params (g_params g) ov"
    using p(19) assms(3,5,6) params by (auto simp: rule_delta_def column_def)
  then have "\<not> mirrors g' ?r" using assms(9) by (simp add: mirrors_def)
  with row ov(1) show ?thesis by blast
qed

lemma stale_overrides_break_store:
  assumes "get_rule_by_id D rid = Some r" "r_group_id r = Some gid" "get_group_by_id D gid = Some g" "\<not> mirrors g r"
  shows "\<not> store_ok E D"
proof
  assume ok: "store_ok E D"
  have "r \<in> set (t_rules D)" using get_rule_by_id_in[OF assms(1)] by simp
  from group_of_member[OF ok this assms(2)] assms(3,4) show False by auto
qed

subsection \<open>Two requests on the demo store\<close>

definition demo_priority :: "int \<Rightarrow> rule_update" where
  "demo_priority p = \<lparr>ur_algorithm_id = None, ur_params = None, ur_priority = Some p, ur_status = None, ur_overrides = None,
     ur_updated_by = ''ops'', ur_expected_version = Some 1\<rparr>"

definition demo_reprioritised :: "int \<Rightarrow> rule" where
  "demo_reprioritised p = demo_rule_row\<lparr>r_priority := p, r_updated_by := Some ''ops'', r_version := 2\<rparr>"

lemma demo_plan: "update_rule_plan demo_db_env demo_store ''r2'' (demo_priority p) = Inr (demo_rule_row, demo_reprioritised p)"
  by (simp add: update_rule_plan_def get_rule_or_raise_def get_rule_by_id_def demo_store_def demo_rows demo_priority_def
      update_guard_def Let_def updated_params_def find_active_conflict_def rule_scope_key_def demo_reprioritised_def)

definition demo_after :: "int \<Rightarrow> rule_history list \<Rightarrow> db" where
  "demo_after p hs = demo_store\<lparr>t_rules := [demo_member, (demo_reprioritised p)\<lparr>r_updated_at := 100\<rparr>], t_history := hs\<rparr>"

lemma demo_after_commit: "int4 p \<Longrightarrow> commit id (demo_after p hs) = Inr (demo_after p hs)"
proof -
  assume "int4 p"
  then have "int4_columns (demo_after p hs)"
    by (simp add: int4_columns_def int4_def demo_after_def demo_store_def demo_rows demo_reprioritised_def)
  moreover have "integrity id (demo_after p hs)"
    using demo_store_ok
    by (simp add: store_ok_def integrity_def clients_integrity_def groups_integrity_def rules_integrity_def demo_after_def
        demo_store_def demo_rows demo_reprioritised_def ux_rules_active_scope_def is_active_def rule_scope_key_def
        ck_rules_overrides_requires_group_def)
  ultimately show ?thesis by (simp add: commit_Inr)
qed

definition demo_entry :: "int \<Rightarrow> rule_history" where
  "demo_entry p = history_entry 100 ''update'' ((demo_reprioritised p)\<lparr>r_updated_at := 100\<rparr>)"

lemma demo_finish:
  assumes "int4 p" "p \<noteq> 100"
  shows "finish_request (OpenUpdateRule demo_db_env demo_rule_row (demo_reprioritised p)) demo_store = (None, demo_after p [demo_entry p])"
    "finish_request (OpenUpdateRule demo_db_env demo_rule_row (demo_reprioritised p)) (demo_after q hs) =
       (None, demo_after p (hs @ [demo_entry p]))"
proof -
  have ne: "demo_rule_row \<noteq> demo_reprioritised p" by (simp add: demo_reprioritised_def demo_rows)
  have "store_rule 100 demo_rule_row (demo_reprioritised p) demo_store = Inr (demo_after p [demo_entry p])"
    "store_rule 100 demo_rule_row (demo_reprioritised p) (demo_after q hs) = Inr (demo_after p (hs @ [demo_entry p]))"
    using assms(2) ne
    by (simp_all add: store_rule_def get_rule_by_id_def replace_rule_def rule_delta_def column_def demo_after_def
        demo_store_def demo_entry_def demo_rows demo_reprioritised_def)
  with demo_after_commit[OF assms(1)] show
    "finish_request (OpenUpdateRule demo_db_env demo_rule_row (demo_reprioritised p)) demo_store = (None, demo_after p [demo_entry p])"
    "finish_request (OpenUpdateRule demo_db_env demo_rule_row (demo_reprioritised p)) (demo_after q hs) =
       (None, demo_after p (hs @ [demo_entry p]))"
    by (simp_all add: commit_rule_def commit_else_def)
qed

lemma demo_interleaved: "interleaved (\<lambda>_ _ _ _. True) demo_db_env demo_store (demo_after 7 [demo_entry 3, demo_entry 7]) []"
proof -
  let ?open = "\<lambda>p. OpenUpdateRule demo_db_env demo_rule_row (demo_reprioritised p)"
  have lib: "same_libraries demo_db_env demo_db_env" by (simp add: same_libraries_def)
  have reads: "read_request demo_db_env (UpdateRule ''r2'' (demo_priority p)) demo_store = Inr (?open p)" for p
    by (simp add: opened_def demo_plan)
  have "interleaved (\<lambda>_ _ _ _. True) demo_db_env demo_store demo_store [?open 3]"
    using interleaved.read[OF interleaved.start lib reads[of 3]] by simp
  then have "interleaved (\<lambda>_ _ _ _. True) demo_db_env demo_store demo_store [?open 3, ?open 7]"
    using interleaved.read[OF _ lib reads[of 7]] by fastforce
  then have "interleaved (\<lambda>_ _ _ _. True) demo_db_env demo_store (demo_after 3 [demo_entry 3]) [?open 7]"
    using interleaved.finish[of _ _ _ _ _ 0] demo_finish(1)[of 3] by (fastforce simp: int4_def)
  then show ?thesis
    using interleaved.finish[of _ _ _ _ _ 0] demo_finish(2)[of 7 3 "[demo_entry 3]"] by (fastforce simp: int4_def)
qed

definition demo_override :: rule_update where
  "demo_override = \<lparr>ur_algorithm_id = None, ur_params = None, ur_priority = None, ur_status = None,
     ur_overrides = Some [(''limit'', JInt 7)], ur_updated_by = ''ops'', ur_expected_version = Some 1\<rparr>"

definition demo_overridden :: rule where
  "demo_overridden = demo_member\<lparr>r_params := window_params 7 60, r_overrides := Some [(''limit'', JInt 7)],
     r_updated_by := Some ''ops'', r_version := 2\<rparr>"

lemma demo_merge: "unknown_keys (window_params n w) [(''limit'', JInt m)] = []"
  "compute_effective_params (window_params n w) [(''limit'', JInt m)] = window_params m w"
  by (simp_all add: unknown_keys_def window_params_def compute_effective_params_def)

lemma demo_override_plan: "update_rule_plan demo_db_env demo_store ''r1'' demo_override = Inr (demo_member, demo_overridden)"
proof -
  have "validate_overrides_or_raise demo_coercions ''FixedWindow'' (window_params 10 60) [(''limit'', JInt 7)] = Inr (window_params 7 60)"
    using check_params_Inr[of demo_coercions "''FixedWindow''" "window_params 7 60" "window_params 7 60"]
    by (simp add: validate_overrides_or_raise_def demo_merge Let_def demo_window_builds)
  then show ?thesis
    by (simp add: update_rule_plan_def get_rule_or_raise_def get_rule_by_id_def demo_store_def demo_rows demo_override_def
      update_guard_def Let_def updated_params_def find_active_conflict_def rule_scope_key_def demo_overridden_def
      get_group_by_id_def validated_overrides_def group_algorithm_name_def get_algorithm_by_id_def)
qed

definition demo_shorter :: group_update where
  "demo_shorter = \<lparr>ug_name = None, ug_description = None, ug_params = Some (window_params 10 30), ug_priority = None,
     ug_updated_by = ''ops''\<rparr>"

definition second_secret :: client_secret where
  "second_secret = demo_secret\<lparr>s_id := ''s2'', s_secret_hash := ''h:pw2''\<rparr>"

definition two_secrets_store :: db where
  "two_secrets_store = insert_secret second_secret demo_store"

lemma two_secrets_ok: "store_ok demo_db_env two_secrets_store"
proof -
  have "int4_columns two_secrets_store"
    using demo_store_ok by (simp add: two_secrets_store_def insert_secret_def store_ok_def int4_columns_def)
  moreover have "integrity id two_secrets_store"
    using demo_store_ok by (simp add: store_ok_def integrity_def clients_integrity_def groups_integrity_def rules_integrity_def
        two_secrets_store_def second_secret_def insert_secret_def demo_store_def demo_rows)
  moreover have "rules_ok demo_coercions two_secrets_store"
    using demo_store_ok by (simp add: store_ok_def rules_ok_def two_secrets_store_def)
  ultimately show ?thesis by (simp add: store_ok_def)
qed

lemma two_secrets_plan:
  "revoke_secret_plan demo_db_env ''acme'' ''s1'' two_secrets_store = Inr (Some demo_secret)"
  "revoke_secret_plan demo_db_env ''acme'' ''s2'' two_secrets_store = Inr (Some second_secret)"
  "get_client_by_client_id two_secrets_store ''acme'' = Some demo_client"
  "count_active_secrets two_secrets_store 100 ''c1'' = 2"
  by (simp_all add: revoke_secret_plan_def get_client_or_raise_def get_client_by_client_id_def get_secret_by_id_def
      count_active_secrets_def secret_active_def two_secrets_store_def insert_secret_def second_secret_def demo_store_def demo_rows)

definition demo_shortened_member :: rule where
  "demo_shortened_member = demo_member\<lparr>r_params := window_params 5 30, r_updated_by := Some ''ops'', r_version := 2, r_updated_at := 100\<rparr>"

definition demo_shortened :: db where
  "demo_shortened = demo_store\<lparr>
     t_groups := [demo_group\<lparr>g_params := window_params 10 30, g_updated_by := Some ''ops'', g_updated_at := 100\<rparr>],
     t_rules := [demo_shortened_member, demo_rule_row],
     t_history := [history_entry 100 ''update'' demo_shortened_member]\<rparr>"

lemma demo_shorter_group: "renamed_group demo_group demo_shorter = demo_group"
  "updated_group demo_group demo_shorter = demo_group\<lparr>g_params := window_params 10 30, g_updated_by := Some ''ops''\<rparr>"
proof -
  show g1: "renamed_group demo_group demo_shorter = demo_group" by (simp add: renamed_group_def demo_shorter_def)
  show "updated_group demo_group demo_shorter = demo_group\<lparr>g_params := window_params 10 30, g_updated_by := Some ''ops''\<rparr>"
    by (simp add: updated_group_def g1) (simp add: demo_shorter_def)
qed

lemma demo_group_plan: "update_group_plan demo_db_env ''g1'' demo_shorter demo_store = Inr (demo_group, [(demo_member, window_params 5 30)])"
proof -
  have c0: "commit id demo_store = Inr demo_store" using demo_store_ok by (simp add: store_ok_def commit_Inr)
  have v: "validate_overrides_or_raise demo_coercions ''FixedWindow'' (window_params 10 30) [(''limit'', JInt 5)] = Inr (window_params 5 30)"
    using check_params_Inr[of demo_coercions "''FixedWindow''" "window_params 5 30" "window_params 5 30"]
    by (simp add: validate_overrides_or_raise_def demo_merge Let_def demo_window_builds)
  let ?g = "updated_group demo_group demo_shorter"
  have r: "recompute_members (validated_overrides demo_db_env demo_store ?g (g_params ?g)) [demo_member] = Inr [window_params 5 30]"
    unfolding demo_shorter_group using v
    by (simp add: validated_overrides_def group_algorithm_name_def get_algorithm_by_id_def demo_store_def demo_rows or_empty_def)
  have ms: "list_by_group demo_store ''g1'' = [demo_member]" by (simp add: list_by_group_def demo_store_def demo_rows)
  have get: "get_group_or_raise demo_store ''g1'' = Inr demo_group"
    by (simp add: get_group_or_raise_def get_group_by_id_def demo_store_def demo_rows)
  have name: "ug_name demo_shorter = None" by (simp add: demo_shorter_def)
  have st: "store_group 100 demo_group demo_group demo_store = demo_store" by (simp add: store_group_def)
  show ?thesis
    by (simp add: update_group_plan_def get name demo_shorter_group(1) st Let_def commit_else_def c0 ms r del: recompute_members.simps)
qed

lemma demo_group_update: "update_group demo_db_env ''g1'' demo_shorter demo_store = (Inr (updated_group demo_group demo_shorter), demo_shortened)"
proof -
  let ?g = "updated_group demo_group demo_shorter"
  let ?m = "updated_member ?g demo_shorter demo_member (window_params 5 30)"
  note g = demo_shorter_group(2)
  have s: "store_rules 100 [(demo_member, ?m)] (store_group 100 demo_group ?g demo_store) = Inr demo_shortened"
    unfolding g by (simp add: store_rule_def store_group_def get_rule_by_id_def replace_rule_def rule_delta_def column_def demo_store_def
        demo_rows updated_member_def demo_shorter_def demo_shortened_def demo_shortened_member_def window_params_def)
  have c1: "commit id demo_shortened = Inr demo_shortened"
  proof -
    have "int4_columns demo_shortened"
      by (simp add: int4_columns_def int4_def demo_shortened_def demo_shortened_member_def demo_store_def demo_rows)
    moreover have "integrity id demo_shortened"
      using demo_store_ok
      by (simp add: store_ok_def integrity_def clients_integrity_def groups_integrity_def rules_integrity_def
          demo_shortened_def demo_shortened_member_def demo_store_def demo_rows ux_rules_active_scope_def is_active_def
          rule_scope_key_def ck_rules_overrides_requires_group_def ux_rule_groups_name_ci_def)
    ultimately show ?thesis by (simp add: commit_Inr)
  qed
  have st: "store_group 100 demo_group demo_group demo_store = demo_store" by (simp add: store_group_def)
  show ?thesis
    by (simp add: update_group_steps demo_group_plan demo_shorter_group(1) st Let_def s c1 commit_else_def transaction_def
        del: store_rules.simps)
qed

text \<open>The change of the group runs between the two steps of the member's update; both succeed.\<close>

definition demo_stale_row :: rule where
  "demo_stale_row = demo_overridden\<lparr>r_updated_at := 100\<rparr>"

definition demo_stale :: db where
  "demo_stale = demo_shortened\<lparr>t_rules := [demo_stale_row, demo_rule_row],
     t_history := [history_entry 100 ''update'' demo_shortened_member, history_entry 100 ''update'' demo_stale_row]\<rparr>"

lemma demo_stale_finish: "finish_request (OpenUpdateRule demo_db_env demo_member demo_overridden) demo_shortened = (None, demo_stale)"
proof -
  have "store_rule 100 demo_member demo_overridden demo_shortened = Inr demo_stale"
    by (simp add: store_rule_def get_rule_by_id_def replace_rule_def rule_delta_def column_def demo_shortened_def
        demo_shortened_member_def demo_stale_def demo_stale_row_def demo_overridden_def demo_store_def demo_rows window_params_def)
  moreover have "int4_columns demo_stale"
    by (simp add: int4_columns_def int4_def demo_stale_def demo_stale_row_def demo_overridden_def demo_shortened_def demo_store_def demo_rows)
  moreover have "integrity id demo_stale"
    using demo_store_ok
    by (simp add: store_ok_def integrity_def clients_integrity_def groups_integrity_def rules_integrity_def demo_stale_def
        demo_stale_row_def demo_overridden_def demo_shortened_def demo_store_def demo_rows ux_rules_active_scope_def
        is_active_def rule_scope_key_def ck_rules_overrides_requires_group_def ux_rule_groups_name_ci_def)
  ultimately have "commit id demo_stale = Inr demo_stale" by (simp add: commit_Inr)
  with \<open>store_rule _ _ _ _ = _\<close> show ?thesis by (simp add: commit_rule_def commit_else_def)
qed

lemma stale_overrides_demo:
  "finish_request (OpenUpdateRule demo_db_env demo_member demo_overridden)
     (snd (update_group demo_db_env ''g1'' demo_shorter demo_store)) = (None, demo_stale) \<and> \<not> store_ok demo_db_env demo_stale"
proof -
  have f: "finish_request (OpenUpdateRule demo_db_env demo_member demo_overridden) demo_shortened = (None, demo_stale)"
    by (rule demo_stale_finish)
  obtain g where g: "get_group_by_id demo_shortened ''g1'' = Some g" "g_params g = window_params 10 30" "get_group_by_id demo_stale ''g1'' = Some g"
    by (simp add: get_group_by_id_def demo_shortened_def demo_stale_def demo_group_def)
  have "\<exists>r. get_rule_by_id demo_stale ''r1'' = Some r \<and> r_overrides r = Some [(''limit'', JInt 7)] \<and> \<not> mirrors g r"
    by (rule stale_overrides[OF demo_override_plan _ _ _ _ _ _ g(1) _ f, where g = demo_group
          and cur = demo_shortened_member])
      (simp_all add: g(2) demo_merge, simp_all add: demo_override_def demo_overridden_def demo_rows get_group_by_id_def get_rule_by_id_def
        demo_store_def demo_shortened_def demo_shortened_member_def demo_merge window_params_def compute_effective_params_def)
  moreover have "get_rule_by_id demo_stale ''r1'' = Some demo_stale_row" "r_group_id demo_stale_row = Some ''g1''"
    by (simp_all add: get_rule_by_id_def demo_stale_def demo_stale_row_def demo_overridden_def demo_rows)
  ultimately show ?thesis using stale_overrides_break_store[OF _ _ g(3)] f by (simp add: demo_group_update del: finish_request.simps)
qed

subsection \<open>Properties\<close>

text \<open>
  C37.  However the requests overlap, the database keeps its constraints - in particular no two active
  rules ever share client, endpoint and signature, although each handler checks this on what it read
  earlier - and the audit log stays complete: replaying the entries added since the start on the rules of
  the start gives the rules of the store.
\<close>

theorem interleaved_requests_keep_constraints:
  assumes "int4_columns D0" "integrity (d_pg_lower E) D0" "interleaved P E D0 D qs"
  shows "integrity (d_pg_lower E) D \<and> ux_rules_active_scope (t_rules D)
    \<and> take (length (t_history D0)) (t_history D) = t_history D0
    \<and> replay (drop (length (t_history D0)) (t_history D)) (t_rules D0) = t_rules D"
  using interleaved_committed[OF assms(3,1,2)] by (auto simp: logged_def integrity_def rules_integrity_def)

theorem interleaved_requests_keep_constraints_witness:
  "replay [demo_entry 3, demo_entry 7] [demo_member, demo_rule_row] = t_rules (demo_after 7 [demo_entry 3, demo_entry 7])"
proof -
  have "int4_columns demo_store" "integrity (d_pg_lower demo_db_env) demo_store"
    using demo_store_ok by (simp_all add: store_ok_def)
  from interleaved_requests_keep_constraints[OF this demo_interleaved] show ?thesis
    by (simp add: demo_store_def demo_after_def)
qed

text \<open>
  C38.  \<^verbatim>\<open>expected_version\<close> orders requests only when they do not overlap.  Of two updates that name the
  version they read, the second is refused with the new version if it is read after the first has
  committed; if both are read before, both succeed: the version is raised once, and every column the
  second one changed has its value, whatever the first wrote there.
\<close>

theorem overlapping_updates_share_version:
  assumes "update_rule_plan E1 D rid d1 = Inr (old, new1)" "update_rule_plan E2 D rid d2 = Inr (old, new2)"
    and "ur_expected_version d2 = Some v"
    and "finish_request (OpenUpdateRule E1 old new1) D = (None, D1)"
    and "finish_request (OpenUpdateRule E2 old new2) D1 = (None, D2)"
  shows "fst (update_rule E2 rid d2 D1) = Inl (VersionConflictError rid v (v + 1))
    \<and> get_rule_by_id D2 rid = Some ((rule_delta old new2 new1)\<lparr>r_updated_at := d_now E2\<rparr>)
    \<and> r_version new1 = v + 1 \<and> r_version new2 = v + 1 \<and> r_version (rule_delta old new2 new1) = v + 1"
proof -
  note p1 = update_rule_plan_Inr[OF assms(1)] and p2 = update_rule_plan_Inr[OF assms(2)]
  have v: "r_version old = v" using p2(2) assms(3) by (simp add: update_guard_def split: if_splits)
  have ids: "r_id old = rid" "r_id new1 = rid" "r_id new2 = rid" using get_rule_by_id_in[OF p1(1)] p1(3) p2(3) by auto
  note first = first_update[OF assms(1,4)]
  have "old \<noteq> new2" using p2(11) by auto
  then have D2: "D2 = replace_rule (d_now E2) ((rule_delta old new2 new1)\<lparr>r_updated_at := d_now E2\<rparr>) D1"
    using finish_update_None[OF assms(5)] first(2) ids by (simp add: rule_delta_touch)
  have "r_id (rule_delta old new2 new1) = rid" using ids by (simp add: rule_delta_def)
  then have 2: "get_rule_by_id D2 rid = Some ((rule_delta old new2 new1)\<lparr>r_updated_at := d_now E2\<rparr>)"
    unfolding D2 using first(2) by (intro get_rule_replaced) auto
  have 1: "fst (update_rule E2 rid d2 D1) = Inl (VersionConflictError rid v (v + 1))"
    using first(2) p1(11) v ids(2) assms(3)
    by (simp add: update_rule_def update_rule_plan_def get_rule_or_raise_def update_guard_def transaction_def)
  show ?thesis using 1 2 p1(11) p2(11) v by (simp add: rule_delta_def column_def)
qed

theorem overlapping_updates_share_version_witness:
  "fst (update_rule demo_db_env ''r2'' (demo_priority 7) (demo_after 3 [demo_entry 3])) = Inl (VersionConflictError ''r2'' 1 2)
   \<and> r_priority (rule_delta demo_rule_row (demo_reprioritised 7) (demo_reprioritised 3)) = 7
   \<and> get_rule_by_id (demo_after 7 [demo_entry 3, demo_entry 7]) ''r2''
       = Some ((rule_delta demo_rule_row (demo_reprioritised 7) (demo_reprioritised 3))\<lparr>r_updated_at := 100\<rparr>)"
proof -
  have "int4 3" "int4 7" by (simp_all add: int4_def)
  then have 1: "finish_request (OpenUpdateRule demo_db_env demo_rule_row (demo_reprioritised 3)) demo_store = (None, demo_after 3 [demo_entry 3])"
    and 2: "finish_request (OpenUpdateRule demo_db_env demo_rule_row (demo_reprioritised 7)) (demo_after 3 [demo_entry 3]) =
       (None, demo_after 7 [demo_entry 3, demo_entry 7])"
    using demo_finish(1)[of 3] demo_finish(2)[of 7 3 "[demo_entry 3]"] by simp_all
  have "ur_expected_version (demo_priority 7) = Some 1" by (simp add: demo_priority_def)
  from overlapping_updates_share_version[OF demo_plan demo_plan this 1 2] show ?thesis
    by (simp add: rule_delta_def column_def demo_reprioritised_def demo_rows)
qed

text \<open>
  C39.  The last active secret is protected only against requests that do not overlap.  Of two
  revocations of a client's two active secrets the second is refused, if it is read after the first has
  committed; if both are read before, both succeed and the active client is left with no secret.
\<close>

theorem overlapping_revocations_lock_out:
  assumes "store_ok E1 D" "same_libraries E1 E2" "get_client_by_client_id D cid = Some c" "c_status c = ''active''"
    and "count_active_secrets D (d_now E2) (c_id c) = 2" "sid1 \<noteq> sid2"
    and "revoke_secret_plan E1 cid sid1 D = Inr (Some s1)" "revoke_secret_plan E2 cid sid2 D = Inr (Some s2)"
    and "secret_active (d_now E2) s1" "secret_active (d_now E2) s2"
  shows "fst (revoke_secret E2 cid sid2 (snd (revoke_secret E1 cid sid1 D))) = Inl (LastActiveSecretError cid)
    \<and> (\<exists>D1 D2. finish_request (OpenRevokeSecret E1 s1) D = (None, D1) \<and> finish_request (OpenRevokeSecret E2 s2) D1 = (None, D2)
         \<and> count_active_secrets D2 (d_now E2) (c_id c) = 0)"
proof -
  let ?D1 = "store_secret (s1\<lparr>s_revoked_at := Some (d_now E1)\<rparr>) D"
  let ?D2 = "store_secret (s2\<lparr>s_revoked_at := Some (d_now E2)\<rparr>) ?D1"
  have s1: "get_secret_by_id D sid1 = Some s1" "s_id s1 = sid1" "s_client_pk s1 = c_id c"
    using assms(3,7) by (auto elim!: revoke_plan_Some)
  have s2: "get_secret_by_id D sid2 = Some s2" "s_id s2 = sid2" "s_client_pk s2 = c_id c" "s_revoked_at s2 = None"
    using assms(3,8) by (auto elim!: revoke_plan_Some)
  have f1: "finish_request (OpenRevokeSecret E1 s1) D = (None, ?D1)" "store_ok E1 ?D1"
    using finish_revocation[OF assms(1), of s1] s1 by simp_all
  have ok: "store_ok E2 ?D1" using f1(2) assms(2) store_ok_libraries by simp
  have s2': "get_secret_by_id ?D1 sid2 = Some s2" using s2(1) s1(2) assms(6) by (intro get_other_secret) auto
  have f2: "finish_request (OpenRevokeSecret E2 s2) ?D1 = (None, ?D2)"
    using finish_revocation(1)[OF ok, of s2] s2' s2(2) by simp
  have one: "count_active_secrets ?D1 (d_now E2) (c_id c) = 1"
    using count_revoke[OF assms(1) s1(1)] assms(5,9) s1(3) by simp
  then have "count_active_secrets ?D2 (d_now E2) (c_id c) = 0"
    using count_revoke[OF ok s2'] assms(10) s2(3) by simp
  moreover have "snd (revoke_secret E1 cid sid1 D) = ?D1"
    using request_steps[of E1 "RevokeSecret cid sid1" D] assms(7) f1(1) by (simp flip: snd_outcome)
  moreover have "get_client_by_client_id ?D1 cid = Some c"
    using assms(3) by (simp add: get_client_by_client_id_def store_secret_def)
  then have "fst (revoke_secret E2 cid sid2 ?D1) = Inl (LastActiveSecretError cid)"
    using s2' s2(3,4) assms(4,10) one
    by (simp add: revoke_secret_def get_client_or_raise_def transaction_def secret_active_def)
  ultimately show ?thesis using f1(1) f2 by (simp del: finish_request.simps)
qed

theorem overlapping_revocations_lock_out_witness:
  "\<exists>D1 D2. finish_request (OpenRevokeSecret demo_db_env demo_secret) two_secrets_store = (None, D1)
     \<and> finish_request (OpenRevokeSecret demo_db_env second_secret) D1 = (None, D2) \<and> count_active_secrets D2 100 ''c1'' = 0"
  using overlapping_revocations_lock_out[OF two_secrets_ok _ two_secrets_plan(3) _ _ _ two_secrets_plan(1,2)] two_secrets_plan(4)
  by (simp add: same_libraries_def secret_active_def second_secret_def demo_rows)

end
