(* ===== verification/Locked_Members.thy ===== *)
theory Locked_Members
  imports Concurrency
begin

text \<open>
  The members of a group while a request holds the group's row: which requests go through that lock, which
  identifiers their new rules may have, what rows become that are written from objects read earlier, and
  \<open>held\<close>, the relation between the members a request has read and those in the table when it writes.
\<close>

subsection \<open>Requests that go through the lock\<close>

text \<open>
  A member is written without the lock of its group by an update of its overrides, by \<^verbatim>\<open>detach_rule\<close>
  and, for the group it leaves, by \<^verbatim>\<open>move_to_group\<close>.  An update of nothing but the status is harmless.
\<close>

fun respects_lock :: "admin_op \<Rightarrow> bool" where
  "respects_lock (UpdateRule rid data) \<longleftrightarrow> ur_algorithm_id data = None \<and> ur_params data = None
     \<and> ur_priority data = None \<and> ur_overrides data = None"
| "respects_lock (DetachRule rid data) \<longleftrightarrow> False"
| "respects_lock (MoveToGroup rid data) \<longleftrightarrow> False"
| "respects_lock _ \<longleftrightarrow> True"

text \<open>The identifiers a request may give to rules it inserts, and those that have been given.\<close>

fun new_ids :: "open_request \<Rightarrow> string set" where
  "new_ids (OpenCreateRule E r) = {r_id r}"
| "new_ids (OpenAddMembers E g ps) = range (d_ids E)"
| "new_ids (OpenWhole E (CreateGroup data)) = range (d_ids E)"
| "new_ids _ = {}"

definition known_ids :: "db \<Rightarrow> string set" where
  "known_ids D = r_id ` set (t_rules D) \<union> h_rule_id ` set (t_history D)"

text \<open>\<^verbatim>\<open>gen_random_uuid()\<close> does not repeat an identifier.\<close>

definition locking :: "db \<Rightarrow> open_request list \<Rightarrow> admin_op \<Rightarrow> open_request \<Rightarrow> bool" where
  "locking D qs oper q \<longleftrightarrow> respects_lock oper \<and> new_ids q \<inter> (known_ids D \<union> \<Union> (new_ids ` set qs)) = {}"

subsection \<open>Known identifiers\<close>

lemma known_insert: "known_ids (insert_rule now r D) = insert (r_id r) (known_ids D)"
  by (auto simp: known_ids_def insert_rule_def history_entry_def)

lemma known_delete: "known_ids (delete_rule_row now rid D) = known_ids D"
proof (cases "get_rule_by_id D rid")
  case (Some r)
  then have "r \<in> set (t_rules D)" "r_id r = rid" using get_rule_by_id_in by auto
  with Some show ?thesis by (auto simp: known_ids_def delete_rule_row_def history_entry_def)
qed (simp add: delete_rule_row_def)

lemma known_replace:
  assumes "get_rule_by_id D rid = Some cur" "r_id r = rid"
  shows "known_ids (replace_rule now r D) = known_ids D"
proof -
  have "cur \<in> set (t_rules D)" "r_id cur = rid" using get_rule_by_id_in[OF assms(1)] by auto
  then have "rid \<in> r_id ` set (t_rules D)" by blast
  moreover have "r_id ` set (t_rules (replace_rule now r D)) = r_id ` set (t_rules D)"
    by (simp flip: set_map) (simp add: replace_rule_def comp_def if_distrib cong: if_cong)
  ultimately show ?thesis using assms(2)
    by (auto simp: known_ids_def replace_rule_def history_entry_def)
qed

lemma known_frame: "t_rules D' = t_rules D \<Longrightarrow> t_history D' = t_history D \<Longrightarrow> known_ids D' = known_ids D"
  by (simp add: known_ids_def)

lemma known_insert_members: "known_ids (insert_members E g i ps D) \<subseteq> known_ids D \<union> range (d_ids E)"
  by (induction ps arbitrary: i D) (fastforce simp: known_insert member_rule_def split: prod.splits)+

lemma known_insert_members': "known_ids D \<subseteq> known_ids (insert_members E g i ps D)"
  by (induction ps arbitrary: i D) (fastforce simp: known_insert)+

lemma known_deletes: "known_ids (fold (\<lambda>m. delete_rule_row now (r_id m)) ms D) = known_ids D"
  by (induction ms arbitrary: D) (simp_all add: known_delete)

lemma rule_delta_id [simp]: "r_id (rule_delta old new cur) = r_id cur"
  by (simp add: rule_delta_def)

lemma known_store: "store_rule now old new D = Inr D' \<Longrightarrow> known_ids D' = known_ids D"
  by (auto simp: store_rule_def split: if_splits option.splits dest: get_rule_by_id_in intro!: known_replace)

lemma known_stores: "store_rules now ps D = Inr D' \<Longrightarrow> known_ids D' = known_ids D"
  by (induction now ps D rule: store_rules.induct) (auto simp: bind_sum_Inr known_store)

subsection \<open>Rows written from stale objects\<close>

text \<open>Each row after \<^verbatim>\<open>store_rules\<close> is a row as it was, or has the changed columns of the object with its identifier.\<close>

lemma store_rules_row:
  assumes "store_rules now ps D = Inr D'" "x' \<in> set (t_rules D')"
    and "distinct (map (r_id \<circ> fst) ps)" "\<And>old new. (old, new) \<in> set ps \<Longrightarrow> old \<noteq> new" "distinct (map r_id (t_rules D))"
  shows "\<exists>x \<in> set (t_rules D). (x' = x \<and> r_id x \<notin> (r_id \<circ> fst) ` set ps)
     \<or> (\<exists>(old, new) \<in> set ps. r_id old = r_id x \<and> x' = (rule_delta old new x)\<lparr>r_updated_at := now\<rparr>)"
  using assms
proof (induction now ps D rule: store_rules.induct)
  case (2 now old new ps D)
  then obtain cur where cur: "get_rule_by_id D (r_id old) = Some cur"
    and D1: "store_rules now ps (replace_rule now ((rule_delta old new cur)\<lparr>r_updated_at := now\<rparr>) D) = Inr D'"
    by (auto simp: bind_sum_Inr store_rule_def split: if_splits option.splits)
  let ?c = "(rule_delta old new cur)\<lparr>r_updated_at := now\<rparr>"
  let ?D = "replace_rule now ?c D"
  have c: "cur \<in> set (t_rules D)" "r_id cur = r_id old" using get_rule_by_id_in[OF cur] by auto
  have ids: "map r_id (t_rules ?D) = map r_id (t_rules D)" by (simp add: replace_rule_def)
  have dist: "distinct (map (r_id \<circ> fst) ps)" using 2(4) by (simp add: comp_def)
  have new: "\<And>old new. (old, new) \<in> set ps \<Longrightarrow> old \<noteq> new" using 2(5) by auto
  have rows: "distinct (map r_id (t_rules ?D))" using 2(6) ids by simp
  obtain y where y: "y \<in> set (t_rules ?D)" "(x' = y \<and> r_id y \<notin> (r_id \<circ> fst) ` set ps)
     \<or> (\<exists>(old, new) \<in> set ps. r_id old = r_id y \<and> x' = (rule_delta old new y)\<lparr>r_updated_at := now\<rparr>)"
    using 2(1)[OF D1 2(3) dist new rows] by blast
  from y(1) obtain x where x: "x \<in> set (t_rules D)" "y = (if r_id x = r_id old then ?c else x)"
    using c(2) by (auto simp: replace_rule_def)
  show ?case
  proof (cases "r_id x = r_id old")
    case True
    then have "x = cur" using distinct_map_same[OF 2(6) x(1) c(1)] c(2) by simp
    then have y': "y = (rule_delta old new x)\<lparr>r_updated_at := now\<rparr>" "r_id y = r_id old" using x(2) True by simp_all
    have "r_id o' \<noteq> r_id y" if "(o', n') \<in> set ps" for o' n'
    proof -
      have "r_id o' \<in> (\<lambda>p. r_id (fst p)) ` set ps" using imageI[OF that, of "\<lambda>p. r_id (fst p)"] by simp
      moreover have "r_id old \<notin> (\<lambda>p. r_id (fst p)) ` set ps" using 2(4) by (simp add: comp_def)
      ultimately show ?thesis unfolding y'(2) by metis
    qed
    then have "x' = y" using y(2) by auto
    then show ?thesis using y'(1) True by (intro bexI[OF _ x(1)]) auto
  next
    case False
    then have "y = x" using x(2) by simp
    from y(2) show ?thesis
    proof
      assume "x' = y \<and> r_id y \<notin> (r_id \<circ> fst) ` set ps"
      then show ?thesis using x(1) False \<open>y = x\<close> by auto
    next
      assume "\<exists>(old, new) \<in> set ps. r_id old = r_id y \<and> x' = (rule_delta old new y)\<lparr>r_updated_at := now\<rparr>"
      then have "\<exists>(old, new) \<in> set ((old, new) # ps). r_id old = r_id x \<and> x' = (rule_delta old new x)\<lparr>r_updated_at := now\<rparr>"
        using \<open>y = x\<close> by auto
      with x(1) show ?thesis by blast
    qed
  qed
qed auto

lemma store_rules_frame: "store_rules now ps D = Inr D' \<Longrightarrow> t_groups D' = t_groups D \<and> t_algorithms D' = t_algorithms D"
  by (induction now ps D rule: store_rules.induct)
    (auto simp: bind_sum_Inr store_rule_def split: if_splits option.splits)

subsection \<open>Members while their group is locked\<close>

text \<open>The columns that tie a member to its group; the rest is status, endpoint, version and authorship.\<close>

definition same_member :: "rule \<Rightarrow> rule \<Rightarrow> bool" where
  "same_member m x \<longleftrightarrow> r_id x = r_id m \<and> r_group_id x = r_group_id m \<and> r_overrides x = r_overrides m
     \<and> r_params x = r_params m \<and> r_priority x = r_priority m \<and> r_client_id x = r_client_id m
     \<and> r_algorithm_id x = r_algorithm_id m \<and> r_identifier_types x = r_identifier_types m
     \<and> r_identifier_signature x = r_identifier_signature m"

lemma same_member_refl [simp]: "same_member m m"
  by (simp add: same_member_def)

lemma same_rowI: "x \<in> set rs \<Longrightarrow> \<exists>y \<in> set rs. same_member y x"
  using same_member_refl by blast

lemma same_member_trans: "same_member a b \<Longrightarrow> same_member b c \<Longrightarrow> same_member a c"
  by (simp add: same_member_def)

lemma same_member_mirrors: "same_member m x \<Longrightarrow> mirrors g x = mirrors g m"
  by (simp add: same_member_def mirrors_def cong: option.case_cong)

lemma same_member_ok: "same_member m x \<Longrightarrow> membership_ok gs x = membership_ok gs m"
  using same_member_mirrors[of m x] by (simp add: membership_ok_def same_member_def cong: option.case_cong)

text \<open>The members read with the group are its members, up to those that have been deleted.\<close>

definition held :: "string \<Rightarrow> rule list \<Rightarrow> db \<Rightarrow> bool" where
  "held gid ms D \<longleftrightarrow> distinct (map r_id ms) \<and> (\<forall>m \<in> set ms. r_group_id m = Some gid \<and> r_id m \<in> known_ids D)
     \<and> (\<forall>x \<in> set (t_rules D). r_group_id x = Some gid \<longrightarrow> (\<exists>m \<in> set ms. same_member m x))
     \<and> (\<forall>x \<in> set (t_rules D). r_id x \<in> r_id ` set ms \<longrightarrow> r_group_id x = Some gid)"

lemma held_row:
  assumes "held gid ms D" "x \<in> set (t_rules D)" "m \<in> set ms" "r_id m = r_id x"
  shows "r_group_id x = Some gid" "same_member m x"
proof -
  show g: "r_group_id x = Some gid" using assms imageI[OF assms(3), of r_id] by (simp add: held_def)
  then obtain m' where m': "m' \<in> set ms" "same_member m' x" using assms(1,2) by (auto simp: held_def)
  have "distinct (map r_id ms)" using assms(1) by (simp add: held_def)
  then have "m' = m" using distinct_map_same[of r_id ms m' m] m' assms(3,4) by (simp add: same_member_def)
  with m' show "same_member m x" by simp
qed

lemma held_members:
  assumes "distinct (map r_id (t_rules D))"
  shows "held gid (list_by_group D gid) D"
  unfolding held_def
proof (intro conjI ballI impI)
  show "distinct (map r_id (list_by_group D gid))" using assms by (simp add: list_by_group_def distinct_map_filter)
  show "r_group_id m = Some gid" "r_id m \<in> known_ids D" if "m \<in> set (list_by_group D gid)" for m
    using that by (simp_all add: list_by_group_def known_ids_def)
  show "\<exists>m \<in> set (list_by_group D gid). same_member m x" if "x \<in> set (t_rules D)" "r_group_id x = Some gid" for x
    using that by (intro bexI[of _ x]) (simp_all add: list_by_group_def)
  fix x assume x: "x \<in> set (t_rules D)" "r_id x \<in> r_id ` set (list_by_group D gid)"
  then obtain m where "m \<in> set (t_rules D)" "r_group_id m = Some gid" "r_id x = r_id m" by (auto simp: list_by_group_def)
  with distinct_map_same[OF assms x(1)] show "r_group_id x = Some gid" by blast
qed

text \<open>A step that leaves the group \<open>gid\<close> and its members alone, where \<open>N\<close> are the identifiers it may give to new rules.\<close>

definition spared :: "string set \<Rightarrow> string \<Rightarrow> db \<Rightarrow> db \<Rightarrow> bool" where
  "spared N gid D D' \<longleftrightarrow> (\<forall>g. get_group_by_id D gid = Some g \<longrightarrow> get_group_by_id D' gid = Some g)
     \<and> (\<forall>x' \<in> set (t_rules D'). (\<exists>x \<in> set (t_rules D). same_member x x')
          \<or> (r_group_id x' \<noteq> Some gid \<and> (r_id x' \<in> N \<or> (\<exists>x \<in> set (t_rules D). r_id x = r_id x' \<and> r_group_id x \<noteq> Some gid))))"

lemma sparedD:
  assumes "spared N gid D D'" "x' \<in> set (t_rules D')"
  shows "(\<exists>x \<in> set (t_rules D). same_member x x')
     \<or> (r_group_id x' \<noteq> Some gid \<and> (r_id x' \<in> N \<or> (\<exists>x \<in> set (t_rules D). r_id x = r_id x' \<and> r_group_id x \<noteq> Some gid)))"
  using assms unfolding spared_def by (elim conjE) (erule bspec)

lemma held_spared:
  assumes "held gid ms D" "spared N gid D D'" "N \<inter> known_ids D = {}" "known_ids D \<subseteq> known_ids D'"
  shows "held gid ms D'"
  unfolding held_def
proof (intro conjI ballI impI)
  show "distinct (map r_id ms)" using assms(1) by (simp add: held_def)
  show "r_group_id m = Some gid" "r_id m \<in> known_ids D'" if "m \<in> set ms" for m using assms(1,4) that by (auto simp: held_def)
next
  fix x' assume x': "x' \<in> set (t_rules D')"
  show "\<exists>m \<in> set ms. same_member m x'" if "r_group_id x' = Some gid"
  proof -
    have "\<exists>x \<in> set (t_rules D). same_member x x'" using sparedD[OF assms(2) x'] that by blast
    then obtain x where x: "x \<in> set (t_rules D)" "same_member x x'" ..
    then have "r_group_id x = Some gid" using that by (simp add: same_member_def)
    then obtain m where "m \<in> set ms" "same_member m x" using assms(1) x(1) unfolding held_def by blast
    then show ?thesis using same_member_trans x(2) by blast
  qed
  show "r_group_id x' = Some gid" if id: "r_id x' \<in> r_id ` set ms"
  proof -
    have "r_id x' \<notin> N" using id assms(1,3) by (auto simp: held_def)
    then have "(\<exists>x \<in> set (t_rules D). same_member x x') \<or> (\<exists>x \<in> set (t_rules D). r_id x = r_id x' \<and> r_group_id x \<noteq> Some gid)"
      using sparedD[OF assms(2) x'] by blast
    then obtain x where x: "x \<in> set (t_rules D)" "r_id x = r_id x'" "same_member x x' \<or> r_group_id x \<noteq> Some gid"
      by (auto simp: same_member_def)
    then have "r_group_id x = Some gid" using assms(1) id by (simp add: held_def)
    with x(3) show ?thesis by (simp add: same_member_def)
  qed
qed

end
