(* ===== verification/Group_Locks.thy ===== *)
theory Group_Locks
  imports Locked_Members
begin

text \<open>
  What the row locks of \<^verbatim>\<open>services/rule_group_service.py\<close> are for: while a request holds the group's
  row, no other one adds, recomputes or releases its members, so that the members it read are still the
  members of the group when it writes them, or gone.  Every handler that goes through the lock keeps the
  store well-formed in every interleaving (\<open>locks_ok\<close>); \<open>stale_move\<close> is about one that does not.
\<close>

subsection \<open>What holds of an open request\<close>

fun open_ok :: "db \<Rightarrow> open_request \<Rightarrow> bool" where
  "open_ok D (OpenCreateRule E r) \<longleftrightarrow> rule_ok (d_coercions E) (t_algorithms D) r \<and> r_group_id r = None \<and> r_overrides r = None"
| "open_ok D (OpenUpdateRule E old new) \<longleftrightarrow> same_member old new \<and> r_status new \<in> {''active'', ''inactive''}"
| "open_ok D (OpenAddMembers E g ps) \<longleftrightarrow> get_group_by_id D (g_id g) = Some g
     \<and> (\<forall>(ep, ov, merged) \<in> set ps. algorithm_builds (d_coercions E) (t_algorithms D) (g_algorithm_id g) merged
          \<and> unknown_keys (g_params g) ov = [] \<and> merged = compute_effective_params (g_params g) ov)"
| "open_ok D (OpenUpdateGroup E g data ms) \<longleftrightarrow> get_group_by_id D (g_id g) = Some g \<and> held (g_id g) (map fst ms) D
     \<and> (\<forall>(m, ps) \<in> set ms. unknown_keys (g_params (updated_group g data)) (or_empty (r_overrides m)) = []
          \<and> ps = compute_effective_params (g_params (updated_group g data)) (or_empty (r_overrides m))
          \<and> algorithm_builds (d_coercions E) (t_algorithms D) (g_algorithm_id g) ps)"
| "open_ok D (OpenDeleteGroup E gid mode ms) \<longleftrightarrow> get_group_by_id D gid \<noteq> None \<and> held gid ms D"
| "open_ok D (OpenDetachRule E old new) \<longleftrightarrow> False"
| "open_ok D (OpenMoveRule E g old new) \<longleftrightarrow> False"
| "open_ok D (OpenWhole E oper) \<longleftrightarrow> (case oper of CreateGroup _ \<Rightarrow> True | CreateClient _ \<Rightarrow> True | UpdateClient _ _ \<Rightarrow> True | _ \<Rightarrow> False)"
| "open_ok D _ \<longleftrightarrow> True"

text \<open>What a request that ends does to the rest: it keeps the invariant and spares every group it does not lock.\<close>

definition good_step :: "db_env \<Rightarrow> open_request \<Rightarrow> db \<Rightarrow> db \<Rightarrow> bool" where
  "good_step E q D D' \<longleftrightarrow> store_ok E D' \<and> t_algorithms D' = t_algorithms D
     \<and> known_ids D \<subseteq> known_ids D' \<and> known_ids D' \<subseteq> known_ids D \<union> new_ids q
     \<and> (\<forall>gid. locked_group q \<noteq> Some gid \<longrightarrow> get_group_by_id D gid \<noteq> None \<longrightarrow> spared (new_ids q) gid D D')"

lemma spared_refl [simp]: "spared N gid D D"
  by (simp add: spared_def same_rowI)

lemma good_refl: "store_ok E D \<Longrightarrow> good_step E q D D"
  by (simp add: good_step_def)

lemma good_commit:
  assumes "store_ok E D" "\<And>D1. x = Inr D1 \<Longrightarrow> int4_columns (f D1) \<Longrightarrow> integrity (d_pg_lower E) (f D1) \<Longrightarrow> good_step E q D (f D1)"
  shows "good_step E q D (snd (transaction D (bind_sum x (\<lambda>D1. commit_else (d_pg_lower E) e a (f D1)))))"
  using assms by (cases x) (auto simp: transaction_def commit_else_def good_refl commit_Inr split: sum.splits)

lemma good_commit1:
  assumes "store_ok E D" "int4_columns D1 \<Longrightarrow> integrity (d_pg_lower E) D1 \<Longrightarrow> good_step E q D D1"
  shows "good_step E q D (snd (transaction D (commit_else (d_pg_lower E) e a D1)))"
  using good_commit[where x = "Inr D1" and f = "\<lambda>D. D" and E = E and D = D and q = q and e = e and a = a] assms by simp

lemma spared_same_groups:
  assumes "t_groups D' = t_groups D"
    "\<And>x'. x' \<in> set (t_rules D') \<Longrightarrow> x' \<in> set (t_rules D) \<or> (\<exists>x \<in> set (t_rules D). same_member x x')
       \<or> r_group_id x' \<noteq> Some gid \<and> r_id x' \<in> N"
  shows "spared N gid D D'"
  unfolding spared_def
proof (intro conjI allI impI ballI)
  show "get_group_by_id D' gid = Some g" if "get_group_by_id D gid = Some g" for g
    using that assms(1) by (simp add: get_group_by_id_def)
  show "(\<exists>x \<in> set (t_rules D). same_member x x')
      \<or> r_group_id x' \<noteq> Some gid \<and> (r_id x' \<in> N \<or> (\<exists>x \<in> set (t_rules D). r_id x = r_id x' \<and> r_group_id x \<noteq> Some gid))"
    if "x' \<in> set (t_rules D')" for x'
    using assms(2)[OF that] same_rowI[of x'] by blast
qed

lemma good_frame:
  assumes "store_ok E D'" "t_rules D' = t_rules D" "t_history D' = t_history D" "t_groups D' = t_groups D"
    "t_algorithms D' = t_algorithms D"
  shows "good_step E q D D'"
proof -
  have "spared (new_ids q) gid D D'" for gid using assms(2,4) by (intro spared_same_groups) simp_all
  then show ?thesis using assms known_frame[OF assms(2,3)] by (simp add: good_step_def)
qed

lemma finish_create_rule:
  assumes "store_ok E D" "open_ok D (OpenCreateRule E r)"
  shows "good_step E (OpenCreateRule E r) D (snd (finish_request (OpenCreateRule E r) D))"
proof -
  let ?D = "insert_rule (d_now E) r D"
  have "rules_ok (d_coercions E) ?D"
    using assms by (intro rules_ok_insert) (simp_all add: store_ok_def membership_ok_def)
  then have "good_step E (OpenCreateRule E r) D ?D" if "int4_columns ?D" "integrity (d_pg_lower E) ?D"
    using that assms(2)
    by (auto simp: good_step_def store_ok_def known_insert intro!: spared_same_groups)
  from good_commit1[OF assms(1) this] show ?thesis unfolding finish_request.simps snd_outcome .
qed

lemma finish_status:
  assumes "store_ok E D" "open_ok D (OpenUpdateRule E old new)"
  shows "good_step E (OpenUpdateRule E old new) D (snd (finish_request (OpenUpdateRule E old new) D))"
proof (cases "store_rule (d_now E) old new D")
  case (Inr D1)
  have ok: "rules_ok (d_coercions E) D" using assms(1) by (simp add: store_ok_def)
  have same: "same_member x ((rule_delta old new x)\<lparr>r_updated_at := t\<rparr>)" for x t
    using assms(2) by (simp add: same_member_def rule_delta_def)
  have "rules_ok (d_coercions E) D1 \<and> (\<forall>x' \<in> set (t_rules D1). \<exists>x \<in> set (t_rules D). same_member x x')
     \<and> t_groups D1 = t_groups D \<and> t_algorithms D1 = t_algorithms D"
  proof (cases "old = new")
    case True
    then show ?thesis using Inr ok by (auto simp: store_rule_def same_rowI)
  next
    case False
    then obtain cur where cur: "get_rule_by_id D (r_id old) = Some cur"
      and D1: "D1 = replace_rule (d_now E) ((rule_delta old new cur)\<lparr>r_updated_at := d_now E\<rparr>) D"
      using Inr by (auto simp: store_rule_def split: option.splits)
    have c: "cur \<in> set (t_rules D)" using get_rule_by_id_in[OF cur] by simp
    note old = rules_okD[OF ok c]
    have "rule_ok (d_coercions E) (t_algorithms D) ((rule_delta old new cur)\<lparr>r_updated_at := d_now E\<rparr>)"
      using old(1) assms(2) same[of cur] by (auto simp: rule_ok_def same_member_def rule_delta_def column_def)
    moreover have "membership_ok (t_groups D) ((rule_delta old new cur)\<lparr>r_updated_at := d_now E\<rparr>)"
      using old(2) same_member_ok[OF same] by simp
    ultimately have "rules_ok (d_coercions E) D1" using ok unfolding D1 by (intro rules_ok_replace)
    moreover have "\<forall>x' \<in> set (t_rules D1). \<exists>x \<in> set (t_rules D). same_member x x'"
      using c same by (auto simp: D1 replace_rule_def same_rowI)
    ultimately show ?thesis by (simp add: D1)
  qed
  then have "good_step E (OpenUpdateRule E old new) D D1" if "int4_columns D1" "integrity (d_pg_lower E) D1"
    using that known_store[OF Inr] by (auto simp: good_step_def store_ok_def intro!: spared_same_groups)
  from good_commit1[OF assms(1) this] show ?thesis using Inr by (simp add: commit_rule_def del: outcome_Inl outcome_Inr)
qed (use assms(1) in \<open>simp add: commit_rule_def good_refl\<close>)

lemma finish_delete_rule:
  assumes "store_ok E D"
  shows "good_step E (OpenDeleteRule E r) D (snd (finish_request (OpenDeleteRule E r) D))"
proof -
  let ?D = "delete_rule_row (d_now E) (r_id r) D"
  have "rules_ok (d_coercions E) ?D" using assms by (intro rules_ok_delete) (simp add: store_ok_def)
  then have "good_step E (OpenDeleteRule E r) D ?D" if "int4_columns ?D" "integrity (d_pg_lower E) ?D"
    using that by (auto simp: good_step_def store_ok_def known_delete delete_rule_rules intro!: spared_same_groups)
  from good_commit1[OF assms(1) this] show ?thesis unfolding finish_request.simps snd_outcome .
qed

lemma finish_secrets:
  assumes "store_ok E D"
  shows "good_step E (OpenAddSecret E s) D (snd (finish_request (OpenAddSecret E s) D))"
    "good_step E (OpenRevokeSecret E s) D (snd (finish_request (OpenRevokeSecret E s) D))"
proof -
  have ok: "rules_ok (d_coercions E) (insert_secret s' D)" "rules_ok (d_coercions E) (store_secret s' D)" for s'
    using assms by (simp_all add: store_ok_def rules_ok_def insert_secret_def store_secret_def)
  have "good_step E q D (insert_secret s' D)" if "int4_columns (insert_secret s' D)" "integrity (d_pg_lower E) (insert_secret s' D)" for q s'
    by (rule good_frame) (use that ok(1) in \<open>simp add: store_ok_def\<close>, simp_all add: insert_secret_def)
  from good_commit1[OF assms this] show "good_step E (OpenAddSecret E s) D (snd (finish_request (OpenAddSecret E s) D))"
    unfolding finish_request.simps snd_outcome .
  have "good_step E q D (store_secret s' D)" if "int4_columns (store_secret s' D)" "integrity (d_pg_lower E) (store_secret s' D)" for q s'
    by (rule good_frame) (use that ok(2) in \<open>simp add: store_ok_def\<close>, simp_all add: store_secret_def)
  from good_commit1[OF assms this] show "good_step E (OpenRevokeSecret E s) D (snd (finish_request (OpenRevokeSecret E s) D))"
    unfolding finish_request.simps snd_outcome .
qed

subsection \<open>Requests that hold a lock\<close>

lemma members_inserted:
  assumes "x' \<in> set (t_rules (insert_members E g i ps D))"
  shows "x' \<in> set (t_rules D) \<or> (r_group_id x' = Some (g_id g) \<and> r_id x' \<in> range (d_ids E))"
  using assms by (auto simp: insert_members_rules member_rule_def)

lemma finish_add_members:
  assumes "store_ok E D" "open_ok D (OpenAddMembers E g ps)"
  shows "good_step E (OpenAddMembers E g ps) D (snd (finish_request (OpenAddMembers E g ps) D))"
proof -
  let ?q = "OpenAddMembers E g ps" and ?D = "insert_members E g 0 ps D"
  have "rules_ok (d_coercions E) ?D"
  proof (rule rules_ok_insert_members)
    show "rules_ok (d_coercions E) D" using assms(1) by (simp add: store_ok_def)
    show "g \<in> set (t_groups D)" using assms(2) get_group_by_id_in by auto
  qed (use assms(2) in auto)
  moreover have "spared (new_ids ?q) gid D ?D" if "locked_group ?q \<noteq> Some gid" for gid
    using that insert_members_frame[of E g 0 ps D] by (intro spared_same_groups) (auto dest: members_inserted)
  ultimately have "good_step E ?q D ?D" if "int4_columns ?D" "integrity (d_pg_lower E) ?D"
    using that known_insert_members[of E g 0 ps D] known_insert_members'[of D E g 0 ps] insert_members_frame[of E g 0 ps D]
    by (simp add: good_step_def store_ok_def)
  from good_commit1[OF assms(1) this] show ?thesis unfolding finish_request.simps snd_outcome .
qed

text \<open>A member that is written as \<^verbatim>\<open>update_group\<close> has computed it mirrors the group as it is written.\<close>

lemma recomputed_member:
  fixes t :: int
  assumes "same_member m x" "mirrors g x" "rule_ok c algs x"
    and v: "unknown_keys (g_params (updated_group g data)) (or_empty (r_overrides m)) = []"
      "ps = compute_effective_params (g_params (updated_group g data)) (or_empty (r_overrides m))"
      "algorithm_builds c algs (g_algorithm_id g) ps"
  defines "x' \<equiv> (rule_delta m (updated_member (updated_group g data) data m ps) x)\<lparr>r_updated_at := t\<rparr>"
  shows "r_id x' = r_id x" "r_group_id x' = r_group_id x" "mirrors (updated_group g data) x'" "rule_ok c algs x'"
proof -
  obtain ov where ov: "r_overrides m = Some ov" "r_overrides x = Some ov"
    using assms(1,2) by (auto simp: mirrors_def same_member_def split: option.splits)
  show "r_id x' = r_id x" "r_group_id x' = r_group_id x"
    by (simp_all add: x'_def rule_delta_def updated_member_def column_def)
  have params: "r_params x' = ps" using assms(1) by (auto simp: x'_def rule_delta_def updated_member_def column_def same_member_def)
  have prio: "r_priority x' = g_priority (updated_group g data)"
    using assms(1,2) by (auto simp: x'_def rule_delta_def updated_member_def column_def same_member_def mirrors_def)
  have rest: "r_client_id x' = r_client_id x" "r_algorithm_id x' = r_algorithm_id x" "r_identifier_types x' = r_identifier_types x"
      "r_identifier_signature x' = r_identifier_signature x" "r_overrides x' = Some ov" "r_status x' = r_status x"
    using ov by (simp_all add: x'_def rule_delta_def updated_member_def column_def)
  show "mirrors (updated_group g data) x'"
    using assms(2) v(1,2) ov params prio rest by (simp add: mirrors_def or_empty_def)
  show "rule_ok c algs x'"
    using assms(2,3) v(3) params rest by (simp add: rule_ok_def mirrors_def)
qed

lemma get_mirrored:
  assumes "store_ok E D" "get_group_by_id D gid = Some g" "x \<in> set (t_rules D)" "r_group_id x = Some gid"
  shows "mirrors g x"
  using group_of_member[OF assms(1,3,4)] assms(2) by auto

lemma find_map_other:
  assumes "find (\<lambda>g. g_id g = gid) gs = Some h" "gid \<noteq> k" "g_id new = k"
  shows "find (\<lambda>g. g_id g = gid) (map (\<lambda>x. if g_id x = k then new else x) gs) = Some h"
  using assms by (induction gs) (auto split: if_splits)

lemma find_filter_other: "gid \<noteq> k \<Longrightarrow> find (\<lambda>g. g_id g = gid) (filter (\<lambda>g. g_id g \<noteq> k) gs) = find (\<lambda>g. g_id g = gid) gs"
  by (induction gs) auto

lemma membership_ok_other:
  assumes "membership_ok gs x" "r_group_id x \<noteq> Some (g_id new)"
  shows "membership_ok (map (\<lambda>h. if g_id h = g_id new then new else h) gs) x"
  using assms by (auto simp: membership_ok_def list_ex_iff split: option.splits)

lemma version_raised: "m \<noteq> updated_member g' data m ps"
proof -
  have "r_version (updated_member g' data m ps) \<noteq> r_version m" by (simp add: updated_member_def)
  then show ?thesis by metis
qed

lemma update_group_rows:
  assumes "store_ok E D" "open_ok D (OpenUpdateGroup E g data ms)"
    and D3: "store_rules now (map (\<lambda>(m, ps). (m, updated_member (updated_group g data) data m ps)) ms) D2 = Inr D3"
    and D2: "t_rules D2 = t_rules D" and "x' \<in> set (t_rules D3)"
  shows "\<exists>x \<in> set (t_rules D). r_id x' = r_id x \<and> r_group_id x' = r_group_id x
     \<and> (if r_group_id x = Some (g_id g) then mirrors (updated_group g data) x' \<and> rule_ok (d_coercions E) (t_algorithms D) x' else x' = x)"
proof -
  let ?rows = "map (\<lambda>(m, ps). (m, updated_member (updated_group g data) data m ps)) ms"
  have h: "get_group_by_id D (g_id g) = Some g" "held (g_id g) (map fst ms) D" using assms(2) by auto
  have v: "unknown_keys (g_params (updated_group g data)) (or_empty (r_overrides m)) = []"
      "ps = compute_effective_params (g_params (updated_group g data)) (or_empty (r_overrides m))"
      "algorithm_builds (d_coercions E) (t_algorithms D) (g_algorithm_id g) ps" if "(m, ps) \<in> set ms" for m ps
    using assms(2) that by auto
  have fsts: "map (r_id \<circ> fst) ?rows = map r_id (map fst ms)" by (simp add: case_prod_unfold)
  have "distinct (map r_id (map fst ms))" using h(2) by (simp add: held_def)
  then have d: "distinct (map (r_id \<circ> fst) ?rows)" by (simp add: fsts del: map_map)
  have ids: "(r_id \<circ> fst) ` set ?rows = r_id ` set (map fst ms)" using arg_cong[OF fsts, of set] by (simp only: set_map)
  have ne: "old \<noteq> new" if "(old, new) \<in> set ?rows" for old new using that version_raised by auto
  have dr: "distinct (map r_id (t_rules D2))" using store_ok_ids(1)[OF assms(1)] D2 by simp
  obtain x where x: "x \<in> set (t_rules D)" and row: "(x' = x \<and> r_id x \<notin> r_id ` set (map fst ms))
     \<or> (\<exists>(old, new) \<in> set ?rows. r_id old = r_id x \<and> x' = (rule_delta old new x)\<lparr>r_updated_at := now\<rparr>)"
    using store_rules_row[OF D3 assms(5) d ne dr] unfolding D2 ids by blast
  note ok = rules_okD[OF _ x] and mir = get_mirrored[OF assms(1) h(1) x]
  from row show ?thesis
  proof
    assume un: "x' = x \<and> r_id x \<notin> r_id ` set (map fst ms)"
    have "r_group_id x \<noteq> Some (g_id g)"
    proof
      assume "r_group_id x = Some (g_id g)"
      then obtain m where "m \<in> set (map fst ms)" "same_member m x" using h(2) x unfolding held_def by blast
      then show False using un by (auto simp: same_member_def)
    qed
    with un x show ?thesis by auto
  next
    assume "\<exists>(old, new) \<in> set ?rows. r_id old = r_id x \<and> x' = (rule_delta old new x)\<lparr>r_updated_at := now\<rparr>"
    then obtain m ps where m: "(m, ps) \<in> set ms" "r_id m = r_id x"
      and x': "x' = (rule_delta m (updated_member (updated_group g data) data m ps) x)\<lparr>r_updated_at := now\<rparr>" by auto
    have "m \<in> set (map fst ms)" using m(1) by force
    note row = held_row[OF h(2) x this m(2)]
    have "rule_ok (d_coercions E) (t_algorithms D) x" using ok assms(1) by (simp add: store_ok_def)
    note new = recomputed_member[OF row(2) mir[OF row(1)] this v[OF m(1)], where t = now, folded x']
    show ?thesis using x row(1) new by (intro bexI[of _ x]) simp_all
  qed
qed

lemma finish_update_group:
  assumes "store_ok E D" "open_ok D (OpenUpdateGroup E g data ms)"
  shows "good_step E (OpenUpdateGroup E g data ms) D (snd (finish_request (OpenUpdateGroup E g data ms) D))"
proof -
  let ?q = "OpenUpdateGroup E g data ms" and ?g1 = "renamed_group g data" and ?g2 = "updated_group g data"
  let ?D2 = "store_group (d_now E) ?g1 ?g2 (store_group (d_now E) g ?g1 D)"
  let ?rows = "map (\<lambda>(m, ps). (m, updated_member ?g2 data m ps)) ms"
  have "good_step E ?q D D3" if "map_sum db_exception id (store_rules (d_now E) ?rows ?D2) = Inr D3"
      and db: "int4_columns D3" "integrity (d_pg_lower E) D3" for D3
  proof -
    have D3: "store_rules (d_now E) ?rows ?D2 = Inr D3" using that(1) by (simp add: map_sum_Inr)
    have g: "get_group_by_id D (g_id g) = Some g" using assms(2) by simp
    then have gin: "g \<in> set (t_groups D)" using get_group_by_id_in by blast
    have "\<exists>u. t_groups ?D2 = map (\<lambda>h. if g_id h = g_id g then ?g2\<lparr>g_updated_at := u\<rparr> else h) (t_groups D)"
      by (rule store_group_twice[OF store_ok_ids(2)[OF assms(1)] gin]) simp_all
    then obtain u where "t_groups ?D2 = map (\<lambda>h. if g_id h = g_id g then ?g2\<lparr>g_updated_at := u\<rparr> else h) (t_groups D)" ..
    then have gs: "t_groups D3 = map (\<lambda>h. if g_id h = g_id g then ?g2\<lparr>g_updated_at := u\<rparr> else h) (t_groups D)"
      using store_rules_frame[OF D3] by simp
    have algs: "t_algorithms D3 = t_algorithms D" using store_rules_frame[OF D3] by simp
    have "t_rules ?D2 = t_rules D" by simp
    note rows = update_group_rows[OF assms D3 this]
    have ok: "rules_ok (d_coercions E) D" using assms(1) by (simp add: store_ok_def)
    let ?new = "?g2\<lparr>g_updated_at := u\<rparr>"
    have new: "?new \<in> set (t_groups D3)" "g_id ?new = g_id g" using gin by (auto simp: gs)
    have "rule_ok (d_coercions E) (t_algorithms D3) x' \<and> membership_ok (t_groups D3) x'" if x': "x' \<in> set (t_rules D3)" for x'
    proof -
      obtain x where x: "x \<in> set (t_rules D)" "r_group_id x' = r_group_id x"
          "if r_group_id x = Some (g_id g) then mirrors ?g2 x' \<and> rule_ok (d_coercions E) (t_algorithms D) x' else x' = x"
        using rows[OF x'] by blast
      show ?thesis
      proof (cases "r_group_id x = Some (g_id g)")
        case True
        then have "mirrors ?new x'" using x(3) by (simp add: mirrors_group_touch)
        with True x new show ?thesis by (auto simp: membership_ok_def list_ex_iff algs intro!: bexI[of _ ?new])
      next
        case False
        then have "x' = x" using x(3) by simp
        then show ?thesis
          using rules_okD[OF ok x(1)] membership_ok_other[of "t_groups D" x ?new] False by (simp add: algs gs)
      qed
    qed
    moreover have "groups_ok (t_groups D3)" using ok gin by (auto simp: gs groups_ok_def rules_ok_def list_all_iff)
    ultimately have "rules_ok (d_coercions E) D3" by (simp add: rules_ok_def list_all_iff)
    moreover have "spared (new_ids ?q) gid D D3" if "locked_group ?q \<noteq> Some gid" for gid
      unfolding spared_def
    proof (intro conjI allI impI ballI)
      show "get_group_by_id D3 gid = Some h" if "get_group_by_id D gid = Some h" for h
        using find_map_other[of gid "t_groups D" h "g_id g" ?new] that \<open>locked_group ?q \<noteq> Some gid\<close>
        by (simp add: get_group_by_id_def gs)
      fix x' assume x': "x' \<in> set (t_rules D3)"
      obtain x where x: "x \<in> set (t_rules D)" "r_id x' = r_id x" "r_group_id x' = r_group_id x" "r_group_id x \<noteq> Some (g_id g) \<Longrightarrow> x' = x"
        using rows[OF x'] by (metis (full_types))
      show "(\<exists>x \<in> set (t_rules D). same_member x x')
        \<or> r_group_id x' \<noteq> Some gid \<and> (r_id x' \<in> new_ids ?q \<or> (\<exists>x \<in> set (t_rules D). r_id x = r_id x' \<and> r_group_id x \<noteq> Some gid))"
      proof (cases "r_group_id x = Some (g_id g)")
        case True
        with x that show ?thesis by auto
      next
        case False
        with x show ?thesis using same_rowI by blast
      qed
    qed
    moreover have "known_ids D3 = known_ids D" using known_stores[OF D3] known_frame[of ?D2 D] by simp
    ultimately show ?thesis using db algs by (simp add: good_step_def store_ok_def)
  qed
  from good_commit[where f = "\<lambda>D. D", OF assms(1) this] show ?thesis
    unfolding finish_request.simps snd_outcome Let_def by simp
qed

text \<open>
  Deleting the group: the foreign key of \<^verbatim>\<open>rules.group_id\<close> refuses the commit while a row still refers to it,
  so what remains belongs to other groups.
\<close>

lemma group_deleted_ok:
  assumes "rules_ok c D" "rules_integrity (delete_group_row gid D1)" "t_groups D1 = t_groups D" "t_algorithms D1 = t_algorithms D"
    and rows: "\<And>x'. x' \<in> set (t_rules D1) \<Longrightarrow> \<exists>x \<in> set (t_rules D). x' = x
       \<or> (r_group_id x' = None \<and> rule_ok c (t_algorithms D) x')"
  shows "rules_ok c (delete_group_row gid D1)"
proof -
  let ?D = "delete_group_row gid D1"
  have gs: "t_groups ?D = filter (\<lambda>g. g_id g \<noteq> gid) (t_groups D)" and fr: "t_rules ?D = t_rules D1" "t_algorithms ?D = t_algorithms D"
    using assms(3,4) by (simp_all add: delete_group_row_def)
  have "rule_ok c (t_algorithms ?D) x' \<and> membership_ok (t_groups ?D) x'" if x': "x' \<in> set (t_rules ?D)" for x'
  proof -
    have fk: "ck_rules_overrides_requires_group x'" "\<And>k. r_group_id x' = Some k \<Longrightarrow> k \<in> set (map g_id (t_groups ?D))"
      using assms(2) x' by (auto simp: rules_integrity_def list_all_iff)
    obtain x where x: "x \<in> set (t_rules D)" "x' = x \<or> (r_group_id x' = None \<and> rule_ok c (t_algorithms D) x')"
      using rows x' fr(1) by auto
    note old = rules_okD[OF assms(1) x(1)]
    show ?thesis
    proof (cases "r_group_id x'")
      case None
      then show ?thesis using x old fk(1) by (auto simp: fr membership_ok_def ck_rules_overrides_requires_group_def)
    next
      case (Some k)
      then have "x' = x" "k \<noteq> gid" using x(2) fk(2)[OF Some] by (auto simp: gs)
      then show ?thesis using old Some by (auto simp: fr gs membership_ok_def list_ex_iff)
    qed
  qed
  moreover have "groups_ok (t_groups ?D)" using assms(1) by (auto simp: gs rules_ok_def groups_ok_def list_all_iff)
  ultimately show ?thesis by (simp add: rules_ok_def list_all_iff)
qed

lemma detached_member:
  assumes "same_member m x" "r_group_id m = Some gid" "rule_ok c algs x"
  shows "r_group_id ((rule_delta m (detached_row m) x)\<lparr>r_updated_at := t\<rparr>) = None"
    "rule_ok c algs ((rule_delta m (detached_row m) x)\<lparr>r_updated_at := t\<rparr>)"
  using assms by (simp_all add: rule_delta_def detached_row_def column_def rule_ok_def)

lemma finish_delete_group:
  assumes "store_ok E D" "open_ok D (OpenDeleteGroup E gid mode ms)"
  shows "good_step E (OpenDeleteGroup E gid mode ms) D (snd (finish_request (OpenDeleteGroup E gid mode ms) D))"
proof -
  let ?q = "OpenDeleteGroup E gid mode ms"
  let ?x = "case mode of DeleteMembers \<Rightarrow> Inr (fold (\<lambda>m. delete_rule_row (d_now E) (r_id m)) ms D)
        | DetachMembers \<Rightarrow> map_sum db_exception id (store_rules (d_now E) (map (\<lambda>m. (m, detached_row m)) ms) D)"
  have h: "held gid ms D" using assms(2) by simp
  have ok: "rules_ok (d_coercions E) D" using assms(1) by (simp add: store_ok_def)
  have "good_step E ?q D (delete_group_row gid D1)" if x: "?x = Inr D1"
    and db: "int4_columns (delete_group_row gid D1)" "integrity (d_pg_lower E) (delete_group_row gid D1)" for D1
  proof -
    have fr: "t_groups D1 = t_groups D" "t_algorithms D1 = t_algorithms D" "known_ids D1 = known_ids D"
      using x delete_rules_fold[of "d_now E" ms D] known_deletes[of "d_now E" ms D]
      by (cases mode; auto simp: map_sum_Inr dest: store_rules_frame known_stores)+
    have rows: "\<exists>x \<in> set (t_rules D). x' = x \<or> (r_id x' = r_id x \<and> r_group_id x = Some gid
        \<and> r_group_id x' = None \<and> rule_ok (d_coercions E) (t_algorithms D) x')" if x': "x' \<in> set (t_rules D1)" for x'
    proof (cases mode)
      case DeleteMembers
      then show ?thesis using x x' delete_rules_fold[of "d_now E" ms D] by auto
    next
      case DetachMembers
      let ?rows = "map (\<lambda>m. (m, detached_row m)) ms"
      have D1: "store_rules (d_now E) ?rows D = Inr D1" using x DetachMembers by (simp add: map_sum_Inr)
      have d: "distinct (map (r_id \<circ> fst) ?rows)" using h by (simp add: held_def comp_def)
      have ne: "old \<noteq> new" if "(old, new) \<in> set ?rows" for old new
      proof -
        have "r_group_id old = Some gid" "r_group_id new = None" using h that by (auto simp: held_def detached_row_def)
        then show ?thesis by auto
      qed
      obtain y where y: "y \<in> set (t_rules D)" "x' = y
         \<or> (\<exists>(old, new) \<in> set ?rows. r_id old = r_id y \<and> x' = (rule_delta old new y)\<lparr>r_updated_at := d_now E\<rparr>)"
        using store_rules_row[OF D1 x' d ne store_ok_ids(1)[OF assms(1)]] by blast
      from y(2) show ?thesis
      proof
        assume "\<exists>(old, new) \<in> set ?rows. r_id old = r_id y \<and> x' = (rule_delta old new y)\<lparr>r_updated_at := d_now E\<rparr>"
        then obtain m where m: "m \<in> set ms" "r_id m = r_id y"
          and x': "x' = (rule_delta m (detached_row m) y)\<lparr>r_updated_at := d_now E\<rparr>" by auto
        note row = held_row[OF h y(1) m]
        have "r_group_id m = Some gid" using h m(1) by (simp add: held_def)
        note new = detached_member[OF row(2) this rules_okD(1)[OF ok y(1)], where t = "d_now E", folded x']
        show ?thesis using y(1) row(1) new by (intro bexI[of _ y]) (simp_all add: x')
      qed (use y(1) in blast)
    qed
    have "rules_ok (d_coercions E) (delete_group_row gid D1)"
      using db(2) rows fr by (intro group_deleted_ok[OF ok]) (simp_all add: integrity_def, blast)
    moreover have "spared (new_ids ?q) k D (delete_group_row gid D1)" if "locked_group ?q \<noteq> Some k" for k
      unfolding spared_def
    proof (intro conjI allI impI ballI)
      show "get_group_by_id (delete_group_row gid D1) k = Some g" if "get_group_by_id D k = Some g" for g
        using that find_filter_other[of k gid "t_groups D"] \<open>locked_group ?q \<noteq> Some k\<close>
        by (simp add: get_group_by_id_def delete_group_row_def fr)
      fix x' assume "x' \<in> set (t_rules (delete_group_row gid D1))"
      then have "x' \<in> set (t_rules D1)" by (simp add: delete_group_row_def)
      from rows[OF this] show "(\<exists>x \<in> set (t_rules D). same_member x x')
        \<or> r_group_id x' \<noteq> Some k \<and> (r_id x' \<in> new_ids ?q \<or> (\<exists>x \<in> set (t_rules D). r_id x = r_id x' \<and> r_group_id x \<noteq> Some k))"
        using same_rowI that by (metis locked_group.simps(2) option.distinct(1))
    qed
    moreover have "known_ids (delete_group_row gid D1) = known_ids D"
      using fr(3) known_frame[of "delete_group_row gid D1" D1] by (simp add: delete_group_row_def)
    ultimately show ?thesis using db fr by (simp add: good_step_def store_ok_def) (simp add: delete_group_row_def)
  qed
  from good_commit[where f = "delete_group_row gid", OF assms(1) this] show ?thesis
    unfolding finish_request.simps snd_outcome by simp
qed

subsection \<open>The operations that stay one step\<close>

lemma find_before: "find P xs = Some y \<Longrightarrow> find P (xs @ ys) = Some y"
  by (induction xs) auto

lemma finish_create_group:
  assumes "store_ok E D"
  shows "good_step E (OpenWhole E (CreateGroup data)) D (snd (create_group E data D))"
proof (rule transaction_ok[where P = "good_step E (OpenWhole E (CreateGroup data)) D", OF create_group_def good_refl[OF assms]])
  let ?q = "OpenWhole E (CreateGroup data)"
  fix g D' assume c: "create_group E data D = (Inr g, D')"
  then obtain ps where "commit (d_pg_lower E) (insert_members E g 1 ps (insert_group g D)) = Inr D'" by (rule create_group_Inr)
  then have D': "D' = insert_members E g 1 ps (insert_group g D)" "integrity (d_pg_lower E) D'" by (simp_all add: commit_Inr)
  have ok: "store_ok E D'" using create_group_ok[OF assms, of data] c by simp
  note fr = insert_members_frame[of E g 1 ps "insert_group g D"]
  have gs: "t_groups D' = t_groups D @ [g]" "t_algorithms D' = t_algorithms D" using fr by (simp_all add: D'(1) insert_group_def)
  have known: "known_ids D \<subseteq> known_ids D'" "known_ids D' \<subseteq> known_ids D \<union> new_ids ?q"
    using known_insert_members[of E g 1 ps "insert_group g D"] known_insert_members'[of "insert_group g D" E g 1 ps]
      known_frame[of "insert_group g D" D] by (simp_all add: D'(1) insert_group_def)
  have "spared (new_ids ?q) gid D D'" if present: "get_group_by_id D gid \<noteq> None" for gid
    unfolding spared_def
  proof (intro conjI allI impI ballI)
    obtain h where h: "h \<in> set (t_groups D)" "g_id h = gid" using present get_group_by_id_in[of D gid] by (cases "get_group_by_id D gid") auto
    have "distinct (map g_id (t_groups D @ [g]))" using store_ok_ids(2)[OF ok] by (simp add: gs(1))
    then have ne: "g_id g \<noteq> gid" using h by auto
    show "get_group_by_id D' gid = Some k" if "get_group_by_id D gid = Some k" for k
      using that by (simp add: get_group_by_id_def gs(1) find_before)
    fix x' assume "x' \<in> set (t_rules D')"
    then have "x' \<in> set (t_rules D) \<or> (r_group_id x' = Some (g_id g) \<and> r_id x' \<in> range (d_ids E))"
      using members_inserted[of x' E g 1 ps "insert_group g D"] by (simp add: D'(1) insert_group_def)
    then show "(\<exists>x \<in> set (t_rules D). same_member x x')
      \<or> r_group_id x' \<noteq> Some gid \<and> (r_id x' \<in> new_ids ?q \<or> (\<exists>x \<in> set (t_rules D). r_id x = r_id x' \<and> r_group_id x \<noteq> Some gid))"
      using ne same_rowI by auto
  qed
  then show "good_step E ?q D D'" using ok gs(2) known by (simp add: good_step_def)
qed

lemma finish_clients:
  assumes "store_ok E D"
  shows "good_step E q D (snd (create_client E nc D))" "good_step E q D (snd (update_client E cid uc D))"
proof -
  have "t_rules (snd (create_client E nc D)) = t_rules D \<and> t_history (snd (create_client E nc D)) = t_history D
      \<and> t_groups (snd (create_client E nc D)) = t_groups D \<and> t_algorithms (snd (create_client E nc D)) = t_algorithms D"
    by (cases rule: create_client_cases[of D nc E]) (auto simp: commit_Inr insert_client_def insert_secret_def)
  then show "good_step E q D (snd (create_client E nc D))" using create_client_ok[OF assms] by (intro good_frame) simp_all
  show "good_step E q D (snd (update_client E cid uc D))"
  proof (rule transaction_ok[where P = "good_step E q D", OF update_client_def good_refl[OF assms]])
    fix c' D' assume u: "update_client E cid uc D = (Inr c', D')"
    then obtain c where "D' = store_client (d_now E) c (updated_client c uc) D"
      by (rule update_client_Inr) (auto simp: commit_Inr)
    moreover have "store_ok E D'" using update_client_ok[OF assms, of cid uc] u by simp
    ultimately show "good_step E q D D'" by (intro good_frame) (simp_all add: store_client_def)
  qed
qed

lemma finish_good:
  assumes "store_ok E D" "open_ok D q" "request_env q = E"
  shows "good_step E q D (snd (finish_request q D))"
proof (cases q)
  case (OpenWhole E' oper)
  with assms(2,3) consider data where "q = OpenWhole E (CreateGroup data)" | data where "q = OpenWhole E (CreateClient data)"
    | cid data where "q = OpenWhole E (UpdateClient cid data)" by (cases oper) auto
  then show ?thesis
    by cases (use finish_create_group[OF assms(1)] finish_clients[OF assms(1)] in simp_all)
qed (use assms finish_create_rule finish_status finish_delete_rule finish_secrets finish_add_members finish_update_group
    finish_delete_group in \<open>auto simp del: finish_request.simps\<close>)

subsection \<open>Reading\<close>

lemma status_value: "rule_status_value s \<in> {''active'', ''inactive''}"
  by (cases s) simp_all

lemma read_status:
  assumes "store_ok E D" "respects_lock (UpdateRule rid data)" "update_rule_plan E D rid data = Inr (old, new)"
  shows "open_ok D (OpenUpdateRule E old new)"
proof -
  note p = update_rule_plan_Inr[OF assms(3)]
  have "rule_ok (d_coercions E) (t_algorithms D) old"
    using assms(1) get_rule_by_id_in[OF p(1)] rules_okD(1) by (auto simp: store_ok_def)
  then have "r_status new \<in> {''active'', ''inactive''}"
    using p(12) by (cases "ur_status data") (use status_value in \<open>simp_all add: rule_ok_def\<close>)
  moreover have "r_params new = r_params old"
    using p(14) assms(2) by (auto simp: updated_params_def split: option.splits)
  ultimately show ?thesis using p(3,4,6,7,10,17,18,19) assms(2) by (simp add: same_member_def)
qed

lemma read_open_ok:
  assumes "store_ok E D" "respects_lock oper" "read_request E oper D = Inr q"
  shows "open_ok D q"
proof (cases oper)
  case (CreateRule data)
  then obtain r where q: "q = OpenCreateRule E r" and r: "create_rule_plan E data D = Inr r"
    using assms(3) by (auto simp: opened_def map_sum_Inr)
  then show ?thesis
    by (auto simp: create_rule_plan_def bind_sum_Inr rule_ok_def split: if_splits option.splits
        dest!: validate_params_Inr normalized_types_Inr)
next
  case (UpdateRule rid data)
  then show ?thesis using assms read_status by (auto simp: opened_def map_sum_Inr simp del: open_ok.simps respects_lock.simps)
next
  case (AddMembers gid members)
  then obtain g ps where q: "q = OpenAddMembers E g ps" and "add_members_plan E gid members D = Inr (Some (g, ps))"
    using assms(3) by (auto split: sum.splits option.splits)
  then have g: "get_group_by_id D gid = Some g" and p: "prepare_members (validated_overrides E D g (g_params g))
        (\<lambda>ep. find_active_conflict D (g_client_id g) ep (g_identifier_signature g) None) members = Inr ([], ps)"
    by (auto simp: add_members_plan_def bind_sum_Inr get_group_or_raise_def split: option.splits if_splits)
  have "validated_overrides E D g (g_params g) ov = Inr merged" if "(ep, ov, merged) \<in> set ps" for ep ov merged
    using prepare_members_Inr[OF p] that by auto
  then show ?thesis using validated_overrides_Inr g get_group_by_id_in[OF g] by (fastforce simp: q)
next
  case (UpdateGroup gid data)
  then obtain g ms where q: "q = OpenUpdateGroup E g data ms" and "update_group_plan E gid data D = Inr (g, ms)"
    using assms(3) by (auto simp: opened_def map_sum_Inr)
  then obtain D1 ps where g: "get_group_by_id D gid = Some g" and D1: "D1 = store_group (d_now E) g (renamed_group g data) D"
    and ps: "recompute_members (validated_overrides E D1 (updated_group g data) (g_params (updated_group g data))) (list_by_group D1 gid) = Inr ps"
    and ms: "ms = zip (list_by_group D1 gid) ps"
    by (auto simp: update_group_plan_def bind_sum_Inr get_group_or_raise_def Let_def map_sum_Inr commit_else_Inr commit_Inr
        split: option.splits if_splits)
  have l: "list_by_group D1 gid = list_by_group D gid" by (simp add: D1 list_by_group_def)
  note eff = recompute_effective[OF ps, unfolded l]
  have ms': "ms = map (\<lambda>m. (m, compute_effective_params (g_params (updated_group g data)) (or_empty (r_overrides m)))) (list_by_group D gid)"
    unfolding ms l eff(1) by (simp add: zip_map2 zip_same_conv_map)
  have "map fst ms = list_by_group D gid" by (simp add: ms' comp_def)
  then have "held gid (map fst ms) D" using held_members[OF store_ok_ids(1)[OF assms(1)]] by simp
  moreover have "t_algorithms D1 = t_algorithms D" by (simp add: D1)
  ultimately show ?thesis using get_group_by_id_in[OF g] g eff(2) by (auto simp: q ms')
next
  case (DeleteGroup gid mode)
  then show ?thesis using assms(3) held_members[OF store_ok_ids(1)[OF assms(1)]]
    by (auto simp: opened_def map_sum_Inr delete_group_plan_def bind_sum_Inr get_group_or_raise_def split: option.splits)
next
  case (RevokeSecret cid sid)
  then show ?thesis using assms(3) by (auto split: sum.splits option.splits)
qed (use assms(2,3) in \<open>auto simp: opened_def map_sum_Inr\<close>)

subsection \<open>All requests together\<close>

definition apart :: "open_request \<Rightarrow> open_request \<Rightarrow> bool" where
  "apart q q' \<longleftrightarrow> (locked_group q = None \<or> locked_group q \<noteq> locked_group q') \<and> new_ids q \<inter> new_ids q' = {}"

lemma apart_sym: "apart q q' \<Longrightarrow> apart q' q"
  by (auto simp: apart_def)

definition locks_ok :: "db_env \<Rightarrow> db \<Rightarrow> open_request list \<Rightarrow> bool" where
  "locks_ok E D qs \<longleftrightarrow> store_ok E D \<and> sorted_wrt apart qs
     \<and> (\<forall>q \<in> set qs. same_libraries E (request_env q) \<and> open_ok D q \<and> new_ids q \<inter> known_ids D = {})"

lemma open_ok_kept:
  assumes "open_ok D q" "good_step E q' D D'" "apart q q'" "new_ids q' \<inter> known_ids D = {}"
  shows "open_ok D' q"
proof -
  have algs: "t_algorithms D' = t_algorithms D" and known: "known_ids D \<subseteq> known_ids D'" using assms(2) by (auto simp: good_step_def)
  have sp: "spared (new_ids q') gid D D'" if "locked_group q = Some gid" "get_group_by_id D gid \<noteq> None" for gid
    using that assms(2,3) by (auto simp: good_step_def apart_def)
  have group: "get_group_by_id D' gid = Some g" if "locked_group q = Some gid" "get_group_by_id D gid = Some g" for gid g
    using sp[OF that(1)] that(2) by (auto simp: spared_def)
  have held: "held gid ms D'" if "locked_group q = Some gid" "get_group_by_id D gid \<noteq> None" "held gid ms D" for gid ms
    using held_spared[OF that(3) sp[OF that(1,2)] assms(4) known] .
  have there: "get_group_by_id D' gid \<noteq> None" if "locked_group q = Some gid" "get_group_by_id D gid \<noteq> None" for gid
    using group[OF that(1)] that(2) by auto
  show ?thesis
    using assms(1) group held there by (cases q) (simp_all add: algs)
qed

lemma locks_ok_finish:
  assumes "locks_ok E D qs" "i < length qs"
  shows "locks_ok E (snd (finish_request (qs ! i) D)) (take i qs @ drop (Suc i) qs)"
proof -
  let ?q = "qs ! i" and ?rest = "take i qs @ drop (Suc i) qs"
  let ?D = "snd (finish_request ?q D)" and ?E = "request_env ?q"
  have q: "same_libraries E ?E" "open_ok D ?q" "new_ids ?q \<inter> known_ids D = {}" using assms by (auto simp: locks_ok_def)
  have "store_ok ?E D" using assms(1) store_ok_libraries[OF q(1)] by (simp add: locks_ok_def)
  then have good: "good_step ?E ?q D ?D" using finish_good q(2) by blast
  then have "store_ok E ?D" using store_ok_libraries[OF q(1)] by (simp add: good_step_def)
  moreover have "sorted_wrt apart (take i qs @ ?q # drop (Suc i) qs)"
    using assms by (simp add: locks_ok_def flip: id_take_nth_drop)
  then have rest: "sorted_wrt apart ?rest" "\<forall>p \<in> set ?rest. apart p ?q"
    by (auto simp: sorted_wrt_append intro: apart_sym)
  moreover have "same_libraries E (request_env p) \<and> open_ok ?D p \<and> new_ids p \<inter> known_ids ?D = {}" if p: "p \<in> set ?rest" for p
  proof -
    have "p \<in> set qs" using p set_take_subset set_drop_subset by fastforce
    then have old: "same_libraries E (request_env p)" "open_ok D p" "new_ids p \<inter> known_ids D = {}"
      using assms(1) by (auto simp: locks_ok_def)
    have ap: "apart p ?q" using rest(2) p by blast
    have "known_ids ?D \<subseteq> known_ids D \<union> new_ids ?q" using good by (simp add: good_step_def)
    then have "new_ids p \<inter> known_ids ?D = {}" using old(3) ap by (auto simp: apart_def)
    with old(1) open_ok_kept[OF old(2) good ap q(3)] show ?thesis by simp
  qed
  ultimately show ?thesis by (simp add: locks_ok_def)
qed

lemma locking_interleaved:
  assumes "interleaved locking E D0 D qs" "store_ok E D0"
  shows "locks_ok E D qs"
  using assms
proof (induction rule: interleaved.induct)
  case (read D qs E' oper q)
  then have IH: "locks_ok E D qs" by simp
  then have "store_ok E' D" using store_ok_libraries[OF read.hyps(2)] by (simp add: locks_ok_def)
  then have "open_ok D q" using read_open_ok read.hyps(3,4) by (auto simp: locking_def)
  moreover have "request_env q = E'" using read_request_env[OF read.hyps(3)] .
  moreover have "apart p q" if "p \<in> set qs" for p
    using that read.hyps(4,5) by (auto simp: apart_def locking_def) (metis image_eqI)
  moreover have "new_ids q \<inter> known_ids D = {}" using read.hyps(4) by (auto simp: locking_def)
  ultimately show ?case using IH read.hyps(2) by (auto simp: locks_ok_def sorted_wrt_append)
next
  case (finish D qs i)
  then show ?case using locks_ok_finish by simp
qed (simp add: locks_ok_def)

subsection \<open>The group that is left\<close>

text \<open>
  \<^verbatim>\<open>move_to_group\<close> locks the group the rule moves to, not the one it leaves.  If the merged parameters
  happen to be those the rule had when it was read, the unit of work does not write them; when the old
  group's parameters are changed in between, the rule keeps the new ones of the group it has left.
\<close>

lemma stale_move:
  assumes "move_to_group_plan E rid data D = Inr (g, old, new)" "r_params new = r_params old" "r_group_id old \<noteq> Some (g_id g)"
    and "get_rule_by_id D1 rid = Some cur" "r_overrides cur = r_overrides old" "r_params cur \<noteq> r_params old"
    and "finish_request (OpenMoveRule E g old new) D1 = (None, D2)"
  shows "\<exists>r. get_rule_by_id D2 rid = Some r \<and> r_group_id r = Some (g_id g) \<and> \<not> mirrors g r"
proof -
  have old: "get_rule_by_id D rid = Some old" and merged: "validated_overrides E D g (g_params g) (or_empty (mg_overrides data)) = Inr (r_params new)"
    and new: "r_group_id new = Some (g_id g)" "r_overrides new = Some (or_empty (mg_overrides data))" "r_version new = r_version old + 1"
    using assms(1) by (auto simp: move_to_group_plan_def bind_sum_Inr get_rule_Inr Let_def moved_rule_def split: if_splits)
  have ids: "r_id old = rid" "r_id cur = rid" using get_rule_by_id_in[OF old] get_rule_by_id_in[OF assms(4)] by auto
  let ?r = "(rule_delta old new cur)\<lparr>r_updated_at := d_now E\<rparr>"
  have "finish_request (OpenUpdateRule E old new) D1 = (None, D2)" using assms(7) by simp
  moreover have "old \<noteq> new" using new(3) by auto
  ultimately have D2: "D2 = replace_rule (d_now E) ?r D1" using finish_update_None assms(4) ids(1) by blast
  have "get_rule_by_id D2 rid = Some ?r" unfolding D2 using assms(4) ids(2) by (intro get_rule_replaced) simp_all
  moreover have "r_group_id ?r = Some (g_id g)" using assms(3) new(1) by (simp add: rule_delta_def column_def)
  moreover have "r_params ?r = r_params cur" "r_overrides ?r = Some (or_empty (mg_overrides data))"
    using assms(2,5) new(2) by (simp_all add: rule_delta_def column_def)
  then have "\<not> mirrors g ?r" using validated_overrides_Inr(1)[OF merged] assms(2,6) by (simp add: mirrors_def)
  ultimately show ?thesis by blast
qed

subsection \<open>A group changed while a member is paused\<close>

definition demo_pause :: rule_update where
  "demo_pause = \<lparr>ur_algorithm_id = None, ur_params = None, ur_priority = None, ur_status = Some INACTIVE, ur_overrides = None,
     ur_updated_by = ''ops'', ur_expected_version = None\<rparr>"

definition demo_paused :: rule where
  "demo_paused = demo_member\<lparr>r_status := ''inactive'', r_updated_by := Some ''ops'', r_version := 2\<rparr>"

lemma demo_pause_plan: "update_rule_plan demo_db_env demo_store ''r1'' demo_pause = Inr (demo_member, demo_paused)"
  by (simp add: update_rule_plan_def get_rule_or_raise_def get_rule_by_id_def demo_store_def demo_rows demo_pause_def
      update_guard_def Let_def updated_params_def demo_paused_def)

text \<open>The group's update is read first and committed last; the member is paused in between.\<close>

lemma demo_locking:
  defines "q \<equiv> OpenUpdateGroup demo_db_env demo_group demo_shorter [(demo_member, window_params 5 30)]"
    and "p \<equiv> OpenUpdateRule demo_db_env demo_member demo_paused"
  shows "interleaved locking demo_db_env demo_store (snd (finish_request q (snd (finish_request p demo_store)))) []"
proof -
  have lib: "same_libraries demo_db_env demo_db_env" by (simp add: same_libraries_def)
  have q: "read_request demo_db_env (UpdateGroup ''g1'' demo_shorter) demo_store = Inr q"
    by (simp add: opened_def demo_group_plan q_def)
  have p: "read_request demo_db_env (UpdateRule ''r1'' demo_pause) demo_store = Inr p"
    by (simp add: opened_def demo_pause_plan p_def)
  have lq: "locking demo_store [] (UpdateGroup ''g1'' demo_shorter) q" by (simp add: locking_def q_def)
  have lp: "locking demo_store [q] (UpdateRule ''r1'' demo_pause) p" by (simp add: locking_def p_def demo_pause_def)
  have "interleaved locking demo_db_env demo_store demo_store [q]"
    using interleaved.read[where P = locking, OF interleaved.start lib q lq] by simp
  then have "interleaved locking demo_db_env demo_store demo_store [q, p]"
    using interleaved.read[where P = locking, OF _ lib p lp] by (simp add: p_def)
  then have "interleaved locking demo_db_env demo_store (snd (finish_request p demo_store)) [q]"
    using interleaved.finish[of locking demo_db_env demo_store demo_store "[q, p]" 1] by (simp del: finish_request.simps)
  then show ?thesis
    using interleaved.finish[of locking demo_db_env demo_store "snd (finish_request p demo_store)" "[q]" 0]
    by (simp del: finish_request.simps)
qed

subsection \<open>Properties\<close>

text \<open>
  C40.  The locks keep members and groups in step.  In every interleaving of requests, of which none
  detaches or moves a rule or updates more of one than its status, and whose new rules have identifiers
  that were never used, the store stays well-formed: every member mirrors its group and has parameters that
  build its algorithm, although the requests recompute, add and release members from what they read before
  others committed.
\<close>

theorem locks_keep_members:
  assumes "store_ok E D0" "interleaved locking E D0 D qs"
  shows "store_ok E D"
  using locking_interleaved[OF assms(2,1)] by (simp add: locks_ok_def)

theorem locks_keep_members_witness:
  "store_ok demo_db_env (snd (finish_request (OpenUpdateGroup demo_db_env demo_group demo_shorter [(demo_member, window_params 5 30)])
     (snd (finish_request (OpenUpdateRule demo_db_env demo_member demo_paused) demo_store))))"
  by (rule locks_keep_members[OF demo_store_ok demo_locking])

end
