(* ===== verification/Scheduler.thy ===== *)
theory Scheduler
  imports Application
begin

text \<open>
  \<^verbatim>\<open>core/scheduler.py\<close> and the start and end of \<^verbatim>\<open>main.py\<close>'s lifespan: the jobs that are registered, and
  the polls they run, in real time.  A poll is two steps, the query and the replacement of the cache,
  with any requests and writes in between.  APScheduler is the locale \<open>scheduler_library\<close> for the
  registration; of its runs the timed model uses that a job fires at fixed intervals from the start of
  the scheduler and that with \<^verbatim>\<open>max_instances=1\<close> a run does not start while another is in flight.
\<close>

subsection \<open>Registration of the jobs\<close>

datatype poll_target = PollRules | PollClients

record job =
  j_id :: string
  j_target :: poll_target
  j_seconds :: int
  j_max_instances :: nat
  j_coalesce :: bool

definition scheduled_jobs :: "settings \<Rightarrow> job list" where
  "scheduled_jobs S = [
     \<lparr>j_id = ''rules_poll'', j_target = PollRules, j_seconds = rules_poll_interval_seconds S, j_max_instances = 1, j_coalesce = True\<rparr>,
     \<lparr>j_id = ''clients_poll'', j_target = PollClients, j_seconds = clients_poll_interval_seconds S, j_max_instances = 1, j_coalesce = True\<rparr>]"

datatype scheduler_error = ConflictingIdError string | SchedulerAlreadyRunningError | SchedulerNotRunningError

text \<open>\<^verbatim>\<open>AsyncIOScheduler\<close>: the operations the module calls, and the turn of the event loop \<^verbatim>\<open>sleep(0)\<close> gives it.\<close>

record 'c scheduler_api =
  sc_add_job :: "bool \<Rightarrow> job \<Rightarrow> 'c \<Rightarrow> scheduler_error + 'c"
  sc_start :: "'c \<Rightarrow> scheduler_error + 'c"
  sc_shutdown :: "'c \<Rightarrow> scheduler_error + 'c"
  sc_turn :: "'c \<Rightarrow> 'c"

definition replace_existing :: bool where
  "replace_existing = True"

fun add_jobs :: "'c scheduler_api \<Rightarrow> job list \<Rightarrow> 'c \<Rightarrow> scheduler_error + 'c" where
  "add_jobs A [] c = Inr c"
| "add_jobs A (j # rest) c = bind_sum (sc_add_job A replace_existing j c) (add_jobs A rest)"

definition start_scheduler :: "'c scheduler_api \<Rightarrow> settings \<Rightarrow> 'c \<Rightarrow> scheduler_error + 'c" where
  "start_scheduler A S c = bind_sum (add_jobs A (scheduled_jobs S) c) (sc_start A)"

definition shutdown_scheduler :: "'c scheduler_api \<Rightarrow> 'c \<Rightarrow> scheduler_error + 'c" where
  "shutdown_scheduler A c = map_sum id (sc_turn A) (sc_shutdown A c)"

text \<open>The lifespans of one process, each with the settings of its start.\<close>

fun lifespans :: "'c scheduler_api \<Rightarrow> settings list \<Rightarrow> 'c \<Rightarrow> scheduler_error + 'c" where
  "lifespans A [] c = Inr c"
| "lifespans A (S # Ss) c = bind_sum (start_scheduler A S c) (\<lambda>c. bind_sum (shutdown_scheduler A c) (lifespans A Ss))"

text \<open>
  What APScheduler documents: a job is added under its id, whether or not the scheduler runs, and an
  id that is taken is an error unless the job replaces the other; starting a running scheduler is an
  error; a shutdown takes effect with the next turn of the event loop and leaves the jobs.
\<close>

locale scheduler_library =
  fixes A :: "'c scheduler_api" and jobs :: "'c \<Rightarrow> job dict" and running :: "'c \<Rightarrow> bool"
  assumes add_job: "replace \<or> j_id j \<notin> fst ` set (jobs c) \<Longrightarrow> \<exists>c'. sc_add_job A replace j c = Inr c'
      \<and> jobs c' = AList.update (j_id j) j (jobs c) \<and> running c' = running c"
    and add_conflict: "j_id j \<in> fst ` set (jobs c) \<Longrightarrow> sc_add_job A False j c = Inl (ConflictingIdError (j_id j))"
    and start: "\<not> running c \<Longrightarrow> \<exists>c'. sc_start A c = Inr c' \<and> jobs c' = jobs c \<and> running c'"
    and start_running: "running c \<Longrightarrow> sc_start A c = Inl SchedulerAlreadyRunningError"
    and shutdown: "running c \<Longrightarrow> \<exists>c'. sc_shutdown A c = Inr c' \<and> jobs (sc_turn A c') = jobs c \<and> \<not> running (sc_turn A c')"
begin

lemma start_ok:
  assumes "\<not> running c" "distinct (map fst (jobs c))" "set (map fst (jobs c)) \<subseteq> {''rules_poll'', ''clients_poll''}"
  obtains c' where "start_scheduler A S c = Inr c'" "running c'" "distinct (map fst (jobs c'))"
    "map_of (jobs c') = (\<lambda>k. map_of (map (\<lambda>j. (j_id j, j)) (scheduled_jobs S)) k)"
    "set (map fst (jobs c')) \<subseteq> {''rules_poll'', ''clients_poll''}"
proof -
  obtain rp cp where jl: "scheduled_jobs S = [rp, cp]" "j_id rp = ''rules_poll''" "j_id cp = ''clients_poll''"
    by (simp add: scheduled_jobs_def)
  obtain c1 where 1: "sc_add_job A replace_existing rp c = Inr c1" "jobs c1 = AList.update (j_id rp) rp (jobs c)" "running c1 = running c"
    using add_job[of replace_existing rp c] by (auto simp: replace_existing_def)
  obtain c2 where 2: "sc_add_job A replace_existing cp c1 = Inr c2" "jobs c2 = AList.update (j_id cp) cp (jobs c1)" "running c2 = running c1"
    using add_job[of replace_existing cp c1] by (auto simp: replace_existing_def)
  obtain c3 where 3: "sc_start A c2 = Inr c3" "jobs c3 = jobs c2" "running c3"
    using start[of c2] 1(3) 2(3) assms(1) by auto
  have jc: "jobs c3 = AList.update (j_id cp) cp (AList.update (j_id rp) rp (jobs c))" by (simp add: 1(2) 2(2) 3(2))
  have dom: "k \<in> {''rules_poll'', ''clients_poll''}" if "map_of (jobs c) k = Some v" for k v
    using assms(3) map_of_SomeD[OF that] by force
  have "map_of (jobs c3) k = map_of (map (\<lambda>j. (j_id j, j)) (scheduled_jobs S)) k" for k
    using dom[of k] by (cases "map_of (jobs c) k") (auto simp: jc jl update_conv')
  moreover have "start_scheduler A S c = Inr c3" by (simp add: start_scheduler_def jl(1) 1(1) 2(1) 3(1))
  moreover have "distinct (map fst (jobs c3))" unfolding jc by (intro distinct_update assms(2))
  moreover have "set (map fst (jobs c3)) \<subseteq> {''rules_poll'', ''clients_poll''}"
    using assms(3) by (auto simp: jc jl dom_update)
  ultimately show ?thesis using that 3(3) by blast
qed

lemma shutdown_ok:
  assumes "running c"
  obtains c' where "shutdown_scheduler A c = Inr c'" "\<not> running c'" "jobs c' = jobs c"
  using shutdown[OF assms] by (auto simp: shutdown_scheduler_def)

lemma lifespans_ok:
  assumes "\<not> running c" "distinct (map fst (jobs c))" "set (map fst (jobs c)) \<subseteq> {''rules_poll'', ''clients_poll''}"
  shows "\<exists>c'. lifespans A Ss c = Inr c' \<and> \<not> running c' \<and> distinct (map fst (jobs c'))
    \<and> set (map fst (jobs c')) \<subseteq> {''rules_poll'', ''clients_poll''}"
  using assms
proof (induction Ss arbitrary: c)
  case (Cons S Ss)
  obtain c1 where 1: "start_scheduler A S c = Inr c1" "running c1" "distinct (map fst (jobs c1))"
      "set (map fst (jobs c1)) \<subseteq> {''rules_poll'', ''clients_poll''}"
    by (rule start_ok[OF Cons.prems])
  obtain c2 where 2: "shutdown_scheduler A c1 = Inr c2" "\<not> running c2" "jobs c2 = jobs c1"
    by (rule shutdown_ok[OF 1(2)])
  then show ?case using Cons.IH[of c2] 1 by simp
qed simp

end

subsection \<open>A reference scheduler\<close>

text \<open>The documented behaviour as a state: the jobs, whether it runs, and whether a shutdown is pending.\<close>

type_synonym ref_scheduler_state = "job dict \<times> bool \<times> bool"

definition ref_scheduler :: "ref_scheduler_state scheduler_api" where
  "ref_scheduler = \<lparr>
     sc_add_job = (\<lambda>replace j (al, r, p). if \<not> replace \<and> j_id j \<in> fst ` set al then Inl (ConflictingIdError (j_id j))
        else Inr (AList.update (j_id j) j al, r, p)),
     sc_start = (\<lambda>(al, r, p). if r then Inl SchedulerAlreadyRunningError else Inr (al, True, False)),
     sc_shutdown = (\<lambda>(al, r, p). if r then Inr (al, r, True) else Inl SchedulerNotRunningError),
     sc_turn = (\<lambda>(al, r, p). (al, r \<and> \<not> p, False))\<rparr>"

interpretation ref_sched: scheduler_library ref_scheduler fst "\<lambda>c. fst (snd c)"
proof unfold_locales
  fix c :: ref_scheduler_state and j replace
  obtain al r p where c: "c = (al, r, p)" by (cases c)
  show "replace \<or> j_id j \<notin> fst ` set (fst c) \<Longrightarrow> \<exists>c'. sc_add_job ref_scheduler replace j c = Inr c'
      \<and> fst c' = AList.update (j_id j) j (fst c) \<and> fst (snd c') = fst (snd c)"
    by (auto simp: ref_scheduler_def c intro!: exI[of _ "AList.update (j_id j) j al"])
  show "j_id j \<in> fst ` set (fst c) \<Longrightarrow> sc_add_job ref_scheduler False j c = Inl (ConflictingIdError (j_id j))"
    by (simp add: ref_scheduler_def c)
  show "\<not> fst (snd c) \<Longrightarrow> \<exists>c'. sc_start ref_scheduler c = Inr c' \<and> fst c' = fst c \<and> fst (snd c')"
    by (auto simp: ref_scheduler_def c)
  show "fst (snd c) \<Longrightarrow> sc_start ref_scheduler c = Inl SchedulerAlreadyRunningError"
    by (simp add: ref_scheduler_def c)
  show "fst (snd c) \<Longrightarrow> \<exists>c'. sc_shutdown ref_scheduler c = Inr c' \<and> fst (sc_turn ref_scheduler c') = fst c
      \<and> \<not> fst (snd (sc_turn ref_scheduler c'))"
    by (auto simp: ref_scheduler_def c)
qed

subsection \<open>Runs of a job\<close>

text \<open>
  A job fires at \<open>jb_next\<close> and then every \<open>I\<close> seconds.  Its run in flight is the moment its query read
  the store and what it read, \<open>None\<close> if the database could not be reached; \<open>jb_as_of\<close> is the moment the
  contents of the cache were read and \<open>jb_failed\<close> counts the runs that failed since then.
\<close>

record job_state =
  jb_next :: rat
  jb_open :: "(rat \<times> db option) option"
  jb_as_of :: rat
  jb_failed :: nat

definition started_job :: "rat \<Rightarrow> rat \<Rightarrow> job_state" where
  "started_job I t = \<lparr>jb_next = t + I, jb_open = None, jb_as_of = t, jb_failed = 0\<rparr>"

text \<open>\<^verbatim>\<open>max_instances=1\<close>: a run begins when the job has fired and none is in flight.\<close>

definition may_begin :: "rat \<Rightarrow> job_state \<Rightarrow> bool" where
  "may_begin t j \<longleftrightarrow> jb_next j \<le> t \<and> jb_open j = None"

definition begin_poll :: "rat \<Rightarrow> rat \<Rightarrow> db option \<Rightarrow> job_state \<Rightarrow> job_state" where
  "begin_poll I t reached j = j\<lparr>jb_next := jb_next j + I, jb_open := Some (t, reached)\<rparr>"

definition end_poll :: "rat \<Rightarrow> db option \<Rightarrow> job_state \<Rightarrow> job_state" where
  "end_poll t reached j = (case reached of
       None \<Rightarrow> j\<lparr>jb_open := None, jb_failed := jb_failed j + 1\<rparr>
     | Some _ \<Rightarrow> j\<lparr>jb_open := None, jb_as_of := t, jb_failed := 0\<rparr>)"

text \<open>A run ends within \<open>d\<close> of the moment it was due: nothing else happens later than that before it has.\<close>

definition on_time :: "rat \<Rightarrow> rat \<Rightarrow> rat \<Rightarrow> job_state \<Rightarrow> bool" where
  "on_time I d t j \<longleftrightarrow> (case jb_open j of None \<Rightarrow> t \<le> jb_next j + d | Some _ \<Rightarrow> t \<le> jb_next j - I + d)"

subsection \<open>A deployment in time\<close>

text \<open>The stores are kept with the moment since which each of them holds, the newest first.\<close>

record 's deployment =
  dp_system :: "'s system"
  dp_rules :: job_state
  dp_clients :: job_state
  dp_now :: rat
  dp_stores :: "(rat \<times> db) list"

definition store_at :: "(rat \<times> db) list \<Rightarrow> rat \<Rightarrow> db option" where
  "store_at hs t = map_option snd (find (\<lambda>(s, _). s \<le> t) hs)"

definition tick :: "rat \<Rightarrow> rat \<Rightarrow> rat \<Rightarrow> rat \<Rightarrow> 's deployment \<Rightarrow> bool" where
  "tick Ir Ic d t P \<longleftrightarrow> dp_now P < t \<and> on_time Ir d t (dp_rules P) \<and> on_time Ic d t (dp_clients P)"

definition advance :: "rat \<Rightarrow> 's system \<Rightarrow> 's deployment \<Rightarrow> 's deployment" where
  "advance t Y P = P\<lparr>dp_system := Y, dp_now := t, dp_stores := (t, sys_db Y) # dp_stores P\<rparr>"

definition finish_rules_poll :: "rat \<Rightarrow> db option \<Rightarrow> 's system \<Rightarrow> 's system" where
  "finish_rules_poll t reached Y = Y\<lparr>sys_app := (sys_app Y)\<lparr>st_rules_cache :=
     scheduled_rules_poll \<lfloor>t\<rfloor> reached (st_rules_cache (sys_app Y))\<rparr>\<rparr>"

definition finish_clients_poll :: "rat \<Rightarrow> db option \<Rightarrow> 's system \<Rightarrow> 's system" where
  "finish_clients_poll t reached Y = Y\<lparr>sys_app := (sys_app Y)\<lparr>st_clients_cache :=
     poll_clients \<lfloor>t\<rfloor> reached (st_clients_cache (sys_app Y))\<rparr>\<rparr>"

definition reading :: "bool \<Rightarrow> 's system \<Rightarrow> db option" where
  "reading up Y = (if up then Some (sys_db Y) else None)"

text \<open>
  The steps of a deployment: \<open>Ir\<close> and \<open>Ic\<close> are the intervals of the settings, and \<open>d\<close>, shorter than both,
  is the time within which a run ends.  With \<open>d\<close> that short no run is skipped for one in flight and no
  missed runs are coalesced.  \<open>elsewhere\<close> is any change that other replicas make to the stores.
\<close>

inductive operates :: "'t jwt_api \<Rightarrow> db_env \<Rightarrow> rat \<Rightarrow> rat \<Rightarrow> rat \<Rightarrow> 's deployment \<Rightarrow> bool"
  for J :: "'t jwt_api" and E Ir Ic d where
  boots: "d < Ir \<Longrightarrow> d < Ic \<Longrightarrow> store_ok E D \<Longrightarrow> load_rate_limiter_settings (d_coercions E) wording path file = Inr ep \<Longrightarrow>
    boot (ping p) loads files (Some (ep_config ep)) \<lfloor>t\<rfloor> (Some D) = Inr A \<Longrightarrow>
    operates J E Ir Ic d \<lparr>dp_system = \<lparr>sys_app = A, sys_db = D, sys_redis = s\<rparr>, dp_rules = started_job Ir t,
      dp_clients = started_job Ic t, dp_now = t, dp_stores = [(t, D)]\<rparr>"
| request: "operates J E Ir Ic d P \<Longrightarrow> tick Ir Ic d (w_time w) P \<Longrightarrow> world_ok J E w \<Longrightarrow> q \<notin> {RulesPoll, ClientsPoll} \<Longrightarrow>
    operates J E Ir Ic d (advance (w_time w) (snd (serve w q (dp_system P))) P)"
| elsewhere: "operates J E Ir Ic d P \<Longrightarrow> tick Ir Ic d t P \<Longrightarrow> store_ok E D \<Longrightarrow>
    operates J E Ir Ic d (advance t ((dp_system P)\<lparr>sys_db := D, sys_redis := s\<rparr>) P)"
| rules_read: "operates J E Ir Ic d P \<Longrightarrow> tick Ir Ic d t P \<Longrightarrow> may_begin t (dp_rules P) \<Longrightarrow>
    operates J E Ir Ic d (advance t (dp_system P) (P\<lparr>dp_rules := begin_poll Ir t (reading up (dp_system P)) (dp_rules P)\<rparr>))"
| rules_load: "operates J E Ir Ic d P \<Longrightarrow> tick Ir Ic d t P \<Longrightarrow> jb_open (dp_rules P) = Some (r, reached) \<Longrightarrow>
    operates J E Ir Ic d (advance t (finish_rules_poll t reached (dp_system P)) (P\<lparr>dp_rules := end_poll r reached (dp_rules P)\<rparr>))"
| clients_read: "operates J E Ir Ic d P \<Longrightarrow> tick Ir Ic d t P \<Longrightarrow> may_begin t (dp_clients P) \<Longrightarrow>
    operates J E Ir Ic d (advance t (dp_system P) (P\<lparr>dp_clients := begin_poll Ic t (reading up (dp_system P)) (dp_clients P)\<rparr>))"
| clients_load: "operates J E Ir Ic d P \<Longrightarrow> tick Ir Ic d t P \<Longrightarrow> jb_open (dp_clients P) = Some (r, reached) \<Longrightarrow>
    operates J E Ir Ic d (advance t (finish_clients_poll t reached (dp_system P)) (P\<lparr>dp_clients := end_poll r reached (dp_clients P)\<rparr>))"

subsection \<open>The log of stores\<close>

definition log_ok :: "db_env \<Rightarrow> rat \<Rightarrow> (rat \<times> db) list \<Rightarrow> bool" where
  "log_ok E now hs \<longleftrightarrow> sorted_wrt (\<lambda>x y. fst y < fst x) hs \<and> list_all (\<lambda>(s, D). s \<le> now \<and> store_ok E D) hs"

lemma store_at_later: "now < t \<Longrightarrow> s \<le> now \<Longrightarrow> store_at ((t, D) # hs) s = store_at hs s"
  by (simp add: store_at_def)

lemma store_at_here [simp]: "store_at ((t, D) # hs) t = Some D"
  by (simp add: store_at_def)

lemma store_at_ok: "log_ok E now hs \<Longrightarrow> store_at hs t = Some D \<Longrightarrow> store_ok E D"
  by (auto simp: log_ok_def store_at_def list_all_iff dest!: find_SomeD)

lemma log_ok_advance: "log_ok E now hs \<Longrightarrow> now < t \<Longrightarrow> store_ok E D \<Longrightarrow> log_ok E t ((t, D) # hs)"
  by (auto simp: log_ok_def list_all_iff)

subsection \<open>What a job knows\<close>

text \<open>
  The invariant of one job: the cache rests on the store of \<open>jb_as_of\<close>, a run in flight on the store of
  its own, later moment, and neither is older than the failed runs since then explain.
\<close>

definition job_ok :: "rat \<Rightarrow> rat \<Rightarrow> (rat \<times> db) list \<Rightarrow> job_state \<Rightarrow> bool" where
  "job_ok I now hs j \<longleftrightarrow> jb_as_of j \<le> now \<and> store_at hs (jb_as_of j) \<noteq> None \<and> (case jb_open j of
       None \<Rightarrow> jb_next j - (of_nat (jb_failed j) + 1) * I \<le> jb_as_of j
     | Some (r, reached) \<Rightarrow> jb_next j - (of_nat (jb_failed j) + 2) * I \<le> jb_as_of j \<and> jb_next j - I \<le> r
         \<and> jb_as_of j \<le> r \<and> r \<le> now \<and> (\<forall>D. reached = Some D \<longrightarrow> store_at hs r = Some D))"

lemma job_ok_later: "job_ok I now hs j \<Longrightarrow> now < t \<Longrightarrow> job_ok I t ((t, D) # hs) j"
  by (auto simp: job_ok_def store_at_later split: option.splits)

lemma job_ok_started: "job_ok I t [(t, D)] (started_job I t)"
  by (simp add: job_ok_def started_job_def)

lemma job_ok_begin:
  assumes "job_ok I now hs j" "now < t" "may_begin t j" "reached = None \<or> reached = Some D"
  shows "job_ok I t ((t, D) # hs) (begin_poll I t reached j)"
proof -
  have o: "jb_open j = None" "jb_next j \<le> t" using assms(3) by (simp_all add: may_begin_def)
  have j: "jb_as_of j \<le> now" "store_at hs (jb_as_of j) \<noteq> None" "jb_next j - (of_nat (jb_failed j) + 1) * I \<le> jb_as_of j"
    using assms(1) o(1) by (simp_all add: job_ok_def)
  have "jb_next j + I - (of_nat (jb_failed j) + 2) * I \<le> jb_as_of j" using j(3) by (simp add: algebra_simps)
  then show ?thesis using j assms(2,4) o(2) by (auto simp: job_ok_def begin_poll_def store_at_later)
qed

lemma job_ok_end:
  assumes "job_ok I now hs j" "now < t" "jb_open j = Some (r, reached)"
  shows "job_ok I t ((t, D) # hs) (end_poll r reached j)"
proof -
  have j: "jb_as_of j \<le> now" "store_at hs (jb_as_of j) \<noteq> None" "jb_next j - (of_nat (jb_failed j) + 2) * I \<le> jb_as_of j"
      "jb_next j - I \<le> r" "r \<le> now" "\<forall>D. reached = Some D \<longrightarrow> store_at hs r = Some D"
    using assms(1,3) by (simp_all add: job_ok_def)
  show ?thesis
  proof (cases reached)
    case None
    then show ?thesis using j assms(2) by (simp add: job_ok_def end_poll_def store_at_later algebra_simps)
  next
    case (Some D')
    then show ?thesis using j assms(2) by (simp add: job_ok_def end_poll_def store_at_later algebra_simps)
  qed
qed

text \<open>How old the contents of the cache can be.\<close>

lemma job_age:
  assumes "job_ok I now hs j" "on_time I d t j"
  shows "t - jb_as_of j \<le> (of_nat (jb_failed j) + 1) * I + d"
  using assms by (cases "jb_open j") (auto simp: job_ok_def on_time_def algebra_simps)

subsection \<open>The invariant of a deployment\<close>

definition deployment_ok :: "db_env \<Rightarrow> rat \<Rightarrow> rat \<Rightarrow> 's deployment \<Rightarrow> bool" where
  "deployment_ok E Ir Ic P \<longleftrightarrow> log_ok E (dp_now P) (dp_stores P)
     \<and> job_ok Ir (dp_now P) (dp_stores P) (dp_rules P) \<and> job_ok Ic (dp_now P) (dp_stores P) (dp_clients P)
     \<and> (\<exists>Dr Dc. store_at (dp_stores P) (jb_as_of (dp_rules P)) = Some Dr
         \<and> store_at (dp_stores P) (jb_as_of (dp_clients P)) = Some Dc \<and> system_ok E Dr Dc (dp_system P))"

lemma deployment_store_ok: "deployment_ok E Ir Ic P \<Longrightarrow> store_ok E (sys_db (dp_system P))"
  by (auto simp: deployment_ok_def system_ok_def)

text \<open>A step that leaves the polls alone and keeps what the caches hold.\<close>

lemma deployment_ok_step:
  assumes "deployment_ok E Ir Ic P" "dp_now P < t"
    and "\<And>Dr Dc. system_ok E Dr Dc (dp_system P) \<Longrightarrow> system_ok E Dr Dc Y"
  shows "deployment_ok E Ir Ic (advance t Y P)"
proof -
  obtain Dr Dc where D: "store_at (dp_stores P) (jb_as_of (dp_rules P)) = Some Dr"
      "store_at (dp_stores P) (jb_as_of (dp_clients P)) = Some Dc" "system_ok E Dr Dc (dp_system P)"
    using assms(1) by (auto simp: deployment_ok_def)
  have j: "jb_as_of (dp_rules P) \<le> dp_now P" "jb_as_of (dp_clients P) \<le> dp_now P"
    using assms(1) by (simp_all add: deployment_ok_def job_ok_def)
  have Y: "system_ok E Dr Dc Y" using assms(3)[OF D(3)] .
  then have "store_ok E (sys_db Y)" by (simp add: system_ok_def)
  then show ?thesis using assms(1,2) D(1,2) Y j
    by (auto simp: deployment_ok_def advance_def log_ok_advance job_ok_later store_at_later)
qed

text \<open>A step of one job: its run begins, or ends and replaces what its cache holds.\<close>

lemma rules_poll_replaces:
  assumes "system_ok E Dr Dc Y" "\<And>D. reached = Some D \<Longrightarrow> store_ok E D"
  shows "system_ok E (case reached of None \<Rightarrow> Dr | Some D \<Rightarrow> D) Dc (finish_rules_poll t reached Y)"
proof (cases reached)
  case None
  then show ?thesis using assms(1)
    by (simp add: system_ok_def finish_rules_poll_def scheduled_rules_poll_def load_rules_into_cache_def)
next
  case (Some D)
  then show ?thesis using assms(1) assms(2)[OF Some] poll_loads[OF assms(2)[OF Some]]
    by (auto simp: system_ok_def finish_rules_poll_def)
qed

lemma clients_poll_replaces:
  assumes "system_ok E Dr Dc Y" "\<And>D. reached = Some D \<Longrightarrow> store_ok E D"
  shows "system_ok E Dr (case reached of None \<Rightarrow> Dc | Some D \<Rightarrow> D) (finish_clients_poll t reached Y)"
  using assms by (cases reached) (auto simp: system_ok_def finish_clients_poll_def poll_clients_def)

lemma end_poll_store:
  assumes "job_ok I now hs j" "jb_open j = Some (r, reached)" "now < t" "store_at hs (jb_as_of j) = Some D"
  shows "store_at ((t, D') # hs) (jb_as_of (end_poll r reached j)) = Some (case reached of None \<Rightarrow> D | Some D' \<Rightarrow> D')"
  using assms by (auto simp: job_ok_def end_poll_def store_at_later split: option.splits)

lemma open_store_ok:
  assumes "log_ok E now hs" "job_ok I now hs j" "jb_open j = Some (r, Some D)"
  shows "store_ok E D"
  using assms store_at_ok by (fastforce simp: job_ok_def)

lemma reading_cases: "reading up Y = None \<or> reading up Y = Some (sys_db Y)"
  by (simp add: reading_def)

lemma operates_ok: "operates J E Ir Ic d P \<Longrightarrow> deployment_ok E Ir Ic P"
proof (induction rule: operates.induct)
  case (boots D wording path yml ep p loads files t A s)
  from boot_ok[OF boots.hyps(3) load_config_ok[OF boots.hyps(4)] boots.hyps(5)] boots.hyps(3) show ?case
    by (auto simp: deployment_ok_def log_ok_def job_ok_started) (auto simp: started_job_def)
next
  case (request P w q)
  then show ?case by (intro deployment_ok_step) (auto simp: tick_def intro: request_ok_step)
next
  case (elsewhere P t D s)
  then show ?case by (intro deployment_ok_step) (auto simp: tick_def system_ok_def)
next
  case (rules_read P t up)
  let ?j = "begin_poll Ir t (reading up (dp_system P)) (dp_rules P)"
  have "deployment_ok E Ir Ic (advance t (dp_system P) P)"
    using rules_read by (intro deployment_ok_step) (auto simp: tick_def)
  moreover have "job_ok Ir t ((t, sys_db (dp_system P)) # dp_stores P) ?j"
    using rules_read reading_cases by (intro job_ok_begin[where now = "dp_now P"]) (auto simp: tick_def deployment_ok_def)
  ultimately show ?case by (auto simp: deployment_ok_def advance_def begin_poll_def)
next
  case (clients_read P t up)
  let ?j = "begin_poll Ic t (reading up (dp_system P)) (dp_clients P)"
  have "deployment_ok E Ir Ic (advance t (dp_system P) P)"
    using clients_read by (intro deployment_ok_step) (auto simp: tick_def)
  moreover have "job_ok Ic t ((t, sys_db (dp_system P)) # dp_stores P) ?j"
    using clients_read reading_cases by (intro job_ok_begin[where now = "dp_now P"]) (auto simp: tick_def deployment_ok_def)
  ultimately show ?case by (auto simp: deployment_ok_def advance_def begin_poll_def)
next
  case (rules_load P t r reached)
  note ok = rules_load.IH[unfolded deployment_ok_def]
  have t: "dp_now P < t" using rules_load.hyps(2) by (simp add: tick_def)
  obtain Dr Dc where D: "store_at (dp_stores P) (jb_as_of (dp_rules P)) = Some Dr"
      "store_at (dp_stores P) (jb_as_of (dp_clients P)) = Some Dc" "system_ok E Dr Dc (dp_system P)" using ok by auto
  let ?Y = "finish_rules_poll t reached (dp_system P)"
  have db: "sys_db ?Y = sys_db (dp_system P)" by (simp add: finish_rules_poll_def)
  have "store_ok E D" if "reached = Some D" for D using open_store_ok ok rules_load.hyps(3) that by blast
  from rules_poll_replaces[OF D(3) this]
  have Y: "system_ok E (case reached of None \<Rightarrow> Dr | Some D \<Rightarrow> D) Dc ?Y" .
  have c: "jb_as_of (dp_clients P) \<le> dp_now P" using ok by (simp add: job_ok_def)
  have "log_ok E t ((t, sys_db ?Y) # dp_stores P)"
    using log_ok_advance[OF _ t deployment_store_ok[OF rules_load.IH]] ok by (simp add: db)
  moreover have "job_ok Ir t ((t, sys_db ?Y) # dp_stores P) (end_poll r reached (dp_rules P))"
    using ok t rules_load.hyps(3) by (intro job_ok_end[where now = "dp_now P"]) auto
  moreover have "store_at ((t, sys_db ?Y) # dp_stores P) (jb_as_of (end_poll r reached (dp_rules P))) =
      Some (case reached of None \<Rightarrow> Dr | Some D \<Rightarrow> D)"
    using end_poll_store[OF _ rules_load.hyps(3) t D(1)] ok by blast
  moreover have "job_ok Ic t ((t, sys_db ?Y) # dp_stores P) (dp_clients P)" using job_ok_later[OF _ t] ok by blast
  ultimately show ?case using ok t D(2) Y c
    by (simp add: deployment_ok_def advance_def store_at_later)
next
  case (clients_load P t r reached)
  note ok = clients_load.IH[unfolded deployment_ok_def]
  have t: "dp_now P < t" using clients_load.hyps(2) by (simp add: tick_def)
  obtain Dr Dc where D: "store_at (dp_stores P) (jb_as_of (dp_rules P)) = Some Dr"
      "store_at (dp_stores P) (jb_as_of (dp_clients P)) = Some Dc" "system_ok E Dr Dc (dp_system P)" using ok by auto
  let ?Y = "finish_clients_poll t reached (dp_system P)"
  have db: "sys_db ?Y = sys_db (dp_system P)" by (simp add: finish_clients_poll_def)
  have "store_ok E D" if "reached = Some D" for D using open_store_ok ok clients_load.hyps(3) that by blast
  from clients_poll_replaces[OF D(3) this]
  have Y: "system_ok E Dr (case reached of None \<Rightarrow> Dc | Some D \<Rightarrow> D) ?Y" .
  have c: "jb_as_of (dp_rules P) \<le> dp_now P" using ok by (simp add: job_ok_def)
  have "log_ok E t ((t, sys_db ?Y) # dp_stores P)"
    using log_ok_advance[OF _ t deployment_store_ok[OF clients_load.IH]] ok by (simp add: db)
  moreover have "job_ok Ic t ((t, sys_db ?Y) # dp_stores P) (end_poll r reached (dp_clients P))"
    using ok t clients_load.hyps(3) by (intro job_ok_end[where now = "dp_now P"]) auto
  moreover have "store_at ((t, sys_db ?Y) # dp_stores P) (jb_as_of (end_poll r reached (dp_clients P))) =
      Some (case reached of None \<Rightarrow> Dc | Some D \<Rightarrow> D)"
    using end_poll_store[OF _ clients_load.hyps(3) t D(2)] ok by blast
  moreover have "job_ok Ir t ((t, sys_db ?Y) # dp_stores P) (dp_rules P)" using job_ok_later[OF _ t] ok by blast
  ultimately show ?case using ok t D(1) Y c
    by (simp add: deployment_ok_def advance_def store_at_later)
qed

lemma deployment_caches:
  assumes "operates J E Ir Ic d P"
  obtains Dr Dc n C n' C' where
    "store_at (dp_stores P) (jb_as_of (dp_rules P)) = Some Dr" "store_ok E Dr"
    "st_rules_cache (sys_app (dp_system P)) = load_all n (map (cached_of Dr) (t_rules Dr)) C"
    "store_at (dp_stores P) (jb_as_of (dp_clients P)) = Some Dc" "store_ok E Dc"
    "st_clients_cache (sys_app (dp_system P)) = load_clients_into_cache n' Dc C'"
  using operates_ok[OF assms] by (auto simp: deployment_ok_def system_ok_def)

lemma deployment_age:
  assumes "operates J E Ir Ic d P" "tick Ir Ic d t P"
  shows "t - jb_as_of (dp_rules P) \<le> (of_nat (jb_failed (dp_rules P)) + 1) * Ir + d" "jb_as_of (dp_rules P) \<le> dp_now P"
    "t - jb_as_of (dp_clients P) \<le> (of_nat (jb_failed (dp_clients P)) + 1) * Ic + d" "jb_as_of (dp_clients P) \<le> dp_now P"
proof -
  note ok = operates_ok[OF assms(1), unfolded deployment_ok_def]
  show "t - jb_as_of (dp_rules P) \<le> (of_nat (jb_failed (dp_rules P)) + 1) * Ir + d"
    using ok assms(2) job_age unfolding tick_def by blast
  show "t - jb_as_of (dp_clients P) \<le> (of_nat (jb_failed (dp_clients P)) + 1) * Ic + d"
    using ok assms(2) job_age unfolding tick_def by blast
  show "jb_as_of (dp_rules P) \<le> dp_now P" "jb_as_of (dp_clients P) \<le> dp_now P" using ok by (simp_all add: job_ok_def)
qed

subsection \<open>A demonstration deployment\<close>

text \<open>The client is disabled at 10, the clients are polled at 60 and loaded at 61.\<close>

definition disabled_store :: db where
  "disabled_store = demo_store\<lparr>t_clients := [demo_client\<lparr>c_status := ''disabled''\<rparr>]\<rparr>"

lemma disabled_store_ok: "store_ok demo_db_env disabled_store"
proof -
  have "integrity id disabled_store" using demo_store_ok
    by (simp add: store_ok_def integrity_def clients_integrity_def groups_integrity_def rules_integrity_def disabled_store_def
        demo_store_def demo_rows ck_clients_def)
  moreover have "int4_columns disabled_store" using demo_store_ok
    by (simp add: store_ok_def int4_columns_def disabled_store_def)
  moreover have "rules_ok demo_coercions disabled_store" using demo_store_ok
    by (simp add: store_ok_def rules_ok_def disabled_store_def)
  ultimately show ?thesis by (simp add: store_ok_def)
qed

definition demo_disabled_system :: "keyspace system" where
  "demo_disabled_system = demo_system\<lparr>sys_db := disabled_store\<rparr>"

definition demo_deployment :: "keyspace deployment" where
  "demo_deployment = \<lparr>dp_system = finish_clients_poll 61 (Some disabled_store) demo_disabled_system,
     dp_rules = started_job 900 0,
     dp_clients = \<lparr>jb_next = 120, jb_open = None, jb_as_of = 60, jb_failed = 0\<rparr>, dp_now = 61,
     dp_stores = [(61, disabled_store), (60, disabled_store), (10, disabled_store), (0, demo_store)]\<rparr>"

lemma demo_boots:
  assumes "d < Ir" "d < Ic" "boot (ping (Pong True)) (\<lambda>_. True) all_scripts (Some (FixedWindowParams 60000 100)) 0 (Some demo_store) = Inr A"
  shows "operates ref_jwt demo_db_env Ir Ic d \<lparr>dp_system = \<lparr>sys_app = A, sys_db = demo_store, sys_redis = s\<rparr>,
      dp_rules = started_job Ir 0, dp_clients = started_job Ic 0, dp_now = 0, dp_stores = [(0, demo_store)]\<rparr>"
proof -
  have c: "load_rate_limiter_settings (d_coercions demo_db_env) (\<lambda>_. []) ''default_rate_limits.yml'' (Some (Inr default_rate_limits)) =
      Inr \<lparr>ep_identifier_type = ENDPOINT, ep_config = FixedWindowParams 60000 100\<rparr>"
    by (rule shipped_config) (simp_all add: demo_coercions_def)
  show ?thesis by (rule operates.boots[OF assms(1,2) demo_store_ok c]) (use assms in simp)
qed

lemma demo_boot: "boot (ping (Pong True)) (\<lambda>_. True) all_scripts (Some (FixedWindowParams 60000 100)) 0 (Some demo_store) = Inr (sys_app demo_system)"
proof -
  have s: "register_all_scripts (\<lambda>_. True) all_scripts [] = (Inr all_scripts, rev all_scripts)" by code_simp
  show ?thesis
    by (simp add: boot_def ping_def s load_rules_into_cache_def fetch_all_rules_ok[OF demo_store_ok] demo_system_def demo_service_def)
qed

lemma demo_operates: "operates ref_jwt demo_db_env 900 60 5 demo_deployment"
proof -
  let ?P0 = "\<lparr>dp_system = demo_system, dp_rules = started_job 900 0, dp_clients = started_job 60 0, dp_now = 0,
      dp_stores = [(0, demo_store)]\<rparr>"
  let ?P1 = "\<lparr>dp_system = demo_disabled_system, dp_rules = started_job 900 0, dp_clients = started_job 60 0, dp_now = 10,
      dp_stores = [(10, disabled_store), (0, demo_store)]\<rparr>"
  let ?P2 = "\<lparr>dp_system = demo_disabled_system, dp_rules = started_job 900 0, dp_clients =
        \<lparr>jb_next = 120, jb_open = Some (60, Some disabled_store), jb_as_of = 0, jb_failed = 0\<rparr>, dp_now = 60,
      dp_stores = [(60, disabled_store), (10, disabled_store), (0, demo_store)]\<rparr>"
  have db: "sys_db demo_disabled_system = disabled_store" by (simp add: demo_disabled_system_def)
  have 0: "operates ref_jwt demo_db_env 900 60 5 ?P0"
    using demo_boots[OF _ _ demo_boot, of 5 900 60 demo_keyspace] by (simp add: demo_system_def)
  have "tick 900 60 5 10 ?P0" by (simp add: tick_def on_time_def started_job_def)
  from operates.elsewhere[OF 0 this disabled_store_ok, of demo_keyspace] have 1: "operates ref_jwt demo_db_env 900 60 5 ?P1"
    by (simp add: advance_def demo_disabled_system_def demo_system_def)
  have "tick 900 60 5 60 ?P1" "may_begin 60 (dp_clients ?P1)" by (simp_all add: tick_def on_time_def started_job_def may_begin_def)
  from operates.clients_read[OF 1 this, of True] have 2: "operates ref_jwt demo_db_env 900 60 5 ?P2"
    by (simp add: advance_def begin_poll_def started_job_def reading_def db)
  have "tick 900 60 5 61 ?P2" by (simp add: tick_def on_time_def started_job_def)
  from operates.clients_load[OF 2 this] show ?thesis
    by (simp add: advance_def end_poll_def demo_deployment_def finish_clients_poll_def db)
qed

subsection \<open>What a loaded table serves\<close>

lemma served_candidates:
  assumes "store_ok E D" "R = load_all n (map (cached_of D) (t_rules D)) C"
  shows "set (get_candidates R pk ep) = cached_of D ` {r \<in> set (t_rules D). is_active r \<and> r_identifier_signature r \<noteq> ''global''
      \<and> r_client_id r = pk \<and> r_endpoint r = ep}"
  using stored_rule_cached[OF assms(1)] by (auto simp: assms(2) set_candidates)

lemma served_global:
  assumes "store_ok E D" "R = load_all n (map (cached_of D) (t_rules D)) C"
  shows "get_global R pk ep = map_option (cached_of D) (find (\<lambda>r. is_active r \<and> r_identifier_signature r = ''global''
      \<and> r_client_id r = pk \<and> r_endpoint r = ep) (t_rules D))"
proof (cases "get_global R pk ep")
  case None
  then have "find (\<lambda>r. is_active r \<and> r_identifier_signature r = ''global'' \<and> r_client_id r = pk \<and> r_endpoint r = ep) (t_rules D) = None"
    using stored_rule_cached[OF assms(1)] by (auto simp: assms(2) global_None find_None_iff)
  with None show ?thesis by simp
next
  case (Some c)
  note c = global_in[OF Some[unfolded assms(2)]]
  then obtain r where r: "r \<in> set (t_rules D)" "c = cached_of D r" by auto
  then have ra: "is_active r" "r_identifier_signature r = ''global''" "r_client_id r = pk" "r_endpoint r = ep"
    using c stored_rule_cached[OF assms(1)] by auto
  obtain r' where r': "find (\<lambda>r. is_active r \<and> r_identifier_signature r = ''global'' \<and> r_client_id r = pk \<and> r_endpoint r = ep) (t_rules D) = Some r'"
    using r(1) ra by (cases "find (\<lambda>r. is_active r \<and> r_identifier_signature r = ''global'' \<and> r_client_id r = pk \<and> r_endpoint r = ep) (t_rules D)")
      (auto simp: find_None_iff)
  have "r' = r" using find_SomeD[OF r'] r(1) ra by (intro active_scope_inject[OF assms(1)]) (auto simp: rule_scope_key_def)
  with Some r(2) r' show ?thesis by simp
qed

subsection \<open>Properties\<close>

text \<open>
  C33.  What a replica serves is what the tables said a bounded time ago.  At the moment of any step of a
  deployment whose polls end within \<open>d\<close> of their due time, the rules cache holds exactly the active rules
  of the store of one moment, and the clients cache exactly the clients of another, and neither moment
  lies back longer than \<open>d\<close> and one interval for the poll that is to come and for each poll that failed in a row.
\<close>

theorem caches_follow_tables:
  assumes "operates J E Ir Ic d P" "tick Ir Ic d t P"
  shows "\<exists>a Dr b Dc. store_at (dp_stores P) a = Some Dr \<and> a \<le> dp_now P
    \<and> t - a \<le> (of_nat (jb_failed (dp_rules P)) + 1) * Ir + d
    \<and> set (get_candidates (st_rules_cache (sys_app (dp_system P))) pk ep) = cached_of Dr ` {r \<in> set (t_rules Dr). is_active r
        \<and> r_identifier_signature r \<noteq> ''global'' \<and> r_client_id r = pk \<and> r_endpoint r = ep}
    \<and> get_global (st_rules_cache (sys_app (dp_system P))) pk ep = map_option (cached_of Dr) (find (\<lambda>r. is_active r
        \<and> r_identifier_signature r = ''global'' \<and> r_client_id r = pk \<and> r_endpoint r = ep) (t_rules Dr))
    \<and> store_at (dp_stores P) b = Some Dc \<and> b \<le> dp_now P
    \<and> t - b \<le> (of_nat (jb_failed (dp_clients P)) + 1) * Ic + d
    \<and> get_by_client_id (st_clients_cache (sys_app (dp_system P))) cid = map_option serialize_client (get_client_by_client_id Dc cid)"
proof -
  obtain Dr Dc n C n' C' where D: "store_at (dp_stores P) (jb_as_of (dp_rules P)) = Some Dr" "store_ok E Dr"
      "st_rules_cache (sys_app (dp_system P)) = load_all n (map (cached_of Dr) (t_rules Dr)) C"
      "store_at (dp_stores P) (jb_as_of (dp_clients P)) = Some Dc" "store_ok E Dc"
      "st_clients_cache (sys_app (dp_system P)) = load_clients_into_cache n' Dc C'"
    by (rule deployment_caches[OF assms(1)])
  show ?thesis
    using D(1,4) deployment_age[OF assms] served_candidates[OF D(2,3)] served_global[OF D(2,3)]
      get_by_client_id_loaded[OF D(5)] unfolding D(6) by blast
qed

theorem caches_follow_tables_witness:
  "\<exists>b Dc. store_at (dp_stores demo_deployment) b = Some Dc \<and> 100 - b \<le> 65
     \<and> get_by_client_id (st_clients_cache (sys_app (dp_system demo_deployment))) ''acme''
         = map_option serialize_client (get_client_by_client_id Dc ''acme'')"
proof -
  have t: "tick 900 60 5 100 demo_deployment" by (simp add: tick_def on_time_def started_job_def demo_deployment_def)
  have f: "(of_nat (jb_failed (dp_clients demo_deployment)) + 1) * 60 + 5 = (65::rat)" by (simp add: demo_deployment_def)
  show ?thesis
    using caches_follow_tables[OF demo_operates t, of "''c1''" "''/pay''" "''acme''"] unfolding f by blast
qed

text \<open>
  C32.  A revocation takes effect on every replica, without a restart and whatever tokens are still
  alive: when a client has not been active and registered for a scope since \<open>t0\<close>, then after the
  interval of the clients poll and \<open>d\<close>, and one more interval for each poll that failed in a row, no
  request passes the check for that scope as this client.
\<close>

theorem revocation_takes_effect:
  assumes "operates J E Ir Ic d P" "world_ok J E w" "tick Ir Ic d (w_time w) P"
    and "\<forall>t D. t0 \<le> t \<and> t \<le> dp_now P \<and> store_at (dp_stores P) t = Some D \<longrightarrow>
      \<not> (\<exists>c \<in> set (t_clients D). c_client_id c = cid \<and> c_status c = ''active'' \<and> scope \<in> set (c_scopes c))"
    and "t0 + (of_nat (jb_failed (dp_clients P)) + 1) * Ic + d \<le> w_time w"
    and "scope_check w (dp_system P) scope credentials = Inr ac"
  shows "ac_client_id ac \<noteq> cid"
proof
  assume cid: "ac_client_id ac = cid"
  obtain Dr Dc n C n' C' where D: "store_at (dp_stores P) (jb_as_of (dp_rules P)) = Some Dr" "store_ok E Dr"
      "st_rules_cache (sys_app (dp_system P)) = load_all n (map (cached_of Dr) (t_rules Dr)) C"
      "store_at (dp_stores P) (jb_as_of (dp_clients P)) = Some Dc" "store_ok E Dc"
      "st_clients_cache (sys_app (dp_system P)) = load_clients_into_cache n' Dc C'"
    by (rule deployment_caches[OF assms(1)])
  have "t0 \<le> jb_as_of (dp_clients P)" "jb_as_of (dp_clients P) \<le> dp_now P"
    using deployment_age(3,4)[OF assms(1,3)] assms(5) by linarith+
  moreover obtain c where "c \<in> set (t_clients Dc)" "c_client_id c = cid" "c_status c = ''active''" "scope \<in> set (c_scopes c)"
    using access_is_current[OF D(5) assms(6)[unfolded scope_check_def D(6)]] cid by blast
  ultimately show False using assms(4) D(4) by blast
qed

theorem revocation_takes_effect_witness:
  "\<nexists>ac. scope_check (demo_world\<lparr>w_time := 100\<rparr>) (dp_system demo_deployment) ''check'' (Some demo_bearer) = Inr ac
     \<and> ac_client_id ac = ''acme''"
proof -
  have w: "world_ok ref_jwt demo_db_env (demo_world\<lparr>w_time := 100\<rparr>)"
    using demo_world_ok by (simp add: world_ok_def)
  have t: "tick 900 60 5 (w_time (demo_world\<lparr>w_time := 100\<rparr>)) demo_deployment"
    by (simp add: tick_def on_time_def started_job_def demo_deployment_def)
  have h: "\<forall>t D. 10 \<le> t \<and> t \<le> dp_now demo_deployment \<and> store_at (dp_stores demo_deployment) t = Some D \<longrightarrow>
      \<not> (\<exists>c \<in> set (t_clients D). c_client_id c = ''acme'' \<and> c_status c = ''active'' \<and> ''check'' \<in> set (c_scopes c))"
    by (auto simp: demo_deployment_def store_at_def disabled_store_def split: if_splits)
  have "10 + (of_nat (jb_failed (dp_clients demo_deployment)) + 1) * 60 + 5 \<le> w_time (demo_world\<lparr>w_time := 100\<rparr>)"
    by (simp add: demo_deployment_def)
  from revocation_takes_effect[OF demo_operates w t h this] show ?thesis by blast
qed

text \<open>
  The scheduler of the process can be started again after any number of lifespans, each with its own
  settings: no start meets the jobs or the state that the one before left, and the last start leaves
  exactly the two polls, with the intervals of its settings, on a running scheduler.
\<close>

theorem scheduler_restarts:
  assumes "scheduler_library A jobs running" "\<not> running c" "jobs c = []"
  shows "\<exists>c' c''. lifespans A Ss c = Inr c' \<and> start_scheduler A S c' = Inr c'' \<and> running c''
    \<and> map_of (jobs c'') = map_of (map (\<lambda>j. (j_id j, j)) (scheduled_jobs S))"
proof -
  have j: "distinct (map fst (jobs c))" "set (map fst (jobs c)) \<subseteq> {''rules_poll'', ''clients_poll''}"
    by (simp_all add: assms(3))
  obtain c' where c': "lifespans A Ss c = Inr c'" "\<not> running c'" "distinct (map fst (jobs c'))"
      "set (map fst (jobs c')) \<subseteq> {''rules_poll'', ''clients_poll''}"
    using scheduler_library.lifespans_ok[OF assms(1,2) j] by blast
  obtain c'' where "start_scheduler A S c' = Inr c''" "running c''"
      "map_of (jobs c'') = map_of (map (\<lambda>j. (j_id j, j)) (scheduled_jobs S))"
    using scheduler_library.start_ok[OF assms(1) c'(2-4), of S] by blast
  with c' show ?thesis by blast
qed

theorem scheduler_restarts_witness:
  "\<exists>c' c''. lifespans ref_scheduler [demo_settings ''{.}'' ''k1'', blank_settings] ([], False, False) = Inr c'
     \<and> start_scheduler ref_scheduler (demo_settings ''{...}'' ''k2'') c' = Inr c'' \<and> fst (snd c'')
     \<and> map_of (fst c'') = map_of (map (\<lambda>j. (j_id j, j)) (scheduled_jobs (demo_settings ''{...}'' ''k2'')))"
  by (rule scheduler_restarts[OF ref_sched.scheduler_library_axioms]) simp_all

end
