(* ===== verification/Database_Engine.thy ===== *)
theory Database_Engine
  imports Scheduler
begin

text \<open>
  \<^verbatim>\<open>core/db.py\<close>, \<^verbatim>\<open>core/redis_client.py\<close> and the end of the lifespan in \<^verbatim>\<open>main.py\<close>: what a process holds of
  the database and of Redis, from the first use to the shutdown.  SQLAlchemy is the record \<open>sqlalchemy\<close> and
  its documented behaviour the locale \<open>sqlalchemy_library\<close>; the world \<open>'w\<close> is whatever the libraries keep.
\<close>

subsection \<open>The engine, its sessions and their end\<close>

record ('e, 'f, 'q, 'w) sqlalchemy =
  sa_create_async_engine :: "string \<Rightarrow> 'w \<Rightarrow> string + 'e \<times> 'w"
  sa_sessionmaker :: "'e \<Rightarrow> 'f"
  sa_open :: "'f \<Rightarrow> 'w \<Rightarrow> 'q \<times> 'w"
  sa_close :: "'q \<Rightarrow> 'w \<Rightarrow> 'w"
  sa_dispose :: "'e \<Rightarrow> 'w \<Rightarrow> 'w"

text \<open>The two globals of the module.\<close>

record ('e, 'f) db_module =
  db_engine :: "'e option"
  db_session_factory :: "'f option"

definition db_module_init :: "('e, 'f) db_module" where
  "db_module_init = \<lparr>db_engine = None, db_session_factory = None\<rparr>"

definition get_engine :: "('e, 'f, 'q, 'w) sqlalchemy \<Rightarrow> settings \<Rightarrow> ('e, 'f) db_module \<times> 'w \<Rightarrow>
    string + 'e \<times> ('e, 'f) db_module \<times> 'w" where
  "get_engine A S = (\<lambda>(M, w). case db_engine M of
       None \<Rightarrow> (case sa_create_async_engine A (database_url S) w of
           Inl e \<Rightarrow> Inl e
         | Inr (e, w') \<Rightarrow> Inr (e, M\<lparr>db_engine := Some e\<rparr>, w'))
     | Some e \<Rightarrow> Inr (e, M, w))"

definition get_session_factory :: "('e, 'f, 'q, 'w) sqlalchemy \<Rightarrow> settings \<Rightarrow> ('e, 'f) db_module \<times> 'w \<Rightarrow>
    string + 'f \<times> ('e, 'f) db_module \<times> 'w" where
  "get_session_factory A S = (\<lambda>(M, w). case db_session_factory M of
       None \<Rightarrow> bind_sum (get_engine A S (M, w)) (\<lambda>(e, M, w).
         Inr (sa_sessionmaker A e, M\<lparr>db_session_factory := Some (sa_sessionmaker A e)\<rparr>, w))
     | Some f \<Rightarrow> Inr (f, M, w))"

text \<open>Entering \<^verbatim>\<open>get_db\<close>, or a loader's \<^verbatim>\<open>async with\<close>; leaving it is \<open>sa_close\<close>.\<close>

definition get_db :: "('e, 'f, 'q, 'w) sqlalchemy \<Rightarrow> settings \<Rightarrow> ('e, 'f) db_module \<times> 'w \<Rightarrow>
    string + 'q \<times> ('e, 'f) db_module \<times> 'w" where
  "get_db A S x = bind_sum (get_session_factory A S x) (\<lambda>(f, M, w). case sa_open A f w of (q, w') \<Rightarrow> Inr (q, M, w'))"

definition dispose_engine :: "('e, 'f, 'q, 'w) sqlalchemy \<Rightarrow> ('e, 'f) db_module \<times> 'w \<Rightarrow> ('e, 'f) db_module \<times> 'w" where
  "dispose_engine A = (\<lambda>(M, w). (\<lparr>db_engine = None, db_session_factory = None\<rparr>,
     case db_engine M of None \<Rightarrow> w | Some e \<Rightarrow> sa_dispose A e w))"

text \<open>The steps of a process, in any order: sessions begin and end, requests overlapping, and the engine is disposed of.\<close>

inductive uses_db :: "('e, 'f, 'q, 'w) sqlalchemy \<Rightarrow> 'w \<Rightarrow> ('e, 'f) db_module \<times> 'w \<Rightarrow> bool" for A w0 where
  start: "uses_db A w0 (db_module_init, w0)"
| enter: "uses_db A w0 x \<Longrightarrow> get_db A S x = Inr (q, M, w) \<Longrightarrow> uses_db A w0 (M, w)"
| leave: "uses_db A w0 (M, w) \<Longrightarrow> uses_db A w0 (M, sa_close A q w)"
| dispose: "uses_db A w0 x \<Longrightarrow> uses_db A w0 (dispose_engine A x)"

text \<open>The globals agree with what is open: one pool for the engine, none without, and a factory on it.\<close>

definition module_ok :: "('w \<Rightarrow> 'e set) \<Rightarrow> ('f \<Rightarrow> 'e) \<Rightarrow> ('e, 'f) db_module \<times> 'w \<Rightarrow> bool" where
  "module_ok pools bound = (\<lambda>(M, w). pools w = set_option (db_engine M)
     \<and> (\<forall>f. db_session_factory M = Some f \<longrightarrow> db_engine M = Some (bound f)))"

text \<open>
  What SQLAlchemy documents: an engine is a new object with a pool of connections for its URL until it is
  disposed of, a factory makes sessions on its engine, and opening or closing a session makes no engine.
\<close>

locale sqlalchemy_library =
  fixes A :: "('e, 'f, 'q, 'w) sqlalchemy" and pools :: "'w \<Rightarrow> 'e set" and url_of :: "'e \<Rightarrow> string"
    and bound :: "'f \<Rightarrow> 'e" and session_engine :: "'q \<Rightarrow> 'e"
  assumes create: "sa_create_async_engine A url w = Inr (e, w') \<Longrightarrow> e \<notin> pools w \<and> pools w' = insert e (pools w) \<and> url_of e = url"
    and sessionmaker: "bound (sa_sessionmaker A e) = e"
    and session: "sa_open A f w = (q, w') \<Longrightarrow> session_engine q = bound f \<and> pools w' = pools w"
    and close: "pools (sa_close A q w) = pools w"
    and disposed: "pools (sa_dispose A e w) = pools w - {e}"
begin

lemma get_engine_ok:
  assumes "module_ok pools bound (M, w)" "get_engine A S (M, w) = Inr (e, M', w')"
  shows "module_ok pools bound (M', w')" "db_engine M' = Some e" "db_engine M = None \<Longrightarrow> url_of e = database_url S" "db_engine M = Some e' \<Longrightarrow> e' = e"
  using assms create[of "database_url S" w] by (auto simp: module_ok_def get_engine_def split: option.splits sum.splits)

lemma get_session_factory_ok:
  assumes "module_ok pools bound (M, w)" "get_session_factory A S (M, w) = Inr (f, M', w')"
  shows "module_ok pools bound (M', w')" "db_engine M' = Some (bound f)" "db_engine M = None \<Longrightarrow> url_of (bound f) = database_url S"
    "db_engine M = Some e' \<Longrightarrow> bound f = e'"
proof -
  have "module_ok pools bound (M', w') \<and> db_engine M' = Some (bound f) \<and> (db_engine M = None \<longrightarrow> url_of (bound f) = database_url S)
      \<and> (\<forall>e'. db_engine M = Some e' \<longrightarrow> bound f = e')"
  proof (cases "db_session_factory M")
    case None
    then obtain e M1 where g: "get_engine A S (M, w) = Inr (e, M1, w')" "f = sa_sessionmaker A e" "M' = M1\<lparr>db_session_factory := Some f\<rparr>"
      using assms(2) by (auto simp: get_session_factory_def bind_sum_def split: sum.splits)
    note ok = get_engine_ok[OF assms(1) g(1)]
    then show ?thesis using g(2,3) by (auto simp: module_ok_def sessionmaker)
  next
    case (Some f')
    then show ?thesis using assms by (auto simp: get_session_factory_def module_ok_def)
  qed
  then show "module_ok pools bound (M', w')" "db_engine M' = Some (bound f)" "db_engine M = None \<Longrightarrow> url_of (bound f) = database_url S"
    "db_engine M = Some e' \<Longrightarrow> bound f = e'" by simp_all
qed

lemma get_db_ok:
  assumes "module_ok pools bound (M, w)" "get_db A S (M, w) = Inr (q, M', w')"
  shows "module_ok pools bound (M', w')" "db_engine M' = Some (session_engine q)" "db_engine M = None \<Longrightarrow> url_of (session_engine q) = database_url S"
    "db_engine M = Some e' \<Longrightarrow> session_engine q = e'"
proof -
  obtain f w1 where f: "get_session_factory A S (M, w) = Inr (f, M', w1)" "sa_open A f w1 = (q, w')"
    using assms(2) by (auto simp: get_db_def bind_sum_def split: sum.splits prod.splits)
  note ok = get_session_factory_ok[OF assms(1) f(1)]
  note s = session[OF f(2)]
  show "module_ok pools bound (M', w')" "db_engine M' = Some (session_engine q)" "db_engine M = None \<Longrightarrow> url_of (session_engine q) = database_url S"
    "db_engine M = Some e' \<Longrightarrow> session_engine q = e'" using ok s by (simp_all add: module_ok_def)
qed

lemma dispose_ok:
  assumes "module_ok pools bound (M, w)"
  shows "module_ok pools bound (dispose_engine A (M, w))" "pools (snd (dispose_engine A (M, w))) = {}"
  using assms disposed by (auto simp: module_ok_def dispose_engine_def split: option.splits)

lemma uses_db_ok:
  assumes "uses_db A w0 x" "pools w0 = {}"
  shows "module_ok pools bound x"
  using assms(1)
proof (induction rule: uses_db.induct)
  case start show ?case by (simp add: module_ok_def db_module_init_def assms(2))
next
  case (enter x S q M w)
  then show ?case using get_db_ok(1) by (cases x) blast
next
  case (leave M w q) then show ?case by (simp add: module_ok_def close)
next
  case (dispose x) then show ?case using dispose_ok(1) by (cases x) blast
qed

end

subsection \<open>Connections to Redis\<close>

text \<open>\<^verbatim>\<open>create_redis_pool\<close>: the arguments of \<^verbatim>\<open>ConnectionPool.from_url\<close>.\<close>

record redis_pool_options =
  rp_url :: string
  rp_max_connections :: int
  rp_socket_timeout :: py_float
  rp_socket_connect_timeout :: py_float

definition create_redis_pool :: "settings \<Rightarrow> redis_pool_options" where
  "create_redis_pool S = \<lparr>rp_url = redis_url S, rp_max_connections = redis_max_connections S,
     rp_socket_timeout = redis_socket_timeout_seconds S, rp_socket_connect_timeout = redis_socket_connect_timeout_seconds S\<rparr>"

record 'w redis_driver =
  rd_aclose :: "'w \<Rightarrow> 'w"
  rd_disconnect :: "'w \<Rightarrow> 'w"

text \<open>The level of \<^verbatim>\<open>setup_logging\<close>: an attribute of \<^verbatim>\<open>logging\<close>, \<^verbatim>\<open>INFO\<close> without one of that name.\<close>

definition setup_logging :: "(string \<Rightarrow> 'v option) \<Rightarrow> 'v \<Rightarrow> settings \<Rightarrow> 'v" where
  "setup_logging attributes info S = (case attributes (log_level S) of None \<Rightarrow> info | Some level \<Rightarrow> level)"

subsection \<open>The end of a lifespan\<close>

definition lifespan_shutdown :: "'c scheduler_api \<Rightarrow> 'w redis_driver \<Rightarrow> ('e, 'f, 'q, 'w) sqlalchemy \<Rightarrow> 'c \<Rightarrow> ('e, 'f) db_module \<times> 'w \<Rightarrow>
    scheduler_error + 'c \<times> ('e, 'f) db_module \<times> 'w" where
  "lifespan_shutdown SA R A c = (\<lambda>(M, w). map_sum id (\<lambda>c. (c, dispose_engine A (M, rd_disconnect R (rd_aclose R w)))) (shutdown_scheduler SA c))"

locale process_library =
  sqlalchemy_library A pools url_of bound session_engine + scheduler_library SA jobs running
  for A :: "('e, 'f, 'q, 'w) sqlalchemy" and pools url_of bound session_engine and SA :: "'c scheduler_api" and jobs running +
  fixes R :: "'w redis_driver" and connections :: "'w \<Rightarrow> nat"
  assumes aclose: "pools (rd_aclose R w) = pools w"
    and disconnect: "connections (rd_disconnect R w) = 0" "pools (rd_disconnect R w) = pools w"
    and dispose_connections: "connections (sa_dispose A e w) = connections w"
begin

lemma shutdown_releases:
  assumes "module_ok pools bound (M, w)" "running c"
  shows "\<exists>c' w'. lifespan_shutdown SA R A c (M, w) = Inr (c', db_module_init, w') \<and> \<not> running c' \<and> pools w' = {} \<and> connections w' = 0"
proof -
  obtain c' where c': "shutdown_scheduler SA c = Inr c'" "\<not> running c'" using shutdown_ok[OF assms(2)] by blast
  let ?w = "rd_disconnect R (rd_aclose R w)"
  have "module_ok pools bound (M, ?w)" using assms(1) by (simp add: module_ok_def aclose disconnect)
  from dispose_ok(2)[OF this] have "pools (snd (dispose_engine A (M, ?w))) = {}" .
  moreover have "connections (snd (dispose_engine A (M, ?w))) = 0"
    by (simp add: dispose_engine_def dispose_connections disconnect split: option.split)
  moreover have "fst (dispose_engine A (M, ?w)) = db_module_init" by (simp add: dispose_engine_def db_module_init_def)
  ultimately show ?thesis using c'
    by (cases "dispose_engine A (M, ?w)") (auto simp: lifespan_shutdown_def)
qed

end

subsection \<open>A reference world\<close>

text \<open>The engines not yet disposed of, each with a number of its own and its URL, and the connections to Redis.\<close>

type_synonym ref_engine = "nat \<times> string"
type_synonym ref_world = "ref_engine list \<times> nat"

definition ref_sqlalchemy :: "(ref_engine, ref_engine, ref_engine, ref_world) sqlalchemy" where
  "ref_sqlalchemy = \<lparr>
     sa_create_async_engine = (\<lambda>url (es, k). if url = [] then Inl ''ArgumentError''
       else let e = (Suc (sum_list (map fst es)), url) in Inr (e, e # es, k)),
     sa_sessionmaker = id, sa_open = (\<lambda>f w. (f, w)), sa_close = (\<lambda>q w. w),
     sa_dispose = (\<lambda>e (es, k). (filter (\<lambda>x. x \<noteq> e) es, k))\<rparr>"

definition ref_redis_driver :: "ref_world redis_driver" where
  "ref_redis_driver = \<lparr>rd_aclose = id, rd_disconnect = (\<lambda>(es, k). (es, 0))\<rparr>"

interpretation ref_process: process_library ref_sqlalchemy "\<lambda>w. set (fst w)" snd id id ref_scheduler fst "\<lambda>c. fst (snd c)"
  ref_redis_driver snd
proof (intro process_library.intro ref_sched.scheduler_library_axioms)
  have fresh: "(Suc (sum_list (map fst es)), url) \<notin> set es" for es :: "ref_engine list" and url
    using member_le_sum_list[of "Suc (sum_list (map fst es))" "map fst es"] by force
  show "sqlalchemy_library ref_sqlalchemy (\<lambda>w. set (fst w)) snd id id"
  proof unfold_locales
    fix url :: string and w w' :: ref_world and e :: ref_engine
    show "sa_create_async_engine ref_sqlalchemy url w = Inr (e, w') \<Longrightarrow>
        e \<notin> set (fst w) \<and> set (fst w') = insert e (set (fst w)) \<and> snd e = url"
      using fresh by (cases w) (auto simp: ref_sqlalchemy_def Let_def split: if_splits)
  qed (auto simp: ref_sqlalchemy_def split: prod.splits)
  show "process_library_axioms (ref_sqlalchemy :: (ref_engine, ref_engine, ref_engine, ref_world) sqlalchemy) (\<lambda>w. set (fst w)) ref_redis_driver snd"
    by unfold_locales (auto simp: ref_sqlalchemy_def ref_redis_driver_def split: prod.splits)
qed

subsection \<open>Properties\<close>

text \<open>
  C36.  A process has at most one pool of connections to the database, however its sessions overlap: the
  engine of \<^verbatim>\<open>core/db.py\<close> and nothing else.  Every session is handed out on that engine; only where there
  is none a new one is made, for the URL of the settings of that moment.  At the end of a lifespan the
  scheduler is stopped, no pool and no connection to Redis is left, and the module is as at import.
\<close>

theorem engine_lifecycle:
  assumes "process_library A pools url_of bound session_engine SA jobs running R connections" "pools w0 = {}"
    and "uses_db A w0 (M, w)"
  shows "pools w = set_option (db_engine M)
    \<and> (\<forall>S q M' w'. get_db A S (M, w) = Inr (q, M', w') \<longrightarrow> pools w' = {session_engine q}
        \<and> (case db_engine M of None \<Rightarrow> url_of (session_engine q) = database_url S | Some e \<Rightarrow> session_engine q = e))
    \<and> (running c \<longrightarrow> (\<exists>c' w'. lifespan_shutdown SA R A c (M, w) = Inr (c', db_module_init, w')
        \<and> \<not> running c' \<and> pools w' = {} \<and> connections w' = 0))"
proof -
  note lib = process_library.axioms(1)[OF assms(1)]
  have ok: "module_ok pools bound (M, w)" using sqlalchemy_library.uses_db_ok[OF lib assms(3,2)] .
  have "pools w' = {session_engine q} \<and> (case db_engine M of None \<Rightarrow> url_of (session_engine q) = database_url S | Some e \<Rightarrow> session_engine q = e)"
    if "get_db A S (M, w) = Inr (q, M', w')" for S q M' w'
    using sqlalchemy_library.get_db_ok[OF lib ok that] by (auto simp: module_ok_def split: option.splits)
  moreover have "pools w = set_option (db_engine M)" using ok by (simp add: module_ok_def)
  ultimately show ?thesis using process_library.shutdown_releases[OF assms(1) ok] by blast
qed

text \<open>Two overlapping sessions, under settings whose URL has changed in between.\<close>

definition demo_db_settings :: "string \<Rightarrow> settings" where
  "demo_db_settings url = blank_settings\<lparr>database_url := url\<rparr>"

theorem engine_lifecycle_witness:
  "\<exists>M w. get_db ref_sqlalchemy (demo_db_settings ''pg://a'') (db_module_init, [], 3) = Inr ((1, ''pg://a''), M, w)
     \<and> get_db ref_sqlalchemy (demo_db_settings ''pg://b'') (M, w) = Inr ((1, ''pg://a''), M, w) \<and> set (fst w) = {(1, ''pg://a'')}
     \<and> (\<exists>c' w'. lifespan_shutdown ref_scheduler ref_redis_driver ref_sqlalchemy ([], True, False) (M, w) = Inr (c', db_module_init, w')
         \<and> fst w' = [] \<and> snd w' = 0)"
proof -
  let ?M = "\<lparr>db_engine = Some (1, ''pg://a''), db_session_factory = Some (1, ''pg://a'')\<rparr>" and ?w = "([(1, ''pg://a'')], 3)"
  have 1: "get_db ref_sqlalchemy (demo_db_settings ''pg://a'') (db_module_init, [], 3) = Inr ((1, ''pg://a''), ?M, ?w)"
    by (simp add: get_db_def get_session_factory_def get_engine_def db_module_init_def ref_sqlalchemy_def demo_db_settings_def Let_def bind_sum_def)
  have 2: "get_db ref_sqlalchemy (demo_db_settings ''pg://b'') (?M, ?w) = Inr ((1, ''pg://a''), ?M, ?w)"
    by (simp add: get_db_def get_session_factory_def ref_sqlalchemy_def)
  have u: "uses_db ref_sqlalchemy ([], 3) (?M, ?w)" by (rule uses_db.enter[OF uses_db.enter[OF uses_db.start 1] 2])
  have "\<exists>c' w'. lifespan_shutdown ref_scheduler ref_redis_driver ref_sqlalchemy ([], True, False) (?M, ?w) = Inr (c', db_module_init, w')
      \<and> set (fst w') = {} \<and> snd w' = 0"
    using engine_lifecycle[OF ref_process.process_library_axioms _ u, of "([], True, False)"] by auto
  with 1 2 show ?thesis by auto
qed

end
