(* ===== verification/Dependencies.thy ===== *)
theory Dependencies
  imports RL_Prelude
begin

text \<open>
  \<^verbatim>\<open>core/dependencies.py\<close> and the \<^verbatim>\<open>Depends\<close> of the routers: the providers, what each is built from, and
  what an endpoint asks for.  How FastAPI resolves that is not part of this repository: the resolver is
  a parameter, and the locale \<open>dependency_library\<close> states what its documentation promises.  A session is
  an \<open>'q\<close>; the objects of \<^verbatim>\<open>app.state\<close> are named by their attribute.
\<close>

subsection \<open>The library\<close>

text \<open>
  What is needed for a list of providers, an order in which every provider comes after its own
  dependencies and once only, and the calls in such an order: each on the values that its
  dependencies have returned.  A call may act on a state \<open>'s\<close>, or fail.
\<close>

definition needed :: "('p \<Rightarrow> 'p list) \<Rightarrow> 'p list \<Rightarrow> 'p set" where
  "needed depends asked = {(p, q). q \<in> set (depends p)}\<^sup>* `` set asked"






subsection \<open>The providers\<close>



subsection \<open>What is provided\<close>

















subsection \<open>A reference resolver\<close>






lemma needed_Nil [simp]: "needed depends [] = {}"
  by (simp add: needed_def)











subsection \<open>What a resolution yields\<close>





subsection \<open>The routes\<close>







subsection \<open>Properties\<close>



end
