(* ===== verification/Admin_Effects.thy ===== *)
theory Admin_Effects
  imports Admin_Http
begin

text \<open>
  What an answer of the admin plane promises.  Per operation: the status of a success, the rows it then
  has written, what the body shows of them, and which tables it leaves alone.  This is the
  specification of the write endpoints of \<^verbatim>\<open>api/v1/endpoints/rules.py\<close>, \<^verbatim>\<open>groups.py\<close> and \<^verbatim>\<open>clients.py\<close>,
  stated on the tables and independent of the handlers.
\<close>

subsection \<open>The promise of a success\<close>












subsection \<open>What the operations write\<close>





lemma rule_same_updated: "r\<lparr>r_updated_at := r_updated_at r\<rparr> = r" and group_same_updated: "g\<lparr>g_updated_at := g_updated_at g\<rparr> = g"
  by simp_all























subsection \<open>What the client operations write\<close>








subsection \<open>What a request that is refused leaves behind\<close>



subsection \<open>Properties\<close>




end
