(* ===== verification/Limiter_Health.thy ===== *)
theory Limiter_Health
  imports Limiter_Factory
begin

text \<open>
  When a limiter answers: the scripts of \<^verbatim>\<open>services/rate_limiter/scripts/\<close> behind the \<^verbatim>\<open>check\<close> of
  \<^verbatim>\<open>interfaces/base.py\<close>, for every algorithm at once.  A configuration is servable when its numbers fit
  the server's arithmetic, and a key is in a good state when it holds nothing, or what the limiter
  itself has written at an earlier time.  Then a check cannot fail, its answer is well-formed, and it
  leaves the key in a good state again, at every later time too.
\<close>

fun config_servable :: "algorithm_config \<Rightarrow> bool" where
  "config_servable (TokenBucketParams c r) = bucket_params c r"
| "config_servable (FixedWindowParams w m) = fw_params w m"
| "config_servable (SlidingWindowLogParams w m) = sl_params w m"
| "config_servable (SlidingWindowCounterParams w m) = sc_params w m"
| "config_servable (LeakyBucketParams c r) = bucket_params c r"

fun config_limit :: "algorithm_config \<Rightarrow> int" where
  "config_limit (TokenBucketParams c r) = c"
| "config_limit (FixedWindowParams w m) = m"
| "config_limit (SlidingWindowLogParams w m) = m"
| "config_limit (SlidingWindowCounterParams w m) = m"
| "config_limit (LeakyBucketParams c r) = c"

fun key_state_ok :: "algorithm_config \<Rightarrow> string \<Rightarrow> keyspace \<Rightarrow> bool" where
  "key_state_ok (TokenBucketParams c r) k K \<longleftrightarrow> (\<exists>st. tb_holds k K st \<and> tb_nonneg st \<and> pred_option (tb_inv c r (ks_now K)) st)"
| "key_state_ok (FixedWindowParams w m) k K \<longleftrightarrow> (\<exists>st. fw_holds k K st \<and> fw_nonneg st \<and> pred_option (fw_inv w m (ks_now K)) st)"
| "key_state_ok (SlidingWindowLogParams w m) k K \<longleftrightarrow>
     (\<exists>st. sl_holds k K st \<and> sl_nonneg st \<and> pred_option (sl_inv w m (ks_now K)) st)"
| "key_state_ok (SlidingWindowCounterParams w m) k K \<longleftrightarrow>
     (\<exists>st. sc_holds k K st \<and> sc_nonneg st \<and> pred_option (sc_inv w m (ks_now K)) st)"
| "key_state_ok (LeakyBucketParams c r) k K \<longleftrightarrow> (\<exists>st. lk_holds k K st \<and> lk_nonneg st \<and> pred_option (lk_inv c r (ks_now K)) st)"

text \<open>The sliding log names each request by an identifier of its own, a \<^verbatim>\<open>uuid4\<close>.\<close>

fun request_fresh :: "algorithm_config \<Rightarrow> string \<Rightarrow> keyspace \<Rightarrow> string \<Rightarrow> bool" where
  "request_fresh (SlidingWindowLogParams w m) k K rid = fresh_id k K rid"
| "request_fresh _ k K rid = True"

lemma absent_key_ok: "ks_live k K = None \<Longrightarrow> key_state_ok cfg k K \<and> request_fresh cfg k K rid"
  by (cases cfg) (auto simp: tb_holds_def fw_holds_def sl_holds_def sc_holds_def lk_holds_def fresh_id_def
      tb_nonneg_def fw_nonneg_def sl_nonneg_def sc_nonneg_def lk_nonneg_def intro!: exI[of _ None])

subsection \<open>The state after a step\<close>

lemma fw_step_nonneg: "fw_nonneg st \<Longrightarrow> 0 \<le> now \<Longrightarrow> fw_nonneg (snd (fw_step w m now st))"
  by (cases st) (auto simp: fw_nonneg_def fw_step_def fw_roll_def Let_def)

lemma sl_step_nonneg: "sl_nonneg st \<Longrightarrow> 0 \<le> now \<Longrightarrow> sl_nonneg (snd (sl_step w m now st))"
  by (cases st) (auto simp: sl_nonneg_def sl_step_def sl_window_def Let_def)

lemma sc_step_nonneg: "0 < w \<Longrightarrow> 0 \<le> now \<Longrightarrow> sc_nonneg (snd (sc_step w m now st))"
  by (cases st) (auto simp: sc_nonneg_def sc_step_def sc_roll_def Let_def aligned_def pos_imp_zdiv_nonneg_iff)

lemma tb_step_nonneg: "0 \<le> now \<Longrightarrow> tb_nonneg (snd (tb_step c r now st))"
  by (simp add: tb_nonneg_def tb_step_def Let_def)

lemma lk_step_nonneg: "0 \<le> now \<Longrightarrow> lk_nonneg (snd (lk_step c r now st))"
  by (simp add: lk_nonneg_def lk_step_def Let_def)

lemma same_elsewhere_now: "same_elsewhere k K K' \<Longrightarrow> ks_now K' = ks_now K"
  by (simp add: same_elsewhere_def ks_now_def)

lemma sane_time_now: "sane_time (ks_clock K) \<Longrightarrow> 0 \<le> ks_now K"
  by (auto simp: sane_time_def ks_now_def mstime_def intro!: add_nonneg_nonneg pos_imp_zdiv_nonneg_iff[THEN iffD2])

lemma run_script_answers:
  "script s = (Inr rep, s') \<Longrightarrow> reply_to_result (run_script LinkUp script s) = (Inr (result_of_reply rep), s')"
  by (simp add: run_script_def reply_to_result_def)

text \<open>Time alone spoils nothing: the key expires or keeps what it holds.\<close>

lemma ks_live_later:
  "ks_data K' k = ks_data K k \<Longrightarrow> ks_now K \<le> ks_now K' \<Longrightarrow> ks_live k K' = None \<or> ks_live k K' = ks_live k K"
  by (auto simp: ks_live_def visible_def split: option.splits prod.splits)

lemma key_state_ok_later:
  assumes "key_state_ok cfg k K" "ks_data K' k = ks_data K k" "ks_now K \<le> ks_now K'"
  shows "key_state_ok cfg k K'"
proof (cases "ks_live k K' = None")
  case True
  then show ?thesis using absent_key_ok by blast
next
  case False
  then have live: "ks_live k K' = ks_live k K" using ks_live_later[OF assms(2,3)] by auto
  show ?thesis
  proof (cases cfg)
    case (TokenBucketParams c r)
    then show ?thesis using assms(1) live tb.inv_option_later[OF _ assms(3), of "(c, r)"] by (auto simp: tb_holds_def)
  next
    case (FixedWindowParams w m)
    then show ?thesis using assms(1) live fw.inv_option_later[OF _ assms(3), of "(w, m)"] by (auto simp: fw_holds_def)
  next
    case (SlidingWindowLogParams w m)
    then obtain st where st: "sl_holds k K st" "sl_nonneg st" "pred_option (sl_inv w m (ks_now K)) st" using assms(1) by auto
    have "sl_holds k K' st" using st(1) live by (cases st) (simp_all add: sl_holds_def)
    then show ?thesis using SlidingWindowLogParams st sl.inv_option_later[OF _ assms(3), of "(w, m)"] by auto
  next
    case (SlidingWindowCounterParams w m)
    then show ?thesis using assms(1) live sc.inv_option_later[OF _ assms(3), of "(w, m)"] by (auto simp: sc_holds_def)
  next
    case (LeakyBucketParams c r)
    then show ?thesis using assms(1) live lk.inv_option_later[OF _ assms(3), of "(c, r)"] by (auto simp: lk_holds_def)
  qed
qed

text \<open>What a check promises: an answer with the configured limit, and the key in a good state.\<close>

definition check_answered :: "algorithm_config \<Rightarrow> string \<Rightarrow> keyspace \<Rightarrow> (check_error + rate_limit_result) \<times> keyspace \<Rightarrow> bool" where
  "check_answered cfg k K x \<longleftrightarrow> (\<exists>r. fst x = Inr r \<and> result_ok (config_limit cfg) (ks_now K) r) \<and> key_state_ok cfg k (snd x)
     \<and> same_elsewhere k K (snd x)"

lemma check_answeredI:
  assumes "script s = (Inr rep, s')" "reply_ok (config_limit cfg) (ks_now (ks s)) rep" "0 < config_limit cfg"
    "key_state_ok cfg k (ks s')" "same_elsewhere k (ks s) (ks s')"
  shows "check_answered cfg k (ks s) (map_prod id ks (reply_to_result (run_script LinkUp script s)))"
  using assms result_of_reply_ok[OF assms(2,3)] by (simp add: check_answered_def run_script_answers[of script])

context redis_server
begin

lemma fixed_window_answers:
  assumes "config_servable (FixedWindowParams w m)" "sane_time (ks_clock (ks s))" "key_state_ok (FixedWindowParams w m) k (ks s)"
  shows "check_answered (FixedWindowParams w m) k (ks s) (map_prod id ks (reply_to_result (run_script LinkUp (fixed_window_lua R k w m) s)))"
proof -
  let ?now = "ks_now (ks s)"
  obtain st where st: "fw_holds k (ks s) st" "fw_nonneg st" "pred_option (fw_inv w m ?now) st" using assms(3) by auto
  have v: "fw_valid (w, m)" using assms(1) by (simp add: fw_valid_def fw_params_def)
  obtain s' where s': "fixed_window_lua R k w m s = (Inr (fst (fw_step w m ?now st)), s')"
      "fw_holds k (ks s') (snd (fw_step w m ?now st))" "same_elsewhere k (ks s) (ks s')"
    using fixed_window_refines[OF _ assms(2) st] assms(1) by auto
  show ?thesis
  proof (rule check_answeredI[where script = "fixed_window_lua R k w m" and ks = ks and s = s, OF s'(1)])
    show "reply_ok (config_limit (FixedWindowParams w m)) ?now (fst (fw_step w m ?now st))"
      using fw.step_reply[OF v] st(3) by simp
    show "key_state_ok (FixedWindowParams w m) k (ks s')"
      using s'(2) fw_step_nonneg[OF st(2) sane_time_now[OF assms(2)]] fw.inv_step[OF v, of ?now st] st(3)
      by (auto simp: same_elsewhere_now[OF s'(3)])
  qed (use v s'(3) in \<open>simp_all add: fw_valid_def\<close>)
qed

lemma sliding_window_log_answers:
  assumes "config_servable (SlidingWindowLogParams w m)" "sane_time (ks_clock (ks s))"
    "key_state_ok (SlidingWindowLogParams w m) k (ks s)" "fresh_id k (ks s) rid"
  shows "check_answered (SlidingWindowLogParams w m) k (ks s)
    (map_prod id ks (reply_to_result (run_script LinkUp (sliding_window_log_lua R k w m rid) s)))"
proof -
  let ?now = "ks_now (ks s)"
  obtain st where st: "sl_holds k (ks s) st" "sl_nonneg st" "pred_option (sl_inv w m ?now) st" using assms(3) by auto
  have v: "sl_valid (w, m)" using assms(1) by (simp add: sl_valid_def sl_params_def)
  obtain s' where s': "sliding_window_log_lua R k w m rid s = (Inr (fst (sl_step w m ?now st)), s')"
      "sl_holds k (ks s') (snd (sl_step w m ?now st))" "same_elsewhere k (ks s) (ks s')"
    using sliding_window_log_refines[OF _ assms(2) st(1,2) assms(4) st(3)] assms(1) by auto
  show ?thesis
  proof (rule check_answeredI[where script = "sliding_window_log_lua R k w m rid" and ks = ks and s = s, OF s'(1)])
    show "reply_ok (config_limit (SlidingWindowLogParams w m)) ?now (fst (sl_step w m ?now st))"
      using sl.step_reply[OF v] st(3) by simp
    show "key_state_ok (SlidingWindowLogParams w m) k (ks s')"
      using s'(2) sl_step_nonneg[OF st(2) sane_time_now[OF assms(2)]] sl.inv_step[OF v, of ?now st] st(3)
      by (auto simp: same_elsewhere_now[OF s'(3)])
  qed (use v s'(3) in \<open>simp_all add: sl_valid_def\<close>)
qed

lemma sliding_window_counter_answers:
  assumes "config_servable (SlidingWindowCounterParams w m)" "sane_time (ks_clock (ks s))"
    "key_state_ok (SlidingWindowCounterParams w m) k (ks s)"
  shows "check_answered (SlidingWindowCounterParams w m) k (ks s)
    (map_prod id ks (reply_to_result (run_script LinkUp (sliding_window_counter_lua R k w m) s)))"
proof -
  let ?now = "ks_now (ks s)"
  obtain st where st: "sc_holds k (ks s) st" "sc_nonneg st" "pred_option (sc_inv w m ?now) st" using assms(3) by auto
  have v: "sc_valid (w, m)" "0 < w" using assms(1) by (simp_all add: sc_valid_def sc_params_def)
  obtain s' where s': "sliding_window_counter_lua R k w m s = (Inr (fst (sc_step w m ?now st)), s')"
      "sc_holds k (ks s') (snd (sc_step w m ?now st))" "same_elsewhere k (ks s) (ks s')"
    using sliding_window_counter_refines[OF _ assms(2) st] assms(1) by auto
  show ?thesis
  proof (rule check_answeredI[where script = "sliding_window_counter_lua R k w m" and ks = ks and s = s, OF s'(1)])
    show "reply_ok (config_limit (SlidingWindowCounterParams w m)) ?now (fst (sc_step w m ?now st))"
      using sc.step_reply[OF v(1)] st(3) by simp
    show "key_state_ok (SlidingWindowCounterParams w m) k (ks s')"
      using s'(2) sc_step_nonneg[OF v(2) sane_time_now[OF assms(2)]] sc.inv_step[OF v(1), of ?now st] st(3)
      by (auto simp: same_elsewhere_now[OF s'(3)])
  qed (use v s'(3) in \<open>simp_all add: sc_valid_def\<close>)
qed

lemma token_bucket_answers:
  assumes "config_servable (TokenBucketParams c r)" "sane_time (ks_clock (ks s))" "key_state_ok (TokenBucketParams c r) k (ks s)"
  shows "check_answered (TokenBucketParams c r) k (ks s) (map_prod id ks (reply_to_result (run_script LinkUp (token_bucket_lua R k c r) s)))"
proof -
  let ?now = "ks_now (ks s)"
  obtain st where st: "tb_holds k (ks s) st" "tb_nonneg st" "pred_option (tb_inv c r ?now) st" using assms(3) by auto
  have v: "bucket_valid (c, r)" using assms(1) by (simp add: bucket_valid_def bucket_params_def)
  obtain s' where s': "token_bucket_lua R k c r s = (Inr (fst (tb_step c r ?now st)), s')"
      "tb_holds k (ks s') (snd (tb_step c r ?now st))" "same_elsewhere k (ks s) (ks s')"
    using token_bucket_refines[OF _ assms(2) st] assms(1) by auto
  show ?thesis
  proof (rule check_answeredI[where script = "token_bucket_lua R k c r" and ks = ks and s = s, OF s'(1)])
    show "reply_ok (config_limit (TokenBucketParams c r)) ?now (fst (tb_step c r ?now st))"
      using tb.step_reply[OF v] st(3) by simp
    show "key_state_ok (TokenBucketParams c r) k (ks s')"
      using s'(2) tb_step_nonneg[OF sane_time_now[OF assms(2)]] tb.inv_step[OF v, of ?now st] st(3)
      by (auto simp: same_elsewhere_now[OF s'(3)])
  qed (use v s'(3) in \<open>simp_all add: bucket_valid_def\<close>)
qed

lemma leaky_bucket_answers:
  assumes "config_servable (LeakyBucketParams c r)" "sane_time (ks_clock (ks s))" "key_state_ok (LeakyBucketParams c r) k (ks s)"
  shows "check_answered (LeakyBucketParams c r) k (ks s) (map_prod id ks (reply_to_result (run_script LinkUp (leaky_bucket_lua R k c r) s)))"
proof -
  let ?now = "ks_now (ks s)"
  obtain st where st: "lk_holds k (ks s) st" "lk_nonneg st" "pred_option (lk_inv c r ?now) st" using assms(3) by auto
  have v: "bucket_valid (c, r)" using assms(1) by (simp add: bucket_valid_def bucket_params_def)
  obtain s' where s': "leaky_bucket_lua R k c r s = (Inr (fst (lk_step c r ?now st)), s')"
      "lk_holds k (ks s') (snd (lk_step c r ?now st))" "same_elsewhere k (ks s) (ks s')"
    using leaky_bucket_refines[OF _ assms(2) st] assms(1) by auto
  show ?thesis
  proof (rule check_answeredI[where script = "leaky_bucket_lua R k c r" and ks = ks and s = s, OF s'(1)])
    show "reply_ok (config_limit (LeakyBucketParams c r)) ?now (fst (lk_step c r ?now st))"
      using lk.step_reply[OF v] st(3) by simp
    show "key_state_ok (LeakyBucketParams c r) k (ks s')"
      using s'(2) lk_step_nonneg[OF sane_time_now[OF assms(2)]] lk.inv_step[OF v, of ?now st] st(3)
      by (auto simp: same_elsewhere_now[OF s'(3)])
  qed (use v s'(3) in \<open>simp_all add: bucket_valid_def\<close>)
qed

text \<open>Every limiter answers.\<close>

lemma limiter_answers:
  assumes "config_servable (lm_config lm)" "sane_time (ks_clock (ks s))"
    "k = limiter_key (lm_config lm) (lm_scope lm) (identifier_key ident)"
    "key_state_ok (lm_config lm) k (ks s)" "request_fresh (lm_config lm) k (ks s) rid"
  shows "check_answered (lm_config lm) k (ks s) (map_prod id ks (limiter_check R LinkUp rid lm ident s))"
proof (cases "lm_config lm")
  case (TokenBucketParams c r)
  then show ?thesis using token_bucket_answers[of c r s k] assms
    by (simp add: limiter_check_def token_bucket_check_def token_bucket_key_def limiter_key_def)
next
  case (FixedWindowParams w m)
  then show ?thesis using fixed_window_answers[of w m s k] assms
    by (simp add: limiter_check_def fixed_window_check_def fixed_window_key_def limiter_key_def)
next
  case (SlidingWindowLogParams w m)
  then show ?thesis using sliding_window_log_answers[of w m s k rid] assms
    by (simp add: limiter_check_def sliding_window_log_check_def sliding_window_log_key_def limiter_key_def)
next
  case (SlidingWindowCounterParams w m)
  then show ?thesis using sliding_window_counter_answers[of w m s k] assms
    by (simp add: limiter_check_def sliding_window_counter_check_def sliding_window_counter_key_def limiter_key_def)
next
  case (LeakyBucketParams c r)
  then show ?thesis using leaky_bucket_answers[of c r s k] assms
    by (simp add: limiter_check_def leaky_bucket_check_def leaky_bucket_key_def limiter_key_def)
qed

end

end
