(* ===== verification/Check_Answers.thy ===== *)
theory Check_Answers
  imports Application Limiter_Health
begin

text \<open>
  What a caller of \<^verbatim>\<open>POST /check\<close> gets, from the endpoint of \<^verbatim>\<open>api/v1/endpoints/rate_limit.py\<close> down to the script
  on the server: which limiter a request meets, and what its answer, a lost connection or an error of
  Redis become in the reply.
\<close>

subsection \<open>The limiter a request meets\<close>

definition limiter_of_request :: "('s, 't) world \<Rightarrow> 's system \<Rightarrow> string \<Rightarrow> check_request \<Rightarrow> (identifier_type \<times> ustring) list \<Rightarrow>
    service_error + limiter \<times> (identifier_type \<times> ustring) list" where
  "limiter_of_request w Y pk q validated = (let A = sys_app Y;
       res = resolve_rule (st_rules_cache A) (st_service A) pk (rq_endpoint q) (fst ` set validated) in
     select_limiter ((w_env w)\<lparr>e_scripts := st_scripts A\<rparr>) (snd res) pk (fst res) validated)"

text \<open>It comes from the configured default, in a scope of the client's own, or from a stored rule.\<close>

definition governs :: "db_env \<Rightarrow> db \<Rightarrow> algorithm_config \<Rightarrow> string \<Rightarrow> check_request \<Rightarrow> limiter \<Rightarrow> bool" where
  "governs E D fallback pk q lm \<longleftrightarrow> lm = \<lparr>lm_config = fallback, lm_scope = default_scope pk\<rparr>
     \<or> (\<exists>r a. r \<in> set (t_rules D) \<and> is_active r \<and> r_client_id r = pk \<and> r_endpoint r = rq_endpoint q
          \<and> get_algorithm_by_id D (r_algorithm_id r) = Some a
          \<and> build_algorithm_config (d_coercions E) (a_name a) (r_params r) = Inr (lm_config lm) \<and> lm_scope lm = ''rule:'' @ r_id r)"

definition key_of_request :: "('s, 't) world \<Rightarrow> limiter \<Rightarrow> (identifier_type \<times> ustring) list \<Rightarrow> string" where
  "key_of_request w lm ps =
     limiter_key (lm_config lm) (lm_scope lm) (identifier_key (build_client_identifier (e_hmac (w_env w)) ps))"

definition check_on_server :: "('s, 't) world \<Rightarrow> 's system \<Rightarrow> limiter \<Rightarrow> (identifier_type \<times> ustring) list \<Rightarrow>
    (check_error + rate_limit_result) \<times> 's" where
  "check_on_server w Y lm ps = limiter_check (e_redis (w_env w)) (e_link (w_env w)) (e_request_id (w_env w)) lm
     (build_client_identifier (e_hmac (w_env w)) ps) (sys_redis Y)"

text \<open>
  A server in good order for one check: reachable, its clock within the range of the scripts, the
  configuration servable, and the key absent or as the limiter left it.
\<close>

definition serves_key :: "('s \<Rightarrow> keyspace) \<Rightarrow> ('s, 't) world \<Rightarrow> limiter \<Rightarrow> string \<Rightarrow> 's \<Rightarrow> bool" where
  "serves_key ks w lm k s \<longleftrightarrow> redis_server (e_redis (w_env w)) ks \<and> e_link (w_env w) = LinkUp \<and> sane_time (ks_clock (ks s))
     \<and> config_servable (lm_config lm) \<and> key_state_ok (lm_config lm) k (ks s)
     \<and> request_fresh (lm_config lm) k (ks s) (e_request_id (w_env w))"

subsection \<open>No stored rule is without its limiter\<close>

lemma limiter_check_link:
  "fst (limiter_check R l rid lm ident s) = Inr x \<Longrightarrow> l = LinkUp"
  "fst (limiter_check R l rid lm ident s) = Inl (LinkFailure f) \<Longrightarrow> l \<noteq> LinkUp"
  "fst (limiter_check R l rid lm ident s) = Inl (ResponseError e) \<Longrightarrow> l = LinkUp"
  by (auto simp: limiter_check_def token_bucket_check_def fixed_window_check_def sliding_window_log_check_def
      sliding_window_counter_check_def leaky_bucket_check_def reply_to_result_def run_script_def
      map_sum_Inr split: algorithm_config.splits link.splits prod.splits sum.splits)

lemma limiter_of_request_total:
  assumes "system_ok E Dr Dc Y" "world_ok J E w" "\<forall>cfg. script_name cfg \<in> set (st_scripts (sys_app Y))"
  obtains lm ps where "limiter_of_request w Y pk q validated = Inr (lm, ps)"
    "governs E Dr (sv_default (st_service (sys_app Y))) pk q lm"
proof -
  let ?env = "(w_env w)\<lparr>e_scripts := st_scripts (sys_app Y)\<rparr>"
  obtain now C where R: "st_rules_cache (sys_app Y) = load_all now (map (cached_of Dr) (t_rules Dr)) C"
    using assms(1) by (auto simp: system_ok_def)
  have D: "store_ok E Dr" using assms(1) by (simp add: system_ok_def)
  have env: "e_coercions ?env = d_coercions E" "\<And>cfg. script_name cfg \<in> set (e_scripts ?env)"
    using assms(2,3) by (simp_all add: world_ok_def)
  let ?res = "resolve_rule (st_rules_cache (sys_app Y)) (st_service (sys_app Y)) pk (rq_endpoint q) (fst ` set validated)"
  show ?thesis
  proof (cases "fst ?res")
    case None
    let ?lm = "\<lparr>lm_config = sv_default (st_service (sys_app Y)), lm_scope = default_scope pk\<rparr>"
    have "limiter_of_request w Y pk q validated = Inr (?lm, validated)"
      using None env(2) by (simp add: limiter_of_request_def Let_def select_limiter_def build_default_limiter_def
          create_limiter_def get_script_def resolve_rule_frame)
    then show ?thesis by (rule that) (simp add: governs_def)
  next
    case (Some c)
    obtain r where r: "r \<in> set (t_rules Dr)" "c = cached_of Dr r" "is_active r" "r_client_id r = pk" "r_endpoint r = rq_endpoint q"
      using resolve_rule_eligible[OF Some[unfolded R]] stored_rule_cached(1,3,4)[OF D] by (auto simp: eligible_def)
    obtain a where a: "get_algorithm_by_id Dr (r_algorithm_id r) = Some a" using stored_algorithm[OF D r(1)] by blast
    obtain cfg where cfg: "build_algorithm_config (d_coercions E) (cr_algorithm_name (cached_of Dr r)) (r_params r) = Inr cfg"
        "build_limiter_for_rule ?env c = Inr (Some \<lparr>lm_config = cfg, lm_scope = ''rule:'' @ r_id r\<rparr>)"
      using stored_rule_builds[OF D r(1) env(1) env(2)] env(1) r(2) by auto
    have "\<exists>ps. limiter_of_request w Y pk q validated = Inr (\<lparr>lm_config = cfg, lm_scope = ''rule:'' @ r_id r\<rparr>, ps)"
      by (simp add: limiter_of_request_def Let_def select_limiter_def Some cfg(2))
    moreover have "governs E Dr (sv_default (st_service (sys_app Y))) pk q \<lparr>lm_config = cfg, lm_scope = ''rule:'' @ r_id r\<rparr>"
      unfolding governs_def using r a cfg(1) by (auto simp: cached_of_simps[OF a])
    ultimately show ?thesis using that by blast
  qed
qed

subsection \<open>From the script to the reply\<close>

lemma serve_check_invalid:
  assumes "scope_check w Y ''check'' credentials = Inr ac"
  shows "\<not> request_ok rq \<Longrightarrow> serve w (CheckRequest credentials (Shaped rq)) Y =
      (error_reply w (RequestValidationErrorExc (w_errors w rq)), Y)"
    "request_ok rq \<Longrightarrow> validate_pairs (e_lower (w_env w)) 0 (as_pairs rq) = Inl e \<Longrightarrow>
      serve w (CheckRequest credentials (Shaped rq)) Y = (error_reply w (InvalidIdentifierValueError e), Y)"
  using assms by (simp_all add: serve_check_def Let_def check_endpoint_def scope_check_def check_rate_limit_def reply_or_error_def)

text \<open>Once a limiter is found, the reply is the script's answer, the degraded result or a 500.\<close>

definition reply_of_check :: "('s, 't) world \<Rightarrow> check_error + rate_limit_result \<Rightarrow> 't reply" where
  "reply_of_check w x = (case x of Inr r \<Rightarrow> CheckReply r | Inl (LinkFailure _) \<Rightarrow> CheckReply degraded_result
     | Inl (ResponseError _) \<Rightarrow> error_reply w (UnhandledError ''ResponseError''))"

lemma serve_check_valid:
  assumes "scope_check w Y ''check'' credentials = Inr ac" "request_ok rq"
    and "validate_pairs (e_lower (w_env w)) 0 (as_pairs rq) = Inr validated"
    and "limiter_of_request w Y (ac_pk ac) rq validated = Inr (lm, ps)"
  shows "fst (serve w (CheckRequest credentials (Shaped rq)) Y) = reply_of_check w (fst (check_on_server w Y lm ps))"
    "sys_redis (snd (serve w (CheckRequest credentials (Shaped rq)) Y)) = snd (check_on_server w Y lm ps)"
proof -
  let ?env = "(w_env w)\<lparr>e_scripts := st_scripts (sys_app Y)\<rparr>"
  let ?check = "check_rate_limit ?env (st_rules_cache (sys_app Y)) (st_service (sys_app Y)) (ac_pk ac) rq (sys_redis Y)"
  obtain x s' where x: "check_on_server w Y lm ps = (x, s')" by (cases "check_on_server w Y lm ps")
  have "\<exists>S'. ?check = (case x of Inr r \<Rightarrow> Inr r | Inl (LinkFailure _) \<Rightarrow> Inr degraded_result
      | Inl (ResponseError e) \<Rightarrow> Inl (RedisResponseError e), S', s')"
    using assms(3,4) x unfolding limiter_of_request_def check_on_server_def
    by (simp add: check_rate_limit_def case_prod_beta Let_def split: sum.split check_error.split)
  then obtain S' where c: "?check = (case x of Inr r \<Rightarrow> Inr r | Inl (LinkFailure _) \<Rightarrow> Inr degraded_result
      | Inl (ResponseError e) \<Rightarrow> Inl (RedisResponseError e), S', s')" by blast
  have auth: "require_scope (d_py_lower (w_db_env w)) (w_jwt w) (w_tokens w) (w_time w) (st_clients_cache (sys_app Y)) ''check'' credentials = Inr ac"
    using assms(1) by (simp add: scope_check_def)
  have served: "serve_check w credentials (Shaped rq) Y = (case ?check of
        (Inl e, S', s') \<Rightarrow> (Inl (service_exception e), S', s') | (Inr r, S', s') \<Rightarrow> (Inr r, S', s'))"
    using assms(2) by (simp add: serve_check_def Let_def check_endpoint_def auth)
  show "fst (serve w (CheckRequest credentials (Shaped rq)) Y) = reply_of_check w (fst (check_on_server w Y lm ps))"
    by (simp add: served c x reply_of_check_def reply_or_error_def split: sum.split check_error.split)
  show "sys_redis (snd (serve w (CheckRequest credentials (Shaped rq)) Y)) = snd (check_on_server w Y lm ps)"
    by (simp add: served c x split: sum.split check_error.split)
qed

text \<open>A lost connection is the only reason for a degraded result, and only the script's own error for a 500.\<close>

lemma reply_of_check_link:
  "e_link (w_env w) \<noteq> LinkUp \<Longrightarrow> reply_of_check w (fst (check_on_server w Y lm ps)) = CheckReply degraded_result"
  "e_link (w_env w) = LinkUp \<Longrightarrow> fst (check_on_server w Y lm ps) = Inl e \<Longrightarrow> \<exists>x. e = ResponseError x"
  using limiter_check_link[of "e_redis (w_env w)" "e_link (w_env w)" "e_request_id (w_env w)" lm
      "build_client_identifier (e_hmac (w_env w)) ps" "sys_redis Y"]
  unfolding check_on_server_def reply_of_check_def
  by (cases "fst (limiter_check (e_redis (w_env w)) (e_link (w_env w)) (e_request_id (w_env w)) lm
      (build_client_identifier (e_hmac (w_env w)) ps) (sys_redis Y))"; cases e; auto split: check_error.split)+

lemma served_key_answers:
  assumes "serves_key ks w lm (key_of_request w lm ps) (sys_redis Y)"
  shows "check_answered (lm_config lm) (key_of_request w lm ps) (ks (sys_redis Y)) (map_prod id ks (check_on_server w Y lm ps))"
  using assms redis_server.limiter_answers[of "e_redis (w_env w)" ks lm "sys_redis Y" "key_of_request w lm ps"
      "build_client_identifier (e_hmac (w_env w)) ps" "e_request_id (w_env w)"]
  by (simp add: serves_key_def check_on_server_def key_of_request_def)

subsection \<open>Properties\<close>

text \<open>
  C31.  What an authenticated \<^verbatim>\<open>/check\<close> is answered, in every run with the five scripts registered.  A
  request that breaks the model or an identifier format gets 422 and Redis is not asked.  Any other
  meets a limiter, built from the configured default or from an active stored rule of this client and
  endpoint; none of them fails to build.  If Redis is not reachable the answer is the degraded one,
  which allows the request.  If it is, the answer is exactly what the limiter's script returns for
  the key of this request, and a 500 exactly when that script errs.  It does not err on a server
  that behaves as documented, when the configuration is within the range of the scripts and the key
  is absent or as this limiter left it: the reply then is a decision with the limit of that
  configuration, and the key is in such a state again.
\<close>

theorem check_always_answered:
  assumes "runs J E Dr Dc Y" "world_ok J E w" "\<forall>cfg. script_name cfg \<in> set (st_scripts (sys_app Y))"
    and "scope_check w Y ''check'' credentials = Inr ac" "serve w (CheckRequest credentials (Shaped rq)) Y = (reply, Y')"
  shows "if \<not> request_ok rq \<or> (\<exists>e. validate_pairs (e_lower (w_env w)) 0 (as_pairs rq) = Inl e)
    then (\<exists>r. reply = ErrorReply r \<and> er_status r = 422) \<and> sys_redis Y' = sys_redis Y
    else \<exists>validated lm ps. validate_pairs (e_lower (w_env w)) 0 (as_pairs rq) = Inr validated
      \<and> limiter_of_request w Y (ac_pk ac) rq validated = Inr (lm, ps)
      \<and> governs E Dr (sv_default (st_service (sys_app Y))) (ac_pk ac) rq lm
      \<and> sys_redis Y' = snd (check_on_server w Y lm ps)
      \<and> (if e_link (w_env w) \<noteq> LinkUp then reply = CheckReply degraded_result
         else case fst (check_on_server w Y lm ps) of Inr r \<Rightarrow> reply = CheckReply r
           | Inl e \<Rightarrow> \<exists>r. reply = ErrorReply r \<and> er_status r = 500)
      \<and> (serves_key ks w lm (key_of_request w lm ps) (sys_redis Y) \<longrightarrow>
           (\<exists>r. reply = CheckReply r \<and> result_ok (config_limit (lm_config lm)) (ks_now (ks (sys_redis Y))) r)
           \<and> key_state_ok (lm_config lm) (key_of_request w lm ps) (ks (sys_redis Y')))"
proof (cases "\<not> request_ok rq \<or> (\<exists>e. validate_pairs (e_lower (w_env w)) 0 (as_pairs rq) = Inl e)")
  case True
  then show ?thesis using serve_check_invalid[OF assms(4), of rq] assms(5)
    by (cases "request_ok rq") (auto simp: error_reply_def error_response_of_def)
next
  case False
  then obtain validated where v: "request_ok rq" "validate_pairs (e_lower (w_env w)) 0 (as_pairs rq) = Inr validated"
    by (cases "validate_pairs (e_lower (w_env w)) 0 (as_pairs rq)") auto
  obtain lm ps where lm: "limiter_of_request w Y (ac_pk ac) rq validated = Inr (lm, ps)"
      "governs E Dr (sv_default (st_service (sys_app Y))) (ac_pk ac) rq lm"
    by (rule limiter_of_request_total[OF runs_ok[OF assms(1)] assms(2,3)])
  note served = serve_check_valid[OF assms(4) v lm(1), unfolded assms(5) fst_conv snd_conv]
  have reply: "if e_link (w_env w) \<noteq> LinkUp then reply = CheckReply degraded_result
      else case fst (check_on_server w Y lm ps) of Inr r \<Rightarrow> reply = CheckReply r
        | Inl e \<Rightarrow> \<exists>r. reply = ErrorReply r \<and> er_status r = 500"
    using reply_of_check_link[of w Y lm ps] served(1)
    by (auto simp: reply_of_check_def error_reply_def split: sum.split)
  have answered: "(\<exists>r. reply = CheckReply r \<and> result_ok (config_limit (lm_config lm)) (ks_now (ks (sys_redis Y))) r)
      \<and> key_state_ok (lm_config lm) (key_of_request w lm ps) (ks (sys_redis Y'))"
    if "serves_key ks w lm (key_of_request w lm ps) (sys_redis Y)"
    using served_key_answers[OF that] served by (auto simp: check_answered_def reply_of_check_def)
  show ?thesis using False v(2) lm served(2) reply answered by auto
qed

text \<open>The demonstration system, on a server in good order and on one that does not answer in time.\<close>

lemma demo_registered: "\<forall>cfg. script_name cfg \<in> set (st_scripts (sys_app demo_system))"
proof
  fix cfg show "script_name cfg \<in> set (st_scripts (sys_app demo_system))"
    by (cases cfg) (simp_all add: demo_system_def all_scripts_def)
qed

lemma demo_limiter:
  "limiter_of_request demo_world demo_system ''c1'' demo_other [(USER_ID, codes ''u1'')] =
     Inr (\<lparr>lm_config = FixedWindowParams 60000 100, lm_scope = ''client:c1:__default__''\<rparr>, [(USER_ID, codes ''u1'')])"
proof -
  let ?res = "resolve_rule (st_rules_cache (sys_app demo_system)) demo_service ''c1'' ''/other'' {USER_ID}"
  have d: "sv_default (snd ?res) = FixedWindowParams 60000 100"
    unfolding resolve_rule_frame by (simp add: demo_service_def init_service_def)
  have s: "st_service (sys_app demo_system) = demo_service" "st_scripts (sys_app demo_system) = rev all_scripts"
    by (simp_all add: demo_system_def)
  have "select_limiter (demo_env\<lparr>e_scripts := rev all_scripts\<rparr>) (snd ?res) ''c1'' (fst ?res) [(USER_ID, codes ''u1'')] =
      Inr (\<lparr>lm_config = FixedWindowParams 60000 100, lm_scope = ''client:c1:__default__''\<rparr>, [(USER_ID, codes ''u1'')])"
    unfolding demo_unmatched
    by (simp add: select_limiter_def build_default_limiter_def create_limiter_def get_script_def default_scope_def d all_scripts_def)
  then show ?thesis by (simp add: limiter_of_request_def Let_def s demo_other_def) (simp add: demo_world_def)
qed

lemma demo_serves: "serves_key id demo_world \<lparr>lm_config = FixedWindowParams 60000 100, lm_scope = ''client:c1:__default__''\<rparr>
    k (sys_redis demo_system)"
proof -
  have "ks_live k demo_keyspace = None" by (simp add: ks_live_def visible_def demo_keyspace_def)
  then show ?thesis
    using mem.redis_server_axioms absent_key_ok[of k demo_keyspace "FixedWindowParams 60000 100" "e_request_id demo_env"]
    by (simp add: serves_key_def demo_world_def demo_system_def fw_params_def)
      (simp add: demo_env_def sane_time_def demo_keyspace_def)
qed

text \<open>
  The range of the scripts is not enforced: parameters are only required to be positive, so a rule with a
  window beyond what \<^verbatim>\<open>PEXPIRE\<close> accepts is stored, and the script errs at the call.
\<close>

lemma unbounded_window_fails:
  "build_algorithm_config demo_coercions ''FixedWindow'' (window_params 100 10000000000000000)
     = Inr (FixedWindowParams 10000000000000000000 100)"
  "fst (check_on_server demo_world demo_system \<lparr>lm_config = FixedWindowParams 10000000000000000000 100, lm_scope = sc\<rparr> ps)
     = Inl (ResponseError RedisCallError)"
proof -
  show "build_algorithm_config demo_coercions ''FixedWindow'' (window_params 100 10000000000000000)
     = Inr (FixedWindowParams 10000000000000000000 100)" by code_simp
  have "ks_live k demo_keyspace = None" for k by (simp add: ks_live_def visible_def demo_keyspace_def)
  moreover have "dbl (of_int 10000000000000000000) = 10000000000000000000" by code_simp
  ultimately have "fst (fixed_window_lua mem_redis k 10000000000000000000 100 demo_keyspace) = Inl RedisCallError" for k
    by (simp add: fixed_window_lua_def Let_def mem_redis_def ks_hmget_def redis_call_def ks_hset_def)
  then have f: "fixed_window_lua mem_redis k 10000000000000000000 100 demo_keyspace = (Inl RedisCallError,
      snd (fixed_window_lua mem_redis k 10000000000000000000 100 demo_keyspace))" for k
    by (simp add: prod_eq_iff)
  show "fst (check_on_server demo_world demo_system \<lparr>lm_config = FixedWindowParams 10000000000000000000 100, lm_scope = sc\<rparr> ps)
     = Inl (ResponseError RedisCallError)"
    by (simp add: check_on_server_def limiter_check_def fixed_window_check_def run_script_def demo_world_def demo_env_def
        demo_system_def) (subst f, simp add: reply_to_result_def)
qed

theorem check_always_answered_witness:
  "(\<exists>r. fst (serve demo_world (CheckRequest (Some demo_bearer) (Shaped demo_other)) demo_system) = CheckReply r
       \<and> limit r = 100 \<and> \<not> degraded r)
   \<and> fst (serve (demo_world\<lparr>w_env := demo_env\<lparr>e_link := RequestLost RedisTimeoutError\<rparr>\<rparr>)
      (CheckRequest (Some demo_bearer) (Shaped demo_other)) demo_system) = CheckReply degraded_result"
proof
  have v: "\<not> (\<not> request_ok demo_other \<or> (\<exists>e. validate_pairs id 0 (as_pairs demo_other) = Inl e))"
    using demo_validated demo_request_ok by simp
  have l: "e_lower (w_env demo_world) = id" "e_lower demo_env = id" by (simp_all add: demo_world_def demo_env_def)
  obtain reply Y' where s: "serve demo_world (CheckRequest (Some demo_bearer) (Shaped demo_other)) demo_system = (reply, Y')"
    by (cases "serve demo_world (CheckRequest (Some demo_bearer) (Shaped demo_other)) demo_system")
  from check_always_answered[OF demo_runs demo_world_ok demo_registered demo_scope_check s, of id] v demo_validated demo_limiter demo_serves
  have "\<exists>r. reply = CheckReply r \<and> result_ok 100 (ks_now (id (sys_redis demo_system))) r" unfolding l by auto
  then show "\<exists>r. fst (serve demo_world (CheckRequest (Some demo_bearer) (Shaped demo_other)) demo_system) = CheckReply r
       \<and> limit r = 100 \<and> \<not> degraded r"
    unfolding s by (auto simp: result_ok_def)
next
  let ?w = "demo_world\<lparr>w_env := demo_env\<lparr>e_link := RequestLost RedisTimeoutError\<rparr>\<rparr>"
  have w: "world_ok ref_jwt demo_db_env ?w" using demo_world_ok by (simp add: world_ok_def demo_world_def)
  have a: "scope_check ?w demo_system ''check'' (Some demo_bearer) =
      Inr \<lparr>ac_pk = ''c1'', ac_client_id = ''acme'', ac_scopes = {''check''}\<rparr>"
    using demo_scope_check by (simp add: scope_check_def demo_world_def)
  have v: "\<not> (\<not> request_ok demo_other \<or> (\<exists>e. validate_pairs (e_lower (w_env ?w)) 0 (as_pairs demo_other) = Inl e))"
    "e_link (w_env ?w) \<noteq> LinkUp"
    using demo_validated demo_request_ok by (simp_all add: demo_env_def)
  obtain reply Y' where s: "serve ?w (CheckRequest (Some demo_bearer) (Shaped demo_other)) demo_system = (reply, Y')"
    by (cases "serve ?w (CheckRequest (Some demo_bearer) (Shaped demo_other)) demo_system")
  from check_always_answered[OF demo_runs w demo_registered a s, of id] v
  show "fst (serve ?w (CheckRequest (Some demo_bearer) (Shaped demo_other)) demo_system) = CheckReply degraded_result"
    unfolding s by auto
qed

end
