(* ===== verification/Spec2Isabelle.thy ===== *)
theory Spec2Isabelle
  imports Bootstrap Migration_Downgrade Group_Locks Database_Engine Dependencies Admin_Effects Check_Answers
begin

text \<open>
  A verification development for the distributed rate limiter service: a FastAPI application whose
  decisions are taken by five Lua scripts in Redis, whose rules, groups and clients live in Postgres
  and are cached in memory, and whose callers hold short-lived bearer tokens.  Paths below are under
  \<^verbatim>\<open>src/\<close>.

  \<^bold>\<open>A request through the program.\<close>  A gateway obtains a token at \<^verbatim>\<open>/auth/token\<close> with its client secret
  and calls \<^verbatim>\<open>/check\<close> with an endpoint and one to three identifiers of the caller.  The token is verified
  and its client looked up in the clients cache; the identifiers are validated and normalized; the most
  specific active rule of the client is found in the rules cache; its parameters become a limiter, and
  the limiter runs its script on one key, named by the rule and the hash of the identifiers.  Without a
  matching rule the fallback limiter of the client is used, and without Redis the request is admitted.
  Administrators change rules, groups and clients in the database; every replica polls the tables.

  \<^bold>\<open>Theories, in the order of their imports.\<close>

  \<^item> \<open>RL_Prelude\<close>: strings, code points, dicts as association lists, splitting and joining.
  \<^item> \<open>Lua_Numbers\<close>: the double arithmetic of Lua, with rounding to nearest even on the rationals, its
    error bounds (locale \<open>rounding\<close>) and exactness on integers.
  \<^item> \<open>Redis_Api\<close>: the server as a record of commands (\<open>redis_api\<close>) with the documented laws as the locale
    \<open>redis_server\<close>, and \<open>mem_redis\<close>, which satisfies them: keys with a time to live, hashes, sorted sets.
  \<^item> \<open>Limiter_Interface\<close> (\<^verbatim>\<open>interfaces/base.py\<close>, \<^verbatim>\<open>model/rate_limit_result.py\<close>): results, failures of the
    connection, and the contracts of an algorithm on the state of one key, as the locales
    \<open>limiter_algorithm\<close>, \<open>expiring_limiter\<close> and \<open>credit_limiter\<close>.
  \<^item> \<open>Fixed_Window\<close>, \<open>Sliding_Window_Log\<close>, \<open>Sliding_Window_Counter\<close>, \<open>Bucket_Arith\<close>, \<open>Token_Bucket\<close>,
    \<open>Leaky_Bucket\<close> (\<^verbatim>\<open>services/rate_limiter/\<close> with \<^verbatim>\<open>scripts/*.lua\<close>): each script command by command
    (\<open>x_lua\<close>), and the automaton of one key it refines (\<open>x_step\<close>), an interpretation of the contracts.
  \<^item> \<open>Ip_Address\<close>, \<open>Identifier\<close>, \<open>Rule_Identifier_Type\<close>, \<open>Algorithm_Config\<close>, \<open>Config_Loader\<close>:
    \<^verbatim>\<open>model/identifier.py\<close>, \<^verbatim>\<open>identifier_validation.py\<close> (with the address parser of the standard library),
    \<^verbatim>\<open>core/key_hasher.py\<close>, \<^verbatim>\<open>rule_identifier_type.py\<close>, \<^verbatim>\<open>rate_limiter_config.py\<close>, \<^verbatim>\<open>rule_algorithm_mapper.py\<close>,
    \<^verbatim>\<open>group_params.py\<close> and \<^verbatim>\<open>core/config_loader.py\<close>.
  \<^item> \<open>Limiter_Factory\<close>, \<open>Rules_Cache\<close>, \<open>Rate_Limiter_Service\<close>: \<^verbatim>\<open>services/factory.py\<close>, \<^verbatim>\<open>script_loader.py\<close>,
    \<^verbatim>\<open>rules_cache.py\<close> and \<^verbatim>\<open>rate_limiter_service.py\<close>, the path of a check.
  \<^item> \<open>Limiter_Health\<close>: for which configurations and keys the five limiters answer, on any server of the
    locale \<open>redis_server\<close>.
  \<^item> \<open>Exceptions\<close> (\<^verbatim>\<open>core/exceptions.py\<close>): one constructor per exception class, and the response of each.
  \<^item> \<open>Database\<close>, \<open>Rule_Store\<close>: the tables of \<^verbatim>\<open>model/\<close>, the queries of \<^verbatim>\<open>repositories/\<close>, the constraints that a
    commit checks (\<open>integrity\<close>), the triggers, and the services' own invariant (\<open>store_ok\<close>).
  \<^item> \<open>Rule_Service\<close>, \<open>Rule_Group_Service\<close>, \<open>Client_Service\<close>, \<open>Admin_Api\<close>: the services of the same names;
    an operation returns an exception or a value and the committed store, and \<open>admin_step\<close> is any of them.
  \<^item> \<open>Concurrency\<close>, \<open>Locked_Members\<close>, \<open>Group_Locks\<close>: the handlers as the two steps they are, a read and a
    commit, every interleaving of them (\<open>interleaved\<close>) under the row locks of the groups, and the members
    of a group while a request holds its lock (\<open>held\<close>).
  \<^item> \<open>Clients_Cache\<close>, \<open>Rules_Loader\<close>: the caches, their loaders and the start-up of \<^verbatim>\<open>main.py\<close>.
  \<^item> \<open>Basic_Auth\<close>, \<open>Tokens\<close>, \<open>Auth\<close>, \<open>Settings\<close>: \<^verbatim>\<open>endpoints/auth.py\<close>, \<^verbatim>\<open>core/security/\<close>,
    \<^verbatim>\<open>services/auth_service.py\<close> and \<^verbatim>\<open>core/settings.py\<close>; PyJWT is the locale \<open>jwt_library\<close>.
  \<^item> \<open>Admin_Http\<close>: the routers of \<^verbatim>\<open>api/v1/endpoints/\<close> for rules, groups, clients and algorithms.
  \<^item> \<open>Admin_Effects\<close>: what each operation promises (\<open>took_effect\<close>, \<open>only_writes\<close>), written over the rows of the
    tables and not over the code, and that a status of success keeps the promise.
  \<^item> \<open>Application\<close>: all endpoints and both polls as steps of one system, with other replicas at work.
  \<^item> \<open>Check_Answers\<close>: the limiter a request meets, and every answer it can get.
  \<^item> \<open>Scheduler\<close> (\<^verbatim>\<open>core/scheduler.py\<close>): the registration of the two polls with APScheduler (locale
    \<open>scheduler_library\<close>), and the polls in real time, each a query and a later load (\<open>operates\<close>).
  \<^item> \<open>Database_Engine\<close> (\<^verbatim>\<open>core/db.py\<close>, \<^verbatim>\<open>core/logging.py\<close>, \<^verbatim>\<open>core/redis_client.py\<close>, the end of \<^verbatim>\<open>main.py\<close>'s
    lifespan): the engine and its sessions over SQLAlchemy (locale \<open>sqlalchemy_library\<close>), and the shutdown
    (locale \<open>process_library\<close>).
  \<^item> \<open>Dependencies\<close> (\<^verbatim>\<open>core/dependencies.py\<close>): the providers of the endpoints; FastAPI's resolution is the
    locale \<open>dependency_library\<close>.
  \<^item> \<open>Bootstrap\<close> (\<^verbatim>\<open>scripts/create_client.py\<close>): the way from the command line to the admin plane.
  \<^item> \<open>Migrations\<close>, \<open>Fresh_Database\<close>, \<open>Migration_Safety\<close>, \<open>Migration_Downgrade\<close> (\<^verbatim>\<open>alembic/\<close>,
    \<^verbatim>\<open>scripts/audit_rules_identifier_value.py\<close>): the thirteen revisions as steps on rows, constraints and triggers, run in a transaction.
\<close>

text \<open>
  \<^bold>\<open>What the lemmas show.\<close>

  \<^item> Algorithms: every script is a refinement of its automaton and touches one key; rate bounds over whole
    runs, with the expiry of keys between requests; what \<open>retry_after_ms\<close> promises and where it does not
    hold; and the two places where a limit can be exceeded (the closing millisecond of a fixed window,
    refill rates below one per second).
  \<^item> Identifiers and parameters: normal forms, injectivity of what is hashed, that accepted parameters
    build a configuration.
  \<^item> Checks: which rule is chosen, which key is touched, isolation of clients, the answer when Redis fails.
  \<^item> Store: an invariant of every store the admin interface reaches, completeness of the audit log, that an
    active client keeps a secret, and that a status of the HTTP interface tells what was written.
  \<^item> Overlap: what holds in every interleaving of requests (the constraints, the audit log, members that
    mirror their group where it is locked), and what does not: the version check of updates, the last active
    secret, members that are written without the lock (\<open>stale_overrides\<close>, \<open>stale_move\<close>).
  \<^item> Authentication: when a token is granted, what it opens later, rotation of keys, and that the admin
    plane is closed to everyone else.
  \<^item> Composition: a poll serves what the store holds, in any order of rows; in every run only a current
    client's check changes Redis; a check gets 422, a decision, the allowing answer without Redis, or a 500
    exactly when the script errs, which it does not within its range; a new admin client gets in.
  \<^item> Time: how old what a replica serves can be, and when a revocation has taken effect everywhere, in
    terms of the intervals of the polls, the time a poll takes and the polls that failed.
  \<^item> Process: the scheduler can be started again, there is one pool of connections at a time and none at the
    end, and one session per request.
  \<^item> Migrations: an empty database becomes a valid store, which data block a revision on the way up or
    down, and what a change of columns loses when it is taken back.

  \<^bold>\<open>Bounds.\<close>  The scripts compute in doubles, so the refinements are stated where integers are exact: windows,
  limits and capacities up to \<open>2 ^ 51\<close>, a server clock before the year 2106 (32-bit seconds, kept as
  milliseconds), and for the buckets a time to fill below \<open>2 ^ 50\<close> milliseconds.  The error of the doubles
  appears explicitly in the rate bounds.  Integers of Python are \<open>int\<close>, the range of Postgres' \<^verbatim>\<open>INTEGER\<close>
  columns is checked at a commit.  No definition uses fuel: all loops of the program run over lists.

  \<^bold>\<open>Parameters.\<close>  Code outside the repository is an argument of the definitions that use it: the commands of
  Redis and the state of the connection, HMAC-SHA256 and SHA-256, PyJWT, APScheduler, SQLAlchemy's engine, FastAPI's
  resolution of dependencies, pydantic's conversion of JSON
  numbers, \<^verbatim>\<open>str.lower\<close>, \<^verbatim>\<open>str.upper\<close> and Postgres' \<^verbatim>\<open>lower\<close>, CPython's \<^verbatim>\<open>int\<close> and \<^verbatim>\<open>float\<close> of a string,
  \<^verbatim>\<open>json.loads\<close>, PyYAML, clocks, and generated identifiers and secrets.  Texts that the application stores
  are lists of \<open>char\<close>; values that may hold any character are lists of code points.

  \<^bold>\<open>Simplifications.\<close>  Outside \<open>Concurrency\<close> a transaction is one step; there the reads of a handler
  see one state and its commit another, and what creates a group or a client, which flushes or commits in
  the middle, or updates one client stays one step.  A lock is held from the read of the row to the commit, and
  in \<open>Group_Locks\<close> \<^verbatim>\<open>gen_random_uuid()\<close> repeats no identifier of a rule.  A list page is ordered by creation time only as far as
  the query says, so the order of rows with equal times is that of the table.  Requests to the admin
  endpoints are past pydantic's validation of their fields.  Redis keeps the uploaded scripts, or the
  client uploads them again; a missing script is an error of the registry in the application only.

  In \<open>Application\<close> a scheduled poll is one step; \<open>Scheduler\<close> splits it into its query and its load, and
  assumes that a run ends before the next one of its job is due.

  \<^bold>\<open>Not modelled.\<close>  All log output, and the CORS middleware, a call into a library without state of the
  program; the offline mode of \<^verbatim>\<open>alembic/env.py\<close>, which only prints
  SQL; indexes that are not unique, which change no result.
\<close>

end
